(* ===== verification/Prelude.thy ===== *)
theory Prelude
  imports Main "HOL-Library.Word"
begin

text \<open>
  The prelude of the development: octets and machine integers, big-endian integer
  codecs as \<^verbatim>\<open>encoding/binary\<close> has them, slices of a byte string, the result type of a
  fallible Go function, and the generic lemmas that the component theories share.
\<close>

unbundle bit_operations_syntax

section \<open>Octets and machine integers\<close>

type_synonym byte = "8 word"
type_synonym bytes = "byte list"
type_synonym u16 = "16 word"
type_synonym u32 = "32 word"
type_synonym u64 = "64 word"

named_theorems codec_simps \<open>equations that evaluate the wire codecs symbolically\<close>
named_theorems len_simps \<open>lengths of encoded fields\<close>

section \<open>Results\<close>

text \<open>
  A Go function that returns \<open>(T, error)\<close> is a function into \<open>'e + 'a\<close>: \<open>Inl\<close> is a
  non-nil error. \<open>rbind\<close> is the idiom \<^verbatim>\<open>if err != nil { return nil, err }\<close>.
\<close>

fun rbind :: "'e + 'a \<Rightarrow> ('a \<Rightarrow> 'e + 'b) \<Rightarrow> 'e + 'b" where
  "rbind (Inl e) f = Inl e"
| "rbind (Inr x) f = f x"

fun guard :: "bool \<Rightarrow> 'e \<Rightarrow> 'e + unit" where
  "guard True e = Inr ()"
| "guard False e = Inl e"

fun map_err :: "('e \<Rightarrow> 'f) \<Rightarrow> 'e + 'a \<Rightarrow> 'f + 'a" where
  "map_err g (Inl e) = Inl (g e)"
| "map_err g (Inr x) = Inr x"

lemma rbind_Inr_iff [simp]: "rbind r f = Inr y \<longleftrightarrow> (\<exists>x. r = Inr x \<and> f x = Inr y)"
  by (cases r) auto

lemma rbind_Inl_iff: "rbind r f = Inl e \<longleftrightarrow> r = Inl e \<or> (\<exists>x. r = Inr x \<and> f x = Inl e)"
  by (cases r) auto

lemma guard_Inr_iff [simp]: "guard b e = Inr u \<longleftrightarrow> b"
  by (cases b) auto

lemma guard_Inl_iff [simp]: "guard b e = Inl e' \<longleftrightarrow> \<not> b \<and> e' = e"
  by (cases b) auto

lemma map_err_Inr_iff [simp]: "map_err g r = Inr x \<longleftrightarrow> r = Inr x"
  by (cases r) auto

lemma map_err_Inl_iff: "map_err g r = Inl e \<longleftrightarrow> (\<exists>e'. r = Inl e' \<and> e = g e')"
  by (cases r) auto

lemma rbind_cong [fundef_cong]:
  "r = r' \<Longrightarrow> (\<And>x. r' = Inr x \<Longrightarrow> f x = f' x) \<Longrightarrow> rbind r f = rbind r' f'"
  by (cases r') auto

section \<open>Slices\<close>

text \<open>\<open>gslice lo hi b\<close> is Go's \<open>b[lo:hi]\<close> for \<open>lo \<le> hi \<le> len(b)\<close>.\<close>

definition gslice :: "nat \<Rightarrow> nat \<Rightarrow> 'a list \<Rightarrow> 'a list" where
  "gslice lo hi b = take (hi - lo) (drop lo b)"

lemma length_gslice [len_simps, simp]: "length (gslice lo hi b) = min (hi - lo) (length b - lo)"
  by (simp add: gslice_def)

lemma gslice_append_left: "hi \<le> length xs \<Longrightarrow> gslice lo hi (xs @ ys) = gslice lo hi xs"
  by (cases "lo \<le> hi") (auto simp: gslice_def)

lemma gslice_append_right: "length xs \<le> lo \<Longrightarrow> gslice lo hi (xs @ ys) = gslice (lo - length xs) (hi - length xs) ys"
  by (auto simp: gslice_def)

lemma gslice_nth: "i < hi - lo \<Longrightarrow> lo + i < length b \<Longrightarrow> gslice lo hi b ! i = b ! (lo + i)"
  by (simp add: gslice_def)

lemma gslice_join:
  assumes "lo \<le> mid" "mid \<le> hi"
  shows "gslice lo mid b @ gslice mid hi b = gslice lo hi b"
proof -
  have "take (hi - lo) (drop lo b) = take (mid - lo) (drop lo b) @ take (hi - mid) (drop (mid - lo) (drop lo b))"
    by (subst take_add [symmetric]) (use assms in simp)
  then show ?thesis using assms by (simp add: gslice_def)
qed

lemma gslice_join_append:
  "lo \<le> mid \<Longrightarrow> mid \<le> hi \<Longrightarrow> gslice lo mid b @ gslice mid hi b @ r = gslice lo hi b @ r"
  by (simp add: gslice_join [of lo mid hi b, symmetric])

lemmas gslice_joins = gslice_join gslice_join_append

lemma gslice_single: "lo < length b \<Longrightarrow> gslice lo (Suc lo) b = [b ! lo]"
  by (simp add: gslice_def take_Suc_conv_app_nth)

lemma gslice_drop: "lo \<le> length b \<Longrightarrow> gslice 0 lo b @ drop lo b = b"
  by (simp add: gslice_def)

section \<open>Big-endian integers\<close>

text \<open>
  \<open>put_be n w\<close> is the \<open>n\<close>-octet big-endian form of \<open>w\<close> (\<open>byte(v >> 8*(n-1))\<close>, ...,
  \<open>byte(v)\<close>), and \<open>get_be\<close> reads one back (\<open>v = v<<8 | b\<close> for each octet). The
  \<open>PutUint16/32/64\<close>, \<open>AppendUint16/64\<close> and \<open>Uint16/32/64\<close> functions of
  \<^verbatim>\<open>binary.BigEndian\<close> are the instances at width 2, 4 and 8.
\<close>

primrec put_be :: "nat \<Rightarrow> 'a::len word \<Rightarrow> bytes" where
  "put_be 0 w = []"
| "put_be (Suc n) w = ucast (drop_bit (8 * n) w) # put_be n w"

definition get_be :: "bytes \<Rightarrow> 'a::len word" where
  "get_be bs = foldl (\<lambda>v b. push_bit 8 v OR ucast b) 0 bs"

definition put_u16 :: "u16 \<Rightarrow> bytes" where "put_u16 w = put_be 2 w"
definition put_u32 :: "u32 \<Rightarrow> bytes" where "put_u32 w = put_be 4 w"
definition put_u64 :: "u64 \<Rightarrow> bytes" where "put_u64 w = put_be 8 w"
definition get_u16 :: "bytes \<Rightarrow> u16" where "get_u16 bs = get_be bs"
definition get_u32 :: "bytes \<Rightarrow> u32" where "get_u32 bs = get_be bs"
definition get_u64 :: "bytes \<Rightarrow> u64" where "get_u64 bs = get_be bs"

lemma length_put_be [len_simps, simp]: "length (put_be n w) = n"
  by (induction n) auto

lemma length_put_uN [len_simps, simp]:
  "length (put_u16 a) = 2" "length (put_u32 b) = 4" "length (put_u64 c) = 8"
  by (simp_all add: put_u16_def put_u32_def put_u64_def)

lemma put_uN_eval:
  "put_u16 a = [ucast (drop_bit 8 a), ucast a]"
  "put_u32 b = [ucast (drop_bit 24 b), ucast (drop_bit 16 b), ucast (drop_bit 8 b), ucast b]"
  "put_u64 c = [ucast (drop_bit 56 c), ucast (drop_bit 48 c), ucast (drop_bit 40 c), ucast (drop_bit 32 c),
     ucast (drop_bit 24 c), ucast (drop_bit 16 c), ucast (drop_bit 8 c), ucast c]"
  by (simp_all add: put_u16_def put_u32_def put_u64_def eval_nat_numeral)

lemma get_be_snoc: "get_be (bs @ [b]) = push_bit 8 (get_be bs) OR ucast b"
  by (simp add: get_be_def)

lemma put_be_snoc: "put_be (Suc n) w = put_be n (drop_bit 8 w) @ [ucast w]"
proof (induction n)
  case 0
  then show ?case by simp
next
  case (Suc n)
  have "put_be (Suc (Suc n)) w = ucast (drop_bit (8 * Suc n) w) # put_be (Suc n) w"
    by simp
  also have "\<dots> = ucast (drop_bit (8 * n) (drop_bit 8 w)) # put_be n (drop_bit 8 w) @ [ucast w]"
    by (simp only: Suc) (simp add: add.commute)
  finally show ?case by simp
qed

lemma get_be_put_be: "get_be (put_be n w) = take_bit (8 * n) w"
proof (induction n arbitrary: w)
  case 0
  then show ?case by (simp add: get_be_def)
next
  case (Suc n)
  have "get_be (put_be (Suc n) w) = push_bit 8 (take_bit (8 * n) (drop_bit 8 w)) OR ucast (ucast w :: byte)"
    by (simp only: put_be_snoc get_be_snoc Suc)
  also have "\<dots> = take_bit (8 * Suc n) w"
    by (rule bit_word_eqI) (auto simp: bit_simps)
  finally show ?case .
qed

lemma put_be_get_be:
  "8 * length bs \<le> LENGTH('a::len) \<Longrightarrow> put_be (length bs) (get_be bs :: 'a word) = bs"
proof (induction bs rule: rev_induct)
  case Nil
  then show ?case by simp
next
  case (snoc b bs)
  let ?g = "get_be bs :: 'a word"
  have d: "put_be n (drop_bit 8 (push_bit 8 ?g OR ucast b)) = put_be n ?g" if "n \<le> length bs" for n
    using that
  proof (induction n)
    case (Suc n)
    have "(ucast (drop_bit (8 * n) (drop_bit 8 (push_bit 8 ?g OR ucast b))) :: byte) = ucast (drop_bit (8 * n) ?g)"
      by (rule bit_word_eqI) (use snoc.prems Suc.prems in \<open>auto simp: bit_simps dest: bit_imp_le_length\<close>)
    with Suc show ?case by simp
  qed simp
  have b: "(ucast (push_bit 8 ?g OR ucast b :: 'a word) :: byte) = b"
    by (rule bit_word_eqI) (use snoc.prems in \<open>auto simp: bit_simps dest: bit_imp_le_length\<close>)
  have "put_be (length (bs @ [b])) (get_be (bs @ [b]) :: 'a word)
      = put_be (length bs) (drop_bit 8 (push_bit 8 ?g OR ucast b)) @ [ucast (push_bit 8 ?g OR ucast b)]"
    by (simp only: length_append_singleton put_be_snoc get_be_snoc)
  also have "\<dots> = bs @ [b]"
    using snoc by (simp only: d b) (simp del: drop_bit_or)
  finally show ?case .
qed

lemma get_put_uN [simp, codec_simps]:
  "get_u16 (put_u16 a) = a" "get_u32 (put_u32 b) = b" "get_u64 (put_u64 c) = c"
  by (simp_all add: get_u16_def put_u16_def get_u32_def put_u32_def get_u64_def put_u64_def
      get_be_put_be take_bit_word_eq_self)

lemma put_get_uN:
  "length bs = 2 \<Longrightarrow> put_u16 (get_u16 bs) = bs"
  "length bs = 4 \<Longrightarrow> put_u32 (get_u32 bs) = bs"
  "length bs = 8 \<Longrightarrow> put_u64 (get_u64 bs) = bs"
  using put_be_get_be [of bs, where 'a = 16] put_be_get_be [of bs, where 'a = 32]
    put_be_get_be [of bs, where 'a = 64]
  by (simp_all add: get_u16_def put_u16_def get_u32_def put_u32_def get_u64_def put_u64_def)

lemma put_uN_inject [simp]:
  "put_u16 a = put_u16 a' \<longleftrightarrow> a = a'" "put_u32 b = put_u32 b' \<longleftrightarrow> b = b'"
  "put_u64 c = put_u64 c' \<longleftrightarrow> c = c'"
  by (metis get_put_uN(1)) (metis get_put_uN(2), metis get_put_uN(3))

text \<open>A Go conversion \<open>uint16(len(x))\<close> truncates; it is exact below \<open>2^16\<close>.\<close>

lemma unat_less: "unat (w :: 'a::len word) < 2 ^ LENGTH('a)"
  by (rule unsigned_less)

lemma unat_of_nat_small:
  "n < 2 ^ LENGTH('a::len) \<Longrightarrow> unat (of_nat n :: 'a word) = n"
  by (simp add: unat_of_nat take_bit_nat_eq_self)

lemma take_bit_small: "unat (w :: 'a::len word) < 2 ^ k \<Longrightarrow> take_bit k w = w"
  by (simp add: word_unat_eq_iff unsigned_take_bit_eq take_bit_nat_eq_self)

lemma small_bit: "unat (w :: 'a::len word) < 2 ^ k \<Longrightarrow> bit w n \<Longrightarrow> n < k"
  using take_bit_small [of w k] by (metis bit_take_bit_iff)

lemma get_be_take: "take_bit (8 * length bs) (get_be bs :: 'a::len word) = get_be bs"
proof (induction bs rule: rev_induct)
  case Nil
  then show ?case by (simp add: get_be_def)
next
  case (snoc b bs)
  have "bit (get_be bs :: 'a word) n \<Longrightarrow> n < 8 * length bs" for n
    using snoc by (metis bit_take_bit_iff)
  then have "bit (get_be bs :: 'a word) (n - 8) \<Longrightarrow> n < 8 + 8 * length bs" for n
    by fastforce
  then show ?case
    by (intro bit_word_eqI) (auto simp: get_be_snoc bit_simps dest: bit_imp_le_length)
qed

lemma get_be_bound: "unat (get_be bs :: 'a::len word) < 2 ^ (8 * length bs)"
proof -
  have "unat (take_bit (8 * length bs) (get_be bs :: 'a word)) < 2 ^ (8 * length bs)"
    by (simp add: unsigned_take_bit_eq)
  then show ?thesis by (simp add: get_be_take)
qed

lemma get_put_be_small: "unat w < 2 ^ (8 * n) \<Longrightarrow> get_be (put_be n w) = w"
  by (simp add: get_be_put_be take_bit_small)

section \<open>Single octets\<close>

lemma byte_eqI:
  fixes a b :: byte
  assumes "bit a 0 = bit b 0" "bit a 1 = bit b 1" "bit a 2 = bit b 2" "bit a 3 = bit b 3"
    "bit a 4 = bit b 4" "bit a 5 = bit b 5" "bit a 6 = bit b 6" "bit a 7 = bit b 7"
  shows "a = b"
proof (rule bit_word_eqI)
  fix n assume "n < LENGTH(8)"
  then consider "n = 0" | "n = 1" | "n = 2" | "n = 3" | "n = 4" | "n = 5" | "n = 6" | "n = 7"
    by fastforce
  then show "bit a n = bit b n" using assms by cases auto
qed

lemma byte_bits_0D:
  "a = (0::byte) \<Longrightarrow> \<not> bit a 0 \<and> \<not> bit a 1 \<and> \<not> bit a 2 \<and> \<not> bit a 3 \<and> \<not> bit a 4 \<and> \<not> bit a 5 \<and> \<not> bit a 6 \<and> \<not> bit a 7"
  by simp

lemmas octet_bits = bit_and_iff bit_or_iff bit_not_iff bit_push_bit_iff bit_drop_bit_eq
  possible_bit_def

end
