(* ===== verification/Registry.thy ===== *)
theory Registry
  imports Prelude
begin

text \<open>
  The code points of the wire protocol and the sentinel errors of the root package:
  \<^verbatim>\<open>channels.go\<close>, \<^verbatim>\<open>frametypes.go\<close>, \<^verbatim>\<open>profiles.go\<close> and \<^verbatim>\<open>suites.go\<close> under
  \<^verbatim>\<open>src/impl/go\<close>. A Go error value is represented by its sentinel (the value that
  \<^verbatim>\<open>errors.Is\<close> finds); the texts that \<^verbatim>\<open>fmt.Errorf\<close> wraps around it are left out.
\<close>

section \<open>Sentinel errors of package npamp\<close>

datatype npamp_err =
    ErrShortHeader | ErrBadMagic | ErrBadVersion | ErrBadCRC | ErrReservedNonzero
  | ErrReservedFlag | ErrLengthMismatch | ErrIncompleteFrame | ErrFrameTooLarge
  | ErrTruncatedTLV | ErrTooManyTLVs | ErrUnknownCriticalTLV
  | ErrHandshakeTLVOrder | ErrHandshakeTLVValue | ErrInvalidRole | ErrCertVerifyScheme
  | ErrCertVerifySignature | ErrCertVerifyKeySize | ErrFinishedMismatch
  | ErrMalformedErrorBody | ErrNoSuiteForProfile | ErrNoAEADSuite
  | ErrKEMShareSize | ErrKEMCiphertextSize
  | ErrMLKEM | ErrX25519 | ErrHKDFLength | ErrAEADOpen

section \<open>Channels\<close>

type_synonym channel_id = u16

definition ChanControl :: channel_id where "ChanControl = 0x0000"
definition ChanMemory :: channel_id where "ChanMemory = 0x0001"
definition ChanStream :: channel_id where "ChanStream = 0x000C"
definition ChanBridge :: channel_id where "ChanBridge = 0x000D"

definition channelNames :: "(channel_id \<times> string) list" where
  "channelNames =
    [(0x0000, ''Control''), (0x0001, ''Memory''), (0x0002, ''Capability''), (0x0003, ''Identity''),
     (0x0004, ''Governance''), (0x0005, ''Immune''), (0x0006, ''Federation''), (0x0007, ''Settlement''),
     (0x0008, ''Compliance''), (0x0009, ''Sensory''), (0x000A, ''Telemetry''), (0x000B, ''Audit''),
     (0x000C, ''Stream''), (0x000D, ''Bridge''), (0x000E, ''Commerce''), (0x000F, ''Interaction''),
     (0x0010, ''Discovery''), (0x0011, ''Workflow''), (0x0012, ''Knowledge''), (0x0013, ''Spatial'')]"

text \<open>\<open>ChannelID.Name\<close>: indexing a Go map with an absent key gives the zero value.\<close>

definition channel_Name :: "channel_id \<Rightarrow> string" where
  "channel_Name c = (case map_of channelNames c of Some n \<Rightarrow> n | None \<Rightarrow> '''')"

definition channel_Reserved :: "channel_id \<Rightarrow> bool" where
  "channel_Reserved c \<longleftrightarrow> 0x0014 \<le> c"

section \<open>Frame types\<close>

type_synonym frame_type = u16

definition FramePing :: frame_type where "FramePing = 0x0001"
definition FramePong :: frame_type where "FramePong = 0x0002"
definition FrameClose :: frame_type where "FrameClose = 0x0003"
definition FrameCloseAck :: frame_type where "FrameCloseAck = 0x0004"
definition FrameError :: frame_type where "FrameError = 0x0005"
definition FrameKeyUpdate :: frame_type where "FrameKeyUpdate = 0x0006"
definition FrameKeyUpdateAck :: frame_type where "FrameKeyUpdateAck = 0x0007"
definition FramePathChallenge :: frame_type where "FramePathChallenge = 0x0008"
definition FramePathResponse :: frame_type where "FramePathResponse = 0x0009"
definition FrameFlowUpdate :: frame_type where "FrameFlowUpdate = 0x000A"
definition ChannelSpecificBase :: frame_type where "ChannelSpecificBase = 0x0100"

definition FrameClientHello :: frame_type where "FrameClientHello = 0x0100"
definition FrameServerHello :: frame_type where "FrameServerHello = 0x0101"
definition FrameServerAuth :: frame_type where "FrameServerAuth = 0x0102"
definition FrameClientAuth :: frame_type where "FrameClientAuth = 0x0103"
definition FrameMasterRatchet :: frame_type where "FrameMasterRatchet = 0x0104"
definition FrameMasterRatchetAck :: frame_type where "FrameMasterRatchetAck = 0x0105"
definition FrameReKEM :: frame_type where "FrameReKEM = 0x0106"
definition FrameReKEMAck :: frame_type where "FrameReKEMAck = 0x0107"

lemmas frame_type_defs = FramePing_def FramePong_def FrameClose_def FrameCloseAck_def FrameError_def
  FrameKeyUpdate_def FrameKeyUpdateAck_def FrameClientHello_def FrameServerHello_def
  FrameServerAuth_def FrameClientAuth_def FrameMasterRatchet_def FrameMasterRatchetAck_def
  FrameReKEM_def FrameReKEMAck_def FramePathChallenge_def FramePathResponse_def FrameFlowUpdate_def

section \<open>Profiles and suites\<close>

type_synonym profile = byte
type_synonym kem_id = u16
type_synonym aead_id = u16
type_synonym sig_id = u16

definition ALPN :: string where "ALPN = ''n-pamp/3''"

definition KEMX25519MLKEM768 :: kem_id where "KEMX25519MLKEM768 = 0x11ec"
definition KEMSecP384r1MLKEM1024 :: kem_id where "KEMSecP384r1MLKEM1024 = 0x11ed"
definition AEADAES256GCM :: aead_id where "AEADAES256GCM = 0x0001"
definition AEADChaCha20Poly1305 :: aead_id where "AEADChaCha20Poly1305 = 0x0002"
definition SigEd25519 :: sig_id where "SigEd25519 = 0x0807"
definition SigMLDSA44 :: sig_id where "SigMLDSA44 = 0x0904"
definition SigMLDSA65 :: sig_id where "SigMLDSA65 = 0x0905"
definition SigMLDSA87 :: sig_id where "SigMLDSA87 = 0x0906"

definition ProfileStandard :: profile where "ProfileStandard = 0x01"
definition ProfileHigh :: profile where "ProfileHigh = 0x02"
definition ProfileSovereign :: profile where "ProfileSovereign = 0x03"

definition profile_Valid :: "profile \<Rightarrow> bool" where
  "profile_Valid p \<longleftrightarrow> ProfileStandard \<le> p \<and> p \<le> ProfileSovereign"

definition profile_KDFHash :: "profile \<Rightarrow> string" where
  "profile_KDFHash p = (if p = ProfileStandard then ''SHA-256'' else ''SHA-384'')"

definition profile_MinKEM :: "profile \<Rightarrow> kem_id" where
  "profile_MinKEM p = (if p = ProfileStandard then KEMX25519MLKEM768 else KEMSecP384r1MLKEM1024)"

definition profile_String :: "profile \<Rightarrow> string" where
  "profile_String p =
    (if p = ProfileStandard then ''Standard'' else if p = ProfileHigh then ''High''
     else if p = ProfileSovereign then ''Sovereign'' else ''reserved'')"

lemmas suite_defs = KEMX25519MLKEM768_def KEMSecP384r1MLKEM1024_def AEADAES256GCM_def
  AEADChaCha20Poly1305_def SigEd25519_def SigMLDSA44_def SigMLDSA65_def SigMLDSA87_def
  ProfileStandard_def ProfileHigh_def ProfileSovereign_def

text \<open>The name table covers exactly the core channels: the ids that are not reserved.\<close>

lemma u16_less_20_cases:
  assumes "c < (0x0014 :: u16)"
  shows "c \<in> set (map fst channelNames)"
proof -
  have "unat c < 20" using assms by (simp add: word_less_nat_alt)
  then have "unat c \<in> set [0..<20]" by simp
  then have "(of_nat (unat c) :: u16) \<in> of_nat ` set [0..<20]" by (rule imageI)
  then have "c \<in> set (map (of_nat :: nat \<Rightarrow> u16) [0..<20])" by (simp del: set_upt)
  also have "map (of_nat :: nat \<Rightarrow> u16) [0..<20] = map fst channelNames"
    by (simp add: channelNames_def upt_rec)
  finally show ?thesis .
qed

lemma profile_MinKEM_eq: "profile_MinKEM p = KEMX25519MLKEM768 \<longleftrightarrow> p = ProfileStandard"
  by (simp add: profile_MinKEM_def suite_defs)

end
