(* ===== verification/Crc32c.thy ===== *)
theory Crc32c
  imports Prelude
begin

text \<open>
  CRC32C as \<^verbatim>\<open>hash/crc32\<close> computes it for the Castagnoli table (the checksum of
  \<^verbatim>\<open>src/impl/go/frame.go\<close>): the reflected polynomial, one octet at a time, with the
  register complemented on entry and on exit. The lemmas show that two inputs that
  differ in a single octet never have the same checksum.
\<close>

definition castagnoli :: u32 where
  "castagnoli = 0x82F63B78"

definition crc_bit :: "u32 \<Rightarrow> u32" where
  "crc_bit s = (if bit s 0 then drop_bit 1 s XOR castagnoli else drop_bit 1 s)"

primrec crc_bits :: "nat \<Rightarrow> u32 \<Rightarrow> u32" where
  "crc_bits 0 s = s"
| "crc_bits (Suc n) s = crc_bits n (crc_bit s)"

definition crc_byte :: "u32 \<Rightarrow> byte \<Rightarrow> u32" where
  "crc_byte s b = crc_bits 8 (s XOR ucast b)"

definition crc_run :: "u32 \<Rightarrow> bytes \<Rightarrow> u32" where
  "crc_run s bs = foldl crc_byte s bs"

definition crc32c :: "bytes \<Rightarrow> u32" where
  "crc32c bs = NOT (crc_run 0xFFFFFFFF bs)"

section \<open>The register never merges two states\<close>

lemma xor_right_cancel: "x XOR c = y XOR c \<longleftrightarrow> x = y" for x y c :: "'a::len word"
proof
  assume "x XOR c = y XOR c"
  then have "(x XOR c) XOR c = (y XOR c) XOR c" by simp
  then show "x = y" by (simp add: xor.assoc)
qed simp

lemma crc_bit_top: "bit (crc_bit s) 31 \<longleftrightarrow> bit s 0"
proof -
  have "bit castagnoli 31" by (simp add: castagnoli_def)
  moreover have "\<not> bit (drop_bit 1 s) 31"
    by (auto simp: bit_drop_bit_eq dest: bit_imp_le_length)
  ultimately show ?thesis by (simp add: crc_bit_def bit_xor_iff)
qed

lemma crc_bit_inj: "crc_bit s = crc_bit t \<Longrightarrow> s = t"
proof (rule bit_word_eqI)
  fix n :: nat
  assume eq: "crc_bit s = crc_bit t"
  then have low: "bit s 0 \<longleftrightarrow> bit t 0" by (metis crc_bit_top)
  with eq have "drop_bit 1 s = drop_bit 1 t"
    by (auto simp: crc_bit_def xor_right_cancel split: if_splits)
  then have "bit (drop_bit 1 s) (n - 1) \<longleftrightarrow> bit (drop_bit 1 t) (n - 1)" by simp
  with low show "bit s n \<longleftrightarrow> bit t n" by (cases n) (auto simp: bit_drop_bit_eq)
qed

lemma crc_bits_inj: "crc_bits n s = crc_bits n t \<Longrightarrow> s = t"
  by (induction n arbitrary: s t) (auto dest: crc_bit_inj)

lemma crc_byte_inj: "crc_byte s b = crc_byte t b \<Longrightarrow> s = t"
  by (auto simp: crc_byte_def xor_right_cancel dest: crc_bits_inj)

lemma crc_byte_octet_inj:
  assumes "crc_byte s a = crc_byte s b"
  shows "a = b"
proof -
  from assms have "s XOR ucast a = s XOR ucast b"
    by (auto simp: crc_byte_def dest: crc_bits_inj)
  then have "s XOR (s XOR ucast a) = s XOR (s XOR ucast b)" by simp
  then have "(ucast a :: u32) = ucast b"
    by (simp add: xor.assoc [symmetric])
  then have "(ucast (ucast a :: u32) :: byte) = ucast (ucast b :: u32)" by simp
  then show ?thesis by (simp add: unsigned_ucast_eq take_bit_word_eq_self)
qed

lemma crc_run_inj: "crc_run s bs = crc_run t bs \<Longrightarrow> s = t"
  by (induction bs arbitrary: s t) (auto simp: crc_run_def dest: crc_byte_inj)

lemma crc32c_single_octet:
  assumes "crc32c (xs @ a # ys) = crc32c (xs @ b # ys)"
  shows "a = b"
proof -
  from assms have "crc_run (crc_run 0xFFFFFFFF (xs @ [a])) ys = crc_run (crc_run 0xFFFFFFFF (xs @ [b])) ys"
    by (simp add: crc32c_def crc_run_def)
  then have "crc_run 0xFFFFFFFF (xs @ [a]) = crc_run 0xFFFFFFFF (xs @ [b])" by (rule crc_run_inj)
  then show ?thesis by (auto simp: crc_run_def dest: crc_byte_octet_inj)
qed

lemma crc32c_update_octet:
  assumes "i < length bs" and "b \<noteq> bs ! i"
  shows "crc32c (bs[i := b]) \<noteq> crc32c bs"
proof
  assume eq: "crc32c (bs[i := b]) = crc32c bs"
  have "bs = take i bs @ bs ! i # drop (Suc i) bs"
    using assms(1) by (rule id_take_nth_drop)
  moreover have "bs[i := b] = take i bs @ b # drop (Suc i) bs"
    using assms(1) by (rule upd_conv_take_nth_drop)
  ultimately have "crc32c (take i bs @ b # drop (Suc i) bs) = crc32c (take i bs @ bs ! i # drop (Suc i) bs)"
    using eq by metis
  then show False using assms(2) by (auto dest: crc32c_single_octet)
qed

section \<open>Evaluation\<close>

lemma crc_bits_8: "crc_bits 8 s = crc_bit (crc_bit (crc_bit (crc_bit (crc_bit (crc_bit (crc_bit (crc_bit s)))))))"
  by (simp add: eval_nat_numeral)

lemma crc_bit_even: "\<not> bit s 0 \<Longrightarrow> crc_bit s = drop_bit 1 s"
  by (simp add: crc_bit_def)

lemma crc_bit_odd: "bit s 0 \<Longrightarrow> crc_bit s = drop_bit 1 s XOR 0x82F63B78"
  by (simp add: crc_bit_def castagnoli_def)

lemmas crc_eval = crc32c_def crc_run_def crc_byte_def crc_bits_8 crc_bit_even crc_bit_odd

text \<open>The published check value of the algorithm: the checksum of the ASCII digits 1 to 9.\<close>

lemma crc32c_check: "crc32c [49, 50, 51, 52, 53, 54, 55, 56, 57] = 0xE3069283"
  by (simp add: crc_eval)

end
