(* ===== verification/Codec.thy ===== *)
theory Codec
  imports Prelude
begin

text \<open>
  The contract of a self-delimiting wire codec: a reader that takes one item off the front
  of a buffer and says how many octets it used. The frame and TLV layers both provide it;
  the clients (the TLV list decoder, the stream readers of the session and of the relay)
  rely on what is proved here from the contract alone.
\<close>

locale prefix_codec =
  fixes enc :: "'a \<Rightarrow> bytes"
    and ok :: "'a \<Rightarrow> bool"
    and dec :: "bytes \<Rightarrow> 'e + 'a \<times> nat"
  assumes dec_iff: "dec b = Inr (x, n) \<longleftrightarrow> ok x \<and> n = length (enc x) \<and> (\<exists>rest. b = enc x @ rest)"
    and enc_nonempty: "ok x \<Longrightarrow> enc x \<noteq> []"
begin

lemma dec_enc: "ok x \<Longrightarrow> dec (enc x @ rest) = Inr (x, length (enc x))"
  by (simp add: dec_iff)

lemma prefix_free:
  assumes "ok x" "ok y" "enc x @ r = enc y @ s"
  shows "x = y \<and> r = s"
proof -
  from assms have "Inr (x, length (enc x)) = dec (enc y @ s)" by (metis dec_enc)
  also have "\<dots> = Inr (y, length (enc y))" using assms by (simp add: dec_enc)
  finally show ?thesis using assms(3) by simp
qed

lemma enc_inj: "ok x \<Longrightarrow> ok y \<Longrightarrow> enc x = enc y \<Longrightarrow> x = y"
  using prefix_free [of x y "[]" "[]"] by simp

lemma concat_inj:
  "list_all ok xs \<Longrightarrow> list_all ok ys \<Longrightarrow> concat (map enc xs) = concat (map enc ys) \<Longrightarrow> xs = ys"
proof (induction xs arbitrary: ys)
  case Nil
  then show ?case by (cases ys) (auto simp: enc_nonempty)
next
  case (Cons x xs)
  then obtain y ys' where ys: "ys = y # ys'"
    by (cases ys) (auto simp: enc_nonempty)
  with Cons.prems have "x = y \<and> concat (map enc xs) = concat (map enc ys')"
    by (intro prefix_free) auto
  with Cons ys show ?case by simp
qed

lemma dec_consumes: "dec b = Inr (x, n) \<Longrightarrow> 0 < n \<and> n \<le> length b \<and> b = enc x @ drop n b \<and> ok x"
  by (auto simp: dec_iff enc_nonempty)

end

end
