(* ===== verification/Frame.thy ===== *)
theory Frame
  imports Registry Crc32c Codec
begin

text \<open>
  The fixed-header frame of \<^verbatim>\<open>src/impl/go/frame.go\<close>: \<open>HeaderPrefix\<close>, \<open>MarshalBinary\<close>,
  \<open>UnmarshalBinary\<close> and \<open>ReadFrame\<close>. The lemmas show that marshalling and parsing are
  mutually inverse on the frames the parser accepts, that every accepted byte string is
  the marshalled form of its frame, that the parse of a stream is stable when more bytes
  arrive, and that a corrupted octet of the header is always caught by the checksum.
\<close>

section \<open>Model\<close>

definition HeaderSize :: nat where "HeaderSize = 36"
definition MaxFrameSize :: nat where "MaxFrameSize = 16777216"
definition ProtocolVersion :: byte where "ProtocolVersion = 0x2"
definition Magic :: bytes where "Magic = [0x4E, 0x50, 0x41, 0x4D]"
definition FlagENC :: byte where "FlagENC = 0x02"
definition FlagCOMP :: byte where "FlagCOMP = 0x04"
definition reservedFlagMask :: byte where "reservedFlagMask = 0x09"

record frame =
  fVersion :: byte
  fFlags :: byte
  fType :: u16
  fChannel :: u16
  fSeq :: u64
  fPayload :: bytes

definition HeaderPrefix :: "frame \<Rightarrow> u32 \<Rightarrow> bytes" where
  "HeaderPrefix f payloadLen =
    (let ver = (if fVersion f = 0 then ProtocolVersion else fVersion f) in
     Magic @ [push_bit 4 ver OR (fFlags f AND 0x0F)] @ put_u16 (fType f) @ put_u16 (fChannel f)
       @ put_u64 (fSeq f) @ put_u32 payloadLen)"

definition marshalHeaderInto :: "frame \<Rightarrow> u32 \<Rightarrow> bytes" where
  "marshalHeaderInto f payloadLen =
    (let pre = HeaderPrefix f payloadLen in
     pre @ put_u32 (crc32c pre) @ replicate (HeaderSize - 25) 0)"

text \<open>\<open>MarshalBinary\<close> writes the defaulted version back into its receiver; it never fails.\<close>

definition MarshalBinary :: "frame \<Rightarrow> frame \<times> bytes" where
  "MarshalBinary f =
    (let f' = (if fVersion f = 0 then f\<lparr>fVersion := ProtocolVersion\<rparr> else f) in
     (f', marshalHeaderInto f' (of_nat (length (fPayload f'))) @ fPayload f'))"

definition UnmarshalBinary :: "bytes \<Rightarrow> npamp_err + frame" where
  "UnmarshalBinary buf =
    (if length buf < HeaderSize then Inl ErrShortHeader
     else if get_u32 (gslice 21 25 buf) \<noteq> crc32c (gslice 0 21 buf) then Inl ErrBadCRC
     else if buf ! 0 \<noteq> Magic ! 0 \<or> buf ! 1 \<noteq> Magic ! 1 \<or> buf ! 2 \<noteq> Magic ! 2 \<or> buf ! 3 \<noteq> Magic ! 3
       then Inl ErrBadMagic
     else if drop_bit 4 (buf ! 4) \<noteq> ProtocolVersion then Inl ErrBadVersion
     else if buf ! 4 AND reservedFlagMask \<noteq> 0 then Inl ErrReservedFlag
     else if \<exists>b \<in> set (gslice 25 HeaderSize buf). b \<noteq> 0 then Inl ErrReservedNonzero
     else if unat (get_u32 (gslice 17 21 buf)) \<noteq> length buf - HeaderSize then Inl ErrLengthMismatch
     else Inr \<lparr>fVersion = drop_bit 4 (buf ! 4), fFlags = buf ! 4 AND 0x0F,
       fType = get_u16 (gslice 5 7 buf), fChannel = get_u16 (gslice 7 9 buf),
       fSeq = get_u64 (gslice 9 17 buf), fPayload = drop HeaderSize buf\<rparr>)"

definition ReadFrame :: "bytes \<Rightarrow> npamp_err + frame \<times> nat" where
  "ReadFrame buf =
    (if length buf < HeaderSize then Inl ErrShortHeader
     else let total = HeaderSize + unat (get_u32 (gslice 17 21 buf)) in
       if total > MaxFrameSize then Inl ErrFrameTooLarge
       else if length buf < total then Inl ErrIncompleteFrame
       else rbind (UnmarshalBinary (take total buf)) (\<lambda>f. Inr (f, total)))"

text \<open>The frames that a conformant peer can put on the wire.\<close>

definition frame_ok :: "frame \<Rightarrow> bool" where
  "frame_ok f \<longleftrightarrow> fVersion f = ProtocolVersion \<and> fFlags f AND NOT 0x06 = 0 \<and> length (fPayload f) < 2 ^ 32"

definition marshal :: "frame \<Rightarrow> bytes" where
  "marshal f = snd (MarshalBinary f)"

section \<open>Layout\<close>

lemma length_Magic [simp]: "length Magic = 4"
  by (simp add: Magic_def)

lemma length_HeaderPrefix [simp]: "length (HeaderPrefix f n) = 21"
  by (simp add: HeaderPrefix_def Let_def)

lemma length_marshalHeaderInto [simp]: "length (marshalHeaderInto f n) = 36"
  by (simp add: marshalHeaderInto_def Let_def HeaderSize_def)

lemma length_marshal: "length (marshal f) = HeaderSize + length (fPayload f)"
  by (simp add: marshal_def MarshalBinary_def Let_def HeaderSize_def)

lemma marshal_layout:
  assumes "fVersion f \<noteq> 0"
  shows "marshal f = HeaderPrefix f (of_nat (length (fPayload f)))
    @ put_u32 (crc32c (HeaderPrefix f (of_nat (length (fPayload f))))) @ replicate 11 0 @ fPayload f"
  using assms by (simp add: marshal_def MarshalBinary_def marshalHeaderInto_def Let_def HeaderSize_def)

lemma fst_MarshalBinary: "fVersion f \<noteq> 0 \<Longrightarrow> fst (MarshalBinary f) = f"
  by (simp add: MarshalBinary_def Let_def)

text \<open>The fields of a prefix, as the parser slices them.\<close>

definition verflags :: "frame \<Rightarrow> byte" where
  "verflags f = push_bit 4 (if fVersion f = 0 then ProtocolVersion else fVersion f) OR (fFlags f AND 0x0F)"

lemma HeaderPrefix_eq:
  "HeaderPrefix f n = Magic @ [verflags f] @ put_u16 (fType f) @ put_u16 (fChannel f) @ put_u64 (fSeq f) @ put_u32 n"
  by (simp add: HeaderPrefix_def verflags_def Let_def)

lemma prefix_fields:
  fixes f :: frame and n :: u32 and rest :: bytes
  defines "b \<equiv> HeaderPrefix f n @ rest"
  shows "gslice 0 21 b = HeaderPrefix f n"
    and "gslice 5 7 b = put_u16 (fType f)" and "gslice 7 9 b = put_u16 (fChannel f)"
    and "gslice 9 17 b = put_u64 (fSeq f)" and "gslice 17 21 b = put_u32 n"
    and "b ! 4 = verflags f" and "take 4 b = Magic"
  by (simp_all add: b_def gslice_def HeaderPrefix_eq nth_append)

lemma marshal_tail:
  fixes pre :: bytes
  assumes "length pre = 21"
  shows "gslice 21 25 (pre @ put_u32 c @ replicate 11 0 @ p) = put_u32 c"
    and "gslice 25 36 (pre @ put_u32 c @ replicate 11 0 @ p) = replicate 11 (0::byte)"
    and "drop 36 (pre @ put_u32 c @ replicate 11 0 @ p) = p"
  using assms by (simp_all add: gslice_def)

lemma Magic_nth: "take 4 b = Magic \<Longrightarrow> i < 4 \<Longrightarrow> b ! i = Magic ! i"
  by (metis nth_take)

lemma Magic_nthI: "4 \<le> length b \<Longrightarrow> b ! 0 = Magic ! 0 \<Longrightarrow> b ! 1 = Magic ! 1 \<Longrightarrow> b ! 2 = Magic ! 2 \<Longrightarrow> b ! 3 = Magic ! 3
  \<Longrightarrow> take 4 b = Magic"
  by (rule nth_equalityI) (auto simp: less_Suc_eq numeral_eq_Suc)

section \<open>The version/flags octet\<close>

lemma verflags_wire:
  assumes "fVersion f = ProtocolVersion" and "fFlags f AND NOT 0x06 = 0"
  shows "drop_bit 4 (verflags f) = ProtocolVersion" and "verflags f AND reservedFlagMask = 0"
    and "verflags f AND 0x0F = fFlags f"
proof -
  from byte_bits_0D [OF assms(2)] have fl: "\<not> bit (fFlags f) 0" "\<not> bit (fFlags f) 3"
    "\<not> bit (fFlags f) 4" "\<not> bit (fFlags f) 5" "\<not> bit (fFlags f) 6" "\<not> bit (fFlags f) 7"
    by (simp_all add: octet_bits)
  have v: "verflags f = 0x20 OR (fFlags f AND 0x0F)"
    using assms(1) by (simp add: verflags_def ProtocolVersion_def)
  show "drop_bit 4 (verflags f) = ProtocolVersion" "verflags f AND reservedFlagMask = 0"
    "verflags f AND 0x0F = fFlags f"
    unfolding v ProtocolVersion_def reservedFlagMask_def
    by (rule byte_eqI; simp add: octet_bits fl bit_imp_le_length)+
qed

lemma verflags_parsed:
  assumes "drop_bit 4 x = ProtocolVersion" and "x AND reservedFlagMask = 0"
  shows "push_bit 4 (drop_bit 4 x) OR ((x AND 0x0F) AND 0x0F) = x" and "(x AND 0x0F) AND NOT 0x06 = 0"
proof -
  from byte_bits_0D [OF assms(2)] have r: "\<not> bit x 0" "\<not> bit x 3"
    by (simp_all add: octet_bits reservedFlagMask_def)
  show "push_bit 4 (drop_bit 4 x) OR ((x AND 0x0F) AND 0x0F) = x" "(x AND 0x0F) AND NOT 0x06 = 0"
    by (rule byte_eqI; simp add: octet_bits r)+
qed

section \<open>Marshalling and parsing are inverse\<close>

lemma UnmarshalBinary_marshal:
  assumes "frame_ok f"
  shows "UnmarshalBinary (marshal f) = Inr f"
proof -
  from assms have ver: "fVersion f = ProtocolVersion" and fl: "fFlags f AND NOT 0x06 = 0"
    and len: "length (fPayload f) < 2 ^ 32"
    by (simp_all add: frame_ok_def)
  then have nz: "fVersion f \<noteq> 0" by (simp add: ProtocolVersion_def)
  define n where "n = (of_nat (length (fPayload f)) :: u32)"
  have n: "unat n = length (fPayload f)" using len by (simp add: n_def unat_of_nat_small)
  have m: "marshal f = HeaderPrefix f n @ put_u32 (crc32c (HeaderPrefix f n)) @ replicate 11 0 @ fPayload f"
    using marshal_layout [OF nz] by (simp add: n_def)
  note fields = prefix_fields [of f n "put_u32 (crc32c (HeaderPrefix f n)) @ replicate 11 0 @ fPayload f", folded m]
    marshal_tail [OF length_HeaderPrefix, of f n "crc32c (HeaderPrefix f n)" "fPayload f", folded m]
  have magic: "marshal f ! i = Magic ! i" if "i < 4" for i
    using Magic_nth [OF fields(7) that] .
  show ?thesis
    using n nz length_marshal [of f] verflags_wire [OF ver fl]
    by (simp add: UnmarshalBinary_def fields magic HeaderSize_def ver)
qed

text \<open>The converse: whatever the parser accepts is the marshalled form of what it returns.\<close>

lemma header_split:
  assumes "36 \<le> length b"
  shows "b = take 4 b @ [b ! 4] @ gslice 5 7 b @ gslice 7 9 b @ gslice 9 17 b @ gslice 17 21 b
    @ gslice 21 25 b @ gslice 25 36 b @ drop 36 b"
proof -
  have "gslice 4 5 b = [b ! 4]"
    using gslice_single [of 4 b] assms by simp
  then have "take 4 b @ [b ! 4] @ gslice 5 7 b @ gslice 7 9 b @ gslice 9 17 b @ gslice 17 21 b
    @ gslice 21 25 b @ gslice 25 36 b @ drop 36 b
    = gslice 0 4 b @ gslice 4 5 b @ gslice 5 7 b @ gslice 7 9 b @ gslice 9 17 b @ gslice 17 21 b
    @ gslice 21 25 b @ gslice 25 36 b @ drop 36 b"
    by (simp add: gslice_def)
  also have "\<dots> = gslice 0 36 b @ drop 36 b"
    by (simp add: gslice_joins)
  also have "\<dots> = b" using assms by (rule gslice_drop)
  finally show ?thesis by simp
qed

lemma UnmarshalBinary_sound:
  assumes "UnmarshalBinary b = Inr f"
  shows "marshal f = b" and "frame_ok f"
proof -
  from assms have len: "36 \<le> length b" and crc: "get_u32 (gslice 21 25 b) = crc32c (gslice 0 21 b)"
    and magic: "b ! 0 = Magic ! 0" "b ! 1 = Magic ! 1" "b ! 2 = Magic ! 2" "b ! 3 = Magic ! 3"
    and ver: "drop_bit 4 (b ! 4) = ProtocolVersion" and fl: "b ! 4 AND reservedFlagMask = 0"
    and zero: "\<forall>x \<in> set (gslice 25 36 b). x = 0"
    and plen: "unat (get_u32 (gslice 17 21 b)) = length b - 36"
    and f: "f = \<lparr>fVersion = drop_bit 4 (b ! 4), fFlags = b ! 4 AND 0x0F,
       fType = get_u16 (gslice 5 7 b), fChannel = get_u16 (gslice 7 9 b),
       fSeq = get_u64 (gslice 9 17 b), fPayload = drop 36 b\<rparr>"
    by (auto simp: UnmarshalBinary_def HeaderSize_def not_less split: if_splits)
  have nz: "fVersion f \<noteq> 0" by (simp add: f ver ProtocolVersion_def)
  have "length b - 36 < 2 ^ 32"
    using unat_less [of "get_u32 (gslice 17 21 b)"] plen by simp
  then show ok: "frame_ok f"
    using ver verflags_parsed(2) [OF ver fl] by (simp add: frame_ok_def f)
  have "length (fPayload f) = unat (get_u32 (gslice 17 21 b))" by (simp add: f plen)
  then have n: "of_nat (length (fPayload f)) = get_u32 (gslice 17 21 b)" by simp
  have vf: "verflags f = b ! 4"
    using verflags_parsed [OF ver fl] nz by (simp add: verflags_def f)
  have "HeaderPrefix f (of_nat (length (fPayload f))) = take 4 b @ [b ! 4] @ gslice 5 7 b @ gslice 7 9 b
      @ gslice 9 17 b @ gslice 17 21 b"
    using len Magic_nthI [OF _ magic] by (simp add: HeaderPrefix_eq vf n) (simp add: f put_get_uN)
  moreover have "\<dots> = gslice 0 4 b @ gslice 4 5 b @ gslice 5 7 b @ gslice 7 9 b @ gslice 9 17 b @ gslice 17 21 b"
    using len gslice_single [of 4 b] by (simp add: gslice_def [of 0 4])
  moreover have "\<dots> = gslice 0 21 b" by (simp add: gslice_joins)
  ultimately have pre: "HeaderPrefix f (of_nat (length (fPayload f))) = gslice 0 21 b" by simp
  have tail: "gslice 21 25 b = put_u32 (crc32c (gslice 0 21 b))"
    using len put_get_uN(2) [of "gslice 21 25 b"] by (simp add: crc)
  have zeros: "gslice 25 36 b = replicate 11 0"
    using zero len by (auto intro: replicate_eqI)
  have "marshal f = gslice 0 21 b @ gslice 21 25 b @ gslice 25 36 b @ drop 36 b"
    using marshal_layout [OF nz] by (simp only: pre tail zeros) (simp add: f)
  then show "marshal f = b"
    using len by (simp add: gslice_joins gslice_drop)
qed

section \<open>Reading a stream\<close>

lemma ReadFrame_Inr:
  assumes "ReadFrame b = Inr (f, n)"
  shows "frame_ok f" and "take n b = marshal f" and "n = HeaderSize + length (fPayload f)"
    and "n \<le> length b" and "n \<le> MaxFrameSize"
proof -
  from assms have n: "n \<le> length b" "n \<le> MaxFrameSize" "HeaderSize \<le> n"
    and u: "UnmarshalBinary (take n b) = Inr f"
    by (auto simp: ReadFrame_def Let_def split: if_splits)
  from n show "n \<le> length b" "n \<le> MaxFrameSize" by simp_all
  from UnmarshalBinary_sound [OF u] show "frame_ok f" and m: "take n b = marshal f" by simp_all
  from m n have "n = length (marshal f)" by (metis length_take min.absorb2)
  then show "n = HeaderSize + length (fPayload f)" by (simp add: length_marshal)
qed

lemma ReadFrame_marshal:
  assumes "frame_ok f" and "HeaderSize + length (fPayload f) \<le> MaxFrameSize"
  shows "ReadFrame (marshal f @ rest) = Inr (f, HeaderSize + length (fPayload f))"
proof -
  from assms(1) have nz: "fVersion f \<noteq> 0" and len: "length (fPayload f) < 2 ^ 32"
    by (auto simp: frame_ok_def ProtocolVersion_def)
  have "gslice 17 21 (marshal f @ rest) = put_u32 (of_nat (length (fPayload f)))"
    unfolding marshal_layout [OF nz] append_assoc by (rule prefix_fields(5))
  then have total: "unat (get_u32 (gslice 17 21 (marshal f @ rest))) = length (fPayload f)"
    using len by (simp add: unat_of_nat_small)
  have "take (HeaderSize + length (fPayload f)) (marshal f @ rest) = marshal f"
    by (simp add: length_marshal)
  then show ?thesis
    using assms by (simp add: ReadFrame_def total length_marshal UnmarshalBinary_marshal Let_def)
qed

lemma ReadFrame_append:
  assumes "ReadFrame b \<noteq> Inl ErrShortHeader" and "ReadFrame b \<noteq> Inl ErrIncompleteFrame"
  shows "ReadFrame (b @ rest) = ReadFrame b"
proof -
  from assms(1) have len: "HeaderSize \<le> length b"
    by (auto simp: ReadFrame_def split: if_splits)
  then have g: "gslice 17 21 (b @ rest) = gslice 17 21 b"
    by (simp add: gslice_append_left HeaderSize_def)
  show ?thesis
    using assms len by (auto simp: ReadFrame_def g Let_def split: if_splits)
qed

lemma ReadFrame_partial:
  assumes "frame_ok f" and "HeaderSize + length (fPayload f) \<le> MaxFrameSize"
    and "k < HeaderSize + length (fPayload f)"
  shows "ReadFrame (take k (marshal f)) = Inl (if k < HeaderSize then ErrShortHeader else ErrIncompleteFrame)"
proof (cases "k < HeaderSize")
  case True
  then show ?thesis by (simp add: ReadFrame_def length_marshal)
next
  case False
  from assms(1) have nz: "fVersion f \<noteq> 0" and len: "length (fPayload f) < 2 ^ 32"
    by (auto simp: frame_ok_def ProtocolVersion_def)
  have "gslice 17 21 (marshal f) = put_u32 (of_nat (length (fPayload f)))"
    unfolding marshal_layout [OF nz] by (rule prefix_fields(5))
  moreover have "gslice 17 21 (take k (marshal f)) = gslice 17 21 (marshal f)"
    using False by (simp add: gslice_def drop_take HeaderSize_def)
  ultimately have "unat (get_u32 (gslice 17 21 (take k (marshal f)))) = length (fPayload f)"
    using len by (simp add: unat_of_nat_small)
  with False assms show ?thesis by (simp add: ReadFrame_def length_marshal Let_def)
qed

section \<open>Corruption of the header\<close>

lemma UnmarshalBinary_corrupt:
  assumes "UnmarshalBinary b = Inr f" and "i < 25" and "x \<noteq> b ! i"
  shows "UnmarshalBinary (b[i := x]) = Inl ErrBadCRC"
proof -
  from assms(1) have len: "36 \<le> length b" and crc: "get_u32 (gslice 21 25 b) = crc32c (gslice 0 21 b)"
    by (auto simp: UnmarshalBinary_def HeaderSize_def not_less split: if_splits)
  have "get_u32 (gslice 21 25 (b[i := x])) \<noteq> crc32c (gslice 0 21 (b[i := x]))"
  proof (cases "i < 21")
    case True
    then have "gslice 21 25 (b[i := x]) = gslice 21 25 b" and g: "gslice 0 21 (b[i := x]) = (gslice 0 21 b)[i := x]"
      by (simp_all add: gslice_def take_update_swap)
    moreover have "crc32c ((gslice 0 21 b)[i := x]) \<noteq> crc32c (gslice 0 21 b)"
      using True len assms(3) by (intro crc32c_update_octet) (auto simp: gslice_def)
    ultimately show ?thesis using crc by simp
  next
    case False
    then have "gslice 0 21 (b[i := x]) = gslice 0 21 b" and g: "gslice 21 25 (b[i := x]) = (gslice 21 25 b)[i - 21 := x]"
      using assms(2) by (simp_all add: gslice_def drop_update_swap take_update_swap list_update_beyond)
    moreover have "(gslice 21 25 b)[i - 21 := x] ! (i - 21) = x" and "gslice 21 25 b ! (i - 21) = b ! i"
      using False assms(2) len by (simp_all add: gslice_nth)
    then have "(gslice 21 25 b)[i - 21 := x] \<noteq> gslice 21 25 b" using assms(3) by metis
    then have "put_u32 (get_u32 ((gslice 21 25 b)[i - 21 := x])) \<noteq> put_u32 (get_u32 (gslice 21 25 b))"
      using len by (simp add: put_get_uN)
    ultimately show ?thesis using crc by auto
  qed
  with len show ?thesis by (simp add: UnmarshalBinary_def HeaderSize_def)
qed

lemma UnmarshalBinary_reserved:
  assumes "UnmarshalBinary b = Inr f" and "25 \<le> i" "i < HeaderSize" and "x \<noteq> b ! i"
  shows "UnmarshalBinary (b[i := x]) = Inl ErrReservedNonzero"
proof -
  have len: "36 \<le> length b" using assms(1) by (auto simp: UnmarshalBinary_def HeaderSize_def not_less split: if_splits)
  have same: "gslice p q (b[i := x]) = gslice p q b" if "q \<le> 25" for p q
    using that assms(2) by (intro nth_equalityI) (auto simp: gslice_def)
  have at: "b[i := x] ! j = b ! j" if "j < 25" for j using that assms(2) by simp
  have "b ! j = 0" if "25 \<le> j" "j < 36" for j
  proof -
    have "gslice 25 36 b ! (j - 25) = b ! j" "j - 25 < length (gslice 25 36 b)" using that len by (simp_all add: gslice_nth)
    then have "b ! j \<in> set (gslice 25 36 b)" by (metis nth_mem)
    then show ?thesis using assms(1) by (auto simp: UnmarshalBinary_def HeaderSize_def split: if_splits)
  qed
  then have "x \<noteq> 0" using assms by (auto simp: HeaderSize_def)
  moreover have "x \<in> set (gslice 25 36 (b[i := x]))"
  proof -
    have "gslice 25 36 (b[i := x]) ! (i - 25) = x" "i - 25 < length (gslice 25 36 (b[i := x]))"
      using assms(2,3) len by (simp_all add: gslice_nth HeaderSize_def)
    then show ?thesis by (metis nth_mem)
  qed
  ultimately show ?thesis
    using assms(1) len same at by (auto simp: UnmarshalBinary_def HeaderSize_def split: if_splits)
qed

section \<open>The frame layer as a self-delimiting codec\<close>

definition sendable :: "frame \<Rightarrow> bool" where
  "sendable f \<longleftrightarrow> frame_ok f \<and> HeaderSize + length (fPayload f) \<le> MaxFrameSize"

lemma ReadFrame_spec:
  "ReadFrame b = Inr (f, n) \<longleftrightarrow> sendable f \<and> n = length (marshal f) \<and> (\<exists>rest. b = marshal f @ rest)"
proof
  assume r: "ReadFrame b = Inr (f, n)"
  then have "b = marshal f @ drop n b" using ReadFrame_Inr(2) [OF r] append_take_drop_id [of n b] by simp
  with ReadFrame_Inr [OF r] show "sendable f \<and> n = length (marshal f) \<and> (\<exists>rest. b = marshal f @ rest)"
    by (auto simp: sendable_def length_marshal)
qed (auto simp: ReadFrame_marshal length_marshal sendable_def)

interpretation frc: prefix_codec marshal sendable ReadFrame
proof unfold_locales
  show "sendable x \<Longrightarrow> marshal x \<noteq> []" for x
    using length_marshal [of x] by (auto simp: HeaderSize_def)
qed (rule ReadFrame_spec)

section \<open>Properties\<close>

text \<open>
  Stream framing. Fed any prefix of a stream that starts with a marshalled frame,
  \<open>ReadFrame\<close> asks for more bytes exactly while the frame is incomplete, first for the header
  and then for the payload, and as soon as the last octet is there it returns the frame that was
  sent and its exact size, whatever follows on the stream.
\<close>

theorem ReadFrame_stream:
  assumes "frame_ok f" and "HeaderSize + length (fPayload f) \<le> MaxFrameSize"
  shows "ReadFrame (take k (marshal f @ rest)) =
    (if k < HeaderSize then Inl ErrShortHeader
     else if k < HeaderSize + length (fPayload f) then Inl ErrIncompleteFrame
     else Inr (f, HeaderSize + length (fPayload f)))"
proof (cases "k < HeaderSize + length (fPayload f)")
  case True
  then have *: "take k (marshal f @ rest) = take k (marshal f)"
    by (simp add: length_marshal)
  show ?thesis unfolding * ReadFrame_partial [OF assms True] using True by simp
next
  case False
  then have "take k (marshal f @ rest) = marshal f @ take (k - length (marshal f)) rest"
    by (simp add: length_marshal)
  then show ?thesis using ReadFrame_marshal [OF assms] False by (simp only:) (simp add: HeaderSize_def)
qed

definition demo_frame :: frame where
  "demo_frame = \<lparr>fVersion = 2, fFlags = 2, fType = 0x0101, fChannel = 1, fSeq = 7, fPayload = [1, 2, 3]\<rparr>"

lemma demo_frame_ok: "frame_ok demo_frame" "HeaderSize + length (fPayload demo_frame) \<le> MaxFrameSize"
  by (simp_all add: demo_frame_def frame_ok_def ProtocolVersion_def HeaderSize_def MaxFrameSize_def)

theorem ReadFrame_stream_witness:
  "ReadFrame (take 38 (marshal demo_frame @ [9, 9])) = Inl ErrIncompleteFrame
   \<and> ReadFrame (take 40 (marshal demo_frame @ [9, 9])) = Inr (demo_frame, 39)"
  using ReadFrame_stream [OF demo_frame_ok, of 38 "[9, 9]"] ReadFrame_stream [OF demo_frame_ok, of 40 "[9, 9]"]
  by (simp add: HeaderSize_def demo_frame_def)

text \<open>
  Claim C26 (canonical wire form). What \<open>ReadFrame\<close> accepts is exactly the marshalled form of
  a conformant frame: version 2, no flag besides ENC and COMP, at most \<open>MaxFrameSize\<close> octets. So a
  frame has one wire form, and two streams of accepted frames are the same octets only when they
  are the same frames.
\<close>

theorem ReadFrame_canonical:
  "(ReadFrame b = Inr (f, n) \<longleftrightarrow>
      frame_ok f \<and> HeaderSize + length (fPayload f) \<le> MaxFrameSize
      \<and> n = HeaderSize + length (fPayload f) \<and> (\<exists>rest. b = marshal f @ rest))
   \<and> (list_all sendable fs \<longrightarrow> list_all sendable gs \<longrightarrow>
      concat (map marshal fs) = concat (map marshal gs) \<longrightarrow> fs = gs)"
  using frc.concat_inj [of fs gs] by (auto simp: ReadFrame_spec sendable_def length_marshal)

theorem ReadFrame_canonical_witness:
  "list_all sendable [demo_frame, demo_frame] \<and> concat (map marshal [demo_frame]) \<noteq> concat (map marshal [demo_frame, demo_frame])"
  using ReadFrame_canonical [of "[]" demo_frame 0 "[demo_frame]" "[demo_frame, demo_frame]"] demo_frame_ok
  by (auto simp: sendable_def)

text \<open>
  Claim C27 (header integrity). Changing any one octet of the 36-octet header of a well-formed frame
  makes the parser refuse it, whichever octet it is and whatever it becomes: with \<open>ErrBadCRC\<close> in the
  checksummed octets and in the checksum itself, with \<open>ErrReservedNonzero\<close> in the reserved octets.
\<close>

theorem UnmarshalBinary_corruption:
  assumes "frame_ok f" and "i < HeaderSize" and "x \<noteq> marshal f ! i"
  shows "UnmarshalBinary ((marshal f)[i := x]) = Inl (if i < 25 then ErrBadCRC else ErrReservedNonzero)"
  using UnmarshalBinary_corrupt [OF UnmarshalBinary_marshal [OF assms(1)] _ assms(3)]
    UnmarshalBinary_reserved [OF UnmarshalBinary_marshal [OF assms(1)] _ assms(2,3)] by simp

theorem UnmarshalBinary_corruption_witness:
  "UnmarshalBinary ((marshal demo_frame)[4 := 0x12]) = Inl ErrBadCRC
    \<and> UnmarshalBinary ((marshal demo_frame)[30 := 1]) = Inl ErrReservedNonzero"
proof -
  have v: "marshal demo_frame ! 4 = 0x22" "marshal demo_frame ! 30 = 0"
    by (simp_all add: marshal_def MarshalBinary_def marshalHeaderInto_def HeaderPrefix_def Let_def demo_frame_def
        nth_append Magic_def HeaderSize_def)
  show ?thesis
    using UnmarshalBinary_corruption [OF demo_frame_ok(1), of 4 "0x12"] UnmarshalBinary_corruption [OF demo_frame_ok(1), of 30 1]
    by (simp add: v HeaderSize_def)
qed

end
