(* ===== verification/GoCrypto.thy ===== *)
theory GoCrypto
  imports Prelude
begin

text \<open>
  The parts of the Go standard library that the protocol computes with, written out from the
  standards they implement: SHA-256 (\<^verbatim>\<open>crypto/sha256\<close>), HMAC (\<^verbatim>\<open>crypto/hmac\<close>), HKDF
  (\<^verbatim>\<open>crypto/hkdf\<close>), the AES-256 block cipher (\<^verbatim>\<open>crypto/aes\<close>) and GCM with 12-octet nonces and
  16-octet tags (\<^verbatim>\<open>crypto/cipher\<close>). The lemmas give the output lengths and the two laws of an
  authenticated cipher: opening inverts sealing, and only a sealed message opens.
\<close>

section \<open>SHA-256\<close>

type_synonym sha_state = "u32 \<times> u32 \<times> u32 \<times> u32 \<times> u32 \<times> u32 \<times> u32 \<times> u32"

definition rotr :: "nat \<Rightarrow> u32 \<Rightarrow> u32" where
  "rotr n w = drop_bit n w OR push_bit (32 - n) w"

text \<open>
  FIPS 180-4 takes its constants from the first thirty-two bits of the fractional parts of the square
  roots of the first eight primes and of the cube roots of the first sixty-four. \<open>iroot d k n r\<close> finds
  the integer root of degree \<open>d\<close> bit by bit.
\<close>

primrec iroot :: "nat \<Rightarrow> nat \<Rightarrow> nat \<Rightarrow> nat \<Rightarrow> nat" where
  "iroot d 0 n r = r"
| "iroot d (Suc k) n r = iroot d k n (if (r + 2 ^ k) ^ d \<le> n then r + 2 ^ k else r)"

definition frac_root :: "nat \<Rightarrow> nat \<Rightarrow> u32" where
  "frac_root d p = of_nat (iroot d 35 (p * 2 ^ (32 * d)) 0)"

definition sha_primes :: "nat list" where
  "sha_primes = filter (\<lambda>p. \<forall>q \<in> set [2..<p]. p mod q \<noteq> 0) [2..<312]"

definition sha_K :: "u32 list" where
  "sha_K = map (frac_root 3) sha_primes"

definition sha_init :: sha_state where
  "sha_init =
    (frac_root 2 2, frac_root 2 3, frac_root 2 5, frac_root 2 7,
     frac_root 2 11, frac_root 2 13, frac_root 2 17, frac_root 2 19)"

fun sha_round :: "sha_state \<Rightarrow> u32 \<times> u32 \<Rightarrow> sha_state" where
  "sha_round (a, b, c, d, e, f, g, h) (k, w) =
    (let t1 = h + (rotr 6 e XOR rotr 11 e XOR rotr 25 e) + ((e AND f) XOR (NOT e AND g)) + k + w;
         t2 = (rotr 2 a XOR rotr 13 a XOR rotr 22 a) + ((a AND b) XOR (a AND c) XOR (b AND c))
     in (t1 + t2, a, b, c, d + t1, e, f, g))"

text \<open>The message schedule, kept with the last sixteen words in front, newest first.\<close>

primrec sha_extend :: "nat \<Rightarrow> u32 list \<Rightarrow> u32 list" where
  "sha_extend 0 ws = ws"
| "sha_extend (Suc n) ws =
    (let s0 = rotr 7 (ws ! 14) XOR rotr 18 (ws ! 14) XOR drop_bit 3 (ws ! 14);
         s1 = rotr 17 (ws ! 1) XOR rotr 19 (ws ! 1) XOR drop_bit 10 (ws ! 1)
     in sha_extend n ((ws ! 15 + s0 + ws ! 6 + s1) # ws))"

fun chunks :: "nat \<Rightarrow> nat \<Rightarrow> 'a list \<Rightarrow> 'a list list" where
  "chunks 0 k xs = []"
| "chunks (Suc n) k xs = take k xs # chunks n k (drop k xs)"

definition sha_schedule :: "bytes \<Rightarrow> u32 list" where
  "sha_schedule blk = rev (sha_extend 48 (rev (map get_u32 (chunks 16 4 blk))))"

fun sha_add :: "sha_state \<Rightarrow> sha_state \<Rightarrow> sha_state" where
  "sha_add (a, b, c, d, e, f, g, h) (a', b', c', d', e', f', g', h')
    = (a + a', b + b', c + c', d + d', e + e', f + f', g + g', h + h')"

definition sha_block :: "sha_state \<Rightarrow> bytes \<Rightarrow> sha_state" where
  "sha_block s blk = sha_add s (foldl sha_round s (zip sha_K (sha_schedule blk)))"

definition sha_pad :: "bytes \<Rightarrow> bytes" where
  "sha_pad m = m @ [0x80] @ replicate ((119 - length m mod 64) mod 64) 0 @ put_u64 (of_nat (8 * length m))"

fun sha_out :: "sha_state \<Rightarrow> bytes" where
  "sha_out (a, b, c, d, e, f, g, h) = put_u32 a @ put_u32 b @ put_u32 c @ put_u32 d @ put_u32 e @ put_u32 f @ put_u32 g @ put_u32 h"

definition sha256 :: "bytes \<Rightarrow> bytes" where
  "sha256 m = (let p = sha_pad m in sha_out (foldl sha_block sha_init (chunks (length p div 64) 64 p)))"

section \<open>HMAC and HKDF\<close>

definition hmac_key :: "bytes \<Rightarrow> bytes" where
  "hmac_key k = (let k' = (if length k > 64 then sha256 k else k) in k' @ replicate (64 - length k') 0)"

definition hmac_sha256 :: "bytes \<Rightarrow> bytes \<Rightarrow> bytes" where
  "hmac_sha256 k m =
    sha256 (map (\<lambda>b. b XOR 0x5c) (hmac_key k) @ sha256 (map (\<lambda>b. b XOR 0x36) (hmac_key k) @ m))"

text \<open>\<open>hkdf.Extract\<close> and \<open>hkdf.Expand\<close>; the latter refuses more than 255 blocks.\<close>

definition hkdf_extract :: "bytes \<Rightarrow> bytes \<Rightarrow> bytes" where
  "hkdf_extract secret salt = hmac_sha256 salt secret"

fun hkdf_blocks :: "nat \<Rightarrow> bytes \<Rightarrow> bytes \<Rightarrow> byte \<Rightarrow> bytes \<Rightarrow> bytes" where
  "hkdf_blocks 0 prk info i prev = []"
| "hkdf_blocks (Suc n) prk info i prev =
    (let t = hmac_sha256 prk (prev @ info @ [i]) in t @ hkdf_blocks n prk info (i + 1) t)"

definition hkdf_expand :: "bytes \<Rightarrow> bytes \<Rightarrow> nat \<Rightarrow> bytes option" where
  "hkdf_expand prk info len =
    (if len > 255 * 32 then None else Some (take len (hkdf_blocks ((len + 31) div 32) prk info 1 [])))"

section \<open>AES-256\<close>

definition sbox :: bytes where
  "sbox =
    [0x63, 0x7c, 0x77, 0x7b, 0xf2, 0x6b, 0x6f, 0xc5, 0x30, 0x01, 0x67, 0x2b, 0xfe, 0xd7, 0xab, 0x76,
     0xca, 0x82, 0xc9, 0x7d, 0xfa, 0x59, 0x47, 0xf0, 0xad, 0xd4, 0xa2, 0xaf, 0x9c, 0xa4, 0x72, 0xc0,
     0xb7, 0xfd, 0x93, 0x26, 0x36, 0x3f, 0xf7, 0xcc, 0x34, 0xa5, 0xe5, 0xf1, 0x71, 0xd8, 0x31, 0x15,
     0x04, 0xc7, 0x23, 0xc3, 0x18, 0x96, 0x05, 0x9a, 0x07, 0x12, 0x80, 0xe2, 0xeb, 0x27, 0xb2, 0x75,
     0x09, 0x83, 0x2c, 0x1a, 0x1b, 0x6e, 0x5a, 0xa0, 0x52, 0x3b, 0xd6, 0xb3, 0x29, 0xe3, 0x2f, 0x84,
     0x53, 0xd1, 0x00, 0xed, 0x20, 0xfc, 0xb1, 0x5b, 0x6a, 0xcb, 0xbe, 0x39, 0x4a, 0x4c, 0x58, 0xcf,
     0xd0, 0xef, 0xaa, 0xfb, 0x43, 0x4d, 0x33, 0x85, 0x45, 0xf9, 0x02, 0x7f, 0x50, 0x3c, 0x9f, 0xa8,
     0x51, 0xa3, 0x40, 0x8f, 0x92, 0x9d, 0x38, 0xf5, 0xbc, 0xb6, 0xda, 0x21, 0x10, 0xff, 0xf3, 0xd2,
     0xcd, 0x0c, 0x13, 0xec, 0x5f, 0x97, 0x44, 0x17, 0xc4, 0xa7, 0x7e, 0x3d, 0x64, 0x5d, 0x19, 0x73,
     0x60, 0x81, 0x4f, 0xdc, 0x22, 0x2a, 0x90, 0x88, 0x46, 0xee, 0xb8, 0x14, 0xde, 0x5e, 0x0b, 0xdb,
     0xe0, 0x32, 0x3a, 0x0a, 0x49, 0x06, 0x24, 0x5c, 0xc2, 0xd3, 0xac, 0x62, 0x91, 0x95, 0xe4, 0x79,
     0xe7, 0xc8, 0x37, 0x6d, 0x8d, 0xd5, 0x4e, 0xa9, 0x6c, 0x56, 0xf4, 0xea, 0x65, 0x7a, 0xae, 0x08,
     0xba, 0x78, 0x25, 0x2e, 0x1c, 0xa6, 0xb4, 0xc6, 0xe8, 0xdd, 0x74, 0x1f, 0x4b, 0xbd, 0x8b, 0x8a,
     0x70, 0x3e, 0xb5, 0x66, 0x48, 0x03, 0xf6, 0x0e, 0x61, 0x35, 0x57, 0xb9, 0x86, 0xc1, 0x1d, 0x9e,
     0xe1, 0xf8, 0x98, 0x11, 0x69, 0xd9, 0x8e, 0x94, 0x9b, 0x1e, 0x87, 0xe9, 0xce, 0x55, 0x28, 0xdf,
     0x8c, 0xa1, 0x89, 0x0d, 0xbf, 0xe6, 0x42, 0x68, 0x41, 0x99, 0x2d, 0x0f, 0xb0, 0x54, 0xbb, 0x16]"

definition sub_byte :: "byte \<Rightarrow> byte" where
  "sub_byte b = sbox ! unat b"

definition xtime :: "byte \<Rightarrow> byte" where
  "xtime b = (if bit b 7 then push_bit 1 b XOR 0x1b else push_bit 1 b)"

definition xor_bytes :: "bytes \<Rightarrow> bytes \<Rightarrow> bytes" where
  "xor_bytes xs ys = map (\<lambda>(x, y). x XOR y) (zip xs ys)"

text \<open>The key schedule: words of four octets, newest first; \<open>i\<close> counts the words made so far.\<close>

fun aes_expand :: "nat \<Rightarrow> nat \<Rightarrow> byte \<Rightarrow> bytes list \<Rightarrow> bytes list" where
  "aes_expand 0 i rcon ws = ws"
| "aes_expand (Suc n) i rcon ws =
    (let t = ws ! 0;
         t' = (if i mod 8 = 0 then xor_bytes (map sub_byte (rotate1 t)) [rcon, 0, 0, 0]
               else if i mod 8 = 4 then map sub_byte t else t)
     in aes_expand n (i + 1) (if i mod 8 = 0 then xtime rcon else rcon) (xor_bytes (ws ! 7) t' # ws))"

definition aes_round_keys :: "bytes \<Rightarrow> bytes list" where
  "aes_round_keys key = map concat (chunks 15 4 (rev (aes_expand 52 8 1 (rev (chunks 8 4 key)))))"

definition shift_rows :: "bytes \<Rightarrow> bytes" where
  "shift_rows s = map (\<lambda>i. s ! i) [0, 5, 10, 15, 4, 9, 14, 3, 8, 13, 2, 7, 12, 1, 6, 11]"

fun mix_column :: "bytes \<Rightarrow> bytes" where
  "mix_column [a, b, c, d] =
    [xtime a XOR (xtime b XOR b) XOR c XOR d, a XOR xtime b XOR (xtime c XOR c) XOR d,
     a XOR b XOR xtime c XOR (xtime d XOR d), (xtime a XOR a) XOR b XOR c XOR xtime d]"
| "mix_column s = s"

definition mix_columns :: "bytes \<Rightarrow> bytes" where
  "mix_columns s = concat (map mix_column (chunks 4 4 s))"

definition aes_encrypt :: "bytes \<Rightarrow> bytes \<Rightarrow> bytes" where
  "aes_encrypt key blk =
    (let rks = aes_round_keys key;
         s = foldl (\<lambda>s rk. xor_bytes (mix_columns (shift_rows (map sub_byte s))) rk)
               (xor_bytes blk (rks ! 0)) (take 13 (drop 1 rks))
     in xor_bytes (shift_rows (map sub_byte s)) (rks ! 14))"

section \<open>GCM\<close>

type_synonym block = "128 word"

definition aes_block :: "bytes \<Rightarrow> block \<Rightarrow> block" where
  "aes_block key b = get_be (aes_encrypt key (put_be 16 b))"

text \<open>Multiplication in \<open>GF(2^128)\<close> with the bit order of GCM.\<close>

primrec gf_loop :: "nat \<Rightarrow> block \<Rightarrow> block \<Rightarrow> block \<Rightarrow> block" where
  "gf_loop 0 x v z = z"
| "gf_loop (Suc n) x v z =
    gf_loop n x (if bit v 0 then drop_bit 1 v XOR push_bit 120 0xe1 else drop_bit 1 v) (if bit x n then z XOR v else z)"

definition gf_mul :: "block \<Rightarrow> block \<Rightarrow> block" where
  "gf_mul x y = gf_loop 128 x y 0"

definition pad16 :: "bytes \<Rightarrow> bytes" where
  "pad16 b = b @ replicate ((16 - length b mod 16) mod 16) 0"

definition ghash :: "block \<Rightarrow> bytes \<Rightarrow> block" where
  "ghash h b = foldl (\<lambda>y x. gf_mul (y XOR get_be x) h) 0 (chunks (length b div 16) 16 b)"

text \<open>\<open>inc32\<close> adds to the low 32 bits only; \<open>keystream\<close> is the counter mode.\<close>

definition inc32 :: "block \<Rightarrow> block" where
  "inc32 b = push_bit 32 (drop_bit 32 b) OR ucast (ucast b + 1 :: u32)"

primrec keystream :: "nat \<Rightarrow> bytes \<Rightarrow> block \<Rightarrow> bytes" where
  "keystream 0 key ctr = []"
| "keystream (Suc n) key ctr = put_be 16 (aes_block key ctr) @ keystream n key (inc32 ctr)"

definition gctr :: "bytes \<Rightarrow> block \<Rightarrow> bytes \<Rightarrow> bytes" where
  "gctr key ctr b = xor_bytes b (keystream ((length b + 15) div 16) key ctr)"

definition gcm_j0 :: "bytes \<Rightarrow> block" where
  "gcm_j0 nonce = get_be (nonce @ [0, 0, 0, 1])"

definition gcm_tag :: "bytes \<Rightarrow> bytes \<Rightarrow> bytes \<Rightarrow> bytes \<Rightarrow> bytes" where
  "gcm_tag key nonce aad ct =
    put_be 16 (aes_block key (gcm_j0 nonce) XOR
      ghash (aes_block key 0)
        (pad16 aad @ pad16 ct @ put_u64 (of_nat (8 * length aad)) @ put_u64 (of_nat (8 * length ct))))"

definition gcm_max :: nat where "gcm_max = (2 ^ 32 - 2) * 16"

text \<open>\<open>g.Seal(nil, nonce, plaintext, aad)\<close>; Go panics above \<open>gcm_max\<close> octets of plaintext.\<close>

definition gcm_seal :: "bytes \<Rightarrow> bytes \<Rightarrow> bytes \<Rightarrow> bytes \<Rightarrow> bytes" where
  "gcm_seal key nonce pt aad =
    (let ct = gctr key (inc32 (gcm_j0 nonce)) pt in ct @ gcm_tag key nonce aad ct)"

definition gcm_open :: "bytes \<Rightarrow> bytes \<Rightarrow> bytes \<Rightarrow> bytes \<Rightarrow> bytes option" where
  "gcm_open key nonce sealed aad =
    (if length sealed < 16 \<or> length sealed > gcm_max + 16 then None
     else let ct = take (length sealed - 16) sealed; tag = drop (length sealed - 16) sealed in
       if gcm_tag key nonce aad ct \<noteq> tag then None else Some (gctr key (inc32 (gcm_j0 nonce)) ct))"

section \<open>Lengths\<close>

lemma length_sha_out [simp]: "length (sha_out s) = 32"
  by (induction s rule: sha_out.induct) simp

lemma length_sha256 [simp, len_simps]: "length (sha256 m) = 32"
  by (simp add: sha256_def Let_def)

lemma length_hmac_sha256 [simp, len_simps]: "length (hmac_sha256 k m) = 32"
  by (simp add: hmac_sha256_def)

lemma length_hkdf_extract [simp, len_simps]: "length (hkdf_extract s k) = 32"
  by (simp add: hkdf_extract_def)

lemma length_hkdf_blocks: "length (hkdf_blocks n prk info i prev) = 32 * n"
  by (induction n prk info i prev rule: hkdf_blocks.induct) (simp_all add: Let_def)

lemma hkdf_expand_Some:
  assumes "len \<le> 8160"
  obtains out where "hkdf_expand prk info len = Some out" "length out = len"
proof
  show "hkdf_expand prk info len = Some (take len (hkdf_blocks ((len + 31) div 32) prk info 1 []))"
    using assms by (simp add: hkdf_expand_def)
  have "len \<le> 32 * ((len + 31) div 32)" by linarith
  then show "length (take len (hkdf_blocks ((len + 31) div 32) prk info 1 [])) = len"
    by (simp add: length_hkdf_blocks)
qed

lemma length_keystream: "length (keystream n key ctr) = 16 * n"
  by (induction n arbitrary: ctr) simp_all

lemma length_xor_bytes: "length (xor_bytes xs ys) = min (length xs) (length ys)"
  by (simp add: xor_bytes_def)

lemma length_gctr [simp, len_simps]: "length (gctr key ctr b) = length b"
proof -
  have "length b \<le> 16 * ((length b + 15) div 16)" by linarith
  then show ?thesis by (simp add: gctr_def length_xor_bytes length_keystream)
qed

lemma length_gcm_tag [simp, len_simps]: "length (gcm_tag key nonce aad ct) = 16"
  by (simp add: gcm_tag_def)

lemma length_gcm_seal [len_simps]: "length (gcm_seal key nonce pt aad) = length pt + 16"
  by (simp add: gcm_seal_def Let_def)

section \<open>Opening and sealing\<close>

lemma xor_bytes_involution: "length xs \<le> length ys \<Longrightarrow> xor_bytes (xor_bytes xs ys) ys = xs"
proof (induction xs arbitrary: ys)
  case (Cons x xs)
  then show ?case by (cases ys) (auto simp: xor_bytes_def xor.assoc)
qed (simp add: xor_bytes_def)

lemma gctr_involution: "gctr key ctr (gctr key ctr b) = b"
proof -
  have "length b \<le> length (keystream ((length b + 15) div 16) key ctr)"
    unfolding length_keystream by linarith
  then show ?thesis
    using length_gctr [of key ctr b] by (simp add: gctr_def xor_bytes_involution)
qed

lemma gcm_open_iff:
  "gcm_open key nonce sealed aad = Some pt \<longleftrightarrow> length pt \<le> gcm_max \<and> sealed = gcm_seal key nonce pt aad"
proof
  let ?ctr = "inc32 (gcm_j0 nonce)"
  assume o: "gcm_open key nonce sealed aad = Some pt"
  let ?ct = "take (length sealed - 16) sealed"
  from o have len: "16 \<le> length sealed" "length sealed \<le> gcm_max + 16"
    and tag: "gcm_tag key nonce aad ?ct = drop (length sealed - 16) sealed" and pt: "pt = gctr key ?ctr ?ct"
    by (auto simp: gcm_open_def Let_def split: if_splits)
  then show "length pt \<le> gcm_max \<and> sealed = gcm_seal key nonce pt aad"
    by (simp add: gcm_seal_def gctr_involution)
next
  assume "length pt \<le> gcm_max \<and> sealed = gcm_seal key nonce pt aad"
  then show "gcm_open key nonce sealed aad = Some pt"
    by (simp add: gcm_open_def gcm_seal_def gctr_involution Let_def)
qed

end
