(* ===== verification/Tlv.thy ===== *)
theory Tlv
  imports Registry Codec
begin

text \<open>
  The extension TLVs of \<^verbatim>\<open>src/impl/go/tlv.go\<close>: \<open>TLV.Encode\<close>, \<open>DecodeTLVs\<close> and the
  must-understand rule. The decoder is characterised exactly: it accepts precisely the
  concatenations of at most 64 encodings, each of a value below \<open>2^16\<close> octets.
\<close>

section \<open>Model\<close>

type_synonym tlv_type = u16

definition TLVProfileOffer :: tlv_type where "TLVProfileOffer = 0x01"
definition TLVProfileSelect :: tlv_type where "TLVProfileSelect = 0x02"
definition TLVKEMOffer :: tlv_type where "TLVKEMOffer = 0x03"
definition TLVKEMSelect :: tlv_type where "TLVKEMSelect = 0x04"
definition TLVSigOffer :: tlv_type where "TLVSigOffer = 0x05"
definition TLVSigSelect :: tlv_type where "TLVSigSelect = 0x06"
definition TLVKEMShare :: tlv_type where "TLVKEMShare = 0x07"
definition TLVKEMCiphertext :: tlv_type where "TLVKEMCiphertext = 0x08"
definition TLVIdentityKey :: tlv_type where "TLVIdentityKey = 0x09"
definition TLVCertVerify :: tlv_type where "TLVCertVerify = 0x0A"
definition TLVFinished :: tlv_type where "TLVFinished = 0x0B"
definition TLVAEADOffer :: tlv_type where "TLVAEADOffer = 0x0C"
definition TLVAEADSelect :: tlv_type where "TLVAEADSelect = 0x0D"
definition TLVKeyUpdateMarker :: tlv_type where "TLVKeyUpdateMarker = 0x17"
definition TLVProtectionMode :: tlv_type where "TLVProtectionMode = 0x18"
definition TLVRatchetGeneration :: tlv_type where "TLVRatchetGeneration = 0x19"

lemmas tlv_type_defs = TLVProfileOffer_def TLVProfileSelect_def TLVKEMOffer_def TLVKEMSelect_def
  TLVSigOffer_def TLVSigSelect_def TLVKEMShare_def TLVKEMCiphertext_def TLVIdentityKey_def
  TLVCertVerify_def TLVFinished_def TLVAEADOffer_def TLVAEADSelect_def TLVKeyUpdateMarker_def
  TLVProtectionMode_def TLVRatchetGeneration_def

definition MaxTLVsPerFrame :: nat where "MaxTLVsPerFrame = 64"

record tlv =
  tType :: tlv_type
  tValue :: bytes

definition ForwardIncompatible :: "tlv_type \<Rightarrow> bool" where
  "ForwardIncompatible t \<longleftrightarrow> t AND 0x8000 \<noteq> 0"

primrec CheckMustUnderstand :: "tlv list \<Rightarrow> (tlv_type \<Rightarrow> bool) \<Rightarrow> npamp_err + unit" where
  "CheckMustUnderstand [] recognized = Inr ()"
| "CheckMustUnderstand (t # ts) recognized =
    (if ForwardIncompatible (tType t) \<and> \<not> recognized (tType t) then Inl ErrUnknownCriticalTLV
     else CheckMustUnderstand ts recognized)"

text \<open>\<open>TLV.Encode\<close> with an empty destination; the code appends this to \<open>dst\<close>.\<close>

definition tlv_Encode :: "tlv \<Rightarrow> bytes" where
  "tlv_Encode t = put_u16 (tType t) @ put_u16 (of_nat (length (tValue t))) @ tValue t"

definition encodeTLVs :: "tlv list \<Rightarrow> bytes" where
  "encodeTLVs ts = concat (map tlv_Encode ts)"

text \<open>One iteration of the loop of \<open>DecodeTLVs\<close>: the TLV at the front and its size.\<close>

definition decodeTLV :: "bytes \<Rightarrow> npamp_err + tlv \<times> nat" where
  "decodeTLV buf =
    (if length buf < 4 then Inl ErrTruncatedTLV
     else let typ = get_u16 (gslice 0 2 buf); ln = unat (get_u16 (gslice 2 4 buf)) in
       if length buf < 4 + ln then Inl ErrTruncatedTLV
       else Inr (\<lparr>tType = typ, tValue = gslice 4 (4 + ln) buf\<rparr>, 4 + ln))"

lemma decodeTLV_size: "decodeTLV buf = Inr (t, n) \<Longrightarrow> 4 \<le> n \<and> n \<le> length buf"
  by (auto simp: decodeTLV_def Let_def split: if_splits)

function decodeTLVs_loop :: "bytes \<Rightarrow> tlv list \<Rightarrow> npamp_err + tlv list" where
  "decodeTLVs_loop buf out =
    (if buf = [] then Inr out
     else case decodeTLV buf of
       Inl e \<Rightarrow> Inl e
     | Inr (t, n) \<Rightarrow>
         if length (out @ [t]) > MaxTLVsPerFrame then Inl ErrTooManyTLVs
         else decodeTLVs_loop (drop n buf) (out @ [t]))"
  by auto
termination
  by (relation "measure (\<lambda>(buf, _). length buf)") (auto dest!: decodeTLV_size simp flip: length_greater_0_conv)

declare decodeTLVs_loop.simps [simp del]

definition DecodeTLVs :: "bytes \<Rightarrow> npamp_err + tlv list" where
  "DecodeTLVs buf = decodeTLVs_loop buf []"

section \<open>A single TLV\<close>

definition tlv_ok :: "tlv \<Rightarrow> bool" where
  "tlv_ok t \<longleftrightarrow> length (tValue t) < 2 ^ 16"

lemma length_tlv_Encode [len_simps]: "length (tlv_Encode t) = 4 + length (tValue t)"
  by (simp add: tlv_Encode_def)

lemma decodeTLV_Encode:
  assumes "tlv_ok t"
  shows "decodeTLV (tlv_Encode t @ rest) = Inr (t, length (tlv_Encode t))"
proof -
  have "gslice 0 2 (tlv_Encode t @ rest) = put_u16 (tType t)"
    "gslice 2 4 (tlv_Encode t @ rest) = put_u16 (of_nat (length (tValue t)))"
    "gslice 4 (4 + length (tValue t)) (tlv_Encode t @ rest) = tValue t"
    by (simp_all add: tlv_Encode_def gslice_def)
  with assms show ?thesis
    by (simp add: decodeTLV_def tlv_ok_def unat_of_nat_small length_tlv_Encode)
qed

lemma decodeTLV_sound:
  assumes "decodeTLV b = Inr (t, n)"
  shows "tlv_ok t \<and> n = length (tlv_Encode t) \<and> b = tlv_Encode t @ drop n b"
proof -
  let ?ln = "get_u16 (gslice 2 4 b)"
  from assms have len: "4 + unat ?ln \<le> length b" and n: "n = 4 + unat ?ln"
    and t: "t = \<lparr>tType = get_u16 (gslice 0 2 b), tValue = gslice 4 (4 + unat ?ln) b\<rparr>"
    by (auto simp: decodeTLV_def Let_def split: if_splits)
  have lv: "length (tValue t) = unat ?ln" using len by (simp add: t)
  have ok: "tlv_ok t" using unat_less [of ?ln] by (simp add: tlv_ok_def lv)
  have "tlv_Encode t = gslice 0 2 b @ gslice 2 4 b @ gslice 4 n b"
    using len lv by (simp add: tlv_Encode_def t put_get_uN n)
  also have "\<dots> = gslice 0 n b" by (simp add: gslice_joins n)
  finally have "tlv_Encode t @ drop n b = b" using len n by (simp add: gslice_drop)
  then show ?thesis using ok lv n by (simp add: length_tlv_Encode)
qed

interpretation tlvc: prefix_codec tlv_Encode tlv_ok decodeTLV
proof unfold_locales
  show "decodeTLV b = Inr (x, n) \<longleftrightarrow> tlv_ok x \<and> n = length (tlv_Encode x) \<and> (\<exists>rest. b = tlv_Encode x @ rest)" for b x n
    using decodeTLV_sound [of b x n] by (auto simp: decodeTLV_Encode)
  show "tlv_ok x \<Longrightarrow> tlv_Encode x \<noteq> []" for x
    using length_tlv_Encode [of x] by auto
qed

section \<open>The list decoder\<close>

lemma encodeTLVs_simps [simp]:
  "encodeTLVs [] = []" "encodeTLVs (t # ts) = tlv_Encode t @ encodeTLVs ts"
  "encodeTLVs (ts @ us) = encodeTLVs ts @ encodeTLVs us"
  by (simp_all add: encodeTLVs_def)

lemma decodeTLVs_loop_encode:
  "list_all tlv_ok us \<Longrightarrow> length out \<le> MaxTLVsPerFrame \<Longrightarrow>
    decodeTLVs_loop (encodeTLVs us) out =
      (if length (out @ us) \<le> MaxTLVsPerFrame then Inr (out @ us) else Inl ErrTooManyTLVs)"
proof (induction us arbitrary: out)
  case Nil
  then show ?case by (simp add: decodeTLVs_loop.simps)
next
  case (Cons t us)
  have d: "decodeTLV (encodeTLVs (t # us)) = Inr (t, length (tlv_Encode t))"
    using Cons.prems by (simp add: tlvc.dec_enc)
  have ne: "encodeTLVs (t # us) \<noteq> []"
    using Cons.prems by (simp add: tlvc.enc_nonempty)
  show ?case
    using Cons.IH [of "out @ [t]"] Cons.prems ne
    by (subst decodeTLVs_loop.simps) (auto simp: d simp del: encodeTLVs_simps(2), simp_all)
qed

lemma decodeTLVs_loop_sound:
  "decodeTLVs_loop b out = Inr ts \<Longrightarrow>
    \<exists>us. ts = out @ us \<and> list_all tlv_ok us \<and> b = encodeTLVs us \<and> (us = [] \<or> length ts \<le> MaxTLVsPerFrame)"
proof (induction b out rule: decodeTLVs_loop.induct)
  case (1 b out)
  show ?case
  proof (cases "b = []")
    case True
    with 1 show ?thesis by (simp add: decodeTLVs_loop.simps)
  next
    case False
    with 1(2) obtain t n where d: "decodeTLV b = Inr (t, n)" and m: "length (out @ [t]) \<le> MaxTLVsPerFrame"
      and r: "decodeTLVs_loop (drop n b) (out @ [t]) = Inr ts"
      by (subst (asm) decodeTLVs_loop.simps) (auto split: sum.splits if_splits)
    with 1(1) [OF False d refl] obtain us where us: "ts = (out @ [t]) @ us" "list_all tlv_ok us"
      "drop n b = encodeTLVs us" "us = [] \<or> length ts \<le> MaxTLVsPerFrame"
      by fastforce
    moreover from d have "b = tlv_Encode t @ drop n b" "tlv_ok t"
      using decodeTLV_sound by blast+
    ultimately show ?thesis using m by (intro exI [of _ "t # us"]) auto
  qed
qed

lemma DecodeTLVs_encode:
  "list_all tlv_ok ts \<Longrightarrow> length ts \<le> MaxTLVsPerFrame \<Longrightarrow> DecodeTLVs (encodeTLVs ts) = Inr ts"
  by (simp add: DecodeTLVs_def decodeTLVs_loop_encode)

lemma DecodeTLVs_sound:
  "DecodeTLVs b = Inr ts \<Longrightarrow> list_all tlv_ok ts \<and> length ts \<le> MaxTLVsPerFrame \<and> b = encodeTLVs ts"
  using decodeTLVs_loop_sound [of b "[]" ts] by (auto simp: DecodeTLVs_def)

lemma CheckMustUnderstand_iff:
  "CheckMustUnderstand ts r = Inr u \<longleftrightarrow> (\<forall>t \<in> set ts. ForwardIncompatible (tType t) \<longrightarrow> r (tType t))"
  by (induction ts) auto

section \<open>Properties\<close>

text \<open>
  TLV lists. \<open>DecodeTLVs\<close> accepts a payload exactly when it is the concatenation of
  the encodings of at most \<open>MaxTLVsPerFrame\<close> TLVs with values below \<open>2^16\<close> octets, and then
  returns those TLVs in order; a longer list of well-formed TLVs is \<open>ErrTooManyTLVs\<close>. No payload
  decodes in two ways.
\<close>

theorem DecodeTLVs_exact:
  "(DecodeTLVs b = Inr ts \<longleftrightarrow> b = encodeTLVs ts \<and> length ts \<le> MaxTLVsPerFrame \<and> list_all tlv_ok ts)
   \<and> (list_all tlv_ok us \<longrightarrow> length us > MaxTLVsPerFrame \<longrightarrow> DecodeTLVs (encodeTLVs us) = Inl ErrTooManyTLVs)"
proof (intro conjI impI iffI)
  assume "DecodeTLVs b = Inr ts"
  then show "b = encodeTLVs ts" "length ts \<le> MaxTLVsPerFrame" "list_all tlv_ok ts"
    using DecodeTLVs_sound by blast+
next
  assume "b = encodeTLVs ts \<and> length ts \<le> MaxTLVsPerFrame \<and> list_all tlv_ok ts"
  then show "DecodeTLVs b = Inr ts" by (simp add: DecodeTLVs_encode)
next
  assume "list_all tlv_ok us" "length us > MaxTLVsPerFrame"
  then show "DecodeTLVs (encodeTLVs us) = Inl ErrTooManyTLVs"
    by (simp add: DecodeTLVs_def decodeTLVs_loop_encode)
qed

theorem DecodeTLVs_exact_witness:
  "DecodeTLVs [0, 7, 0, 1, 0xAB, 0, 2, 0, 0] = Inr [\<lparr>tType = 7, tValue = [0xAB]\<rparr>, \<lparr>tType = 2, tValue = []\<rparr>]
   \<and> DecodeTLVs (encodeTLVs (replicate 65 \<lparr>tType = 2, tValue = []\<rparr>)) = Inl ErrTooManyTLVs"
proof -
  let ?many = "replicate 65 \<lparr>tType = 2, tValue = []\<rparr>"
  have "list_all tlv_ok ?many" by (simp add: list_all_length tlv_ok_def)
  then show ?thesis
    using DecodeTLVs_exact [of "[0, 7, 0, 1, 0xAB, 0, 2, 0, 0]" "[\<lparr>tType = 7, tValue = [0xAB]\<rparr>, \<lparr>tType = 2, tValue = []\<rparr>]" ?many]
    by (simp add: tlv_Encode_def put_uN_eval MaxTLVsPerFrame_def tlv_ok_def)
qed

end
