(* ===== verification/KeySchedule.thy ===== *)
theory KeySchedule
  imports GoCrypto Registry Tlv
begin

text \<open>
  The key schedule, the record cipher and the handshake transcript:
  \<^verbatim>\<open>src/impl/go/keyschedule.go\<close>, \<^verbatim>\<open>aead.go\<close> and \<^verbatim>\<open>transcript.go\<close>. The lemmas show that the
  inputs of the derivations are injective encodings of their context, the sizes of the derived
  keys, that a profile without a suite is refused everywhere, that two sequence numbers never give
  the same nonce, and that a record opens exactly when it is the sealing of its plaintext.
\<close>

section \<open>Key schedule\<close>

text \<open>A Go string literal as octets.\<close>

definition str :: "string \<Rightarrow> bytes" where
  "str s = map (\<lambda>c. of_nat (of_char c)) s"

definition LabelPrefix :: bytes where "LabelPrefix = str ''n-pamp ''"

type_synonym direction = byte
definition DirClientToServer :: direction where "DirClientToServer = 0"
definition DirServerToClient :: direction where "DirServerToClient = 1"

text \<open>A value of type \<open>func() hash.Hash\<close>: the only constructor the package uses is \<open>sha256.New\<close>.\<close>

datatype hash_fn = SHA256

fun hash_Size :: "hash_fn \<Rightarrow> nat" where "hash_Size SHA256 = 32"
fun hash_sum :: "hash_fn \<Rightarrow> bytes \<Rightarrow> bytes" where "hash_sum SHA256 m = sha256 m"
fun hash_hmac :: "hash_fn \<Rightarrow> bytes \<Rightarrow> bytes \<Rightarrow> bytes" where "hash_hmac SHA256 k m = hmac_sha256 k m"
fun hash_Extract :: "hash_fn \<Rightarrow> bytes \<Rightarrow> bytes \<Rightarrow> bytes" where
  "hash_Extract SHA256 secret salt = hkdf_extract secret salt"
fun hash_Expand :: "hash_fn \<Rightarrow> bytes \<Rightarrow> bytes \<Rightarrow> nat \<Rightarrow> npamp_err + bytes" where
  "hash_Expand SHA256 prk info len =
    (case hkdf_expand prk info len of None \<Rightarrow> Inl ErrHKDFLength | Some out \<Rightarrow> Inr out)"

definition hashForProfile :: "profile \<Rightarrow> npamp_err + hash_fn" where
  "hashForProfile p = (if p = ProfileStandard then Inr SHA256 else Inl ErrNoSuiteForProfile)"

definition HkdfLabel :: "bytes \<Rightarrow> bytes \<Rightarrow> nat \<Rightarrow> bytes" where
  "HkdfLabel label context len =
    (let full = LabelPrefix @ label in
     put_u16 (of_nat len) @ [of_nat (length full)] @ full @ [of_nat (length context)] @ context)"

definition HkdfExpandLabel :: "bytes \<Rightarrow> bytes \<Rightarrow> bytes \<Rightarrow> nat \<Rightarrow> hash_fn \<Rightarrow> npamp_err + bytes" where
  "HkdfExpandLabel secret label context len h = hash_Expand h secret (HkdfLabel label context len) len"

definition trafficContext :: "direction \<Rightarrow> u64 \<Rightarrow> aead_id \<Rightarrow> channel_id \<Rightarrow> bytes" where
  "trafficContext dir epoch suite channel = [dir] @ put_u64 epoch @ put_u16 suite @ put_u16 channel"

definition DeriveTrafficSecret :: "bytes \<Rightarrow> direction \<Rightarrow> u64 \<Rightarrow> aead_id \<Rightarrow> channel_id \<Rightarrow> profile \<Rightarrow> npamp_err + bytes" where
  "DeriveTrafficSecret master dir epoch suite channel p =
    rbind (hashForProfile p) (\<lambda>h.
      HkdfExpandLabel master (str ''traffic'') (trafficContext dir epoch suite channel) (hash_Size h) h)"

record SharedSecrets =
  ssMLKEM :: bytes
  ssX25519 :: bytes

definition Combined :: "SharedSecrets \<Rightarrow> bytes" where
  "Combined s = ssMLKEM s @ ssX25519 s"

definition HandshakeSecret :: "SharedSecrets \<Rightarrow> profile \<Rightarrow> npamp_err + bytes" where
  "HandshakeSecret ss p =
    rbind (hashForProfile p) (\<lambda>h. Inr (hash_Extract h (Combined ss) (replicate (hash_Size h) 0)))"

definition DeriveHandshakeTrafficSecrets :: "bytes \<Rightarrow> bytes \<Rightarrow> profile \<Rightarrow> npamp_err + bytes \<times> bytes" where
  "DeriveHandshakeTrafficSecrets handshakeSecret thKEM p =
    rbind (hashForProfile p) (\<lambda>h.
    rbind (HkdfExpandLabel handshakeSecret (str ''c hs'') thKEM (hash_Size h) h) (\<lambda>cHS.
    rbind (HkdfExpandLabel handshakeSecret (str ''s hs'') thKEM (hash_Size h) h) (\<lambda>sHS.
    Inr (cHS, sHS))))"

definition DeriveMasterSecret :: "bytes \<Rightarrow> bytes \<Rightarrow> profile \<Rightarrow> npamp_err + bytes" where
  "DeriveMasterSecret handshakeSecret thCCV p =
    rbind (hashForProfile p) (\<lambda>h. HkdfExpandLabel handshakeSecret (str ''master'') thCCV (hash_Size h) h)"

definition DeriveFinishedKey :: "bytes \<Rightarrow> profile \<Rightarrow> npamp_err + bytes" where
  "DeriveFinishedKey handshakeTrafficSecret p =
    rbind (hashForProfile p) (\<lambda>h. HkdfExpandLabel handshakeTrafficSecret (str ''finished'') [] (hash_Size h) h)"

definition RatchetMasterTier1 :: "bytes \<Rightarrow> u64 \<Rightarrow> profile \<Rightarrow> npamp_err + bytes" where
  "RatchetMasterTier1 master targetGen p =
    rbind (hashForProfile p) (\<lambda>h.
      HkdfExpandLabel master (str ''master ratchet'') (put_u64 targetGen) (hash_Size h) h)"

text \<open>The wipe of the intermediate \<open>rekemSecret\<close> has no effect on the result.\<close>

definition RatchetMasterTier2 :: "bytes \<Rightarrow> bytes \<Rightarrow> bytes \<Rightarrow> profile \<Rightarrow> npamp_err + bytes" where
  "RatchetMasterTier2 master newSS thRekem p =
    rbind (hashForProfile p) (\<lambda>h.
      let rekemSecret = hash_Extract h newSS master in
      HkdfExpandLabel rekemSecret (str ''master ratchet rekem'') thRekem (hash_Size h) h)"

definition DeriveKeyIV :: "bytes \<Rightarrow> profile \<Rightarrow> npamp_err + bytes \<times> bytes" where
  "DeriveKeyIV secret p =
    rbind (hashForProfile p) (\<lambda>h.
    rbind (HkdfExpandLabel secret (str ''key'') [] 32 h) (\<lambda>k.
    rbind (HkdfExpandLabel secret (str ''iv'') [] 12 h) (\<lambda>v.
    Inr (k, v))))"

section \<open>Record cipher\<close>

text \<open>The 12-octet IV XOR the sequence number in the low eight octets.\<close>

definition DeriveNonce :: "bytes \<Rightarrow> u64 \<Rightarrow> bytes" where
  "DeriveNonce iv seq = xor_bytes (replicate 4 0 @ put_u64 seq) iv"

definition SealAES256GCM :: "bytes \<Rightarrow> bytes \<Rightarrow> u64 \<Rightarrow> bytes \<Rightarrow> bytes \<Rightarrow> npamp_err + bytes" where
  "SealAES256GCM key iv seq aad plaintext = Inr (gcm_seal key (DeriveNonce iv seq) plaintext aad)"

definition OpenAES256GCM :: "bytes \<Rightarrow> bytes \<Rightarrow> u64 \<Rightarrow> bytes \<Rightarrow> bytes \<Rightarrow> npamp_err + bytes" where
  "OpenAES256GCM key iv seq aad sealed =
    (case gcm_open key (DeriveNonce iv seq) sealed aad of None \<Rightarrow> Inl ErrAEADOpen | Some pt \<Rightarrow> Inr pt)"

definition SelectAEAD :: "aead_id list \<Rightarrow> u64 \<Rightarrow> npamp_err + aead_id" where
  "SelectAEAD suites seq =
    (if suites = [] then Inl ErrNoAEADSuite else Inr (suites ! unat (seq mod of_nat (length suites))))"

section \<open>Transcript\<close>

record Transcript =
  trHash :: hash_fn
  trBuf :: bytes

definition NewTranscript :: "profile \<Rightarrow> npamp_err + Transcript" where
  "NewTranscript p = rbind (hashForProfile p) (\<lambda>h. Inr \<lparr>trHash = h, trBuf = []\<rparr>)"

definition AddFrameType :: "Transcript \<Rightarrow> frame_type \<Rightarrow> Transcript" where
  "AddFrameType t ft = t\<lparr>trBuf := trBuf t @ put_u16 ft\<rparr>"

definition AddTLV :: "Transcript \<Rightarrow> tlv \<Rightarrow> Transcript" where
  "AddTLV t v = t\<lparr>trBuf := trBuf t @ tlv_Encode v\<rparr>"

definition AddFrame :: "Transcript \<Rightarrow> frame_type \<Rightarrow> tlv list \<Rightarrow> Transcript" where
  "AddFrame t ft tlvs = foldl AddTLV (AddFrameType t ft) tlvs"

definition Sum :: "Transcript \<Rightarrow> bytes" where
  "Sum t = hash_sum (trHash t) (trBuf t)"

section \<open>Labels and contexts\<close>

lemma length_str [simp, len_simps]: "length (str s) = length s"
  by (simp add: str_def)

lemma str_inject [simp]: "str a = str b \<longleftrightarrow> a = b"
proof -
  have "(of_char c :: nat) < 256" for c :: char
    using mod_less_divisor [of 256 "of_char c :: nat"] by simp
  then have "unat (of_nat (of_char c) :: byte) = of_char c" for c :: char
    by (intro unat_of_nat_small) simp
  then have "inj (\<lambda>c :: char. of_nat (of_char c) :: byte)"
    by (intro injI) (metis of_char_eq_iff)
  then show ?thesis by (simp add: str_def inj_map_eq_map)
qed

lemma of_nat_inject:
  assumes "a < 2 ^ LENGTH('a::len)" "b < 2 ^ LENGTH('a)"
  shows "(of_nat a :: 'a word) = of_nat b \<longleftrightarrow> a = b"
  using unat_of_nat_small [OF assms(1)] unat_of_nat_small [OF assms(2)] by metis

lemma length_LabelPrefix [simp]: "length LabelPrefix = 7"
  by (simp add: LabelPrefix_def)

lemma HkdfLabel_inject:
  assumes "length l \<le> 248" "length l' \<le> 248" "length c \<le> 255" "length c' \<le> 255" "n < 65536" "n' < 65536"
  shows "HkdfLabel l c n = HkdfLabel l' c' n' \<longleftrightarrow> l = l' \<and> c = c' \<and> n = n'"
proof
  assume "HkdfLabel l c n = HkdfLabel l' c' n'"
  then have n: "(of_nat n :: u16) = of_nat n'" and ll: "(of_nat (7 + length l) :: byte) = of_nat (7 + length l')"
    and r: "(LabelPrefix @ l) @ [of_nat (length c)] @ c = (LabelPrefix @ l') @ [of_nat (length c')] @ c'"
    by (simp_all add: HkdfLabel_def Let_def)
  have "length l = length l'" using ll assms(1,2) of_nat_inject [of "7 + length l" "7 + length l'", where 'a = 8] by simp
  then show "l = l' \<and> c = c' \<and> n = n'" using r n assms(5,6) of_nat_inject [of n n', where 'a = 16] by simp
qed simp

lemma length_trafficContext [simp]: "length (trafficContext d e s c) = 13"
  by (simp add: trafficContext_def)

lemma trafficContext_inject [simp]:
  "trafficContext d e s c = trafficContext d' e' s' c' \<longleftrightarrow> d = d' \<and> e = e' \<and> s = s' \<and> c = c'"
  by (simp add: trafficContext_def)

section \<open>The derivations\<close>

lemma hashForProfile_Standard [simp]: "hashForProfile ProfileStandard = Inr SHA256"
  by (simp add: hashForProfile_def)

lemma hashForProfile_other: "p \<noteq> ProfileStandard \<Longrightarrow> hashForProfile p = Inl ErrNoSuiteForProfile"
  by (simp add: hashForProfile_def)

lemma HkdfExpandLabel_Inr:
  "len \<le> 8160 \<Longrightarrow> \<exists>out. HkdfExpandLabel secret label context len SHA256 = Inr out \<and> length out = len"
  by (rule hkdf_expand_Some [of len secret "HkdfLabel label context len"]) (simp_all add: HkdfExpandLabel_def)

lemma DeriveTrafficSecret_Inr: "\<exists>ts. DeriveTrafficSecret m d e s c ProfileStandard = Inr ts \<and> length ts = 32"
  using HkdfExpandLabel_Inr [of 32] by (simp add: DeriveTrafficSecret_def)

lemma DeriveKeyIV_Inr: "\<exists>k v. DeriveKeyIV ts ProfileStandard = Inr (k, v) \<and> length k = 32 \<and> length v = 12"
proof -
  obtain k v where "HkdfExpandLabel ts (str ''key'') [] 32 SHA256 = Inr k" "length k = 32"
    "HkdfExpandLabel ts (str ''iv'') [] 12 SHA256 = Inr v" "length v = 12"
    using HkdfExpandLabel_Inr [of 32 ts "str ''key''" "[]"] HkdfExpandLabel_Inr [of 12 ts "str ''iv''" "[]"] by auto
  then show ?thesis by (simp add: DeriveKeyIV_def)
qed

lemma DeriveKeyIV_length: "DeriveKeyIV ts p = Inr (k, v) \<Longrightarrow> length k = 32 \<and> length v = 12"
  using DeriveKeyIV_Inr [of ts] by (cases "p = ProfileStandard") (auto simp: DeriveKeyIV_def hashForProfile_other)

lemma derivation_refused:
  assumes "p \<noteq> ProfileStandard"
  shows "DeriveTrafficSecret m d e s c p = Inl ErrNoSuiteForProfile"
    and "HandshakeSecret ss p = Inl ErrNoSuiteForProfile"
    and "DeriveHandshakeTrafficSecrets hs th p = Inl ErrNoSuiteForProfile"
    and "DeriveMasterSecret hs th p = Inl ErrNoSuiteForProfile"
    and "DeriveFinishedKey hts p = Inl ErrNoSuiteForProfile"
    and "RatchetMasterTier1 m g p = Inl ErrNoSuiteForProfile"
    and "RatchetMasterTier2 m nss th p = Inl ErrNoSuiteForProfile"
    and "DeriveKeyIV ts p = Inl ErrNoSuiteForProfile"
    and "NewTranscript p = Inl ErrNoSuiteForProfile"
  using assms by (simp_all add: hashForProfile_other DeriveTrafficSecret_def HandshakeSecret_def
      DeriveHandshakeTrafficSecrets_def DeriveMasterSecret_def DeriveFinishedKey_def RatchetMasterTier1_def
      RatchetMasterTier2_def DeriveKeyIV_def NewTranscript_def)

section \<open>Nonces and records\<close>

lemma DeriveNonce_inject:
  assumes "length iv = 12"
  shows "DeriveNonce iv s = DeriveNonce iv s' \<longleftrightarrow> s = s'"
proof
  assume eq: "DeriveNonce iv s = DeriveNonce iv s'"
  have "xor_bytes (DeriveNonce iv x) iv = replicate 4 0 @ put_u64 x" for x
    using assms by (simp add: DeriveNonce_def xor_bytes_involution)
  with eq show "s = s'" by (metis append_same_eq put_uN_inject(3) same_append_eq)
qed simp

text \<open>
  What the record layer relies on in an authenticated cipher: sealing is total and adds a
  16-octet tag, and a record opens to a plaintext exactly when it is the sealing of it.
\<close>

locale record_cipher =
  fixes seal :: "bytes \<Rightarrow> bytes \<Rightarrow> u64 \<Rightarrow> bytes \<Rightarrow> bytes \<Rightarrow> npamp_err + bytes"
    and unseal :: "bytes \<Rightarrow> bytes \<Rightarrow> u64 \<Rightarrow> bytes \<Rightarrow> bytes \<Rightarrow> npamp_err + bytes"
    and limit :: nat
  assumes seal_total: "\<exists>sealed. seal key iv seq aad pt = Inr sealed \<and> length sealed = length pt + 16"
    and unseal_iff: "unseal key iv seq aad sealed = Inr pt \<longleftrightarrow> length pt \<le> limit \<and> seal key iv seq aad pt = Inr sealed"
begin

lemma unseal_seal: "length pt \<le> limit \<Longrightarrow> rbind (seal key iv seq aad pt) (unseal key iv seq aad) = Inr pt"
  using seal_total [of key iv seq aad pt] by (auto simp: unseal_iff)

lemma seal_inject:
  "length pt \<le> limit \<Longrightarrow> length pt' \<le> limit \<Longrightarrow> seal key iv seq aad pt = seal key iv seq aad pt' \<Longrightarrow> pt = pt'"
  by (metis unseal_seal sum.inject(2))

lemma unseal_length: "unseal key iv seq aad sealed = Inr pt \<Longrightarrow> length sealed = length pt + 16"
  using seal_total [of key iv seq aad pt] by (auto simp: unseal_iff)

end

lemma OpenAES256GCM_iff:
  "OpenAES256GCM key iv seq aad sealed = Inr pt \<longleftrightarrow> length pt \<le> gcm_max \<and> SealAES256GCM key iv seq aad pt = Inr sealed"
  using gcm_open_iff [of key "DeriveNonce iv seq" sealed aad]
  by (cases "gcm_open key (DeriveNonce iv seq) sealed aad") (auto simp: OpenAES256GCM_def SealAES256GCM_def)

interpretation gcm: record_cipher SealAES256GCM OpenAES256GCM gcm_max
proof
  show "\<exists>sealed. SealAES256GCM key iv seq aad pt = Inr sealed \<and> length sealed = length pt + 16" for key iv seq aad pt
    by (simp add: SealAES256GCM_def length_gcm_seal)
qed (rule OpenAES256GCM_iff)

section \<open>Transcript\<close>

lemma AddFrame_simps [simp]:
  "trHash (AddFrame t ft tlvs) = trHash t"
  "trBuf (AddFrame t ft tlvs) = trBuf t @ put_u16 ft @ encodeTLVs tlvs"
proof -
  have "trHash (foldl AddTLV t tlvs) = trHash t" "trBuf (foldl AddTLV t tlvs) = trBuf t @ encodeTLVs tlvs" for t
    by (induction tlvs arbitrary: t) (simp_all add: AddTLV_def)
  then show "trHash (AddFrame t ft tlvs) = trHash t" "trBuf (AddFrame t ft tlvs) = trBuf t @ put_u16 ft @ encodeTLVs tlvs"
    by (simp_all add: AddFrame_def AddFrameType_def)
qed

lemma NewTranscript_Standard [simp]: "NewTranscript ProfileStandard = Inr \<lparr>trHash = SHA256, trBuf = []\<rparr>"
  by (simp add: NewTranscript_def)

lemma length_Sum [simp, len_simps]: "length (Sum t) = 32"
  by (cases "trHash t") (simp add: Sum_def)

section \<open>The derivations of the schedule\<close>

text \<open>
  The nine uses of \<open>HkdfExpandLabel\<close>, with what the context of each one carries: the input of
  HKDF-Expand and the number of octets that are expanded.
\<close>

datatype derivation =
    TrafficD direction u64 aead_id channel_id
  | KeyD
  | IVD
  | ClientHandshakeD bytes
  | ServerHandshakeD bytes
  | MasterD bytes
  | FinishedD
  | Tier1D u64
  | Tier2D bytes

fun labelD :: "derivation \<Rightarrow> bytes" where
  "labelD (TrafficD _ _ _ _) = str ''traffic''"
| "labelD KeyD = str ''key''"
| "labelD IVD = str ''iv''"
| "labelD (ClientHandshakeD _) = str ''c hs''"
| "labelD (ServerHandshakeD _) = str ''s hs''"
| "labelD (MasterD _) = str ''master''"
| "labelD FinishedD = str ''finished''"
| "labelD (Tier1D _) = str ''master ratchet''"
| "labelD (Tier2D _) = str ''master ratchet rekem''"

fun contextD :: "derivation \<Rightarrow> bytes" where
  "contextD (TrafficD d e s ch) = trafficContext d e s ch"
| "contextD (ClientHandshakeD th) = th"
| "contextD (ServerHandshakeD th) = th"
| "contextD (MasterD th) = th"
| "contextD (Tier1D g) = put_u64 g"
| "contextD (Tier2D th) = th"
| "contextD _ = []"

fun lengthD :: "derivation \<Rightarrow> nat" where
  "lengthD IVD = 12"
| "lengthD _ = 32"

definition infoD :: "derivation \<Rightarrow> bytes" where
  "infoD x = HkdfLabel (labelD x) (contextD x) (lengthD x)"

definition expandD :: "bytes \<Rightarrow> derivation \<Rightarrow> npamp_err + bytes" where
  "expandD secret x = hash_Expand SHA256 secret (infoD x) (lengthD x)"

lemma expandD_label: "expandD secret x = HkdfExpandLabel secret (labelD x) (contextD x) (lengthD x) SHA256"
  by (simp add: expandD_def infoD_def HkdfExpandLabel_def)

text \<open>A context has at most 255 octets; the transcript hashes of the protocol have 32.\<close>

definition derivation_ok :: "derivation \<Rightarrow> bool" where
  "derivation_ok x \<longleftrightarrow> length (contextD x) \<le> 255"

lemma derivation_ok_simps [simp]:
  "derivation_ok (TrafficD d e s ch)" "derivation_ok KeyD" "derivation_ok IVD" "derivation_ok FinishedD" "derivation_ok (Tier1D g)"
  by (simp_all add: derivation_ok_def trafficContext_def)

lemma infoD_inject:
  assumes "derivation_ok x" "derivation_ok y"
  shows "infoD x = infoD y \<longleftrightarrow> x = y"
proof -
  have l: "length (labelD z) \<le> 248" "lengthD z < 65536" for z by (cases z; simp)+
  have "infoD x = infoD y \<longleftrightarrow> labelD x = labelD y \<and> contextD x = contextD y \<and> lengthD x = lengthD y"
    unfolding infoD_def by (rule HkdfLabel_inject) (use assms l in \<open>simp_all add: derivation_ok_def\<close>)
  also have "\<dots> \<longleftrightarrow> x = y" by (cases x; cases y; simp add: str_def)
  finally show ?thesis .
qed

section \<open>Properties\<close>

text \<open>
  Claim C36 (key separation). At the Standard profile every secret of the key schedule is an
  HKDF-Expand of \<open>SHA256\<close> at the input of its own derivation (\<open>expandD\<close>), and two derivations have
  the same input only when they are the same: the same purpose, and for a traffic secret the same
  direction, epoch, suite and channel, for a ratchet the same generation, for a handshake or re-KEM
  secret the same transcript hash. So no two keys of the schedule come from one HKDF input.
\<close>

theorem key_separation:
  assumes "derivation_ok x" "derivation_ok y"
  shows "(infoD x = infoD y \<longleftrightarrow> x = y)
    \<and> DeriveTrafficSecret m d e s ch ProfileStandard = expandD m (TrafficD d e s ch)
    \<and> DeriveKeyIV m ProfileStandard = rbind (expandD m KeyD) (\<lambda>k. rbind (expandD m IVD) (\<lambda>v. Inr (k, v)))
    \<and> DeriveHandshakeTrafficSecrets m th ProfileStandard
        = rbind (expandD m (ClientHandshakeD th)) (\<lambda>cs. rbind (expandD m (ServerHandshakeD th)) (\<lambda>ss. Inr (cs, ss)))
    \<and> DeriveMasterSecret m th ProfileStandard = expandD m (MasterD th)
    \<and> DeriveFinishedKey m ProfileStandard = expandD m FinishedD
    \<and> RatchetMasterTier1 m g ProfileStandard = expandD m (Tier1D g)
    \<and> RatchetMasterTier2 m nss th ProfileStandard = expandD (hash_Extract SHA256 nss m) (Tier2D th)"
  using infoD_inject [OF assms]
  by (simp add: expandD_label DeriveTrafficSecret_def DeriveKeyIV_def DeriveHandshakeTrafficSecrets_def
      DeriveMasterSecret_def DeriveFinishedKey_def RatchetMasterTier1_def RatchetMasterTier2_def)

theorem key_separation_witness:
  "infoD KeyD \<noteq> infoD IVD \<and> infoD (TrafficD 0 1 1 7) \<noteq> infoD (TrafficD 1 1 1 7)"
  using key_separation [of KeyD IVD] key_separation [of "TrafficD 0 1 1 7" "TrafficD 1 1 1 7"] by simp

text \<open>
  Record cipher. Opening a record returns a plaintext exactly when the record is the
  sealing of that plaintext under the same key, IV, sequence number and associated data; and under
  one IV two sequence numbers never give the same nonce.
\<close>

theorem record_cipher_exact:
  "(OpenAES256GCM key iv seq aad sealed = Inr pt \<longleftrightarrow> length pt \<le> gcm_max \<and> SealAES256GCM key iv seq aad pt = Inr sealed)
   \<and> (length iv = 12 \<longrightarrow> (DeriveNonce iv seq = DeriveNonce iv seq' \<longleftrightarrow> seq = seq'))"
  using OpenAES256GCM_iff DeriveNonce_inject by blast

theorem record_cipher_exact_witness:
  "DeriveNonce (replicate 12 9) 1 \<noteq> DeriveNonce (replicate 12 9) 2"
  using record_cipher_exact [of "[]" "replicate 12 9" 1 "[]" "[]" "[]" 2] by simp

text \<open>
  Profiles. Every derivation succeeds at the Standard profile with outputs of the fixed
  sizes, and every derivation for another profile is refused with \<open>ErrNoSuiteForProfile\<close>.
\<close>

theorem schedule_profiles:
  "(\<exists>ts k v. DeriveTrafficSecret m d e s c ProfileStandard = Inr ts \<and> DeriveKeyIV ts ProfileStandard = Inr (k, v)
      \<and> length ts = 32 \<and> length k = 32 \<and> length v = 12)
   \<and> (\<exists>ms. RatchetMasterTier1 m g ProfileStandard = Inr ms \<and> length ms = 32)
   \<and> (\<exists>ms. RatchetMasterTier2 m nss th ProfileStandard = Inr ms \<and> length ms = 32)
   \<and> (p \<noteq> ProfileStandard \<longrightarrow>
       DeriveTrafficSecret m d e s c p = Inl ErrNoSuiteForProfile \<and> DeriveKeyIV m p = Inl ErrNoSuiteForProfile
       \<and> HandshakeSecret ss p = Inl ErrNoSuiteForProfile \<and> DeriveHandshakeTrafficSecrets m th p = Inl ErrNoSuiteForProfile
       \<and> DeriveMasterSecret m th p = Inl ErrNoSuiteForProfile \<and> DeriveFinishedKey m p = Inl ErrNoSuiteForProfile
       \<and> RatchetMasterTier1 m g p = Inl ErrNoSuiteForProfile \<and> RatchetMasterTier2 m nss th p = Inl ErrNoSuiteForProfile)"
proof -
  have "\<exists>ms. RatchetMasterTier1 m g ProfileStandard = Inr ms \<and> length ms = 32"
    "\<exists>ms. RatchetMasterTier2 m nss th ProfileStandard = Inr ms \<and> length ms = 32"
    using HkdfExpandLabel_Inr [of 32] by (simp_all add: RatchetMasterTier1_def RatchetMasterTier2_def)
  moreover obtain ts where "DeriveTrafficSecret m d e s c ProfileStandard = Inr ts" "length ts = 32"
    using DeriveTrafficSecret_Inr by blast
  moreover obtain k v where "DeriveKeyIV ts ProfileStandard = Inr (k, v)" "length k = 32" "length v = 12"
    using DeriveKeyIV_Inr by blast
  ultimately show ?thesis by (simp add: derivation_refused)
qed

theorem schedule_profiles_witness:
  "ProfileHigh \<noteq> ProfileStandard \<and> DeriveKeyIV [] ProfileHigh = Inl ErrNoSuiteForProfile"
  using schedule_profiles [of "[]" 0 0 0 0 0 "[]" "[]" ProfileHigh] by (simp add: suite_defs)

end
