(* ===== verification/RecordLayer.thy ===== *)
theory RecordLayer
  imports Frame KeySchedule
begin

text \<open>
  The record layer of \<^verbatim>\<open>src/impl/go/sdk/conn.go\<close>: the key state of one (channel, direction) with
  its derivation, rotation and wipe, sealing and opening of frames, the AUTH-frame sealing of the
  handshake, and the reading and writing of whole frames on the byte stream.
\<close>

section \<open>Errors of package sdk\<close>

text \<open>
  One constructor per error that the callers distinguish; a wrapped error of package npamp is
  \<open>ErrNpamp\<close>. \<open>ErrMarker\<close> is a malformed control TLV, \<open>ErrUnexpected\<close> a frame without a legal
  transition, \<open>SessionError\<close> an ERROR frame of the peer; the constructors after it are the refusals of
  the handshake (\<^verbatim>\<open>sdk/handshake.go\<close>).
\<close>

datatype sdk_err =
    errClosed | ErrPeerClosed | ErrSeqExhausted | ErrNpamp npamp_err
  | ErrFrameShort | ErrFrameSize | ErrFrameMagic | ErrWrite | ErrEOF | ErrUnexpectedEOF
  | errKeyUpdateOutOfOrder | ErrMarker | ErrRatchetGen | errUnsolicitedReKEMAck | ErrReKEMInFlight
  | ErrUnexpected | SessionError byte bytes
  | ErrFrameType | ErrHelloEncrypted | ErrAuthCleartext | ErrKEMDowngrade | ErrPeerPin | ErrNoCommonProfile
  | ErrNoIdentity | ErrProfileSelect | ErrSigSelect | ErrAEADSelect | ErrKEMOffer | ErrSigOffer | ErrAEADOffer
  | ErrInvalidProfile | ErrTLS | ErrALPN

section \<open>Keys of one channel and direction\<close>

record epochKeys =
  ekEpoch :: u64
  ekKey :: bytes
  ekIV :: bytes
  ekSeq :: u64

text \<open>\<open>&epochKeys{}\<close>: the zero value of the struct.\<close>

definition new_epochKeys :: epochKeys where
  "new_epochKeys = \<lparr>ekEpoch = 0, ekKey = replicate 32 0, ekIV = replicate 12 0, ekSeq = 0\<rparr>"

text \<open>\<open>derive\<close> leaves the struct as it is when it fails.\<close>

definition ek_derive :: "epochKeys \<Rightarrow> bytes \<Rightarrow> direction \<Rightarrow> channel_id \<Rightarrow> profile \<Rightarrow> epochKeys \<times> (npamp_err + unit)" where
  "ek_derive k master dir channel p =
    (case rbind (DeriveTrafficSecret master dir (ekEpoch k) AEADAES256GCM channel p) (\<lambda>ts. DeriveKeyIV ts p) of
       Inl e \<Rightarrow> (k, Inl e)
     | Inr (key, iv) \<Rightarrow> (k\<lparr>ekKey := key, ekIV := iv\<rparr>, Inr ()))"

definition ek_zeroize :: "epochKeys \<Rightarrow> epochKeys" where
  "ek_zeroize k = k\<lparr>ekKey := replicate (length (ekKey k)) 0, ekIV := replicate (length (ekIV k)) 0\<rparr>"

definition ek_advance :: "epochKeys \<Rightarrow> bytes \<Rightarrow> direction \<Rightarrow> channel_id \<Rightarrow> profile \<Rightarrow> epochKeys \<times> (npamp_err + unit)" where
  "ek_advance k master dir channel p =
    ek_derive ((ek_zeroize k)\<lparr>ekEpoch := ekEpoch k + 1, ekSeq := 0\<rparr>) master dir channel p"

definition wipeRoot :: "bytes \<Rightarrow> bytes" where
  "wipeRoot b = replicate (length b) 0"

section \<open>Sealing and opening\<close>

definition enc_frame :: "frame_type \<Rightarrow> channel_id \<Rightarrow> u64 \<Rightarrow> bytes \<Rightarrow> frame" where
  "enc_frame ft channel seq payload =
    \<lparr>fVersion = 0, fFlags = FlagENC, fType = ft, fChannel = channel, fSeq = seq, fPayload = payload\<rparr>"

definition sealWith :: "epochKeys \<Rightarrow> channel_id \<Rightarrow> frame_type \<Rightarrow> bytes \<Rightarrow> npamp_err + bytes" where
  "sealWith st channel ft plaintext =
    (let f = enc_frame ft channel (ekSeq st) [];
         aad = HeaderPrefix f (of_nat (length plaintext + 16)) in
     rbind (SealAES256GCM (ekKey st) (ekIV st) (ekSeq st) aad plaintext) (\<lambda>sealed.
       Inr (snd (MarshalBinary (f\<lparr>fPayload := sealed\<rparr>)))))"

definition openWith :: "epochKeys \<Rightarrow> frame \<Rightarrow> npamp_err + bytes" where
  "openWith st f =
    OpenAES256GCM (ekKey st) (ekIV st) (fSeq f) (HeaderPrefix f (of_nat (length (fPayload f)))) (fPayload f)"

definition deriveKeyIV :: "bytes \<Rightarrow> direction \<Rightarrow> channel_id \<Rightarrow> profile \<Rightarrow> npamp_err + bytes \<times> bytes" where
  "deriveKeyIV baseSecret dir channel p =
    rbind (DeriveTrafficSecret baseSecret dir 0 AEADAES256GCM channel p) (\<lambda>ts. DeriveKeyIV ts p)"

definition sealFrame :: "bytes \<Rightarrow> direction \<Rightarrow> channel_id \<Rightarrow> u64 \<Rightarrow> frame_type \<Rightarrow> bytes \<Rightarrow> profile \<Rightarrow> npamp_err + bytes" where
  "sealFrame baseSecret dir channel seq ft plaintext p =
    rbind (deriveKeyIV baseSecret dir channel p) (\<lambda>(key, iv).
      let f = enc_frame ft channel seq [];
          aad = HeaderPrefix f (of_nat (length plaintext + 16)) in
      rbind (SealAES256GCM key iv seq aad plaintext) (\<lambda>sealed.
        Inr (snd (MarshalBinary (f\<lparr>fPayload := sealed\<rparr>)))))"

definition openFrame :: "frame \<Rightarrow> bytes \<Rightarrow> direction \<Rightarrow> profile \<Rightarrow> npamp_err + bytes" where
  "openFrame f baseSecret dir p =
    rbind (deriveKeyIV baseSecret dir (fChannel f) p) (\<lambda>(key, iv).
      OpenAES256GCM key iv (fSeq f) (HeaderPrefix f (of_nat (length (fPayload f)))) (fPayload f))"

section \<open>Frames on the stream\<close>

text \<open>
  What the transport does with a write: it takes all octets, or fails after some of them. A
  failure to set the deadline is a failure after none.
\<close>

datatype write_result = WriteOk | WriteFail nat

definition maxFrameSize :: nat where "maxFrameSize = MaxFrameSize"

definition writeFrame :: "write_result \<Rightarrow> bytes \<Rightarrow> bytes \<times> (sdk_err + unit)" where
  "writeFrame w frame =
    (if length frame < HeaderSize then ([], Inl ErrFrameShort)
     else if length frame > maxFrameSize then ([], Inl ErrFrameSize)
     else case w of WriteOk \<Rightarrow> (frame, Inr ()) | WriteFail n \<Rightarrow> (take n frame, Inl ErrWrite))"

text \<open>
  \<open>readFrame\<close> on a stream that holds \<open>r\<close> and then ends: the frame and what is left of the stream.
  \<^verbatim>\<open>io.ReadFull\<close> answers \<open>io.EOF\<close> when there is nothing and \<open>io.ErrUnexpectedEOF\<close> in the middle of the
  header; \<^verbatim>\<open>io.CopyN\<close> answers \<open>io.EOF\<close> when the payload is cut short.
\<close>

definition readFrame :: "bytes \<Rightarrow> (sdk_err + bytes) \<times> bytes" where
  "readFrame r =
    (if r = [] then (Inl ErrEOF, [])
     else if length r < HeaderSize then (Inl ErrUnexpectedEOF, [])
     else let header = take HeaderSize r; r' = drop HeaderSize r in
       if take 4 header \<noteq> Magic then (Inl ErrFrameMagic, r')
       else let payloadLen = unat (get_u32 (gslice 17 21 header)) in
         if HeaderSize + payloadLen > maxFrameSize then (Inl ErrFrameSize, r')
         else if length r' < payloadLen then (Inl ErrEOF, [])
         else (Inr (header @ take payloadLen r'), drop payloadLen r'))"

section \<open>Lemmas on the key state\<close>

lemma ek_derive_fields:
  "ekEpoch (fst (ek_derive k m d c p)) = ekEpoch k" "ekSeq (fst (ek_derive k m d c p)) = ekSeq k"
  by (auto simp: ek_derive_def split: sum.splits)

lemma ek_derive_Standard:
  "snd (ek_derive k m d c ProfileStandard) = Inr ()"
  "length (ekKey (fst (ek_derive k m d c ProfileStandard))) = 32"
  "length (ekIV (fst (ek_derive k m d c ProfileStandard))) = 12"
proof -
  obtain ts where ts: "DeriveTrafficSecret m d (ekEpoch k) AEADAES256GCM c ProfileStandard = Inr ts"
    using DeriveTrafficSecret_Inr by blast
  obtain key iv where "DeriveKeyIV ts ProfileStandard = Inr (key, iv)" "length key = 32" "length iv = 12"
    using DeriveKeyIV_Inr by blast
  with ts show "snd (ek_derive k m d c ProfileStandard) = Inr ()"
    "length (ekKey (fst (ek_derive k m d c ProfileStandard))) = 32"
    "length (ekIV (fst (ek_derive k m d c ProfileStandard))) = 12"
    by (simp_all add: ek_derive_def)
qed

lemma ek_advance_fields:
  "ekEpoch (fst (ek_advance k m d c p)) = ekEpoch k + 1" "ekSeq (fst (ek_advance k m d c p)) = 0"
  by (simp_all add: ek_advance_def ek_derive_fields)

lemma ek_advance_Standard: "snd (ek_advance k m d c ProfileStandard) = Inr ()"
  by (simp add: ek_advance_def ek_derive_Standard)

text \<open>The derived keys depend on the root, the direction, the epoch and the channel only.\<close>

lemma ek_derive_eq:
  "ekEpoch k = ekEpoch k' \<Longrightarrow> ekSeq k = ekSeq k' \<Longrightarrow>
    fst (ek_derive k m d c ProfileStandard) = fst (ek_derive k' m d c ProfileStandard)"
  using DeriveTrafficSecret_Inr [of m d "ekEpoch k" AEADAES256GCM c] DeriveKeyIV_Inr
  by (auto simp: ek_derive_def split: sum.splits) (metis Inl_Inr_False)

lemma ek_advance_eq:
  "ekEpoch k = ekEpoch k' \<Longrightarrow>
    fst (ek_advance k m d c ProfileStandard) = fst (ek_advance k' m d c ProfileStandard)"
  unfolding ek_advance_def by (rule ek_derive_eq) simp_all

lemma ek_advance_seq [simp]:
  "fst (ek_advance (k\<lparr>ekSeq := n\<rparr>) m d c ProfileStandard) = fst (ek_advance k m d c ProfileStandard)"
  by (rule ek_advance_eq) simp

section \<open>Lemmas on records\<close>

lemma HeaderPrefix_payload [simp]: "HeaderPrefix (f\<lparr>fPayload := x\<rparr>) n = HeaderPrefix f n"
  by (simp add: HeaderPrefix_def)

lemma HeaderPrefix_version: "fVersion f = 0 \<Longrightarrow> HeaderPrefix (f\<lparr>fVersion := ProtocolVersion\<rparr>) n = HeaderPrefix f n"
  by (simp add: HeaderPrefix_def ProtocolVersion_def)

text \<open>The frame that a sealed record parses to.\<close>

definition sealed_frame :: "frame_type \<Rightarrow> channel_id \<Rightarrow> u64 \<Rightarrow> bytes \<Rightarrow> frame" where
  "sealed_frame ft channel seq payload = (enc_frame ft channel seq payload)\<lparr>fVersion := ProtocolVersion\<rparr>"

lemma sealed_frame_simps [simp]:
  "fFlags (sealed_frame ft ch seq p) = FlagENC" "fType (sealed_frame ft ch seq p) = ft"
  "fChannel (sealed_frame ft ch seq p) = ch" "fSeq (sealed_frame ft ch seq p) = seq"
  "fPayload (sealed_frame ft ch seq p) = p" "fVersion (sealed_frame ft ch seq p) = ProtocolVersion"
  by (simp_all add: sealed_frame_def enc_frame_def)

lemma FlagENC_nonzero [simp]: "FlagENC \<noteq> 0"
  by (simp add: FlagENC_def)

lemma sealed_frame_ok: "length p < 2 ^ 32 \<Longrightarrow> frame_ok (sealed_frame ft ch seq p)"
  by (simp add: frame_ok_def FlagENC_def)

lemma marshal_enc_frame: "marshal (enc_frame ft ch seq p) = marshal (sealed_frame ft ch seq p)"
  by (simp add: marshal_def MarshalBinary_def enc_frame_def sealed_frame_def ProtocolVersion_def)

definition record_payload :: "epochKeys \<Rightarrow> channel_id \<Rightarrow> frame_type \<Rightarrow> bytes \<Rightarrow> bytes" where
  "record_payload st ch ft pt = gcm_seal (ekKey st) (DeriveNonce (ekIV st) (ekSeq st)) pt
     (HeaderPrefix (enc_frame ft ch (ekSeq st) []) (of_nat (length pt + 16)))"

lemma length_record_payload [simp]: "length (record_payload st ch ft pt) = length pt + 16"
  by (simp add: record_payload_def length_gcm_seal)

lemma sealWith_eq: "sealWith st ch ft pt = Inr (marshal (sealed_frame ft ch (ekSeq st) (record_payload st ch ft pt)))"
proof -
  have "(enc_frame ft ch s [])\<lparr>fPayload := p\<rparr> = enc_frame ft ch s p" for s p by (simp add: enc_frame_def)
  then show ?thesis
    by (simp add: sealWith_def SealAES256GCM_def record_payload_def Let_def marshal_enc_frame flip: marshal_def)
qed

lemma HeaderPrefix_sealed_frame:
  "HeaderPrefix (sealed_frame ft ch seq p) n = HeaderPrefix (enc_frame ft ch seq q) n"
  by (simp add: HeaderPrefix_def sealed_frame_def enc_frame_def ProtocolVersion_def)

lemma openWith_sealed:
  assumes "ekKey st' = ekKey st" "ekIV st' = ekIV st" "length pt \<le> gcm_max"
  shows "openWith st' (sealed_frame ft ch (ekSeq st) (record_payload st ch ft pt)) = Inr pt"
  using assms
  by (simp add: openWith_def OpenAES256GCM_iff SealAES256GCM_def HeaderPrefix_sealed_frame [where q = "[]"])
     (simp add: record_payload_def)

lemma openWith_sound:
  assumes "openWith st f = Inr pt" and "fVersion f = ProtocolVersion" and "fFlags f = FlagENC" and "fSeq f = ekSeq st"
  shows "f = sealed_frame (fType f) (fChannel f) (ekSeq st) (record_payload st (fChannel f) (fType f) pt)"
proof -
  have fe: "f = sealed_frame (fType f) (fChannel f) (ekSeq st) (fPayload f)"
    using assms(2,3,4) by (simp add: sealed_frame_def enc_frame_def)
  from gcm.unseal_length assms(1) have "length (fPayload f) = length pt + 16" by (simp add: openWith_def)
  moreover have "HeaderPrefix f n = HeaderPrefix (enc_frame (fType f) (fChannel f) (ekSeq st) []) n" for n
    by (subst fe) (rule HeaderPrefix_sealed_frame)
  ultimately have "fPayload f = record_payload st (fChannel f) (fType f) pt"
    using assms(1,4) by (simp add: openWith_def OpenAES256GCM_iff SealAES256GCM_def record_payload_def)
  with fe show ?thesis by simp
qed

section \<open>Lemmas on the stream\<close>

lemma readFrame_Inr:
  assumes "readFrame r = (Inr wire, r')"
  shows "r = wire @ r' \<and> HeaderSize \<le> length wire"
  using assms append_take_drop_id [of HeaderSize r] append_take_drop_id [of "unat (get_u32 (gslice 17 21 (take HeaderSize r)))" "drop HeaderSize r"]
  by (auto simp: readFrame_def Let_def split: if_splits)

lemma readFrame_shorter: "readFrame r = (Inr wire, r') \<Longrightarrow> length r' < length r"
  by (drule readFrame_Inr) (auto simp: HeaderSize_def)

lemma readFrame_marshal:
  assumes "sendable f"
  shows "readFrame (marshal f @ rest) = (Inr (marshal f), rest)"
proof -
  from assms have ok: "frame_ok f" and size: "HeaderSize + length (fPayload f) \<le> MaxFrameSize"
    by (simp_all add: sendable_def)
  from ok have nz: "fVersion f \<noteq> 0" and len: "length (fPayload f) < 2 ^ 32"
    by (auto simp: frame_ok_def ProtocolVersion_def)
  let ?pre = "HeaderPrefix f (of_nat (length (fPayload f)))"
  define hdr where "hdr = ?pre @ put_u32 (crc32c ?pre) @ replicate 11 0"
  have m: "marshal f = hdr @ fPayload f" and lh: "length hdr = HeaderSize"
    using marshal_layout [OF nz] by (simp_all add: hdr_def HeaderSize_def)
  have "take 4 hdr = Magic" "gslice 17 21 hdr = put_u32 (of_nat (length (fPayload f)))"
    using prefix_fields(7,5) [of f "of_nat (length (fPayload f))" "put_u32 (crc32c ?pre) @ replicate 11 0"]
    by (simp_all add: hdr_def)
  then show ?thesis
    using lh size len by (auto simp: readFrame_def m Let_def maxFrameSize_def unat_of_nat_small HeaderSize_def)
qed

lemma writeFrame_ok:
  "sendable f \<Longrightarrow> writeFrame WriteOk (marshal f) = (marshal f, Inr ())"
  by (simp add: writeFrame_def length_marshal sendable_def maxFrameSize_def)

text \<open>A record fits on the wire when its payload, tag and header stay within the frame cap.\<close>

definition record_fits :: "bytes \<Rightarrow> bool" where
  "record_fits pt \<longleftrightarrow> HeaderSize + length pt + 16 \<le> MaxFrameSize"

lemma sendable_record: "record_fits pt \<Longrightarrow> sendable (sealed_frame ft ch seq (record_payload st ch ft pt))"
  by (simp add: sendable_def sealed_frame_ok record_fits_def MaxFrameSize_def HeaderSize_def)

lemma record_fits_gcm: "record_fits pt \<Longrightarrow> length pt \<le> gcm_max"
  by (simp add: record_fits_def gcm_max_def MaxFrameSize_def HeaderSize_def)

end
