(* ===== verification/Cbor.thy ===== *)
theory Cbor
  imports Registry Codec "HOL-Library.List_Lexorder" "HOL-Library.Multiset"
begin

text \<open>
  The deterministic CBOR codec of \<^verbatim>\<open>src/impl/go/memory_cbor.go\<close>. A Go value of type \<open>any\<close> that
  \<open>cborEncode\<close> accepts is a \<open>goval\<close>; \<open>cborDecode\<close> is modelled with its nesting bound, its
  shortest-form checks and its map-order check. The main result is that at every depth the decoder
  and the encoder form a self-delimiting codec on the well-formed values of that depth: what
  decodes re-encodes to the same octets, and what encodes decodes to the same value.
\<close>

section \<open>Model\<close>

datatype cbor_err = errCBORTrailing | errCBORTruncated | errCBORNotShortest | errCBORIndefinite
  | errCBORUnsupported | errCBORMapOrder | errCBORDepthExceeded

text \<open>
  Go strings are octet sequences; \<open>int\<close> and \<open>int64\<close> are two's-complement 64-bit words. \<open>GMapC\<close> is a
  \<open>*cborMap\<close> with its entries \<open>(keyEnc, key, val)\<close>; \<open>GMapU\<close> is a \<open>map[uint64]any\<close>, listed in an
  arbitrary iteration order.
\<close>

datatype goval = GUint u64 | GInt u64 | GInt64 u64 | GBytes bytes | GString bytes
  | GArr "goval list" | GMapC "(bytes \<times> goval \<times> goval) list" | GMapU "(u64 \<times> goval) list"
  | GBool bool | GNil

type_synonym cborEntry = "bytes \<times> goval \<times> goval"

definition cborMaxNestingDepth :: nat where "cborMaxNestingDepth = 8"

fun byteEqual :: "bytes \<Rightarrow> bytes \<Rightarrow> bool" where
  "byteEqual [] [] = True"
| "byteEqual (a # as) (b # bs) = (a = b \<and> byteEqual as bs)"
| "byteEqual _ _ = False"

fun byteLess :: "bytes \<Rightarrow> bytes \<Rightarrow> bool" where
  "byteLess (a # as) (b # bs) = (if a \<noteq> b then a < b else byteLess as bs)"
| "byteLess as bs = (length as < length bs)"

definition encodeHead :: "byte \<Rightarrow> u64 \<Rightarrow> bytes" where
  "encodeHead major arg =
    (let mb = push_bit 5 major in
     if arg < 24 then [mb OR ucast arg]
     else if arg < 2 ^ 8 then (mb OR 24) # put_be 1 arg
     else if arg < 2 ^ 16 then (mb OR 25) # put_be 2 arg
     else if arg < 2 ^ 32 then (mb OR 26) # put_be 4 arg
     else (mb OR 27) # put_be 8 arg)"

text \<open>\<open>newCBORMapU\<close>: \<open>sort.Slice\<close> orders by \<open>byteLess\<close> on the encoded keys, which are distinct.\<close>

definition newCBORMapU :: "(u64 \<times> goval) list \<Rightarrow> cborEntry list" where
  "newCBORMapU m = sort_key fst (map (\<lambda>(k, v). (encodeHead 0 k, GUint k, v)) m)"

lemma newCBORMapU_size:
  assumes "(ke, k, v) \<in> set (newCBORMapU m)"
  shows "size v < Suc (size_list (size_prod (\<lambda>_. 0) size) m)"
proof -
  from assms obtain n where "(n, v) \<in> set m" by (auto simp: newCBORMapU_def)
  then have "size_prod (\<lambda>_. 0) size (n, v) \<le> size_list (size_prod (\<lambda>_. 0) size) m"
    by (meson size_list_estimation' order_refl)
  then show ?thesis by simp
qed

lemma entry_size:
  assumes "(ke, k, v) \<in> set es"
  shows "size v < Suc (size_list (size_prod (\<lambda>_. 0) (size_prod size size)) es)"
proof -
  from assms have "size_prod (\<lambda>_. 0) (size_prod size size) (ke, k, v) \<le> size_list (size_prod (\<lambda>_. 0) (size_prod size size)) es"
    by (meson size_list_estimation' order_refl)
  then show ?thesis by simp
qed

function cborEncode :: "goval \<Rightarrow> bytes" where
  "cborEncode (GUint n) = encodeHead 0 n"
| "cborEncode (GInt t) = (if sint t < 0 then encodeHead 1 (- 1 - t) else encodeHead 0 t)"
| "cborEncode (GInt64 t) = (if sint t < 0 then encodeHead 1 (- 1 - t) else encodeHead 0 t)"
| "cborEncode (GBytes b) = encodeHead 2 (of_nat (length b)) @ b"
| "cborEncode (GString b) = encodeHead 3 (of_nat (length b)) @ b"
| "cborEncode (GArr xs) = encodeHead 4 (of_nat (length xs)) @ concat (map cborEncode xs)"
| "cborEncode (GMapC es) = encodeHead 5 (of_nat (length es)) @ concat (map (\<lambda>(ke, k, v). ke @ cborEncode v) es)"
| "cborEncode (GMapU m) = encodeHead 5 (of_nat (length (newCBORMapU m)))
     @ concat (map (\<lambda>(ke, k, v). ke @ cborEncode v) (newCBORMapU m))"
| "cborEncode (GBool b) = (if b then [0xf5] else [0xf4])"
| "cborEncode GNil = [0xf6]"
  by pat_completeness auto
termination
  by (relation "measure size") (auto dest: entry_size newCBORMapU_size simp: less_Suc_eq_le size_list_estimation')

text \<open>\<open>decodeArg\<close>: the argument of a head and the length of the head.\<close>

definition decodeArg :: "byte \<Rightarrow> bytes \<Rightarrow> cbor_err + u64 \<times> nat" where
  "decodeArg ai b =
    (if ai < 24 then Inr (ucast ai, 1)
     else if ai = 24 then
       if length b < 2 then Inl errCBORTruncated
       else let v = get_be (gslice 1 2 b) in if v < 24 then Inl errCBORNotShortest else Inr (v, 2)
     else if ai = 25 then
       if length b < 3 then Inl errCBORTruncated
       else let v = get_be (gslice 1 3 b) in if v < 2 ^ 8 then Inl errCBORNotShortest else Inr (v, 3)
     else if ai = 26 then
       if length b < 5 then Inl errCBORTruncated
       else let v = get_be (gslice 1 5 b) in if v < 2 ^ 16 then Inl errCBORNotShortest else Inr (v, 5)
     else if ai = 27 then
       if length b < 9 then Inl errCBORTruncated
       else let v = get_be (gslice 1 9 b) in if v < 2 ^ 32 then Inl errCBORNotShortest else Inr (v, 9)
     else if ai = 31 then Inl errCBORIndefinite
     else Inl errCBORUnsupported)"

text \<open>
  The loops of the array and map cases of \<open>cborDecode\<close>, over the decoder of one level deeper.
  \<open>prev\<close> is \<open>prevKeyEnc\<close>, with \<open>None\<close> for nil.
\<close>

primrec decodeArray :: "(bytes \<Rightarrow> cbor_err + goval \<times> nat) \<Rightarrow> bytes \<Rightarrow> nat \<Rightarrow> nat \<Rightarrow> goval list
    \<Rightarrow> cbor_err + goval list \<times> nat" where
  "decodeArray dec b 0 off out = Inr (out, off)"
| "decodeArray dec b (Suc i) off out =
    rbind (dec (drop off b)) (\<lambda>(el, en). decodeArray dec b i (off + en) (out @ [el]))"

primrec decodeMap :: "(bytes \<Rightarrow> cbor_err + goval \<times> nat) \<Rightarrow> bytes \<Rightarrow> nat \<Rightarrow> nat \<Rightarrow> bytes option \<Rightarrow> cborEntry list
    \<Rightarrow> cbor_err + cborEntry list \<times> nat" where
  "decodeMap dec b 0 off prev es = Inr (es, off)"
| "decodeMap dec b (Suc i) off prev es =
    rbind (dec (drop off b)) (\<lambda>(key, kn).
      let keyEnc = gslice off (off + kn) b in
      if prev \<noteq> None \<and> \<not> byteLess (the prev) keyEnc then Inl errCBORMapOrder
      else rbind (dec (drop (off + kn) b)) (\<lambda>(val, vn).
        decodeMap dec b i (off + kn + vn) (Some keyEnc) (es @ [(keyEnc, key, val)])))"

text \<open>The \<open>switch major\<close> of \<open>cborDecode\<close>, after the head with argument \<open>arg\<close> and length \<open>n\<close>.\<close>

definition decodeMajor :: "(bytes \<Rightarrow> cbor_err + goval \<times> nat) \<Rightarrow> bytes \<Rightarrow> byte \<Rightarrow> u64 \<Rightarrow> nat \<Rightarrow> cbor_err + goval \<times> nat" where
  "decodeMajor dec b major arg n =
    (if major = 0 then Inr (GUint arg, n)
     else if major = 1 then
       if arg > 2 ^ 63 - 1 then Inl errCBORUnsupported else Inr (GInt64 (- 1 - arg), n)
     else if major = 2 \<or> major = 3 then
       if unat arg > length b \<or> n + unat arg > length b then Inl errCBORTruncated
       else if major = 2 then Inr (GBytes (gslice n (n + unat arg) b), n + unat arg)
       else Inr (GString (gslice n (n + unat arg) b), n + unat arg)
     else if major = 4 then
       if unat arg > length b - n then Inl errCBORTruncated
       else rbind (decodeArray dec b (unat arg) n []) (\<lambda>(xs, off). Inr (GArr xs, off))
     else if major = 5 then
       if unat arg > length b - n then Inl errCBORTruncated
       else rbind (decodeMap dec b (unat arg) n None []) (\<lambda>(es, off). Inr (GMapC es, off))
     else Inl errCBORUnsupported)"

definition decodeItem :: "(bytes \<Rightarrow> cbor_err + goval \<times> nat) \<Rightarrow> bytes \<Rightarrow> cbor_err + goval \<times> nat" where
  "decodeItem dec b =
    (if b = [] then Inl errCBORTruncated
     else let ib = b ! 0; major = drop_bit 5 ib; ai = ib AND 0x1f in
       if major = 7 then
         if ai = 20 then Inr (GBool False, 1) else if ai = 21 then Inr (GBool True, 1)
         else if ai = 22 then Inr (GNil, 1) else Inl errCBORUnsupported
       else rbind (decodeArg ai b) (\<lambda>(arg, n). decodeMajor dec b major arg n))"

text \<open>
  \<open>cborDecode b depth\<close> refuses a depth above \<open>cborMaxNestingDepth\<close> and decodes the children at
  \<open>depth + 1\<close>; \<open>cborDecodeAt\<close> recurses over the levels that are left, which is \<open>0\<close> beyond the bound.
\<close>

primrec cborDecodeAt :: "nat \<Rightarrow> bytes \<Rightarrow> cbor_err + goval \<times> nat" where
  "cborDecodeAt 0 b = Inl errCBORDepthExceeded"
| "cborDecodeAt (Suc levels) b = decodeItem (cborDecodeAt levels) b"

definition cborDecode :: "bytes \<Rightarrow> nat \<Rightarrow> cbor_err + goval \<times> nat" where
  "cborDecode b depth = cborDecodeAt (Suc cborMaxNestingDepth - depth) b"

definition cborDecodeTop :: "bytes \<Rightarrow> cbor_err + goval" where
  "cborDecodeTop b = rbind (cborDecode b 1) (\<lambda>(v, n). if n \<noteq> length b then Inl errCBORTrailing else Inr v)"

fun cborMap_get :: "cborEntry list \<Rightarrow> u64 \<Rightarrow> goval option" where
  "cborMap_get [] key = None"
| "cborMap_get ((ke, k, v) # es) key =
    (if byteEqual ke (cborEncode (GUint key)) then Some v else cborMap_get es key)"

definition cborMap_keys :: "cborEntry list \<Rightarrow> goval list" where
  "cborMap_keys es = map (\<lambda>(ke, k, v). k) es"

lemma cborDecode_rec:
  "cborDecode b depth =
    (if depth > cborMaxNestingDepth then Inl errCBORDepthExceeded
     else decodeItem (\<lambda>b'. cborDecode b' (depth + 1)) b)"
  by (auto simp: cborDecode_def Suc_diff_le fun_eq_iff)

lemma byteEqual_eq [simp]: "byteEqual a b = (a = b)"
  by (induction a b rule: byteEqual.induct) auto

lemma byteLess_less: "byteLess a b = (a < b)"
  by (induction a b rule: byteLess.induct) (auto, auto simp: neq_Nil_conv)

lemma byteLess_eq: "byteLess = (<)"
  by (intro ext) (rule byteLess_less)

lemma cborEncode_MapU: "cborEncode (GMapU m) = cborEncode (GMapC (newCBORMapU m))"
  by simp

section \<open>Heads\<close>

lemma head_octet:
  fixes major ai :: byte
  assumes "major < 8" "ai < 32"
  shows "drop_bit 5 (push_bit 5 major OR ai) = major" and "(push_bit 5 major OR ai) AND 0x1f = ai"
proof -
  have m: "\<not> bit major n" if "3 \<le> n" for n
    using assms small_bit [of major 3 n] that by (auto simp: word_less_nat_alt)
  have a: "\<not> bit ai n" if "5 \<le> n" for n
    using assms small_bit [of ai 5 n] that by (auto simp: word_less_nat_alt)
  show "drop_bit 5 (push_bit 5 major OR ai) = major" and "(push_bit 5 major OR ai) AND 0x1f = ai"
    by (rule byte_eqI; simp add: octet_bits m a)+
qed

lemma head_octet_split: "push_bit 5 (drop_bit 5 (x::byte)) OR (x AND 0x1f) = x"
  by (rule byte_eqI) (simp_all add: octet_bits)

lemma head_octet_bounds: "(x::byte) AND 0x1f < 32" "drop_bit 5 (x::byte) < 8"
proof -
  have "x AND 0x1f = take_bit 5 x"
    by (simp add: take_bit_eq_mask mask_eq_exp_minus_1)
  then show "x AND 0x1f < 32" using take_bit_nat_less_exp [of 5 "unat x"]
    by (simp add: word_less_nat_alt unsigned_take_bit_eq)
  have small_div: "unat (drop_bit 5 x) = unat x div 32"
    by (simp add: unat_drop_bit_eq) (simp add: drop_bit_eq_div)
  show "drop_bit 5 x < 8"
    using unat_less [of x] small_div by (simp add: word_less_nat_alt)
qed

lemma ucast_small: "unat (w :: u64) < 256 \<Longrightarrow> unat (ucast w :: byte) = unat w"
  by (simp add: unsigned_ucast_eq take_bit_nat_eq_self)

lemma ucast_up_down: "(ucast (ucast (x :: byte) :: u64) :: byte) = x"
  by (rule bit_word_eqI) (auto simp: bit_simps)

text \<open>\<open>decodeArg\<close> inverts \<open>encodeHead\<close>, and accepts nothing else.\<close>

lemma length_encodeHead: "0 < length (encodeHead major arg)"
  by (simp add: encodeHead_def Let_def)

lemma gslice_head: "length p = k \<Longrightarrow> hi = Suc k \<Longrightarrow> gslice 1 hi (h # p @ rest) = p"
  by (auto simp: gslice_def)

lemma decodeArg_encodeHead:
  assumes "major < 8"
  shows "drop_bit 5 ((encodeHead major arg @ rest) ! 0) = major"
    and "decodeArg ((encodeHead major arg @ rest) ! 0 AND 0x1f) (encodeHead major arg @ rest)
      = Inr (arg, length (encodeHead major arg))"
proof -
  let ?b = "encodeHead major arg @ rest"
  have "drop_bit 5 (?b ! 0) = major \<and> decodeArg (?b ! 0 AND 0x1f) ?b = Inr (arg, length (encodeHead major arg))"
  proof -
    consider "arg < 24" | "24 \<le> arg" "arg < 256" | "256 \<le> arg" "arg < 65536"
      | "65536 \<le> arg" "arg < 4294967296" | "4294967296 \<le> arg"
      by force
    then show ?thesis
    proof cases
      case 1
      then have "unat (ucast arg :: byte) = unat arg" by (simp add: ucast_small word_less_nat_alt)
      moreover from this 1 have "(ucast arg :: byte) < 24" "(ucast arg :: byte) < 32"
        and "ucast (ucast arg :: byte) = arg"
        by (simp_all add: word_less_nat_alt word_unat_eq_iff unsigned_ucast_eq unsigned_take_bit_eq)
      ultimately show ?thesis
        using 1 assms by (simp add: encodeHead_def decodeArg_def Let_def head_octet del: drop_bit_or)
    next
      case 2
      then show ?thesis
        using assms gslice_head [of "put_be 1 arg" 1 2] get_put_be_small [of arg 1]
        by (simp add: encodeHead_def decodeArg_def Let_def head_octet word_less_nat_alt word_le_nat_alt del: drop_bit_or)
    next
      case 3
      then show ?thesis
        using assms gslice_head [of "put_be 2 arg" 2 3] get_put_be_small [of arg 2]
        by (simp add: encodeHead_def decodeArg_def Let_def head_octet word_less_nat_alt word_le_nat_alt del: drop_bit_or)
    next
      case 4
      then show ?thesis
        using assms gslice_head [of "put_be 4 arg" 4 5] get_put_be_small [of arg 4]
        by (simp add: encodeHead_def decodeArg_def Let_def head_octet word_less_nat_alt word_le_nat_alt del: drop_bit_or)
    next
      case 5
      then show ?thesis
        using assms gslice_head [of "put_be 8 arg" 8 9] get_put_be_small [of arg 8] unat_less [of arg]
        by (simp add: encodeHead_def decodeArg_def Let_def head_octet word_less_nat_alt word_le_nat_alt del: drop_bit_or)
    qed
  qed
  then show "drop_bit 5 (?b ! 0) = major" "decodeArg (?b ! 0 AND 0x1f) ?b = Inr (arg, length (encodeHead major arg))"
    by simp_all
qed

lemma decodeArg_wide:
  assumes "k \<le> 8" "hi = Suc k" "hi \<le> length b"
  shows "put_be k (get_be (gslice 1 hi b) :: u64) = gslice 1 hi b"
    and "b = (b ! 0) # gslice 1 hi b @ drop hi b"
    and "unat (get_be (gslice 1 hi b) :: u64) < 2 ^ (8 * k)"
proof -
  have len: "length (gslice 1 hi b) = k" using assms by simp
  show "put_be k (get_be (gslice 1 hi b) :: u64) = gslice 1 hi b"
    using put_be_get_be [of "gslice 1 hi b", where 'a = 64] assms len by simp
  show "unat (get_be (gslice 1 hi b) :: u64) < 2 ^ (8 * k)"
    using get_be_bound [of "gslice 1 hi b", where 'a = 64] len by simp
  have "gslice 0 1 b @ gslice 1 hi b @ drop hi b = b"
    using assms by (simp add: gslice_joins gslice_drop)
  moreover have "gslice 0 1 b = [b ! 0]"
    using gslice_single [of 0 b] assms by (cases b) auto
  ultimately show "b = (b ! 0) # gslice 1 hi b @ drop hi b" by simp
qed

lemma decodeArg_sound:
  assumes "decodeArg (b ! 0 AND 0x1f) b = Inr (arg, n)" and "b \<noteq> []"
  shows "b = encodeHead (drop_bit 5 (b ! 0)) arg @ drop n b \<and> n = length (encodeHead (drop_bit 5 (b ! 0)) arg)"
proof -
  let ?ai = "b ! 0 AND 0x1f" and ?m = "push_bit 5 (drop_bit 5 (b ! 0))"
  note split = head_octet_split [of "b ! 0"]
  have tiny: ?thesis if "?ai < 24" "arg = ucast ?ai" "n = 1"
  proof -
    have "arg < 24" using that by (simp add: word_less_nat_alt unsigned_ucast_eq take_bit_nat_eq_self)
    moreover have "(ucast arg :: byte) = ?ai" using that by (simp add: ucast_up_down)
    moreover have "[b ! 0] @ drop 1 b = b" using assms(2) by (cases b) auto
    ultimately show ?thesis using that(3) split by (simp add: encodeHead_def)
  qed
  have wide: ?thesis if "n \<le> length b" "k \<le> 8" "arg = get_be (gslice 1 n b)" "n = Suc k"
    "encodeHead (drop_bit 5 (b ! 0)) arg = (?m OR ?ai) # put_be k arg" for k
  proof -
    note w = decodeArg_wide [OF that(2,4,1), folded that(3)]
    have "b = (b ! 0) # put_be k arg @ drop n b" using w(1,2) by simp
    then show ?thesis using that(4,5) split by simp
  qed
  from assms(1) consider "?ai < 24" "arg = ucast ?ai" "n = 1"
    | "?ai = 24" "2 \<le> length b" "arg = get_be (gslice 1 2 b)" "24 \<le> arg" "n = 2"
    | "?ai = 25" "3 \<le> length b" "arg = get_be (gslice 1 3 b)" "2 ^ 8 \<le> arg" "n = 3"
    | "?ai = 26" "5 \<le> length b" "arg = get_be (gslice 1 5 b)" "2 ^ 16 \<le> arg" "n = 5"
    | "?ai = 27" "9 \<le> length b" "arg = get_be (gslice 1 9 b)" "2 ^ 32 \<le> arg" "n = 9"
    by (auto simp: decodeArg_def Let_def not_less split: if_splits)
  then show ?thesis
  proof cases
    case 1
    then show ?thesis by (rule tiny)
  next
    case 2
    then show ?thesis using decodeArg_wide(3) [of 1 2 b]
      by (intro wide [of 1]) (simp_all add: encodeHead_def word_less_nat_alt word_le_nat_alt)
  next
    case 3
    then show ?thesis using decodeArg_wide(3) [of 2 3 b]
      by (intro wide [of 2]) (simp_all add: encodeHead_def word_less_nat_alt word_le_nat_alt)
  next
    case 4
    then show ?thesis using decodeArg_wide(3) [of 4 5 b]
      by (intro wide [of 4]) (simp_all add: encodeHead_def word_less_nat_alt word_le_nat_alt)
  next
    case 5
    then show ?thesis
      by (intro wide [of 8]) (simp_all add: encodeHead_def word_less_nat_alt word_le_nat_alt)
  qed
qed

section \<open>Arrays and maps over a reader of their elements\<close>

text \<open>
  \<open>item_ok ok\<close> says that a value is one the decoder can return when its children satisfy \<open>ok\<close>:
  integers in their decoded types, lengths that fit the head, map entries with the encoding of
  their key beside it, in strictly ascending order.
\<close>

fun entry_ok :: "(goval \<Rightarrow> bool) \<Rightarrow> cborEntry \<Rightarrow> bool" where
  "entry_ok ok (ke, k, v) = (ke = cborEncode k \<and> ok k \<and> ok v)"

fun item_ok :: "(goval \<Rightarrow> bool) \<Rightarrow> goval \<Rightarrow> bool" where
  "item_ok ok (GUint n) = True"
| "item_ok ok (GInt64 t) = (sint t < 0)"
| "item_ok ok (GBytes b) = (length b < 2 ^ 64)"
| "item_ok ok (GString b) = (length b < 2 ^ 64)"
| "item_ok ok (GArr xs) = (length xs < 2 ^ 64 \<and> list_all ok xs)"
| "item_ok ok (GMapC es) = (length es < 2 ^ 64 \<and> list_all (entry_ok ok) es \<and> sorted_wrt byteLess (map fst es))"
| "item_ok ok (GBool b) = True"
| "item_ok ok GNil = True"
| "item_ok ok _ = False"

fun entry_enc :: "cborEntry \<Rightarrow> bytes" where
  "entry_enc (ke, k, v) = ke @ cborEncode v"

lemma cborEncode_GMapC: "cborEncode (GMapC es) = encodeHead 5 (of_nat (length es)) @ concat (map entry_enc es)"
  by (auto intro!: arg_cong [where f = concat] map_cong)

fun opt_list :: "'a option \<Rightarrow> 'a list" where
  "opt_list None = []" | "opt_list (Some x) = [x]"

lemma sorted_wrt_less_Cons2:
  "sorted_wrt (<) (x # y # zs) \<longleftrightarrow> (x::'a::order) < y \<and> sorted_wrt (<) (y # zs)"
  by (auto intro: less_trans)

lemma sorted_opt_Cons:
  "sorted_wrt (<) (opt_list prev @ k # ks) \<longleftrightarrow> \<not> (prev \<noteq> None \<and> \<not> the prev < (k :: 'a::order)) \<and> sorted_wrt (<) (k # ks)"
  by (cases prev) (auto intro: less_trans)

locale cbor_reader = prefix_codec cborEncode ok dec
  for ok :: "goval \<Rightarrow> bool" and dec :: "bytes \<Rightarrow> cbor_err + goval \<times> nat"
begin

lemma dec_at:
  assumes "dec (drop off b) = Inr (x, n)"
  shows "drop off b = cborEncode x @ drop (off + n) b" and "ok x" and "n = length (cborEncode x)"
proof -
  from assms show "ok x" and n: "n = length (cborEncode x)" by (simp_all add: dec_iff)
  from assms obtain rest where "drop off b = cborEncode x @ rest" by (auto simp: dec_iff)
  moreover from this have "drop (off + n) b = rest"
    by (metis add.commute append_eq_conv_conj drop_drop n)
  ultimately show "drop off b = cborEncode x @ drop (off + n) b" by simp
qed

lemma decodeArray_enc:
  "list_all ok xs \<Longrightarrow> drop off b = concat (map cborEncode xs) @ rest \<Longrightarrow>
    decodeArray dec b (length xs) off out = Inr (out @ xs, off + length (concat (map cborEncode xs)))"
proof (induction xs arbitrary: off out)
  case (Cons x xs)
  let ?off = "off + length (cborEncode x)"
  from Cons.prems have ok: "ok x" "list_all ok xs"
    and b0: "drop off b = cborEncode x @ concat (map cborEncode xs) @ rest" by simp_all
  from b0 have b1: "drop ?off b = concat (map cborEncode xs) @ rest"
    by (metis add.commute append_eq_conv_conj drop_drop)
  have "dec (drop off b) = Inr (x, length (cborEncode x))" unfolding b0 using ok(1) by (rule dec_enc)
  then show ?case using Cons.IH [OF ok(2) b1, of "out @ [x]"] by simp
qed simp

lemma decodeArray_sound:
  "decodeArray dec b cnt off out = Inr (ys, off') \<Longrightarrow>
    \<exists>xs. ys = out @ xs \<and> length xs = cnt \<and> list_all ok xs \<and> drop off b = concat (map cborEncode xs) @ drop off' b
      \<and> off' = off + length (concat (map cborEncode xs))"
proof (induction cnt arbitrary: off out)
  case (Suc cnt)
  then obtain x n where d: "dec (drop off b) = Inr (x, n)"
    and r: "decodeArray dec b cnt (off + n) (out @ [x]) = Inr (ys, off')" by auto
  from Suc.IH [OF r] obtain xs where xs: "ys = (out @ [x]) @ xs" "length xs = cnt" "list_all ok xs"
    "drop (off + n) b = concat (map cborEncode xs) @ drop off' b" "off' = off + n + length (concat (map cborEncode xs))"
    by blast
  note dx = dec_at [OF d]
  show ?case
  proof (intro exI [of _ "x # xs"] conjI)
    show "ys = out @ x # xs" "length (x # xs) = Suc cnt" "list_all ok (x # xs)" using xs(1,2,3) dx(2) by simp_all
    show "drop off b = concat (map cborEncode (x # xs)) @ drop off' b"
      unfolding dx(1) xs(4) by simp
    show "off' = off + length (concat (map cborEncode (x # xs)))"
      using xs(5) dx(3) by simp
  qed
qed simp

lemma decodeMap_enc:
  "list_all (entry_ok ok) es \<Longrightarrow> sorted_wrt (<) (opt_list prev @ map fst es) \<Longrightarrow>
    drop off b = concat (map entry_enc es) @ rest \<Longrightarrow>
    decodeMap dec b (length es) off prev out = Inr (out @ es, off + length (concat (map entry_enc es)))"
proof (induction es arbitrary: off prev out)
  case (Cons e es)
  obtain ke k v where e: "e = (ke, k, v)" by (cases e)
  let ?off = "off + length (cborEncode k)"
  from Cons.prems e have ok: "ok k" "ok v" "ke = cborEncode k"
    and b0: "drop off b = cborEncode k @ cborEncode v @ concat (map entry_enc es) @ rest" by auto
  from b0 have b1: "drop ?off b = cborEncode v @ concat (map entry_enc es) @ rest"
    by (metis add.commute append_eq_conv_conj drop_drop)
  then have b2: "drop (?off + length (cborEncode v)) b = concat (map entry_enc es) @ rest"
    by (metis add.commute append_eq_conv_conj drop_drop)
  have "gslice off ?off b = cborEncode k" using b0 by (simp add: gslice_def)
  then show ?case
    using Cons.IH [of "Some ke" _ "out @ [(ke, k, v)]"] Cons.prems b0 b1 b2 ok
    by (auto simp: e dec_enc byteLess_less sorted_opt_Cons add.assoc Let_def)
qed simp

lemma decodeMap_sound:
  "decodeMap dec b cnt off prev out = Inr (ys, off') \<Longrightarrow>
    \<exists>es. ys = out @ es \<and> length es = cnt \<and> list_all (entry_ok ok) es \<and> sorted_wrt (<) (opt_list prev @ map fst es)
      \<and> drop off b = concat (map entry_enc es) @ drop off' b \<and> off' = off + length (concat (map entry_enc es))"
proof (induction cnt arbitrary: off prev out)
  case 0
  then show ?case by (cases prev) auto
next
  case (Suc cnt)
  then obtain k kn v vn where d: "dec (drop off b) = Inr (k, kn)" "dec (drop (off + kn) b) = Inr (v, vn)"
    and lt: "\<not> (prev \<noteq> None \<and> \<not> the prev < gslice off (off + kn) b)"
    and r: "decodeMap dec b cnt (off + kn + vn) (Some (gslice off (off + kn) b)) (out @ [(gslice off (off + kn) b, k, v)]) = Inr (ys, off')"
    by (auto simp: Let_def byteLess_less split: if_splits)
  note dk = dec_at [OF d(1)] and dv = dec_at [OF d(2)]
  have ke: "gslice off (off + kn) b = cborEncode k"
    by (simp add: gslice_def dk(1)) (simp add: dk(3))
  from Suc.IH [OF r] obtain es where es: "ys = (out @ [(cborEncode k, k, v)]) @ es" "length es = cnt"
    "list_all (entry_ok ok) es" "sorted_wrt (<) (cborEncode k # map fst es)"
    "drop (off + kn + vn) b = concat (map entry_enc es) @ drop off' b" "off' = off + kn + vn + length (concat (map entry_enc es))"
    unfolding ke by auto
  let ?es = "(cborEncode k, k, v) # es"
  show ?case
  proof (intro exI [of _ ?es] conjI)
    show "ys = out @ ?es" "length ?es = Suc cnt" using es(1,2) by simp_all
    show "list_all (entry_ok ok) ?es" using es(3) dk(2) dv(2) by simp
    show "sorted_wrt (<) (opt_list prev @ map fst ?es)"
      using lt es(4) ke by (simp only: list.map fst_conv sorted_opt_Cons simp_thms)
    show "drop off b = concat (map entry_enc ?es) @ drop off' b"
      unfolding dk(1) dv(1) es(5) by simp
    show "off' = off + length (concat (map entry_enc ?es))"
      using es(6) dk(3) dv(3) by simp
  qed
qed

end

section \<open>The codec\<close>

primrec cbor_ok :: "nat \<Rightarrow> goval \<Rightarrow> bool" where
  "cbor_ok 0 v = False"
| "cbor_ok (Suc levels) v = item_ok (cbor_ok levels) v"

lemma decodeItem_head:
  assumes "major < 7"
  shows "decodeItem dec (encodeHead major arg @ rest)
    = decodeMajor dec (encodeHead major arg @ rest) major arg (length (encodeHead major arg))"
proof -
  from assms have m: "major < 8" "major \<noteq> 7" by (auto elim: order_less_trans)
  have ne: "encodeHead major arg \<noteq> []" using length_encodeHead [of major arg] by auto
  show ?thesis
    unfolding decodeItem_def Let_def decodeArg_encodeHead [OF m(1)] using m(2) ne by simp
qed

lemma bit_63: "bit (w :: u64) 63 \<longleftrightarrow> 2 ^ 63 \<le> unat w"
proof
  assume "2 ^ 63 \<le> unat w"
  then have "unat w div 2 ^ 63 = 1" using unat_less [of w] by simp
  then have "bit (unat w) 63" by (simp add: bit_iff_odd)
  then show "bit w 63" by (simp add: bit_unsigned_iff)
qed (use small_bit [of w 63 63] in force)

lemma negative_arg: "sint (t :: u64) < 0 \<longleftrightarrow> - 1 - t \<le> 2 ^ 63 - 1"
proof -
  have "sint t < 0 \<longleftrightarrow> bit t 63" using bit_last_iff [of t] by simp
  also have "\<dots> \<longleftrightarrow> \<not> bit (NOT t) 63" by (simp add: bit_not_iff)
  also have "NOT t = - 1 - t" by (simp add: not_eq_complement)
  finally show ?thesis by (simp add: bit_63 word_le_nat_alt not_le) linarith
qed

lemma decodeItem_cases:
  assumes "decodeItem dec b = Inr (v, n)"
  obtains r where "v = GBool False" "n = 1" "b = 0xf4 # r"
    | r where "v = GBool True" "n = 1" "b = 0xf5 # r"
    | r where "v = GNil" "n = 1" "b = 0xf6 # r"
    | major arg r where "major < 7" "b = encodeHead major arg @ r"
        "decodeMajor dec b major arg (length (encodeHead major arg)) = Inr (v, n)"
proof (cases "drop_bit 5 (b ! 0) = 7")
  case True
  from assms obtain ib r where b: "b = ib # r" by (cases b) (auto simp: decodeItem_def)
  have ib: "ib = 0xe0 OR (ib AND 0x1f)" using head_octet_split [of ib] True b by simp
  from assms True b consider "ib AND 0x1f = 20" "v = GBool False" "n = 1" | "ib AND 0x1f = 21" "v = GBool True" "n = 1"
    | "ib AND 0x1f = 22" "v = GNil" "n = 1"
    by (auto simp: decodeItem_def Let_def split: if_splits)
  then show ?thesis
  proof cases
    case 1
    with ib have "ib = 0xf4" by (simp only:) simp
    with 1 b that(1) show ?thesis by blast
  next
    case 2
    with ib have "ib = 0xf5" by (simp only:) simp
    with 2 b that(2) show ?thesis by blast
  next
    case 3
    with ib have "ib = 0xf6" by (simp only:) simp
    with 3 b that(3) show ?thesis by blast
  qed
next
  case False
  with assms obtain arg hn where ne: "b \<noteq> []" and arg: "decodeArg (b ! 0 AND 0x1f) b = Inr (arg, hn)"
    and d: "decodeMajor dec b (drop_bit 5 (b ! 0)) arg hn = Inr (v, n)"
    by (auto simp: decodeItem_def Let_def split: if_splits)
  have "drop_bit 5 (b ! 0) < 8" by (rule head_octet_bounds)
  with False have "drop_bit 5 (b ! 0) < 7" by unat_arith
  with that(4) decodeArg_sound [OF arg ne] d show ?thesis by metis
qed

context cbor_reader
begin

lemma length_concat_enc: "list_all ok xs \<Longrightarrow> length xs \<le> length (concat (map cborEncode xs))"
proof (induction xs)
  case (Cons x xs)
  then have "cborEncode x \<noteq> []" by (simp add: enc_nonempty)
  with Cons show ?case by (cases "cborEncode x") auto
qed simp

lemma length_concat_entries: "list_all (entry_ok ok) es \<Longrightarrow> length es \<le> length (concat (map entry_enc es))"
proof (induction es)
  case (Cons e es)
  obtain ke k v where e: "e = (ke, k, v)" by (cases e)
  with Cons.prems have "cborEncode v \<noteq> []" by (simp add: enc_nonempty)
  with Cons e show ?case by (cases "cborEncode v") auto
qed simp

lemma decodeItem_enc:
  assumes "item_ok ok v"
  shows "decodeItem dec (cborEncode v @ rest) = Inr (v, length (cborEncode v))"
proof (cases v)
  case (GInt64 t)
  with assms have t: "sint t < 0" by simp
  then have "- 1 - t \<le> 2 ^ 63 - 1" by (simp only: negative_arg)
  with GInt64 t show ?thesis
    by (simp add: decodeItem_head decodeMajor_def not_less)
next
  case (GArr xs)
  let ?b = "cborEncode v @ rest"
  have "drop (length (encodeHead 4 (of_nat (length xs)))) ?b = concat (map cborEncode xs) @ rest"
    using GArr by simp
  from decodeArray_enc [OF _ this, of "[]"] show ?thesis
    using assms GArr length_concat_enc [of xs]
    by (simp add: decodeItem_head decodeMajor_def unat_of_nat_small not_less trans_le_add1)
next
  case (GMapC es)
  let ?b = "cborEncode v @ rest"
  have v: "cborEncode v = encodeHead 5 (of_nat (length es)) @ concat (map entry_enc es)"
    unfolding GMapC by (rule cborEncode_GMapC)
  then have "drop (length (encodeHead 5 (of_nat (length es)))) ?b = concat (map entry_enc es) @ rest"
    by simp
  from decodeMap_enc [OF _ _ this, of None "[]"] show ?thesis
    using assms GMapC length_concat_entries [of es] unfolding v
    by (simp add: decodeItem_head decodeMajor_def unat_of_nat_small not_less trans_le_add1 byteLess_eq)
next
  case (GBytes b)
  with assms show ?thesis
    by (simp add: decodeItem_head decodeMajor_def unat_of_nat_small gslice_def)
next
  case (GString b)
  with assms show ?thesis
    by (simp add: decodeItem_head decodeMajor_def unat_of_nat_small gslice_def)
next
  case (GBool b)
  then show ?thesis by (simp add: decodeItem_def)
next
  case GNil
  then show ?thesis by (simp add: decodeItem_def)
qed (use assms in \<open>auto simp: decodeItem_head decodeMajor_def\<close>)

lemma decodeMajor_sound:
  assumes "decodeMajor dec b major arg (length (encodeHead major arg)) = Inr (v, n)"
    and b: "b = encodeHead major arg @ r"
  shows "item_ok ok v \<and> n = length (cborEncode v) \<and> (\<exists>r'. b = cborEncode v @ r')"
proof -
  let ?hn = "length (encodeHead major arg)"
  have lt: "unat arg < 2 ^ 64" using unat_less [of arg] by simp
  have len: "length (take (unat arg) r) = unat arg" "gslice ?hn (?hn + unat arg) b = take (unat arg) r"
    if "?hn + unat arg \<le> length b" using that by (simp_all add: b gslice_def)
  have chunk: "\<exists>r'. b = (encodeHead major arg @ take (unat arg) r) @ r'"
    using append_take_drop_id [of "unat arg" r] unfolding b by (metis append_assoc)
  have dr: "drop ?hn b = r" by (simp add: b)
  note d = assms(1) [unfolded decodeMajor_def]
  consider "major = 0" | "major = 1" | "major = 2 \<or> major = 3" | "major = 4" | "major = 5"
    | "major \<notin> {0, 1, 2, 3, 4, 5}" by blast
  then show ?thesis
  proof cases
    case 1
    then show ?thesis using d b by auto
  next
    case 2
    with d have v: "v = GInt64 (- 1 - arg)" "n = ?hn" and le: "arg \<le> 2 ^ 63 - 1"
      by (auto simp: not_less split: if_splits)
    have "sint (- 1 - arg) < 0" using le by (simp only: negative_arg) simp
    then show ?thesis using 2 v b by simp
  next
    case 3
    with d have le: "?hn + unat arg \<le> length b" and n: "n = ?hn + unat arg"
      and v: "v = (if major = 2 then GBytes else GString) (gslice ?hn (?hn + unat arg) b)"
      by (auto split: if_splits)
    show ?thesis using 3 chunk lt len [OF le] v n by (auto simp: unat_of_nat_small)
  next
    case 4
    with d obtain xs where v: "v = GArr xs" and a: "decodeArray dec b (unat arg) ?hn [] = Inr (xs, n)"
      by (auto split: if_splits)
    from decodeArray_sound [OF a] obtain ys where ys: "xs = ys" "length ys = unat arg" "list_all ok ys"
      "r = concat (map cborEncode ys) @ drop n b" "n = ?hn + length (concat (map cborEncode ys))"
      unfolding dr by auto
    have "b = cborEncode v @ drop n b" by (subst b, subst ys(4)) (simp add: 4 v ys(1,2))
    then have "\<exists>r'. b = cborEncode v @ r'" by blast
    then show ?thesis using 4 v ys(1,2,3,5) lt by simp
  next
    case 5
    with d obtain es where v: "v = GMapC es" and m: "decodeMap dec b (unat arg) ?hn None [] = Inr (es, n)"
      by (auto split: if_splits)
    from decodeMap_sound [OF m] obtain fs where es: "es = fs" "length fs = unat arg" "list_all (entry_ok ok) fs"
      "sorted_wrt (<) (map fst fs)"
      "r = concat (map entry_enc fs) @ drop n b" "n = ?hn + length (concat (map entry_enc fs))"
      unfolding dr by auto
    have ev: "cborEncode v = encodeHead 5 arg @ concat (map entry_enc fs)"
      using cborEncode_GMapC [of fs] es(2) by (simp add: v es(1))
    have "b = cborEncode v @ drop n b" by (subst b, subst es(5)) (simp add: ev 5)
    then have "\<exists>r'. b = cborEncode v @ r'" by blast
    moreover have "n = length (cborEncode v)" using ev es(6) 5 by simp
    ultimately show ?thesis using es(1-4) lt v by (simp add: byteLess_eq)
  next
    case 6
    then show ?thesis using d by auto
  qed
qed

lemma decodeItem_sound:
  assumes "decodeItem dec b = Inr (v, n)"
  shows "item_ok ok v \<and> n = length (cborEncode v) \<and> (\<exists>r. b = cborEncode v @ r)"
  using assms
proof (cases rule: decodeItem_cases)
  case (4 major arg r)
  then show ?thesis by (intro decodeMajor_sound)
qed simp_all

lemma decodeItem_codec: "cbor_reader (item_ok ok) (decodeItem dec)"
proof unfold_locales
  show "decodeItem dec b = Inr (x, n) \<longleftrightarrow> item_ok ok x \<and> n = length (cborEncode x) \<and> (\<exists>rest. b = cborEncode x @ rest)" for b x n
    using decodeItem_sound [of b x n] by (auto simp: decodeItem_enc)
  show "item_ok ok x \<Longrightarrow> cborEncode x \<noteq> []" for x
    using decodeItem_enc [of x "[]"] by (auto simp: decodeItem_def)
qed

end

lemma cborDecodeAt_codec: "cbor_reader (cbor_ok d) (cborDecodeAt d)"
proof (induction d)
  case 0
  then show ?case by unfold_locales simp_all
next
  case (Suc d)
  then have "cbor_reader (item_ok (cbor_ok d)) (decodeItem (cborDecodeAt d))"
    by (rule cbor_reader.decodeItem_codec)
  moreover have "item_ok (cbor_ok d) = cbor_ok (Suc d)" "decodeItem (cborDecodeAt d) = cborDecodeAt (Suc d)"
    by (simp_all add: fun_eq_iff)
  ultimately show ?case by (simp only:)
qed

interpretation cbd: cbor_reader "cbor_ok d" "cborDecodeAt d" for d
  by (rule cborDecodeAt_codec)

lemma cborDecodeTop_iff:
  "cborDecodeTop b = Inr v \<longleftrightarrow> cbor_ok cborMaxNestingDepth v \<and> b = cborEncode v"
  by (auto simp: cborDecodeTop_def cborDecode_def cborMaxNestingDepth_def cbd.dec_iff split: if_splits)

section \<open>Maps with unsigned keys\<close>

text \<open>The bytewise order of the encoded keys is the numeric order of the keys.\<close>

lemma digits_less:
  fixes P :: nat
  assumes "P * xb + xr < P * yb + yr" "xr < P" "yr < P"
  shows "xb < yb \<or> xb = yb \<and> xr < yr"
proof (rule ccontr)
  assume "\<not> ?thesis"
  then consider "xb = yb" "yr \<le> xr" | "yb + 1 \<le> xb" by fastforce
  then show False
  proof cases
    case 2
    then have "P * (yb + 1) \<le> P * xb" by (rule mult_le_mono2)
    then show False using assms by simp
  qed (use assms in simp)
qed

lemma unat_octet: "unat (ucast (drop_bit (8 * n) (w :: u64)) :: byte) = (unat w div 2 ^ (8 * n)) mod 256"
  unfolding unsigned_ucast_eq unat_drop_bit_eq by (simp add: take_bit_eq_mod drop_bit_eq_div)

lemma put_be_less:
  "unat (a :: u64) mod 2 ^ (8 * n) < unat (b :: u64) mod 2 ^ (8 * n) \<Longrightarrow> put_be n a < put_be n b"
proof (induction n)
  case (Suc n)
  let ?P = "2 ^ (8 * n) :: nat"
  have e: "x mod 2 ^ (8 * Suc n) = ?P * (x div ?P mod 256) + x mod ?P" for x :: nat
    using mod_mult2_eq [of x ?P 256] by (simp add: power_add mult.commute)
  from Suc.prems have "unat a div ?P mod 256 < unat b div ?P mod 256
      \<or> unat a div ?P mod 256 = unat b div ?P mod 256 \<and> unat a mod ?P < unat b mod ?P"
    unfolding e by (rule digits_less) simp_all
  then show ?case using Suc.IH by (auto simp: word_less_nat_alt unat_octet word_unat_eq_iff)
qed simp

lemma encodeHead_less:
  assumes "a < b"
  shows "encodeHead 0 a < encodeHead 0 b"
proof -
  have wide: "h # put_be n a < h # put_be n b" if "unat b < 2 ^ (8 * n)" for h n
  proof -
    have "unat a < unat b" using assms by (simp add: word_less_nat_alt)
    then show ?thesis using put_be_less [of a n b] that by simp
  qed
  have octet: "unat (ucast a :: byte) = unat a" if "a < 24" for a :: u64
    using that by (simp add: ucast_small word_less_nat_alt)
  consider "b < 24" | "24 \<le> b" "b < 256" | "256 \<le> b" "b < 65536" | "65536 \<le> b" "b < 4294967296" | "4294967296 \<le> b"
    by force
  then show ?thesis
    using assms wide [of 1] wide [of 2] wide [of 4] wide [of 8] unat_less [of b] octet [of a] octet [of b]
    by cases (auto simp: encodeHead_def word_less_nat_alt word_le_nat_alt)
qed

lemma encodeHead_inject: "encodeHead 0 a = encodeHead 0 b \<longleftrightarrow> a = b"
  using encodeHead_less [of a b] encodeHead_less [of b a] by (cases a b rule: linorder_cases) auto

lemma newCBORMapU_keys: "map fst (newCBORMapU m) = sort (map (encodeHead 0 \<circ> fst) m)"
proof -
  have "map fst (sort_key fst xs) = sort (map fst xs)" for xs :: "cborEntry list"
    by (rule properties_for_sort [symmetric]) simp_all
  then show ?thesis by (simp add: newCBORMapU_def case_prod_unfold comp_def)
qed

lemma newCBORMapU_sorted:
  assumes "distinct (map fst m)"
  shows "sorted_wrt (<) (map fst (newCBORMapU m))"
proof -
  have "inj_on (encodeHead 0) X" for X by (simp add: inj_on_def encodeHead_inject)
  with assms have "distinct (map (encodeHead 0) (map fst m))" by (simp only: distinct_map)
  then show ?thesis by (simp add: newCBORMapU_keys strict_sorted_iff)
qed

lemma set_newCBORMapU: "set (newCBORMapU m) = (\<lambda>(k, v). (encodeHead 0 k, GUint k, v)) ` set m"
  by (simp add: newCBORMapU_def)

lemma length_newCBORMapU [simp]: "length (newCBORMapU m) = length m"
  by (simp add: newCBORMapU_def)

lemma newCBORMapU_perm:
  assumes "distinct (map fst m)" and "mset m' = mset m"
  shows "newCBORMapU m' = newCBORMapU m"
proof -
  have d: "distinct (map fst m')" using assms by (metis mset_eq_imp_distinct_iff mset_map)
  have "mset (newCBORMapU m') = mset (newCBORMapU m)"
    using assms(2) by (simp add: newCBORMapU_def)
  moreover have "inj_on fst (set (newCBORMapU m))"
    using newCBORMapU_sorted [OF assms(1)] by (auto simp: strict_sorted_iff distinct_map)
  moreover have "sorted (map fst (newCBORMapU m))" "sorted (map fst (newCBORMapU m'))"
    using newCBORMapU_sorted [OF assms(1)] newCBORMapU_sorted [OF d] by (simp_all add: strict_sorted_iff)
  ultimately show ?thesis
    by (metis sort_key_inj_key_eq sorted_sort_id)
qed

lemma cborMap_get_map_of: "cborMap_get es k = map_of (map (\<lambda>(ke, k, v). (ke, v)) es) (encodeHead 0 k)"
  by (induction es k rule: cborMap_get.induct) auto

lemma cborMap_get_newCBORMapU:
  assumes "distinct (map fst m)"
  shows "cborMap_get (newCBORMapU m) k = map_of m k"
proof -
  let ?es = "map (\<lambda>(ke, k, v). (ke, v)) (newCBORMapU m)"
  have "map fst ?es = map fst (newCBORMapU m)" by auto
  moreover have "distinct (map fst (newCBORMapU m))"
    using newCBORMapU_sorted [OF assms] by (simp add: strict_sorted_iff)
  ultimately have d: "distinct (map fst ?es)" by (simp only:)
  have "map_of ?es (encodeHead 0 k) = Some v \<longleftrightarrow> map_of m k = Some v" for v
    using d assms by (auto simp: map_of_eq_Some_iff set_newCBORMapU image_iff encodeHead_inject intro!: bexI [of _ "(k, v)"])
  then show ?thesis unfolding cborMap_get_map_of by (metis not_Some_eq)
qed

lemma cbor_ok_newCBORMapU:
  assumes "distinct (map fst m)" and "list_all (cbor_ok (Suc d)) (map snd m)" and "length m < 2 ^ 64"
  shows "cbor_ok (Suc (Suc d)) (GMapC (newCBORMapU m))"
  using assms newCBORMapU_sorted [OF assms(1)]
  by (auto simp: byteLess_eq list_all_iff set_newCBORMapU)

lemma cbor_ok_numeral: "cbor_ok (numeral k) v = item_ok (cbor_ok (pred_numeral k)) v"
  by (simp add: numeral_eq_Suc)

section \<open>Properties\<close>

text \<open>
  Claim C28 (deterministic CBOR). At every nesting depth \<open>cborDecode\<close> succeeds exactly on the
  octets that start with the encoding of a well-formed value that fits into the remaining levels,
  returning that value and the size of its encoding. So a top-level item decodes exactly when it is
  the canonical encoding of the value returned: no value has a second accepted form.
\<close>

theorem cborDecode_canonical:
  "(cborDecode b depth = Inr (v, n) \<longleftrightarrow>
      cbor_ok (Suc cborMaxNestingDepth - depth) v \<and> n = length (cborEncode v) \<and> (\<exists>rest. b = cborEncode v @ rest))
   \<and> (cborDecodeTop b = Inr v \<longleftrightarrow> cbor_ok cborMaxNestingDepth v \<and> b = cborEncode v)"
  by (simp add: cborDecodeTop_iff cborDecode_def cbd.dec_iff)

text \<open>
  Map encoding. The encoding of a Go map with unsigned keys does not depend on the order
  in which the runtime iterates over the map, and it decodes to a map that gives the same answer
  for every key.
\<close>

theorem cborEncode_map:
  assumes "distinct (map fst m)" and "mset m' = mset m"
    and "list_all (cbor_ok (cborMaxNestingDepth - 1)) (map snd m)" and "length m < 2 ^ 64"
  shows "cborEncode (GMapU m') = cborEncode (GMapU m)
    \<and> (\<exists>es. cborDecodeTop (cborEncode (GMapU m')) = Inr (GMapC es) \<and> (\<forall>k. cborMap_get es k = map_of m k))"
proof (intro conjI)
  have eq: "newCBORMapU m' = newCBORMapU m" using assms(1,2) by (rule newCBORMapU_perm)
  then show "cborEncode (GMapU m') = cborEncode (GMapU m)" by simp
  have "cbor_ok cborMaxNestingDepth (GMapC (newCBORMapU m))"
    using cbor_ok_newCBORMapU [OF assms(1) _ assms(4), of 6] assms(3)
    by (simp add: cborMaxNestingDepth_def del: cbor_ok.simps)
  then have "cborDecodeTop (cborEncode (GMapU m')) = Inr (GMapC (newCBORMapU m))"
    unfolding cborEncode_MapU eq by (simp only: cborDecodeTop_iff)
  then show "\<exists>es. cborDecodeTop (cborEncode (GMapU m')) = Inr (GMapC es) \<and> (\<forall>k. cborMap_get es k = map_of m k)"
    using cborMap_get_newCBORMapU [OF assms(1)] by blast
qed

theorem cborEncode_map_witness:
  "cborEncode (GMapU [(2, GBytes []), (1, GUint 7)]) = cborEncode (GMapU [(1, GUint 7), (2, GBytes [])])
   \<and> (\<exists>es. cborDecodeTop (cborEncode (GMapU [(2, GBytes []), (1, GUint 7)])) = Inr (GMapC es)
        \<and> (\<forall>k. cborMap_get es k = map_of [(1, GUint 7), (2, GBytes [])] k))"
  by (rule cborEncode_map) (simp_all add: cborMaxNestingDepth_def cbor_ok_numeral)

end
