(* ===== verification/ErrorFrame.thy ===== *)
theory ErrorFrame
  imports Cbor
begin

text \<open>
  The ERROR frame of \<^verbatim>\<open>src/impl/go/errorframe.go\<close>: the session error codes with their
  reactions and names, the body \<open>{1 => code, 2 => context}\<close> and its dedicated strict reader.
\<close>

section \<open>Codes\<close>

type_synonym session_error_code = byte

definition ErrCodeUnexpectedMessage :: session_error_code where "ErrCodeUnexpectedMessage = 1"
definition ErrCodeDecryptFailed :: session_error_code where "ErrCodeDecryptFailed = 2"
definition ErrCodeReplayDetected :: session_error_code where "ErrCodeReplayDetected = 3"
definition ErrCodeUnknownChannel :: session_error_code where "ErrCodeUnknownChannel = 4"
definition ErrCodeUnknownCriticalTLV :: session_error_code where "ErrCodeUnknownCriticalTLV = 5"
definition ErrCodeHandshakeTimeout :: session_error_code where "ErrCodeHandshakeTimeout = 6"
definition ErrCodeDowngradeDetected :: session_error_code where "ErrCodeDowngradeDetected = 7"
definition ErrCodeCloseIncomplete :: session_error_code where "ErrCodeCloseIncomplete = 8"
definition ErrCodeKeyUpdateOutOfOrder :: session_error_code where "ErrCodeKeyUpdateOutOfOrder = 9"
definition ErrCodeFlowControl :: session_error_code where "ErrCodeFlowControl = 10"

datatype error_reaction = ReactionFatal | ReactionDiscard

definition Reaction :: "session_error_code \<Rightarrow> error_reaction" where
  "Reaction c = (if c = ErrCodeReplayDetected \<or> c = ErrCodeUnknownChannel then ReactionDiscard else ReactionFatal)"

definition errCodeName :: "(session_error_code \<times> string) list" where
  "errCodeName =
    [(ErrCodeUnexpectedMessage, ''unexpected_message''), (ErrCodeDecryptFailed, ''decrypt_failed''),
     (ErrCodeReplayDetected, ''replay_detected''), (ErrCodeUnknownChannel, ''unknown_channel''),
     (ErrCodeUnknownCriticalTLV, ''unknown_critical_tlv''), (ErrCodeHandshakeTimeout, ''handshake_timeout''),
     (ErrCodeDowngradeDetected, ''downgrade_detected''), (ErrCodeCloseIncomplete, ''close_incomplete''),
     (ErrCodeKeyUpdateOutOfOrder, ''key_update_out_of_order''), (ErrCodeFlowControl, ''flow_control_error'')]"

text \<open>\<open>itoaHex\<close>: the loop fills the buffer from its end, one digit per four bits.\<close>

function itoaHex_loop :: "u64 \<Rightarrow> string \<Rightarrow> string" where
  "itoaHex_loop v buf =
    (if v > 0 then itoaHex_loop (drop_bit 4 v) (''0123456789abcdef'' ! unat (v AND 0xf) # buf) else buf)"
  by auto
termination
proof (relation "measure (\<lambda>(v, _). unat v)")
  fix v :: u64 and buf :: string
  assume "v > 0"
  then have "unat v div 16 < unat v" by (simp add: word_less_nat_alt)
  moreover have "unat (drop_bit 4 v) = unat v div 16"
    unfolding unat_drop_bit_eq by (simp add: drop_bit_eq_div)
  ultimately show "((drop_bit 4 v, ''0123456789abcdef'' ! unat (v AND 0xf) # buf), (v, buf)) \<in> measure (\<lambda>(v, _). unat v)"
    by simp
qed simp

declare itoaHex_loop.simps [simp del]

definition itoaHex :: "u64 \<Rightarrow> string" where
  "itoaHex v = (if v = 0 then ''0x0'' else ''0x'' @ itoaHex_loop v [])"

definition errCode_String :: "session_error_code \<Rightarrow> string" where
  "errCode_String c =
    (case map_of errCodeName c of Some n \<Rightarrow> n | None \<Rightarrow> ''error_code('' @ itoaHex (ucast c) @ '')'')"

section \<open>The body\<close>

definition EncodeErrorBody :: "session_error_code \<Rightarrow> bytes \<Rightarrow> bytes" where
  "EncodeErrorBody code context = cborEncode (GMapU [(1, GUint (ucast code)), (2, GBytes context)])"

definition cborReadUint :: "bytes \<Rightarrow> npamp_err + u64 \<times> nat" where
  "cborReadUint b =
    (if length b < 1 \<or> drop_bit 5 (b ! 0) \<noteq> 0 then Inl ErrMalformedErrorBody
     else let ai = b ! 0 AND 0x1f in
       if ai < 24 then Inr (ucast ai, 1)
       else if ai = 24 then
         if length b < 2 \<or> b ! 1 < 24 then Inl ErrMalformedErrorBody else Inr (ucast (b ! 1), 2)
       else if ai = 25 then
         if length b < 3 then Inl ErrMalformedErrorBody
         else let v = push_bit 8 (ucast (b ! 1)) OR ucast (b ! 2) in
           if v < 256 then Inl ErrMalformedErrorBody else Inr (v, 3)
       else Inl ErrMalformedErrorBody)"

definition cborReadBstr :: "bytes \<Rightarrow> npamp_err + bytes \<times> nat" where
  "cborReadBstr b =
    (if length b < 1 \<or> drop_bit 5 (b ! 0) \<noteq> 2 then Inl ErrMalformedErrorBody
     else let hdr = b[0 := b ! 0 AND 0x1f] in
       rbind (cborReadUint hdr) (\<lambda>(ln, hn).
         let end = hn + unat ln in
         if end > length b then Inl ErrMalformedErrorBody else Inr (gslice hn end b, end)))"

definition DecodeErrorBody :: "bytes \<Rightarrow> npamp_err + session_error_code \<times> bytes" where
  "DecodeErrorBody b =
    (if length b < 1 \<or> b ! 0 \<noteq> 0xa2 then Inl ErrMalformedErrorBody
     else if 1 \<ge> length b \<or> b ! 1 \<noteq> 0x01 then Inl ErrMalformedErrorBody
     else rbind (cborReadUint (drop 2 b)) (\<lambda>(code, n).
       if code > 255 then Inl ErrMalformedErrorBody
       else let p = 2 + n in
         if p \<ge> length b \<or> b ! p \<noteq> 0x02 then Inl ErrMalformedErrorBody
         else rbind (cborReadBstr (drop (p + 1) b)) (\<lambda>(ctx, n).
           if p + 1 + n \<noteq> length b then Inl ErrMalformedErrorBody else Inr (ucast code, ctx))))"

section \<open>The reader against the general codec\<close>

lemma get_be_1: "get_be [x] = ucast x" and get_be_2: "get_be [x, y] = push_bit 8 (ucast x) OR ucast y"
  by (simp_all add: get_be_def)

lemma gslice_1_2: "2 \<le> length b \<Longrightarrow> gslice (Suc 0) 2 b = [b ! Suc 0]"
  and gslice_1_3: "3 \<le> length b \<Longrightarrow> gslice (Suc 0) 3 b = [b ! Suc 0, b ! 2]"
  by (cases b; cases "tl b"; cases "tl (tl b)"; auto simp: gslice_def eval_nat_numeral)+

lemma cborReadUint_decodeArg:
  "cborReadUint b = Inr (v, n) \<longleftrightarrow>
    b \<noteq> [] \<and> drop_bit 5 (b ! 0) = 0 \<and> decodeArg (b ! 0 AND 0x1f) b = Inr (v, n) \<and> v < 65536"
proof -
  let ?ai = "b ! 0 AND 0x1f"
  have small: "(ucast x :: u64) < 24 \<longleftrightarrow> x < 24" "(ucast x :: u64) < 65536" for x :: byte
    using unat_less [of x] by (simp_all add: word_less_nat_alt unsigned_ucast_eq take_bit_nat_eq_self)
  have two: "(get_be [x, y] :: u64) < 65536" for x y
    using get_be_bound [of "[x, y]", where 'a = 64] by (simp add: word_less_nat_alt)
  consider "?ai < 24" | "?ai = 24" | "?ai = 25" | "?ai = 26" | "?ai = 27" | "\<not> ?ai < 24" "?ai \<notin> {24, 25, 26, 27}" by blast
  then show ?thesis
  proof cases
    case 1
    then show ?thesis using small by (auto simp: cborReadUint_def decodeArg_def)
  next
    case 2
    then show ?thesis using small by (auto simp: cborReadUint_def decodeArg_def gslice_1_2 get_be_1 not_less Let_def)
  next
    case 3
    then show ?thesis using two by (auto simp: cborReadUint_def decodeArg_def gslice_1_3 get_be_2 Let_def not_less)
  next
    case 4
    then show ?thesis by (auto simp: cborReadUint_def decodeArg_def Let_def)
  next
    case 5
    then show ?thesis by (auto simp: cborReadUint_def decodeArg_def Let_def word_less_nat_alt)
  next
    case 6
    then show ?thesis by (auto simp: cborReadUint_def decodeArg_def Let_def)
  qed
qed

lemma cborReadUint_iff:
  "cborReadUint b = Inr (v, n) \<longleftrightarrow> v < 65536 \<and> n = length (encodeHead 0 v) \<and> (\<exists>rest. b = encodeHead 0 v @ rest)"
proof
  assume "cborReadUint b = Inr (v, n)"
  then have "b \<noteq> []" "drop_bit 5 (b ! 0) = 0" "decodeArg (b ! 0 AND 0x1f) b = Inr (v, n)" "v < 65536"
    by (simp_all add: cborReadUint_decodeArg)
  then show "v < 65536 \<and> n = length (encodeHead 0 v) \<and> (\<exists>rest. b = encodeHead 0 v @ rest)"
    using decodeArg_sound [of b v n] by metis
next
  assume "v < 65536 \<and> n = length (encodeHead 0 v) \<and> (\<exists>rest. b = encodeHead 0 v @ rest)"
  then show "cborReadUint b = Inr (v, n)"
    using decodeArg_encodeHead [of 0 v] length_encodeHead [of 0 v] by (auto simp: cborReadUint_decodeArg)
qed

lemma decodeArg_update: "decodeArg ai (b[0 := x]) = decodeArg ai b"
  by (simp add: decodeArg_def gslice_def)

lemma bstr_head:
  assumes "b \<noteq> []" and "drop_bit 5 (b ! 0) = 2"
  shows "cborReadUint (b[0 := b ! 0 AND 0x1f]) = Inr (v, n)
    \<longleftrightarrow> v < 65536 \<and> n = length (encodeHead 2 v) \<and> (\<exists>rest. b = encodeHead 2 v @ rest)"
proof -
  have "drop_bit 5 (b ! 0 AND 0x1f) = 0"
    by (rule byte_eqI; simp add: octet_bits)
  with assms(1) have *: "cborReadUint (b[0 := b ! 0 AND 0x1f]) = Inr (v, n) \<longleftrightarrow> decodeArg (b ! 0 AND 0x1f) b = Inr (v, n) \<and> v < 65536"
    by (simp add: cborReadUint_decodeArg decodeArg_update)
  have "n = length (encodeHead 2 v) \<and> b = encodeHead 2 v @ drop n b" if "decodeArg (b ! 0 AND 0x1f) b = Inr (v, n)"
    using decodeArg_sound [OF that assms(1)] unfolding assms(2) by blast
  moreover have "decodeArg (b ! 0 AND 0x1f) b = Inr (v, length (encodeHead 2 v))" if "b = encodeHead 2 v @ rest" for rest
    using decodeArg_encodeHead(2) [of 2 v rest] that by simp
  ultimately show ?thesis unfolding * by blast
qed

lemma cborReadBstr_iff:
  "cborReadBstr b = Inr (c, n) \<longleftrightarrow> length c < 65536 \<and> n = length (cborEncode (GBytes c)) \<and> (\<exists>rest. b = cborEncode (GBytes c) @ rest)"
proof
  assume "cborReadBstr b = Inr (c, n)"
  then obtain ln hn where h: "b \<noteq> []" "drop_bit 5 (b ! 0) = 2"
    and u: "cborReadUint (b[0 := b ! 0 AND 0x1f]) = Inr (ln, hn)"
    and n: "n = hn + unat ln" "n \<le> length b" and c: "c = gslice hn n b"
    by (auto simp: cborReadBstr_def Let_def split: if_splits)
  from u obtain rest where ln: "ln < 65536" "hn = length (encodeHead 2 ln)" and b: "b = encodeHead 2 ln @ rest"
    unfolding bstr_head [OF h] by blast
  have c': "c = take (unat ln) rest" and l: "length c = unat ln" using n ln(2) by (auto simp: c b gslice_def)
  then have "b = cborEncode (GBytes c) @ drop (unat ln) rest" by (simp add: b)
  then show "length c < 65536 \<and> n = length (cborEncode (GBytes c)) \<and> (\<exists>rest. b = cborEncode (GBytes c) @ rest)"
    using ln n l by (auto simp: word_less_nat_alt)
next
  assume r: "length c < 65536 \<and> n = length (cborEncode (GBytes c)) \<and> (\<exists>rest. b = cborEncode (GBytes c) @ rest)"
  let ?ln = "of_nat (length c) :: u64"
  from r obtain rest where b: "b = encodeHead 2 ?ln @ c @ rest" by auto
  from r have ln: "unat ?ln = length c" by (simp add: unat_of_nat_small)
  have h: "b \<noteq> []" "drop_bit 5 (b ! 0) = 2"
    using decodeArg_encodeHead(1) [of 2 ?ln "c @ rest"] length_encodeHead [of 2 ?ln] by (auto simp: b)
  have "cborReadUint (b[0 := b ! 0 AND 0x1f]) = Inr (?ln, length (encodeHead 2 ?ln))"
    unfolding bstr_head [OF h] using r ln b by (auto simp: word_less_nat_alt)
  then show "cborReadBstr b = Inr (c, n)"
    using h r ln by (auto simp: cborReadBstr_def b gslice_def)
qed

lemma EncodeErrorBody_layout:
  "EncodeErrorBody c ctx = 0xa2 # 0x01 # encodeHead 0 (ucast c) @ 0x02 # cborEncode (GBytes ctx)"
  by (simp add: EncodeErrorBody_def newCBORMapU_def encodeHead_def)

lemma ucast_code: "unat (v :: u64) \<le> 255 \<Longrightarrow> ucast (ucast v :: byte) = v" "(ucast (ucast (c :: byte) :: u64) :: byte) = c"
  "unat (ucast (c :: byte) :: u64) \<le> 255"
  using unat_less [of c]
  by (simp_all add: word_unat_eq_iff unsigned_ucast_eq take_bit_nat_eq_self unsigned_take_bit_eq ucast_up_down)

lemma DecodeErrorBody_encode:
  assumes "length ctx < 65536"
  shows "DecodeErrorBody (EncodeErrorBody c ctx) = Inr (c, ctx)"
proof -
  let ?e = "encodeHead 0 (ucast c)" and ?b = "EncodeErrorBody c ctx"
  have b: "?b = 0xa2 # 0x01 # ?e @ 0x02 # cborEncode (GBytes ctx)" by (rule EncodeErrorBody_layout)
  have u: "cborReadUint (drop 2 ?b) = Inr (ucast c, length ?e)"
    unfolding b cborReadUint_iff using ucast_code(3) [of c] by (simp add: word_less_nat_alt)
  have at: "?b ! (2 + length ?e) = 0x02" "drop (2 + length ?e + 1) ?b = cborEncode (GBytes ctx)"
    unfolding b by simp_all
  have "cborReadBstr (cborEncode (GBytes ctx)) = Inr (ctx, length (cborEncode (GBytes ctx)))"
    unfolding cborReadBstr_iff using assms by auto
  then show ?thesis
    using u at ucast_code(3) [of c] b
    by (simp add: DecodeErrorBody_def ucast_code(2) not_less word_le_nat_alt del: cborEncode.simps)
qed

lemma DecodeErrorBody_sound:
  assumes "DecodeErrorBody b = Inr (c, ctx)"
  shows "b = EncodeErrorBody c ctx \<and> length ctx < 65536"
proof -
  from assms obtain v n m where len: "1 < length b" and b01: "b ! 0 = 0xa2" "b ! 1 = 0x01"
    and u: "cborReadUint (drop 2 b) = Inr (v, n)" and v: "v \<le> 255"
    and p: "2 + n < length b" "b ! (2 + n) = 0x02"
    and s: "cborReadBstr (drop (2 + n + 1) b) = Inr (ctx, m)" and e: "2 + n + 1 + m = length b" and c: "c = ucast v"
    by (auto simp: DecodeErrorBody_def Let_def not_less not_le split: if_splits)
  from u obtain r1 where r1: "drop 2 b = encodeHead 0 v @ r1" and n: "n = length (encodeHead 0 v)"
    unfolding cborReadUint_iff by blast
  from s obtain r2 where r2: "drop (2 + n + 1) b = cborEncode (GBytes ctx) @ r2" and m: "m = length (cborEncode (GBytes ctx))"
    and l: "length ctx < 65536" unfolding cborReadBstr_iff by blast
  have "length (drop (2 + n + 1) b) = m" using e by simp
  then have r2e: "r2 = []" unfolding r2 m by simp
  have r1e: "r1 = drop (2 + n) b" using r1 n by (metis append_eq_conv_conj drop_drop add.commute)
  have "r1 = 0x02 # drop (2 + n + 1) b" unfolding r1e using p by (metis Cons_nth_drop_Suc Suc_eq_plus1)
  then have d2: "drop 2 b = encodeHead 0 v @ 0x02 # cborEncode (GBytes ctx)" using r1 r2 r2e by simp
  have "b = b ! 0 # b ! 1 # drop 2 b"
    using len by (cases b; cases "tl b") auto
  then have "b = 0xa2 # 0x01 # encodeHead 0 v @ 0x02 # cborEncode (GBytes ctx)"
    unfolding d2 b01 .
  moreover have "ucast c = v" using v by (simp add: c ucast_code(1) word_le_nat_alt)
  ultimately show ?thesis using l by (simp only: EncodeErrorBody_layout)
qed

lemma DecodeErrorBody_err: "DecodeErrorBody b = Inl e \<Longrightarrow> e = ErrMalformedErrorBody"
  by (auto simp: DecodeErrorBody_def cborReadBstr_def cborReadUint_def Let_def rbind_Inl_iff split: if_splits)

lemma EncodeErrorBody_inject:
  assumes "length ctx < 2 ^ 64" "length ctx' < 2 ^ 64" "EncodeErrorBody c ctx = EncodeErrorBody c' ctx'"
  shows "c = c' \<and> ctx = ctx'"
proof -
  have ok: "cbor_ok (Suc 0) (GUint n)" "length y < 2 ^ 64 \<Longrightarrow> cbor_ok (Suc 0) (GBytes y)" for n y by simp_all
  from assms(3) have "cborEncode (GUint (ucast c)) @ 0x02 # cborEncode (GBytes ctx)
      = cborEncode (GUint (ucast c')) @ 0x02 # cborEncode (GBytes ctx')"
    unfolding EncodeErrorBody_layout by simp
  from cbd.prefix_free [OF ok(1) ok(1) this] have "ucast c = (ucast c' :: u64)" "cborEncode (GBytes ctx) = cborEncode (GBytes ctx')"
    by simp_all
  then show ?thesis
    using cbd.enc_inj [OF ok(2) [OF assms(1)] ok(2) [OF assms(2)]] ucast_code(2) by (metis goval.inject(4))
qed

section \<open>Properties\<close>

text \<open>
  Exactness of the ERROR body. \<open>DecodeErrorBody\<close> accepts exactly the payloads that \<open>EncodeErrorBody\<close>
  produces for a context shorter than 65536 octets, and returns the code and context that were
  encoded; it answers \<open>ErrMalformedErrorBody\<close> to everything else, including what
  \<open>EncodeErrorBody\<close> produces for a longer context.
\<close>

theorem DecodeErrorBody_exact:
  "DecodeErrorBody b = Inr (c, ctx) \<longleftrightarrow> b = EncodeErrorBody c ctx \<and> length ctx < 65536"
  using DecodeErrorBody_sound [of b c ctx] DecodeErrorBody_encode [of ctx c] by auto

text \<open>
  ERROR body of a long context. A context of 65536 octets or more is encoded into a body
  that the decoder of this package refuses.
\<close>

theorem EncodeErrorBody_long_context:
  assumes "65536 \<le> length ctx" and "length ctx < 2 ^ 64"
  shows "DecodeErrorBody (EncodeErrorBody c ctx) = Inl ErrMalformedErrorBody"
proof -
  have "DecodeErrorBody (EncodeErrorBody c ctx) \<noteq> Inr (c', ctx')" for c' ctx'
    using DecodeErrorBody_sound [of "EncodeErrorBody c ctx" c' ctx'] EncodeErrorBody_inject [of ctx ctx' c c'] assms by auto
  then show ?thesis using DecodeErrorBody_err by (metis old.sum.exhaust surj_pair)
qed

theorem EncodeErrorBody_long_context_witness:
  "DecodeErrorBody (EncodeErrorBody 1 (replicate 65536 0)) = Inl ErrMalformedErrorBody"
  by (rule EncodeErrorBody_long_context) simp_all

end
