(* ===== verification/Kem.thy ===== *)
theory Kem
  imports KeySchedule
begin

text \<open>
  The X25519MLKEM768 exchange of \<^verbatim>\<open>src/impl/go/kem.go\<close> and the combiner of
  \<^verbatim>\<open>src/impl/go/hybridkem/hybridkem.go\<close>. The primitives (ML-KEM-768, X25519, Ed25519) are a
  record of functions; what the protocol relies on in them are the predicates \<open>mlkem_correct\<close>, \<open>x25519_correct\<close> and \<open>ed25519_correct\<close>, which
  state the documented behaviour of the Go packages. Random choices are explicit arguments.
\<close>

section \<open>Primitives\<close>

text \<open>
  A private key is represented by the octets it is created from: the 64-octet seed of an ML-KEM
  decapsulation key, the 32-octet scalar of an X25519 key, the 64-octet Ed25519 private key.
  \<open>mlkem_encaps\<close> takes the randomness that Go draws inside \<^verbatim>\<open>ek.Encapsulate()\<close> and returns the
  shared key and the ciphertext; \<open>None\<close> of \<open>x25519_ecdh\<close> is the error on an all-zero result.
\<close>

record crypto_ops =
  mlkem_ek :: "bytes \<Rightarrow> bytes"
  mlkem_ek_ok :: "bytes \<Rightarrow> bool"
  mlkem_encaps :: "bytes \<Rightarrow> bytes \<Rightarrow> bytes \<times> bytes"
  mlkem_decaps :: "bytes \<Rightarrow> bytes \<Rightarrow> bytes"
  x25519_pub :: "bytes \<Rightarrow> bytes"
  x25519_ecdh :: "bytes \<Rightarrow> bytes \<Rightarrow> bytes option"
  ed25519_pub :: "bytes \<Rightarrow> bytes"
  ed25519_sign :: "bytes \<Rightarrow> bytes \<Rightarrow> bytes"
  ed25519_verify :: "bytes \<Rightarrow> bytes \<Rightarrow> bytes \<Rightarrow> bool"

text \<open>
  FIPS 203: sizes, and decapsulation inverts encapsulation; RFC 7748: sizes, and both sides of
  the exchange compute the same value; RFC 8032: sizes, and a signature verifies under the public
  key of its signer.
\<close>

definition mlkem_correct :: "crypto_ops \<Rightarrow> bool" where
  "mlkem_correct ops \<longleftrightarrow> (\<forall>seed coin. length seed = 64 \<longrightarrow>
     length (mlkem_ek ops seed) = 1184 \<and> mlkem_ek_ok ops (mlkem_ek ops seed)
     \<and> (case mlkem_encaps ops (mlkem_ek ops seed) coin of (ss, ct) \<Rightarrow>
          length ss = 32 \<and> length ct = 1088 \<and> mlkem_decaps ops seed ct = ss))"

definition x25519_correct :: "crypto_ops \<Rightarrow> bool" where
  "x25519_correct ops \<longleftrightarrow> (\<forall>a b. length a = 32 \<longrightarrow> length b = 32 \<longrightarrow>
     length (x25519_pub ops a) = 32
     \<and> x25519_ecdh ops a (x25519_pub ops b) = x25519_ecdh ops b (x25519_pub ops a)
     \<and> (\<forall>s. x25519_ecdh ops a (x25519_pub ops b) = Some s \<longrightarrow> length s = 32))"

definition ed25519_correct :: "crypto_ops \<Rightarrow> bool" where
  "ed25519_correct ops \<longleftrightarrow> (\<forall>sk m. length sk = 64 \<longrightarrow>
     length (ed25519_pub ops sk) = 32 \<and> length (ed25519_sign ops sk m) = 64
     \<and> ed25519_verify ops (ed25519_pub ops sk) m (ed25519_sign ops sk m))"

lemma mlkem_correctD:
  "mlkem_correct ops \<Longrightarrow> length seed = 64 \<Longrightarrow>
    length (mlkem_ek ops seed) = 1184 \<and> mlkem_ek_ok ops (mlkem_ek ops seed)
    \<and> (case mlkem_encaps ops (mlkem_ek ops seed) coin of (ss, ct) \<Rightarrow>
         length ss = 32 \<and> length ct = 1088 \<and> mlkem_decaps ops seed ct = ss)"
  by (simp add: mlkem_correct_def)

lemma x25519_correctD:
  "x25519_correct ops \<Longrightarrow> length a = 32 \<Longrightarrow> length b = 32 \<Longrightarrow>
    length (x25519_pub ops a) = 32 \<and> x25519_ecdh ops a (x25519_pub ops b) = x25519_ecdh ops b (x25519_pub ops a)
    \<and> (\<forall>s. x25519_ecdh ops a (x25519_pub ops b) = Some s \<longrightarrow> length s = 32)"
  unfolding x25519_correct_def by blast

lemma ed25519_correctD:
  "ed25519_correct ops \<Longrightarrow> length sk = 64 \<Longrightarrow>
    length (ed25519_pub ops sk) = 32 \<and> length (ed25519_sign ops sk m) = 64
    \<and> ed25519_verify ops (ed25519_pub ops sk) m (ed25519_sign ops sk m)"
  unfolding ed25519_correct_def by blast

section \<open>Model of kem.go\<close>

definition EncapsulationKeySize768 :: nat where "EncapsulationKeySize768 = 1184"
definition CiphertextSize768 :: nat where "CiphertextSize768 = 1088"
definition KEMShareSize768 :: nat where "KEMShareSize768 = EncapsulationKeySize768 + 32"
definition KEMCiphertextSize768 :: nat where "KEMCiphertextSize768 = CiphertextSize768 + 32"
definition CombinedSecretSize :: nat where "CombinedSecretSize = 2 * 32"

lemmas kem_sizes = EncapsulationKeySize768_def CiphertextSize768_def KEMShareSize768_def
  KEMCiphertextSize768_def CombinedSecretSize_def

record KEMClient =
  mlkemKey :: bytes
  x25519Key :: bytes

text \<open>\<open>GenerateKEMClient\<close> with the seed and the scalar drawn from the random source.\<close>

definition GenerateKEMClient :: "bytes \<Rightarrow> bytes \<Rightarrow> KEMClient" where
  "GenerateKEMClient seed xk = \<lparr>mlkemKey = seed, x25519Key = xk\<rparr>"

definition NewKEMClient :: "bytes \<Rightarrow> bytes \<Rightarrow> npamp_err + KEMClient" where
  "NewKEMClient mlkemSeed x25519PrivateKey =
    (if length mlkemSeed \<noteq> 64 then Inl ErrMLKEM
     else if length x25519PrivateKey \<noteq> 32 then Inl ErrX25519
     else Inr \<lparr>mlkemKey = mlkemSeed, x25519Key = x25519PrivateKey\<rparr>)"

definition KEMShare :: "crypto_ops \<Rightarrow> KEMClient \<Rightarrow> bytes" where
  "KEMShare ops c = mlkem_ek ops (mlkemKey c) @ x25519_pub ops (x25519Key c)"

text \<open>\<open>NewPublicKey\<close> refuses a length other than 32; \<open>ECDH\<close> refuses the all-zero result.\<close>

definition x25519_exchange :: "crypto_ops \<Rightarrow> bytes \<Rightarrow> bytes \<Rightarrow> npamp_err + bytes" where
  "x25519_exchange ops priv pub =
    (if length pub \<noteq> 32 then Inl ErrX25519
     else case x25519_ecdh ops priv pub of None \<Rightarrow> Inl ErrX25519 | Some s \<Rightarrow> Inr s)"

definition KEMClient_SharedSecrets :: "crypto_ops \<Rightarrow> KEMClient \<Rightarrow> bytes \<Rightarrow> npamp_err + SharedSecrets" where
  "KEMClient_SharedSecrets ops c kemCiphertext =
    (if length kemCiphertext \<noteq> KEMCiphertextSize768 then Inl ErrKEMCiphertextSize
     else let ct = take CiphertextSize768 kemCiphertext; serverPub = drop CiphertextSize768 kemCiphertext;
              mlkemSS = mlkem_decaps ops (mlkemKey c) ct in
       rbind (x25519_exchange ops (x25519Key c) serverPub) (\<lambda>xSS.
         Inr \<lparr>ssMLKEM = mlkemSS, ssX25519 = xSS\<rparr>))"

definition EncapsulateWith :: "crypto_ops \<Rightarrow> bytes \<Rightarrow> bytes \<Rightarrow> bytes \<Rightarrow> npamp_err + bytes \<times> SharedSecrets" where
  "EncapsulateWith ops coin kemShare serverX25519 =
    (if length kemShare \<noteq> KEMShareSize768 then Inl ErrKEMShareSize
     else let ekBytes = take EncapsulationKeySize768 kemShare; clientPubBytes = drop EncapsulationKeySize768 kemShare in
       if \<not> mlkem_ek_ok ops ekBytes then Inl ErrMLKEM
       else case mlkem_encaps ops ekBytes coin of (mlkemSS, ct) \<Rightarrow>
         rbind (x25519_exchange ops serverX25519 clientPubBytes) (\<lambda>xSS.
           Inr (ct @ x25519_pub ops serverX25519, \<lparr>ssMLKEM = mlkemSS, ssX25519 = xSS\<rparr>)))"

definition Encapsulate :: "crypto_ops \<Rightarrow> bytes \<Rightarrow> bytes \<Rightarrow> bytes \<Rightarrow> npamp_err + bytes \<times> SharedSecrets" where
  "Encapsulate ops xk coin kemShare = EncapsulateWith ops coin kemShare xk"

section \<open>Model of hybridkem.go\<close>

datatype hybrid_err = ErrUnknownGroup | ErrGroupNotSupported | ErrMLKEMSecretSize | ErrClassicalSecretSize

definition MLKEMSharedSecretSize :: nat where "MLKEMSharedSecretSize = 32"
definition X25519SharedSecretSize :: nat where "X25519SharedSecretSize = 32"

definition Combine :: "u16 \<Rightarrow> bytes \<Rightarrow> bytes \<Rightarrow> hybrid_err + bytes" where
  "Combine grp mlkemSS classicalSS =
    (if grp = 0x11ed then Inl ErrGroupNotSupported
     else if grp \<noteq> 0x11ec then Inl ErrUnknownGroup
     else if length mlkemSS \<noteq> MLKEMSharedSecretSize then Inl ErrMLKEMSecretSize
     else if length classicalSS \<noteq> X25519SharedSecretSize then Inl ErrClassicalSecretSize
     else Inr (mlkemSS @ classicalSS))"

section \<open>Agreement\<close>

definition KEMClient_ok :: "KEMClient \<Rightarrow> bool" where
  "KEMClient_ok c \<longleftrightarrow> length (mlkemKey c) = 64 \<and> length (x25519Key c) = 32"

lemma NewKEMClient_ok: "NewKEMClient seed xk = Inr c \<Longrightarrow> KEMClient_ok c"
  by (auto simp: NewKEMClient_def KEMClient_ok_def split: if_splits)

lemma length_KEMShare:
  assumes "mlkem_correct ops" "x25519_correct ops" "KEMClient_ok c"
  shows "length (KEMShare ops c) = 1216"
proof -
  have "length (mlkem_ek ops (mlkemKey c)) = 1184" "length (x25519_pub ops (x25519Key c)) = 32"
    using mlkem_correctD [OF assms(1)] x25519_correctD [OF assms(2)] assms(3) by (auto simp: KEMClient_ok_def)
  then show ?thesis by (simp add: KEMShare_def)
qed

lemma EncapsulateWith_SharedSecrets:
  assumes "mlkem_correct ops" "x25519_correct ops" "KEMClient_ok c" "length xk = 32"
    and e: "EncapsulateWith ops coin (KEMShare ops c) xk = Inr (ct, ss)"
  shows "KEMClient_SharedSecrets ops c ct = Inr ss \<and> length ct = KEMCiphertextSize768
    \<and> length (ssMLKEM ss) = 32 \<and> length (ssX25519 ss) = 32"
proof -
  let ?ek = "mlkem_ek ops (mlkemKey c)" and ?xp = "x25519_pub ops (x25519Key c)"
  obtain kss kct where k: "mlkem_encaps ops ?ek coin = (kss, kct)" by (cases "mlkem_encaps ops ?ek coin")
  have ek: "length ?ek = 1184" "mlkem_ek_ok ops ?ek" "length kss = 32" "length kct = 1088" "mlkem_decaps ops (mlkemKey c) kct = kss"
    using mlkem_correctD [OF assms(1), of "mlkemKey c" coin] assms(3) k by (simp_all add: KEMClient_ok_def)
  have x: "length ?xp = 32" "length (x25519_pub ops xk) = 32"
    "x25519_ecdh ops (x25519Key c) (x25519_pub ops xk) = x25519_ecdh ops xk ?xp"
    and xs: "x25519_ecdh ops xk ?xp = Some s \<Longrightarrow> length s = 32" for s
    using x25519_correctD [OF assms(2)] assms(3,4) unfolding KEMClient_ok_def by blast+
  from e ek x k obtain s where s: "x25519_ecdh ops xk ?xp = Some s"
    and ct: "ct = kct @ x25519_pub ops xk" "ss = \<lparr>ssMLKEM = kss, ssX25519 = s\<rparr>"
    by (auto simp: EncapsulateWith_def KEMShare_def kem_sizes x25519_exchange_def Let_def split: if_splits option.splits)
  show ?thesis
    using ek x s xs [OF s] by (simp add: ct KEMClient_SharedSecrets_def kem_sizes x25519_exchange_def)
qed

text \<open>Concrete functions with the sizes and the agreement laws of the primitives.\<close>

definition demo_ops :: crypto_ops where
  "demo_ops = \<lparr>mlkem_ek = (\<lambda>seed. seed @ replicate 1120 0), mlkem_ek_ok = (\<lambda>ek. True),
    mlkem_encaps = (\<lambda>ek coin. (take 32 ek, replicate 1088 7)), mlkem_decaps = (\<lambda>seed ct. take 32 seed),
    x25519_pub = (\<lambda>a. a), x25519_ecdh = (\<lambda>a b. Some (xor_bytes a b)),
    ed25519_pub = (\<lambda>sk. drop 32 sk), ed25519_sign = (\<lambda>sk m. drop 32 sk @ sha256 m),
    ed25519_verify = (\<lambda>pk m sig. sig = pk @ sha256 m)\<rparr>"

lemma xor_bytes_commute: "xor_bytes xs ys = xor_bytes ys xs"
proof (induction xs arbitrary: ys)
  case (Cons x xs)
  then show ?case by (cases ys) (auto simp: xor_bytes_def xor.commute)
qed (simp add: xor_bytes_def)

lemma demo_ops_correct: "mlkem_correct demo_ops" "x25519_correct demo_ops" "ed25519_correct demo_ops"
  by (auto simp: mlkem_correct_def x25519_correct_def ed25519_correct_def demo_ops_def xor_bytes_commute length_xor_bytes)

definition demoClient :: KEMClient where
  "demoClient = \<lparr>mlkemKey = replicate 64 3, x25519Key = replicate 32 1\<rparr>"

lemma demo_kem:
  "KEMClient_ok demoClient"
  "\<exists>ct ss. Encapsulate demo_ops (replicate 32 2) [] (KEMShare demo_ops demoClient) = Inr (ct, ss)"
  by (simp_all add: KEMClient_ok_def demoClient_def Encapsulate_def EncapsulateWith_def KEMShare_def demo_ops_def kem_sizes
      x25519_exchange_def)

section \<open>Properties\<close>

text \<open>
  KEM agreement. When the primitives behave as documented, the ciphertext that
  \<open>EncapsulateWith\<close> makes for a client's share lets that client recover exactly the shared secrets of
  the server; share, ciphertext and combined secret have the sizes of the wire format, and the
  stand-alone combiner \<open>hybridkem.Combine\<close> gives the same octets as \<open>SharedSecrets.Combined\<close>.
\<close>

theorem kem_agreement:
  assumes "mlkem_correct ops" "x25519_correct ops" "NewKEMClient seed xc = Inr c" "length xs = 32"
    and "EncapsulateWith ops coin (KEMShare ops c) xs = Inr (ct, ss)"
  shows "KEMClient_SharedSecrets ops c ct = Inr ss
    \<and> length (KEMShare ops c) = KEMShareSize768 \<and> length ct = KEMCiphertextSize768
    \<and> length (Combined ss) = CombinedSecretSize
    \<and> Combine KEMX25519MLKEM768 (ssMLKEM ss) (ssX25519 ss) = Inr (Combined ss)"
proof -
  note ok = NewKEMClient_ok [OF assms(3)]
  note r = EncapsulateWith_SharedSecrets [OF assms(1,2) ok assms(4,5)]
  then show ?thesis
    using length_KEMShare [OF assms(1,2) ok]
    by (simp add: kem_sizes Combine_def Combined_def suite_defs MLKEMSharedSecretSize_def X25519SharedSecretSize_def)
qed

theorem kem_agreement_witness:
  "\<exists>c ct ss. NewKEMClient (replicate 64 3) (replicate 32 1) = Inr c
    \<and> EncapsulateWith demo_ops [] (KEMShare demo_ops c) (replicate 32 2) = Inr (ct, ss)
    \<and> KEMClient_SharedSecrets demo_ops c ct = Inr ss"
proof -
  define c where "c = \<lparr>mlkemKey = replicate 64 (3::byte), x25519Key = replicate 32 (1::byte)\<rparr>"
  have c: "NewKEMClient (replicate 64 3) (replicate 32 1) = Inr c"
    by (simp add: NewKEMClient_def c_def)
  obtain ct ss where e: "EncapsulateWith demo_ops [] (KEMShare demo_ops c) (replicate 32 2) = Inr (ct, ss)"
    by (simp add: EncapsulateWith_def KEMShare_def demo_ops_def c_def kem_sizes x25519_exchange_def)
  then show ?thesis
    using kem_agreement [OF demo_ops_correct(1,2) c _ e] c by auto
qed

end
