(* ===== verification/Handshake.thy ===== *)
theory Handshake
  imports Kem
begin

text \<open>
  The handshake messages of \<^verbatim>\<open>src/impl/go/handshake.go\<close>: CLIENT_HELLO, SERVER_HELLO and the AUTH
  message with their strict decoders, the CertVerify signature and the Finished MAC. Each decoder
  is characterised exactly by its encoder.
\<close>

section \<open>Model\<close>

type_synonym role = byte
definition RoleClient :: role where "RoleClient = 1"
definition RoleServer :: role where "RoleServer = 2"

definition certVerifyContext :: "role \<Rightarrow> bytes" where
  "certVerifyContext r =
    (if r = RoleClient then str ''N-PAMP/3, client CertificateVerify''
     else if r = RoleServer then str ''N-PAMP/3, server CertificateVerify'' else [])"

record ClientHello =
  chProfileOffer :: "profile list"
  chKEMOffer :: "kem_id list"
  chSigOffer :: "sig_id list"
  chAEADOffer :: "aead_id list"
  chKEMShare :: bytes

record ServerHello =
  shProfileSelect :: profile
  shKEMSelect :: kem_id
  shSigSelect :: sig_id
  shAEADSelect :: aead_id
  shKEMCiphertext :: bytes

record AuthMessage =
  amIdentityKey :: bytes
  amCertVerify :: bytes
  amFinished :: bytes

definition u16ListBytes :: "u16 list \<Rightarrow> bytes" where
  "u16ListBytes ids = concat (map put_u16 ids)"

fun parseU16s :: "bytes \<Rightarrow> u16 list" where
  "parseU16s (a # b # r) = get_u16 [a, b] # parseU16s r"
| "parseU16s _ = []"

definition parseU16List :: "bytes \<Rightarrow> npamp_err + u16 list" where
  "parseU16List v = (if length v = 0 \<or> length v mod 2 \<noteq> 0 then Inl ErrHandshakeTLVValue else Inr (parseU16s v))"

definition requireTLVs :: "tlv list \<Rightarrow> tlv_type list \<Rightarrow> npamp_err + unit" where
  "requireTLVs tlvs want =
    rbind (CheckMustUnderstand tlvs (\<lambda>t. t \<in> set want)) (\<lambda>_.
      if length tlvs \<noteq> length want then Inl ErrHandshakeTLVOrder
      else if map tType tlvs \<noteq> want then Inl ErrHandshakeTLVOrder
      else Inr ())"

definition ClientHello_TLVs :: "ClientHello \<Rightarrow> tlv list" where
  "ClientHello_TLVs m =
    [\<lparr>tType = TLVProfileOffer, tValue = chProfileOffer m\<rparr>,
     \<lparr>tType = TLVKEMOffer, tValue = u16ListBytes (chKEMOffer m)\<rparr>,
     \<lparr>tType = TLVSigOffer, tValue = u16ListBytes (chSigOffer m)\<rparr>,
     \<lparr>tType = TLVAEADOffer, tValue = u16ListBytes (chAEADOffer m)\<rparr>,
     \<lparr>tType = TLVKEMShare, tValue = chKEMShare m\<rparr>]"

definition ClientHello_Encode :: "ClientHello \<Rightarrow> bytes" where
  "ClientHello_Encode m = encodeTLVs (ClientHello_TLVs m)"

definition DecodeClientHello :: "bytes \<Rightarrow> npamp_err + ClientHello" where
  "DecodeClientHello payload =
    rbind (DecodeTLVs payload) (\<lambda>tlvs.
    rbind (requireTLVs tlvs [TLVProfileOffer, TLVKEMOffer, TLVSigOffer, TLVAEADOffer, TLVKEMShare]) (\<lambda>_.
    if length (tValue (tlvs ! 0)) = 0 then Inl ErrHandshakeTLVValue
    else
    rbind (parseU16List (tValue (tlvs ! 1))) (\<lambda>kems.
    rbind (parseU16List (tValue (tlvs ! 2))) (\<lambda>sigs.
    rbind (parseU16List (tValue (tlvs ! 3))) (\<lambda>aeads.
    if length (tValue (tlvs ! 4)) = 0 then Inl ErrHandshakeTLVValue
    else Inr \<lparr>chProfileOffer = tValue (tlvs ! 0), chKEMOffer = kems, chSigOffer = sigs, chAEADOffer = aeads,
           chKEMShare = tValue (tlvs ! 4)\<rparr>)))))"

definition ServerHello_TLVs :: "ServerHello \<Rightarrow> tlv list" where
  "ServerHello_TLVs m =
    [\<lparr>tType = TLVProfileSelect, tValue = [shProfileSelect m]\<rparr>,
     \<lparr>tType = TLVKEMSelect, tValue = put_u16 (shKEMSelect m)\<rparr>,
     \<lparr>tType = TLVSigSelect, tValue = put_u16 (shSigSelect m)\<rparr>,
     \<lparr>tType = TLVAEADSelect, tValue = put_u16 (shAEADSelect m)\<rparr>,
     \<lparr>tType = TLVKEMCiphertext, tValue = shKEMCiphertext m\<rparr>]"

definition ServerHello_Encode :: "ServerHello \<Rightarrow> bytes" where
  "ServerHello_Encode m = encodeTLVs (ServerHello_TLVs m)"

definition DecodeServerHello :: "bytes \<Rightarrow> npamp_err + ServerHello" where
  "DecodeServerHello payload =
    rbind (DecodeTLVs payload) (\<lambda>tlvs.
    rbind (requireTLVs tlvs [TLVProfileSelect, TLVKEMSelect, TLVSigSelect, TLVAEADSelect, TLVKEMCiphertext]) (\<lambda>_.
    if length (tValue (tlvs ! 0)) \<noteq> 1 then Inl ErrHandshakeTLVValue
    else if \<exists>i \<in> set [1, 2, 3]. length (tValue (tlvs ! i)) \<noteq> 2 then Inl ErrHandshakeTLVValue
    else if length (tValue (tlvs ! 4)) = 0 then Inl ErrHandshakeTLVValue
    else Inr \<lparr>shProfileSelect = tValue (tlvs ! 0) ! 0, shKEMSelect = get_u16 (tValue (tlvs ! 1)),
           shSigSelect = get_u16 (tValue (tlvs ! 2)), shAEADSelect = get_u16 (tValue (tlvs ! 3)),
           shKEMCiphertext = tValue (tlvs ! 4)\<rparr>))"

definition AuthMessage_TLVs :: "AuthMessage \<Rightarrow> tlv list" where
  "AuthMessage_TLVs m =
    [\<lparr>tType = TLVIdentityKey, tValue = amIdentityKey m\<rparr>, \<lparr>tType = TLVCertVerify, tValue = amCertVerify m\<rparr>,
     \<lparr>tType = TLVFinished, tValue = amFinished m\<rparr>]"

definition AuthMessage_Encode :: "AuthMessage \<Rightarrow> bytes" where
  "AuthMessage_Encode m = encodeTLVs (AuthMessage_TLVs m)"

definition DecodeAuthMessage :: "bytes \<Rightarrow> npamp_err + AuthMessage" where
  "DecodeAuthMessage payload =
    rbind (DecodeTLVs payload) (\<lambda>tlvs.
    rbind (requireTLVs tlvs [TLVIdentityKey, TLVCertVerify, TLVFinished]) (\<lambda>_.
    if \<exists>i \<in> set [0, 1, 2]. length (tValue (tlvs ! i)) = 0 then Inl ErrHandshakeTLVValue
    else Inr \<lparr>amIdentityKey = tValue (tlvs ! 0), amCertVerify = tValue (tlvs ! 1), amFinished = tValue (tlvs ! 2)\<rparr>))"

definition CertVerifySigningInput :: "role \<Rightarrow> bytes \<Rightarrow> npamp_err + bytes" where
  "CertVerifySigningInput r transcriptHash =
    (let ctx = certVerifyContext r in
     if ctx = [] then Inl ErrInvalidRole
     else Inr (replicate 64 0x20 @ ctx @ [0x00] @ transcriptHash))"

definition SignCertVerify :: "crypto_ops \<Rightarrow> bytes \<Rightarrow> role \<Rightarrow> bytes \<Rightarrow> npamp_err + bytes" where
  "SignCertVerify ops priv r transcriptHash =
    rbind (CertVerifySigningInput r transcriptHash) (\<lambda>input.
      Inr (put_u16 SigEd25519 @ ed25519_sign ops priv input))"

definition VerifyCertVerify :: "crypto_ops \<Rightarrow> bytes \<Rightarrow> role \<Rightarrow> bytes \<Rightarrow> bytes \<Rightarrow> npamp_err + unit" where
  "VerifyCertVerify ops pub r transcriptHash certVerifyValue =
    (if length pub \<noteq> 32 then Inl ErrCertVerifyKeySize
     else if length certVerifyValue \<noteq> 2 + 64 then Inl ErrCertVerifySignature
     else if get_u16 (take 2 certVerifyValue) \<noteq> SigEd25519 then Inl ErrCertVerifyScheme
     else rbind (CertVerifySigningInput r transcriptHash) (\<lambda>input.
       if ed25519_verify ops pub input (drop 2 certVerifyValue) then Inr () else Inl ErrCertVerifySignature))"

definition ComputeFinished :: "bytes \<Rightarrow> bytes \<Rightarrow> profile \<Rightarrow> npamp_err + bytes" where
  "ComputeFinished finishedKey transcriptHash p =
    rbind (hashForProfile p) (\<lambda>h. Inr (hash_hmac h finishedKey transcriptHash))"

definition VerifyFinished :: "bytes \<Rightarrow> bytes \<Rightarrow> bytes \<Rightarrow> profile \<Rightarrow> npamp_err + unit" where
  "VerifyFinished finishedKey transcriptHash verifyData p =
    rbind (ComputeFinished finishedKey transcriptHash p) (\<lambda>want.
      if want = verifyData then Inr () else Inl ErrFinishedMismatch)"

section \<open>Lists of code points\<close>

lemma u16ListBytes_simps [simp]: "u16ListBytes [] = []" "u16ListBytes (x # xs) = put_u16 x @ u16ListBytes xs"
  by (simp_all add: u16ListBytes_def)

lemma length_u16ListBytes [simp]: "length (u16ListBytes xs) = 2 * length xs"
  by (induction xs) simp_all

lemma parseU16s_u16ListBytes [simp]: "parseU16s (u16ListBytes xs) = xs"
proof (induction xs)
  case (Cons x xs)
  obtain a b where ab: "put_u16 x = [a, b]" by (simp add: put_uN_eval)
  then have "get_u16 [a, b] = x" by (metis get_put_uN(1))
  with Cons ab show ?case by simp
qed simp

lemma u16ListBytes_inject [simp]: "u16ListBytes xs = u16ListBytes ys \<longleftrightarrow> xs = ys"
  by (metis parseU16s_u16ListBytes)

lemma u16ListBytes_parseU16s: "even (length v) \<Longrightarrow> u16ListBytes (parseU16s v) = v"
  by (induction v rule: parseU16s.induct) (simp_all add: put_get_uN)

lemma parseU16List_iff: "parseU16List v = Inr xs \<longleftrightarrow> xs \<noteq> [] \<and> v = u16ListBytes xs"
proof
  assume "parseU16List v = Inr xs"
  then have "v \<noteq> []" "even (length v)" "xs = parseU16s v"
    by (auto simp: parseU16List_def split: if_splits)
  then have "u16ListBytes xs = v" and "v \<noteq> []" by (simp_all add: u16ListBytes_parseU16s)
  then show "xs \<noteq> [] \<and> v = u16ListBytes xs" by auto
next
  assume "xs \<noteq> [] \<and> v = u16ListBytes xs"
  then show "parseU16List v = Inr xs" by (simp add: parseU16List_def)
qed

section \<open>The decoders against the encoders\<close>

lemma requireTLVs_iff: "requireTLVs ts want = Inr u \<longleftrightarrow> map tType ts = want"
proof
  assume "requireTLVs ts want = Inr u"
  then show "map tType ts = want" by (auto simp: requireTLVs_def split: if_splits)
next
  assume "map tType ts = want"
  moreover then have "CheckMustUnderstand ts (\<lambda>t. t \<in> set want) = Inr ()"
    by (auto simp: CheckMustUnderstand_iff)
  ultimately show "requireTLVs ts want = Inr u" by (auto simp: requireTLVs_def)
qed

lemma decode_required:
  assumes "length want \<le> MaxTLVsPerFrame"
  shows "rbind (DecodeTLVs b) (\<lambda>ts. rbind (requireTLVs ts want) (\<lambda>_. k ts)) = Inr x
    \<longleftrightarrow> (\<exists>ts. b = encodeTLVs ts \<and> list_all tlv_ok ts \<and> map tType ts = want \<and> k ts = Inr x)"
proof
  assume "rbind (DecodeTLVs b) (\<lambda>ts. rbind (requireTLVs ts want) (\<lambda>_. k ts)) = Inr x"
  then show "\<exists>ts. b = encodeTLVs ts \<and> list_all tlv_ok ts \<and> map tType ts = want \<and> k ts = Inr x"
    using DecodeTLVs_sound by (fastforce simp: requireTLVs_iff)
next
  assume "\<exists>ts. b = encodeTLVs ts \<and> list_all tlv_ok ts \<and> map tType ts = want \<and> k ts = Inr x"
  then obtain ts where ts: "b = encodeTLVs ts" "list_all tlv_ok ts" "map tType ts = want" "k ts = Inr x" by blast
  then have "length ts \<le> MaxTLVsPerFrame" using assms by auto
  with ts show "rbind (DecodeTLVs b) (\<lambda>ts. rbind (requireTLVs ts want) (\<lambda>_. k ts)) = Inr x"
    by (simp add: DecodeTLVs_encode requireTLVs_iff)
qed

lemma map_eq_Cons5: "map f ts = [a, b, c, d, e] \<longleftrightarrow>
    (\<exists>t0 t1 t2 t3 t4. ts = [t0, t1, t2, t3, t4] \<and> f t0 = a \<and> f t1 = b \<and> f t2 = c \<and> f t3 = d \<and> f t4 = e)"
  by (auto simp: map_eq_Cons_conv)

lemma map_eq_Cons3: "map f ts = [a, b, c] \<longleftrightarrow> (\<exists>t0 t1 t2. ts = [t0, t1, t2] \<and> f t0 = a \<and> f t1 = b \<and> f t2 = c)"
  by (auto simp: map_eq_Cons_conv)

definition ClientHello_ok :: "ClientHello \<Rightarrow> bool" where
  "ClientHello_ok m \<longleftrightarrow> chProfileOffer m \<noteq> [] \<and> chKEMOffer m \<noteq> [] \<and> chSigOffer m \<noteq> [] \<and> chAEADOffer m \<noteq> [] \<and> chKEMShare m \<noteq> []
    \<and> length (chProfileOffer m) < 65536 \<and> length (chKEMOffer m) < 32768 \<and> length (chSigOffer m) < 32768
    \<and> length (chAEADOffer m) < 32768 \<and> length (chKEMShare m) < 65536"

definition ServerHello_ok :: "ServerHello \<Rightarrow> bool" where
  "ServerHello_ok m \<longleftrightarrow> shKEMCiphertext m \<noteq> [] \<and> length (shKEMCiphertext m) < 65536"

definition AuthMessage_ok :: "AuthMessage \<Rightarrow> bool" where
  "AuthMessage_ok m \<longleftrightarrow> amIdentityKey m \<noteq> [] \<and> amCertVerify m \<noteq> [] \<and> amFinished m \<noteq> []
    \<and> length (amIdentityKey m) < 65536 \<and> length (amCertVerify m) < 65536 \<and> length (amFinished m) < 65536"

lemma tlv_eqI: "tType t = ty \<Longrightarrow> tValue t = v \<Longrightarrow> t = \<lparr>tType = ty, tValue = v\<rparr>"
  by simp

lemma DecodeClientHello_iff: "DecodeClientHello b = Inr m \<longleftrightarrow> ClientHello_ok m \<and> b = ClientHello_Encode m"
proof
  assume "DecodeClientHello b = Inr m"
  then obtain t0 t1 t2 t3 t4 kems sigs aeads where b: "b = encodeTLVs [t0, t1, t2, t3, t4]" and ok: "list_all tlv_ok [t0, t1, t2, t3, t4]"
    and ty: "tType t0 = TLVProfileOffer" "tType t1 = TLVKEMOffer" "tType t2 = TLVSigOffer" "tType t3 = TLVAEADOffer" "tType t4 = TLVKEMShare"
    and v: "tValue t0 \<noteq> []" "tValue t1 = u16ListBytes kems" "tValue t2 = u16ListBytes sigs" "tValue t3 = u16ListBytes aeads" "tValue t4 \<noteq> []"
    and ne: "kems \<noteq> []" "sigs \<noteq> []" "aeads \<noteq> []"
    and m: "m = \<lparr>chProfileOffer = tValue t0, chKEMOffer = kems, chSigOffer = sigs, chAEADOffer = aeads, chKEMShare = tValue t4\<rparr>"
    unfolding DecodeClientHello_def by (subst (asm) decode_required)
      (auto simp: MaxTLVsPerFrame_def map_eq_Cons5 parseU16List_iff split: if_splits)
  have "ClientHello_TLVs m = [t0, t1, t2, t3, t4]"
    unfolding ClientHello_TLVs_def m using ty v by (simp add: tlv_eqI [symmetric])
  then show "ClientHello_ok m \<and> b = ClientHello_Encode m"
    using b ok v ne by (simp add: ClientHello_Encode_def ClientHello_ok_def m tlv_ok_def)
next
  assume r: "ClientHello_ok m \<and> b = ClientHello_Encode m"
  then show "DecodeClientHello b = Inr m"
    unfolding DecodeClientHello_def
    by (subst decode_required) (auto simp: MaxTLVsPerFrame_def ClientHello_Encode_def ClientHello_TLVs_def
        ClientHello_ok_def tlv_ok_def parseU16List_iff intro!: exI [of _ "ClientHello_TLVs m"])
qed

lemma DecodeServerHello_iff: "DecodeServerHello b = Inr m \<longleftrightarrow> ServerHello_ok m \<and> b = ServerHello_Encode m"
proof
  assume "DecodeServerHello b = Inr m"
  then obtain t0 t1 t2 t3 t4 where b: "b = encodeTLVs [t0, t1, t2, t3, t4]" and ok: "list_all tlv_ok [t0, t1, t2, t3, t4]"
    and ty: "tType t0 = TLVProfileSelect" "tType t1 = TLVKEMSelect" "tType t2 = TLVSigSelect" "tType t3 = TLVAEADSelect" "tType t4 = TLVKEMCiphertext"
    and v: "length (tValue t0) = 1" "length (tValue t1) = 2" "length (tValue t2) = 2" "length (tValue t3) = 2" "tValue t4 \<noteq> []"
    and m: "m = \<lparr>shProfileSelect = tValue t0 ! 0, shKEMSelect = get_u16 (tValue t1), shSigSelect = get_u16 (tValue t2),
        shAEADSelect = get_u16 (tValue t3), shKEMCiphertext = tValue t4\<rparr>"
    unfolding DecodeServerHello_def by (subst (asm) decode_required)
      (auto simp: MaxTLVsPerFrame_def map_eq_Cons5 split: if_splits)
  have "[tValue t0 ! 0] = tValue t0" using v(1) by (cases "tValue t0") auto
  then have "ServerHello_TLVs m = [t0, t1, t2, t3, t4]"
    unfolding ServerHello_TLVs_def m using ty v by (simp add: tlv_eqI [symmetric] put_get_uN)
  then show "ServerHello_ok m \<and> b = ServerHello_Encode m"
    using b ok v by (simp add: ServerHello_Encode_def ServerHello_ok_def m tlv_ok_def)
next
  assume "ServerHello_ok m \<and> b = ServerHello_Encode m"
  then show "DecodeServerHello b = Inr m"
    unfolding DecodeServerHello_def
    by (subst decode_required) (auto simp: MaxTLVsPerFrame_def ServerHello_Encode_def ServerHello_TLVs_def
        ServerHello_ok_def tlv_ok_def intro!: exI [of _ "ServerHello_TLVs m"])
qed

lemma DecodeAuthMessage_iff: "DecodeAuthMessage b = Inr m \<longleftrightarrow> AuthMessage_ok m \<and> b = AuthMessage_Encode m"
proof
  assume "DecodeAuthMessage b = Inr m"
  then obtain t0 t1 t2 where b: "b = encodeTLVs [t0, t1, t2]" and ok: "list_all tlv_ok [t0, t1, t2]"
    and ty: "tType t0 = TLVIdentityKey" "tType t1 = TLVCertVerify" "tType t2 = TLVFinished"
    and v: "tValue t0 \<noteq> []" "tValue t1 \<noteq> []" "tValue t2 \<noteq> []"
    and m: "m = \<lparr>amIdentityKey = tValue t0, amCertVerify = tValue t1, amFinished = tValue t2\<rparr>"
    unfolding DecodeAuthMessage_def by (subst (asm) decode_required)
      (auto simp: MaxTLVsPerFrame_def map_eq_Cons3 split: if_splits)
  have "AuthMessage_TLVs m = [t0, t1, t2]"
    unfolding AuthMessage_TLVs_def m using ty by (simp add: tlv_eqI [symmetric])
  then show "AuthMessage_ok m \<and> b = AuthMessage_Encode m"
    using b ok v by (simp add: AuthMessage_Encode_def AuthMessage_ok_def m tlv_ok_def)
next
  assume "AuthMessage_ok m \<and> b = AuthMessage_Encode m"
  then show "DecodeAuthMessage b = Inr m"
    unfolding DecodeAuthMessage_def
    by (subst decode_required) (auto simp: MaxTLVsPerFrame_def AuthMessage_Encode_def AuthMessage_TLVs_def
        AuthMessage_ok_def tlv_ok_def intro!: exI [of _ "AuthMessage_TLVs m"])
qed

section \<open>CertVerify and Finished\<close>

lemma certVerifyContext_length: "r = RoleClient \<or> r = RoleServer \<Longrightarrow> length (certVerifyContext r) = 34"
  by (auto simp: certVerifyContext_def RoleClient_def RoleServer_def)

lemma certVerifyContext_inject:
  "r \<in> {RoleClient, RoleServer} \<Longrightarrow> r' \<in> {RoleClient, RoleServer} \<Longrightarrow> certVerifyContext r = certVerifyContext r' \<Longrightarrow> r = r'"
  by (auto simp: certVerifyContext_def RoleClient_def RoleServer_def)

lemma CertVerifySigningInput_Inr:
  "CertVerifySigningInput r th = Inr i \<longleftrightarrow> r \<in> {RoleClient, RoleServer} \<and> i = replicate 64 0x20 @ certVerifyContext r @ [0x00] @ th"
proof -
  have "certVerifyContext r = [] \<longleftrightarrow> r \<notin> {RoleClient, RoleServer}"
    by (auto simp: certVerifyContext_def str_def)
  then show ?thesis by (auto simp: CertVerifySigningInput_def)
qed

lemma CertVerifySigningInput_inject:
  assumes "CertVerifySigningInput r th = Inr i" "CertVerifySigningInput r' th' = Inr i"
  shows "r = r' \<and> th = th'"
proof -
  from assms have r: "r \<in> {RoleClient, RoleServer}" "r' \<in> {RoleClient, RoleServer}"
    and e: "certVerifyContext r @ [0x00] @ th = certVerifyContext r' @ [0x00] @ th'"
    by (auto simp: CertVerifySigningInput_Inr)
  have "length (certVerifyContext r) = length (certVerifyContext r')"
    using r certVerifyContext_length by auto
  with e have "certVerifyContext r = certVerifyContext r'" "th = th'" by simp_all
  with r certVerifyContext_inject show ?thesis by blast
qed

lemma VerifyCertVerify_Sign:
  assumes "ed25519_correct ops" "length sk = 64" "SignCertVerify ops sk r th = Inr cv"
  shows "VerifyCertVerify ops (ed25519_pub ops sk) r th cv = Inr () \<and> length cv = 66"
proof -
  from assms(3) obtain i where i: "CertVerifySigningInput r th = Inr i" "cv = put_u16 SigEd25519 @ ed25519_sign ops sk i"
    by (auto simp: SignCertVerify_def)
  then show ?thesis
    using ed25519_correctD [OF assms(1,2), of i] by (simp add: VerifyCertVerify_def)
qed

lemma VerifyCertVerify_Inr:
  "VerifyCertVerify ops pub r th cv = Inr u \<longleftrightarrow>
    length pub = 32 \<and> length cv = 66 \<and> get_u16 (take 2 cv) = SigEd25519
    \<and> (\<exists>i. CertVerifySigningInput r th = Inr i \<and> ed25519_verify ops pub i (drop 2 cv))"
  by (auto simp: VerifyCertVerify_def split: if_splits)

lemma VerifyFinished_iff: "VerifyFinished k th vd p = Inr u \<longleftrightarrow> ComputeFinished k th p = Inr vd"
  by (auto simp: VerifyFinished_def split: if_splits)

text \<open>
  A signature that is not a forgery against the owner of a key: it verifies under the key for no input
  but those of the CertVerify messages that the owner has signed. This is what the unforgeability of
  Ed25519 gives of the signatures that occur in a run.
\<close>

definition unforged :: "crypto_ops \<Rightarrow> bytes \<Rightarrow> (role \<times> bytes) list \<Rightarrow> bytes \<Rightarrow> bool" where
  "unforged ops pub made sg \<longleftrightarrow>
    (\<forall>m. ed25519_verify ops pub m sg \<longrightarrow> (\<exists>(r, th) \<in> set made. CertVerifySigningInput r th = Inr m))"

lemma VerifyCertVerify_signed:
  assumes "unforged ops pub made (drop 2 cv)" "VerifyCertVerify ops pub r th cv = Inr u"
  shows "(r, th) \<in> set made"
proof -
  from assms(2) obtain i where i: "CertVerifySigningInput r th = Inr i" "ed25519_verify ops pub i (drop 2 cv)"
    by (auto simp: VerifyCertVerify_Inr)
  with assms(1) obtain r' th' where "(r', th') \<in> set made" "CertVerifySigningInput r' th' = Inr i"
    by (auto simp: unforged_def)
  with CertVerifySigningInput_inject [OF i(1)] show ?thesis by blast
qed

section \<open>Properties\<close>

text \<open>
  Handshake messages. Each handshake decoder accepts exactly the encodings of the
  well-formed messages (every offer and value non-empty, every TLV value below \<open>2^16\<close> octets) and
  returns the message that was encoded.
\<close>

theorem handshake_messages_exact:
  "(DecodeClientHello b = Inr ch \<longleftrightarrow> ClientHello_ok ch \<and> b = ClientHello_Encode ch)
   \<and> (DecodeServerHello b = Inr sh \<longleftrightarrow> ServerHello_ok sh \<and> b = ServerHello_Encode sh)
   \<and> (DecodeAuthMessage b = Inr am \<longleftrightarrow> AuthMessage_ok am \<and> b = AuthMessage_Encode am)"
  by (simp add: DecodeClientHello_iff DecodeServerHello_iff DecodeAuthMessage_iff)

text \<open>
  Claim C37 (authentication of the transcript). A CertVerify made by \<open>SignCertVerify\<close> verifies under the
  signer's public key. When the owner of a key has signed exactly the inputs of a log of roles and
  transcript hashes, and a CertVerify is not a forgery (its signature verifies under that key only for
  inputs that the owner has signed), \<open>VerifyCertVerify\<close> accepts it only for a role and a transcript hash of
  the log: a server's CertVerify is never accepted for a client, nor one session's for another. And
  \<open>VerifyFinished\<close> accepts exactly the MAC that \<open>ComputeFinished\<close> gives.
\<close>

theorem certVerify_binding:
  assumes "ed25519_correct ops" "length sk = 64" "SignCertVerify ops sk r th = Inr cv"
    and "unforged ops (ed25519_pub ops sk) made (drop 2 cv')"
  shows "VerifyCertVerify ops (ed25519_pub ops sk) r th cv = Inr ()
    \<and> (VerifyCertVerify ops (ed25519_pub ops sk) r' th' cv' = Inr () \<longrightarrow> (r', th') \<in> set made)
    \<and> (VerifyFinished k fth vd p = Inr () \<longleftrightarrow> ComputeFinished k fth p = Inr vd)"
  using VerifyCertVerify_Sign [OF assms(1-3)] VerifyCertVerify_signed [OF assms(4)] by (simp add: VerifyFinished_iff)

text \<open>
  An instance in which the signature of one input verifies for no other: the client of a session has
  signed the transcript hash \<open>[5]\<close>, and its CertVerify is refused for the server and for another hash.
\<close>

definition demo_tag :: "bytes \<Rightarrow> bytes" where
  "demo_tag m = replicate 32 (if CertVerifySigningInput RoleClient [5] = Inr m then 1 else 0)"

definition demo_signer :: crypto_ops where
  "demo_signer = demo_ops\<lparr>ed25519_sign := \<lambda>sk m. drop 32 sk @ demo_tag m, ed25519_verify := \<lambda>pk m sg. sg = pk @ demo_tag m\<rparr>"

theorem certVerify_binding_witness:
  "\<exists>cv. SignCertVerify demo_signer (replicate 64 1) RoleClient [5] = Inr cv
    \<and> VerifyCertVerify demo_signer (ed25519_pub demo_signer (replicate 64 1)) RoleClient [5] cv = Inr ()
    \<and> VerifyCertVerify demo_signer (ed25519_pub demo_signer (replicate 64 1)) RoleServer [5] cv \<noteq> Inr ()
    \<and> VerifyCertVerify demo_signer (ed25519_pub demo_signer (replicate 64 1)) RoleClient [6] cv \<noteq> Inr ()"
proof -
  let ?sk = "replicate 64 1 :: bytes"
  have ok: "ed25519_correct demo_signer"
    by (simp add: ed25519_correct_def demo_signer_def demo_ops_def demo_tag_def)
  obtain i where i: "CertVerifySigningInput RoleClient [5] = Inr i"
    by (simp add: CertVerifySigningInput_def certVerifyContext_def str_def)
  define cv where "cv = put_u16 SigEd25519 @ ed25519_sign demo_signer ?sk i"
  have cv: "SignCertVerify demo_signer ?sk RoleClient [5] = Inr cv" by (simp add: SignCertVerify_def i cv_def)
  have "unforged demo_signer (ed25519_pub demo_signer ?sk) [(RoleClient, [5])] (drop 2 cv)"
    by (auto simp: unforged_def cv_def demo_signer_def demo_ops_def demo_tag_def i split: if_splits)
  note u = certVerify_binding [OF ok _ cv this, of _ _ "[]" "[]" "[]" 0]
  show ?thesis
    using cv u [of RoleServer "[5]"] u [of RoleClient "[6]"] by (auto simp: RoleServer_def RoleClient_def)
qed

end
