(* ===== verification/Session.thy ===== *)
theory Session
  imports RecordLayer ErrorFrame Handshake "HOL-Library.AList"
begin

text \<open>
  The established session of package sdk (\<^verbatim>\<open>conn.go\<close>, \<^verbatim>\<open>keyupdate.go\<close>, \<^verbatim>\<open>ratchet.go\<close>,
  \<^verbatim>\<open>pendingack.go\<close>, \<^verbatim>\<open>close.go\<close> under \<^verbatim>\<open>src/impl/go/sdk\<close>): the \<open>Conn\<close> struct as a record and every
  operation as a function from the state, the behaviour of the transport and the random choices to
  the new state, the octets that reach the transport and the result. A mutex makes an operation one
  step; an operation that releases its lock in between is split there. A goroutine that an operation
  starts is a \<open>task\<close> in its result, run later by \<open>runTask\<close>.
\<close>

section \<open>State\<close>

record pendingReKEM =
  prClient :: KEMClient
  prShare :: bytes
  prTarget :: u64

text \<open>
  The struct \<open>Conn\<close>. \<open>pendingKUAck\<close> is a Go map of maps from channels and epochs to counts, kept as
  association lists; \<open>pendingMRAck\<close> a set of generations. \<open>ackSignalled\<close> says that the channel which
  the last \<open>sendClose\<close> handed to its waiter has been closed. \<open>rawClosed\<close> is the state of \<open>closeOnce\<close> and
  of the transport.
\<close>

record conn =
  cProfile :: profile
  masterSend :: bytes
  masterRecv :: bytes
  genSend :: u64
  genRecv :: u64
  peerID :: bytes
  sendDir :: direction
  recvDir :: direction
  sendKeys :: "channel_id \<rightharpoonup> epochKeys"
  recvKeys :: "channel_id \<rightharpoonup> epochKeys"
  cPendingReKEM :: "pendingReKEM option"
  pendingKUAck :: "(channel_id \<times> (u64 \<times> nat) list) list"
  pendingMRAck :: "u64 set"
  droppedUnauthenticated :: u64
  droppedOutOfSequence :: u64
  closing :: bool
  ackSignalled :: bool
  rawClosed :: bool
  cClosed :: bool

definition sdkProfile :: profile where "sdkProfile = ProfileStandard"

text \<open>\<open>newConn\<close> of \<^verbatim>\<open>sdk/handshake.go\<close>: generation 0, both roots the handshake master, no keys derived.\<close>

definition newConn :: "bytes \<Rightarrow> bytes \<Rightarrow> direction \<Rightarrow> direction \<Rightarrow> conn" where
  "newConn master peer sdir rdir =
    \<lparr>cProfile = sdkProfile, masterSend = master, masterRecv = master, genSend = 0, genRecv = 0, peerID = peer,
     sendDir = sdir, recvDir = rdir, sendKeys = Map.empty, recvKeys = Map.empty, cPendingReKEM = None,
     pendingKUAck = [], pendingMRAck = {}, droppedUnauthenticated = 0, droppedOutOfSequence = 0,
     closing = False, ackSignalled = False, rawClosed = False, cClosed = False\<rparr>"

datatype task = TKeyUpdateAck channel_id u64 | TMasterRatchetAck u64 | TRespondReKEM bytes u64

section \<open>Pending acknowledgements (pendingack.go)\<close>

definition kuSet :: "conn \<Rightarrow> channel_id \<Rightarrow> (u64 \<times> nat) list" where
  "kuSet c channel = (case map_of (pendingKUAck c) channel of None \<Rightarrow> [] | Some s \<Rightarrow> s)"

definition kuCount :: "(u64 \<times> nat) list \<Rightarrow> u64 \<Rightarrow> nat" where
  "kuCount s epoch = (case map_of s epoch of None \<Rightarrow> 0 | Some n \<Rightarrow> n)"

definition addPendingKeyUpdateAck :: "conn \<Rightarrow> channel_id \<Rightarrow> u64 \<Rightarrow> conn" where
  "addPendingKeyUpdateAck c channel epoch =
    (let s = kuSet c channel in
     c\<lparr>pendingKUAck := AList.update channel (AList.update epoch (kuCount s epoch + 1) s) (pendingKUAck c)\<rparr>)"

text \<open>\<open>set[epoch]--\<close>, dropping the epoch at zero and the channel when its map is empty.\<close>

definition kuDecrement :: "conn \<Rightarrow> channel_id \<Rightarrow> u64 \<Rightarrow> conn" where
  "kuDecrement c channel epoch =
    (let s = kuSet c channel;
         n = kuCount s epoch - 1;
         s' = (if n = 0 then AList.delete epoch s else AList.update epoch n s) in
     c\<lparr>pendingKUAck := (if s' = [] then AList.delete channel (pendingKUAck c)
                          else AList.update channel s' (pendingKUAck c))\<rparr>)"

definition removePendingKeyUpdateAck :: "conn \<Rightarrow> channel_id \<Rightarrow> u64 \<Rightarrow> conn" where
  "removePendingKeyUpdateAck c channel epoch =
    (case map_of (pendingKUAck c) channel of
       None \<Rightarrow> c
     | Some s \<Rightarrow>
         if kuCount s epoch > 0 then kuDecrement c channel epoch
         else if s = [] then c\<lparr>pendingKUAck := AList.delete channel (pendingKUAck c)\<rparr> else c)"

definition consumePendingKeyUpdateAck :: "conn \<Rightarrow> channel_id \<Rightarrow> u64 \<Rightarrow> conn \<times> bool" where
  "consumePendingKeyUpdateAck c channel epoch =
    (case map_of (pendingKUAck c) channel of
       None \<Rightarrow> (c, False)
     | Some s \<Rightarrow> if kuCount s epoch = 0 then (c, False) else (kuDecrement c channel epoch, True))"

definition addPendingRatchetAck :: "conn \<Rightarrow> u64 \<Rightarrow> conn" where
  "addPendingRatchetAck c gen = c\<lparr>pendingMRAck := insert gen (pendingMRAck c)\<rparr>"

definition removePendingRatchetAck :: "conn \<Rightarrow> u64 \<Rightarrow> conn" where
  "removePendingRatchetAck c gen = c\<lparr>pendingMRAck := pendingMRAck c - {gen}\<rparr>"

definition consumePendingRatchetAck :: "conn \<Rightarrow> u64 \<Rightarrow> conn \<times> bool" where
  "consumePendingRatchetAck c gen =
    (if gen \<notin> pendingMRAck c then (c, False) else (c\<lparr>pendingMRAck := pendingMRAck c - {gen}\<rparr>, True))"

section \<open>Teardown\<close>

definition Zeroize :: "conn \<Rightarrow> conn" where
  "Zeroize c =
    c\<lparr>cClosed := True, masterSend := wipeRoot (masterSend c), masterRecv := wipeRoot (masterRecv c),
      sendKeys := map_option ek_zeroize \<circ> sendKeys c, recvKeys := map_option ek_zeroize \<circ> recvKeys c,
      cPendingReKEM := None, pendingKUAck := [], pendingMRAck := {}\<rparr>"

definition Close :: "conn \<Rightarrow> conn" where
  "Close c = (if rawClosed c then c else Zeroize (c\<lparr>rawClosed := True\<rparr>))"

definition dropSendKeys :: "conn \<Rightarrow> conn" where
  "dropSendKeys c = c\<lparr>sendKeys := Map.empty\<rparr>"

definition dropRecvKeys :: "conn \<Rightarrow> conn" where
  "dropRecvKeys c = c\<lparr>recvKeys := Map.empty\<rparr>"

definition SecurityDrops :: "conn \<Rightarrow> u64 \<times> u64" where
  "SecurityDrops c = (droppedUnauthenticated c, droppedOutOfSequence c)"

section \<open>Sending\<close>

definition sendState :: "conn \<Rightarrow> channel_id \<Rightarrow> sdk_err + conn \<times> epochKeys" where
  "sendState c channel =
    (if cClosed c then Inl errClosed
     else case sendKeys c channel of
       Some st \<Rightarrow> Inr (c, st)
     | None \<Rightarrow>
         (case ek_derive new_epochKeys (masterSend c) (sendDir c) channel (cProfile c) of
            (st, Inl e) \<Rightarrow> Inl (ErrNpamp e)
          | (st, Inr _) \<Rightarrow> Inr (c\<lparr>sendKeys := (sendKeys c)(channel \<mapsto> st)\<rparr>, st)))"

definition writeWire :: "conn \<Rightarrow> write_result \<Rightarrow> bytes \<Rightarrow> bytes \<times> (sdk_err + unit)" where
  "writeWire c w wire = (if rawClosed c then ([], Inl ErrWrite) else writeFrame w wire)"

text \<open>
  Sealing a record under \<open>st\<close>, writing it and, when the write succeeded, advancing the sequence
  number: the tail that every sending operation shares. \<open>st\<close> is the entry of the send-key map, so
  the advanced state is stored there.
\<close>

definition sealWrite :: "conn \<Rightarrow> channel_id \<Rightarrow> epochKeys \<Rightarrow> frame_type \<Rightarrow> bytes \<Rightarrow> write_result \<Rightarrow> conn \<times> bytes \<times> (sdk_err + unit)" where
  "sealWrite c channel st ft payload w =
    (case sealWith st channel ft payload of
       Inl e \<Rightarrow> (c, [], Inl (ErrNpamp e))
     | Inr wire \<Rightarrow>
         (case writeWire c w wire of
            (out, Inl e) \<Rightarrow> (c, out, Inl e)
          | (out, Inr _) \<Rightarrow> (c\<lparr>sendKeys := (sendKeys c)(channel \<mapsto> st\<lparr>ekSeq := ekSeq st + 1\<rparr>)\<rparr>, out, Inr ())))"

definition Send :: "conn \<Rightarrow> channel_id \<Rightarrow> frame_type \<Rightarrow> bytes \<Rightarrow> write_result \<Rightarrow> conn \<times> bytes \<times> (sdk_err + unit)" where
  "Send c channel frameType payload w =
    (case sendState c channel of
       Inl e \<Rightarrow> (c, [], Inl e)
     | Inr (c1, st) \<Rightarrow>
         if ekSeq st = - 1 then (c1, [], Inl ErrSeqExhausted)
         else sealWrite c1 channel st frameType payload w)"

section \<open>Key update (keyupdate.go)\<close>

definition keyUpdateMarker :: "u64 \<Rightarrow> bytes" where
  "keyUpdateMarker epoch = tlv_Encode \<lparr>tType = TLVKeyUpdateMarker, tValue = put_u64 epoch\<rparr>"

definition parseKeyUpdateMarker :: "bytes \<Rightarrow> sdk_err + u64" where
  "parseKeyUpdateMarker payload =
    rbind (map_err ErrNpamp (DecodeTLVs payload)) (\<lambda>tlvs.
      if length tlvs \<noteq> 1 \<or> tType (tlvs ! 0) \<noteq> TLVKeyUpdateMarker then Inl ErrMarker
      else if length (tValue (tlvs ! 0)) \<noteq> 8 then Inl ErrMarker
      else Inr (get_u64 (tValue (tlvs ! 0))))"

text \<open>The registration precedes the write and is rolled back when the write fails.\<close>

definition KeyUpdate :: "conn \<Rightarrow> channel_id \<Rightarrow> write_result \<Rightarrow> conn \<times> bytes \<times> (sdk_err + unit)" where
  "KeyUpdate c channel w =
    (case sendState c channel of
       Inl e \<Rightarrow> (c, [], Inl e)
     | Inr (c1, st) \<Rightarrow>
         let announced = ekEpoch st + 1 in
         (case sealWith st channel FrameKeyUpdate (keyUpdateMarker announced) of
            Inl e \<Rightarrow> (c1, [], Inl (ErrNpamp e))
          | Inr wire \<Rightarrow>
              let c2 = addPendingKeyUpdateAck c1 channel announced in
              (case writeWire c2 w wire of
                 (out, Inl e) \<Rightarrow> (removePendingKeyUpdateAck c2 channel announced, out, Inl e)
               | (out, Inr _) \<Rightarrow>
                   (case ek_advance (st\<lparr>ekSeq := ekSeq st + 1\<rparr>) (masterSend c2) (sendDir c2) channel (cProfile c2) of
                      (st', r) \<Rightarrow> (c2\<lparr>sendKeys := (sendKeys c2)(channel \<mapsto> st')\<rparr>, out, map_err ErrNpamp r)))))"

text \<open>The goroutine that answers a KEY_UPDATE; a failed write tears the connection down.\<close>

definition sendKeyUpdateAck :: "conn \<Rightarrow> channel_id \<Rightarrow> u64 \<Rightarrow> write_result \<Rightarrow> conn \<times> bytes" where
  "sendKeyUpdateAck c channel epoch w =
    (case sendState c channel of
       Inl e \<Rightarrow> (c, [])
     | Inr (c1, st) \<Rightarrow>
         (case sealWith st channel FrameKeyUpdateAck (keyUpdateMarker epoch) of
            Inl e \<Rightarrow> (c1, [])
          | Inr ack \<Rightarrow>
              (case sealWrite c1 channel st FrameKeyUpdateAck (keyUpdateMarker epoch) w of
                 (c2, out, Inr _) \<Rightarrow> (c2, out)
               | (c2, out, Inl e) \<Rightarrow> (Close c2, out))))"

section \<open>Master ratchet (ratchet.go)\<close>

definition ratchetGenMarker :: "u64 \<Rightarrow> bytes" where
  "ratchetGenMarker gen = tlv_Encode \<lparr>tType = TLVRatchetGeneration, tValue = put_u64 gen\<rparr>"

definition parseRatchetGenMarker :: "bytes \<Rightarrow> sdk_err + u64" where
  "parseRatchetGenMarker payload =
    rbind (map_err ErrNpamp (DecodeTLVs payload)) (\<lambda>tlvs.
      if length tlvs \<noteq> 1 \<or> tType (tlvs ! 0) \<noteq> TLVRatchetGeneration then Inl ErrMarker
      else if length (tValue (tlvs ! 0)) \<noteq> 8 then Inl ErrMarker
      else Inr (get_u64 (tValue (tlvs ! 0))))"

definition encodeReKEM :: "bytes \<Rightarrow> u64 \<Rightarrow> bytes" where
  "encodeReKEM kemShare gen =
    tlv_Encode \<lparr>tType = TLVKEMShare, tValue = kemShare\<rparr> @ tlv_Encode \<lparr>tType = TLVRatchetGeneration, tValue = put_u64 gen\<rparr>"

definition parseReKEM :: "bytes \<Rightarrow> sdk_err + bytes \<times> u64" where
  "parseReKEM payload =
    rbind (map_err ErrNpamp (DecodeTLVs payload)) (\<lambda>tlvs.
      if length tlvs \<noteq> 2 \<or> tType (tlvs ! 0) \<noteq> TLVKEMShare \<or> tType (tlvs ! 1) \<noteq> TLVRatchetGeneration then Inl ErrMarker
      else if length (tValue (tlvs ! 0)) \<noteq> KEMShareSize768 then Inl (ErrNpamp ErrKEMShareSize)
      else if length (tValue (tlvs ! 1)) \<noteq> 8 then Inl ErrMarker
      else Inr (tValue (tlvs ! 0), get_u64 (tValue (tlvs ! 1))))"

definition encodeReKEMAck :: "bytes \<Rightarrow> u64 \<Rightarrow> bytes" where
  "encodeReKEMAck kemCT gen =
    tlv_Encode \<lparr>tType = TLVKEMCiphertext, tValue = kemCT\<rparr> @ tlv_Encode \<lparr>tType = TLVRatchetGeneration, tValue = put_u64 gen\<rparr>"

definition parseReKEMAck :: "bytes \<Rightarrow> sdk_err + bytes \<times> u64" where
  "parseReKEMAck payload =
    rbind (map_err ErrNpamp (DecodeTLVs payload)) (\<lambda>tlvs.
      if length tlvs \<noteq> 2 \<or> tType (tlvs ! 0) \<noteq> TLVKEMCiphertext \<or> tType (tlvs ! 1) \<noteq> TLVRatchetGeneration then Inl ErrMarker
      else if length (tValue (tlvs ! 0)) \<noteq> KEMCiphertextSize768 then Inl (ErrNpamp ErrKEMCiphertextSize)
      else if length (tValue (tlvs ! 1)) \<noteq> 8 then Inl ErrMarker
      else Inr (tValue (tlvs ! 0), get_u64 (tValue (tlvs ! 1))))"

definition thRekem :: "profile \<Rightarrow> bytes \<Rightarrow> bytes \<Rightarrow> u64 \<Rightarrow> npamp_err + bytes" where
  "thRekem p kemShare kemCT gen =
    rbind (NewTranscript p) (\<lambda>tr.
      let g = \<lparr>tType = TLVRatchetGeneration, tValue = put_u64 gen\<rparr>;
          tr1 = AddTLV (AddTLV (AddFrameType tr FrameReKEM) \<lparr>tType = TLVKEMShare, tValue = kemShare\<rparr>) g;
          tr2 = AddTLV (AddTLV (AddFrameType tr1 FrameReKEMAck) \<lparr>tType = TLVKEMCiphertext, tValue = kemCT\<rparr>) g
      in Inr (Sum tr2))"

text \<open>The root of a direction after its step: the old root is wiped, every cached key dropped.\<close>

definition setSendRoot :: "conn \<Rightarrow> bytes \<Rightarrow> u64 \<Rightarrow> conn" where
  "setSendRoot c nr gen = dropSendKeys (c\<lparr>masterSend := nr, genSend := gen\<rparr>)"

definition setRecvRoot :: "conn \<Rightarrow> bytes \<Rightarrow> u64 \<Rightarrow> conn" where
  "setRecvRoot c nr gen = dropRecvKeys (c\<lparr>masterRecv := nr, genRecv := gen\<rparr>)"

definition RatchetSend :: "conn \<Rightarrow> write_result \<Rightarrow> conn \<times> bytes \<times> (sdk_err + unit)" where
  "RatchetSend c w =
    (if cClosed c then (c, [], Inl errClosed)
     else let target = genSend c + 1 in
       (case sendState c ChanControl of
          Inl e \<Rightarrow> (c, [], Inl e)
        | Inr (c1, st) \<Rightarrow>
            if ekSeq st = - 1 then (c1, [], Inl ErrSeqExhausted)
            else
              (case sealWrite (addPendingRatchetAck c1 target) ChanControl st FrameMasterRatchet (ratchetGenMarker target) w of
                 (c2, out, Inl e) \<Rightarrow> (removePendingRatchetAck c2 target, out, Inl e)
               | (c2, out, Inr _) \<Rightarrow>
                   (case RatchetMasterTier1 (masterSend c2) target (cProfile c2) of
                      Inl e \<Rightarrow> (c2, out, Inl (ErrNpamp e))
                    | Inr nr \<Rightarrow> (setSendRoot c2 nr target, out, Inr ())))))"

definition sendMasterRatchetAck :: "conn \<Rightarrow> u64 \<Rightarrow> write_result \<Rightarrow> conn \<times> bytes" where
  "sendMasterRatchetAck c gen w =
    (case sendState c ChanControl of
       Inl e \<Rightarrow> (c, [])
     | Inr (c1, st) \<Rightarrow>
         (case sealWith st ChanControl FrameMasterRatchetAck (ratchetGenMarker gen) of
            Inl e \<Rightarrow> (c1, [])
          | Inr ack \<Rightarrow>
              (case sealWrite c1 ChanControl st FrameMasterRatchetAck (ratchetGenMarker gen) w of
                 (c2, out, Inr _) \<Rightarrow> (c2, out)
               | (c2, out, Inl e) \<Rightarrow> (Close c2, out))))"

text \<open>
  \<open>ReKEM\<close>: the check under \<open>pmu\<close>, the write under \<open>wmu\<close>, and the registration under \<open>pmu\<close> after the
  write. The three steps are separate because another goroutine can run between them; \<open>ReKEM\<close> is their
  uninterrupted sequence. \<open>client\<close> is the key pair that \<open>GenerateKEMClient\<close> draws.
\<close>

definition ReKEM_check :: "conn \<Rightarrow> sdk_err + unit" where
  "ReKEM_check c = (if cPendingReKEM c \<noteq> None then Inl ErrReKEMInFlight else Inr ())"

definition ReKEM_write :: "crypto_ops \<Rightarrow> conn \<Rightarrow> KEMClient \<Rightarrow> write_result \<Rightarrow> conn \<times> bytes \<times> (sdk_err + u64)" where
  "ReKEM_write ops c client w =
    (if cClosed c then (c, [], Inl errClosed)
     else let target = genRecv c + 1 in
       (case sendState c ChanControl of
          Inl e \<Rightarrow> (c, [], Inl e)
        | Inr (c1, st) \<Rightarrow>
            if ekSeq st = - 1 then (c1, [], Inl ErrSeqExhausted)
            else
              (case sealWrite c1 ChanControl st FrameReKEM (encodeReKEM (KEMShare ops client) target) w of
                 (c2, out, Inl e) \<Rightarrow> (c2, out, Inl e)
               | (c2, out, Inr _) \<Rightarrow> (c2, out, Inr target))))"

definition ReKEM_register :: "crypto_ops \<Rightarrow> conn \<Rightarrow> KEMClient \<Rightarrow> u64 \<Rightarrow> conn" where
  "ReKEM_register ops c client target =
    c\<lparr>cPendingReKEM := Some \<lparr>prClient = client, prShare = KEMShare ops client, prTarget = target\<rparr>\<rparr>"

definition ReKEM :: "crypto_ops \<Rightarrow> conn \<Rightarrow> KEMClient \<Rightarrow> write_result \<Rightarrow> conn \<times> bytes \<times> (sdk_err + unit)" where
  "ReKEM ops c client w =
    (case ReKEM_check c of
       Inl e \<Rightarrow> (c, [], Inl e)
     | Inr _ \<Rightarrow>
         (case ReKEM_write ops c client w of
            (c1, out, Inl e) \<Rightarrow> (c1, out, Inl e)
          | (c1, out, Inr target) \<Rightarrow> (ReKEM_register ops c1 client target, out, Inr ())))"

text \<open>
  The goroutine that answers a REKEM; \<open>xk\<close> and \<open>coin\<close> are the random choices of \<open>Encapsulate\<close>. It
  gives up silently on a bad share or a generation skew, and tears down after a failed write.
\<close>

definition respondReKEM :: "crypto_ops \<Rightarrow> conn \<Rightarrow> bytes \<Rightarrow> u64 \<Rightarrow> bytes \<Rightarrow> bytes \<Rightarrow> write_result \<Rightarrow> conn \<times> bytes" where
  "respondReKEM ops c kemShare target xk coin w =
    (case Encapsulate ops xk coin kemShare of
       Inl e \<Rightarrow> (c, [])
     | Inr (kemCT, ss) \<Rightarrow>
         (case thRekem (cProfile c) kemShare kemCT target of
            Inl e \<Rightarrow> (c, [])
          | Inr th \<Rightarrow>
              if cClosed c then (c, [])
              else if target \<noteq> genSend c + 1 then (c, [])
              else
                (case sendState c ChanControl of
                   Inl e \<Rightarrow> (c, [])
                 | Inr (c1, st) \<Rightarrow>
                     (case sealWrite c1 ChanControl st FrameReKEMAck (encodeReKEMAck kemCT target) w of
                        (c2, out, Inl e) \<Rightarrow> (Close c2, out)
                      | (c2, out, Inr _) \<Rightarrow>
                          (case RatchetMasterTier2 (masterSend c2) (Combined ss) th (cProfile c2) of
                             Inl e \<Rightarrow> (Close c2, out)
                           | Inr nr \<Rightarrow> (setSendRoot c2 nr target, out))))))"

section \<open>Close frames (close.go)\<close>

definition sendSessionError :: "conn \<Rightarrow> session_error_code \<Rightarrow> write_result \<Rightarrow> conn \<times> bytes" where
  "sendSessionError c code w =
    (case sendState c ChanControl of
       Inl e \<Rightarrow> (c, [])
     | Inr (c1, st) \<Rightarrow> (case sealWrite c1 ChanControl st FrameError (EncodeErrorBody code []) w of (c2, out, r) \<Rightarrow> (c2, out)))"

definition sendCloseAck :: "conn \<Rightarrow> write_result \<Rightarrow> conn \<times> bytes" where
  "sendCloseAck c w =
    (case sendState c ChanControl of
       Inl e \<Rightarrow> (c, [])
     | Inr (c1, st) \<Rightarrow> (case sealWrite c1 ChanControl st FrameCloseAck [] w of (c2, out, r) \<Rightarrow> (c2, out)))"

definition clearClosing :: "conn \<Rightarrow> conn" where
  "clearClosing c = c\<lparr>closing := False\<rparr>"

definition signalCloseAck :: "conn \<Rightarrow> conn \<times> bool" where
  "signalCloseAck c = (if \<not> closing c then (c, False) else (c\<lparr>closing := False, ackSignalled := True\<rparr>, True))"

text \<open>The result of \<open>sendClose\<close> is \<open>sent\<close>, with the error as the other alternative.\<close>

definition sendClose :: "conn \<Rightarrow> write_result \<Rightarrow> conn \<times> bytes \<times> (sdk_err + bool)" where
  "sendClose c w =
    (if cClosed c then (c, [], Inr False)
     else
       (case sendState c ChanControl of
          Inl e \<Rightarrow> (c, [], Inl e)
        | Inr (c1, st) \<Rightarrow>
            if ekSeq st = - 1 then (c1, [], Inl ErrSeqExhausted)
            else
              (case sealWith st ChanControl FrameClose [] of
                 Inl e \<Rightarrow> (c1, [], Inl (ErrNpamp e))
               | Inr wire \<Rightarrow>
                   (case sealWrite (c1\<lparr>closing := True, ackSignalled := False\<rparr>) ChanControl st FrameClose [] w of
                      (c2, out, Inl e) \<Rightarrow> (clearClosing c2, out, Inl e)
                    | (c2, out, Inr _) \<Rightarrow> (c2, out, Inr True)))))"

text \<open>
  \<open>CloseGraceful\<close> after its \<open>sendClose\<close>: the \<open>select\<close> ends with the acknowledgement or with a timeout
  (the timer or the context), then the connection is closed.
\<close>

datatype close_wait = AckReceived | WaitExpired

definition CloseGraceful_start :: "conn \<Rightarrow> write_result \<Rightarrow> conn \<times> bytes \<times> bool" where
  "CloseGraceful_start c w =
    (case sendClose c w of
       (c1, out, Inr True) \<Rightarrow> (c1, out, True)
     | (c1, out, _) \<Rightarrow> (Close c1, out, False))"

definition CloseGraceful_finish :: "conn \<Rightarrow> close_wait \<Rightarrow> conn" where
  "CloseGraceful_finish c o' = (case o' of AckReceived \<Rightarrow> Close c | WaitExpired \<Rightarrow> Close (clearClosing c))"

section \<open>Receiving\<close>

definition recvState :: "conn \<Rightarrow> channel_id \<Rightarrow> sdk_err + conn \<times> epochKeys" where
  "recvState c channel =
    (if cClosed c then Inl errClosed
     else case recvKeys c channel of
       Some st \<Rightarrow> Inr (c, st)
     | None \<Rightarrow>
         (case ek_derive new_epochKeys (masterRecv c) (recvDir c) channel (cProfile c) of
            (st, Inl e) \<Rightarrow> Inl (ErrNpamp e)
          | (st, Inr _) \<Rightarrow> Inr (c\<lparr>recvKeys := (recvKeys c)(channel \<mapsto> st)\<rparr>, st)))"

text \<open>
  What \<open>recvLocked\<close> returns: the fields of \<open>recvAction\<close> with the delivered frame, one constructor per
  kind of action (\<open>actDeliver\<close> with a frame or with an error, \<open>actEmitError\<close>, \<open>actCloseAck\<close>,
  \<open>actPeerError\<close>).
\<close>

datatype recvAction =
    actDeliver channel_id frame_type bytes
  | actDeliverErr sdk_err
  | actEmitError session_error_code sdk_err
  | actCloseAck
  | actPeerError sdk_err

definition handleKeyUpdate :: "conn \<Rightarrow> channel_id \<Rightarrow> epochKeys \<Rightarrow> bytes \<Rightarrow> conn \<times> (sdk_err + task list)" where
  "handleKeyUpdate c channel st plaintext =
    (case parseKeyUpdateMarker plaintext of
       Inl e \<Rightarrow> (c, Inl errKeyUpdateOutOfOrder)
     | Inr next \<Rightarrow>
         if next \<noteq> ekEpoch st + 1 then (c, Inl errKeyUpdateOutOfOrder)
         else
           (case ek_advance st (masterRecv c) (recvDir c) channel (cProfile c) of
              (st', Inl e) \<Rightarrow> (c\<lparr>recvKeys := (recvKeys c)(channel \<mapsto> st')\<rparr>, Inl (ErrNpamp e))
            | (st', Inr _) \<Rightarrow> (c\<lparr>recvKeys := (recvKeys c)(channel \<mapsto> st')\<rparr>, Inr [TKeyUpdateAck channel next])))"

definition handleMasterRatchet :: "conn \<Rightarrow> bytes \<Rightarrow> conn \<times> (sdk_err + task list)" where
  "handleMasterRatchet c plaintext =
    (case parseRatchetGenMarker plaintext of
       Inl e \<Rightarrow> (c, Inl e)
     | Inr next \<Rightarrow>
         if next \<noteq> genRecv c + 1 then (c, Inl ErrRatchetGen)
         else
           (case RatchetMasterTier1 (masterRecv c) next (cProfile c) of
              Inl e \<Rightarrow> (c, Inl (ErrNpamp e))
            | Inr nr \<Rightarrow> (setRecvRoot c nr next, Inr [TMasterRatchetAck next])))"

definition handleReKEM :: "conn \<Rightarrow> bytes \<Rightarrow> conn \<times> (sdk_err + task list)" where
  "handleReKEM c plaintext =
    (case parseReKEM plaintext of
       Inl e \<Rightarrow> (c, Inl e)
     | Inr (kemShare, target) \<Rightarrow> (c, Inr [TRespondReKEM kemShare target]))"

definition handleReKEMAck :: "crypto_ops \<Rightarrow> conn \<Rightarrow> bytes \<Rightarrow> conn \<times> (sdk_err + task list)" where
  "handleReKEMAck ops c plaintext =
    (case parseReKEMAck plaintext of
       Inl e \<Rightarrow> (c, Inl e)
     | Inr (kemCT, gen) \<Rightarrow>
         let c1 = c\<lparr>cPendingReKEM := None\<rparr> in
         (case cPendingReKEM c of
            None \<Rightarrow> (c1, Inl errUnsolicitedReKEMAck)
          | Some pend \<Rightarrow>
              if gen \<noteq> genRecv c + 1 \<or> gen \<noteq> prTarget pend then (c1, Inl ErrRatchetGen)
              else
                (case KEMClient_SharedSecrets ops (prClient pend) kemCT of
                   Inl e \<Rightarrow> (c1, Inl (ErrNpamp e))
                 | Inr ss \<Rightarrow>
                     (case thRekem (cProfile c) (prShare pend) kemCT gen of
                        Inl e \<Rightarrow> (c1, Inl (ErrNpamp e))
                      | Inr th \<Rightarrow>
                          (case RatchetMasterTier2 (masterRecv c) (Combined ss) th (cProfile c) of
                             Inl e \<Rightarrow> (c1, Inl (ErrNpamp e))
                           | Inr nr \<Rightarrow> (setRecvRoot c1 nr gen, Inr []))))))"

text \<open>
  The \<open>switch\<close> on the frame type in \<open>recvLocked\<close>, after the record has been opened to \<open>pt\<close> and \<open>st\<close>
  stored with the advanced sequence number: the new state, the goroutines started, and the action,
  with \<open>None\<close> for \<open>continue\<close>.
\<close>

definition recvDispatch :: "crypto_ops \<Rightarrow> conn \<Rightarrow> channel_id \<Rightarrow> frame_type \<Rightarrow> epochKeys \<Rightarrow> bytes \<Rightarrow> conn \<times> task list \<times> recvAction option" where
  "recvDispatch ops c ch ft st pt =
    (if ft = FrameKeyUpdate then
       (case handleKeyUpdate c ch st pt of
          (c', Inr ts) \<Rightarrow> (c', ts, None)
        | (c', Inl e) \<Rightarrow>
            if e = errKeyUpdateOutOfOrder then (c', [], Some (actEmitError ErrCodeKeyUpdateOutOfOrder e))
            else (c', [], Some (actDeliverErr e)))
     else if ft = FrameKeyUpdateAck then
       (case parseKeyUpdateMarker pt of
          Inl e \<Rightarrow> (c, [], Some (actEmitError ErrCodeKeyUpdateOutOfOrder errKeyUpdateOutOfOrder))
        | Inr epoch \<Rightarrow>
            (case consumePendingKeyUpdateAck c ch epoch of
               (c', True) \<Rightarrow> (c', [], None)
             | (c', False) \<Rightarrow> (c', [], Some (actEmitError ErrCodeUnexpectedMessage ErrUnexpected))))
     else if ft = FrameMasterRatchet then
       if ch \<noteq> ChanControl then (c, [], Some (actDeliver ch ft pt))
       else (case handleMasterRatchet c pt of
          (c', Inr ts) \<Rightarrow> (c', ts, None)
        | (c', Inl e) \<Rightarrow> (c', [], Some (actDeliverErr e)))
     else if ft = FrameMasterRatchetAck then
       if ch \<noteq> ChanControl then (c, [], Some (actDeliver ch ft pt))
       else (case parseRatchetGenMarker pt of
          Inl e \<Rightarrow> (c, [], Some (actDeliverErr e))
        | Inr gen \<Rightarrow>
            (case consumePendingRatchetAck c gen of
               (c', True) \<Rightarrow> (c', [], None)
             | (c', False) \<Rightarrow> (c', [], Some (actEmitError ErrCodeUnexpectedMessage ErrUnexpected))))
     else if ft = FrameReKEM then
       if ch \<noteq> ChanControl then (c, [], Some (actDeliver ch ft pt))
       else (case handleReKEM c pt of
          (c', Inr ts) \<Rightarrow> (c', ts, None)
        | (c', Inl e) \<Rightarrow> (c', [], Some (actDeliverErr e)))
     else if ft = FrameReKEMAck then
       if ch \<noteq> ChanControl then (c, [], Some (actDeliver ch ft pt))
       else (case handleReKEMAck ops c pt of
          (c', Inr ts) \<Rightarrow> (c', ts, None)
        | (c', Inl e) \<Rightarrow>
            if e = errUnsolicitedReKEMAck then (c', [], Some (actEmitError ErrCodeUnexpectedMessage e))
            else (c', [], Some (actDeliverErr e)))
     else if ft = FrameClose then
       if ch \<noteq> ChanControl then (c, [], Some (actDeliver ch ft pt))
       else if length pt \<noteq> 0 then (c, [], Some (actEmitError ErrCodeUnexpectedMessage ErrUnexpected))
       else (c, [], Some actCloseAck)
     else if ft = FrameCloseAck then
       if ch \<noteq> ChanControl then (c, [], Some (actDeliver ch ft pt))
       else (case signalCloseAck c of
          (c', True) \<Rightarrow> (c', [], Some (actDeliverErr ErrPeerClosed))
        | (c', False) \<Rightarrow> (c', [], Some (actEmitError ErrCodeUnexpectedMessage ErrUnexpected)))
     else if ft = FrameError then
       if ch \<noteq> ChanControl then (c, [], Some (actDeliver ch ft pt))
       else (case DecodeErrorBody pt of
          Inl e \<Rightarrow> (c, [], Some (actDeliverErr (ErrNpamp e)))
        | Inr (code, ectx) \<Rightarrow> (c, [], Some (actPeerError (SessionError code ectx))))
     else if ch = ChanControl then (c, [], Some (actEmitError ErrCodeUnexpectedMessage ErrUnexpected))
     else (c, [], Some (actDeliver ch ft pt)))"

text \<open>One parsed frame in the loop of \<open>recvLocked\<close>.\<close>

definition recvFrame :: "crypto_ops \<Rightarrow> conn \<Rightarrow> frame \<Rightarrow> conn \<times> task list \<times> recvAction option" where
  "recvFrame ops c f =
    (if fFlags f AND FlagENC = 0 then
       (c\<lparr>droppedUnauthenticated := droppedUnauthenticated c + 1\<rparr>, [], None)
     else
       (case recvState c (fChannel f) of
          Inl e \<Rightarrow> (c, [], Some (actDeliverErr e))
        | Inr (c1, st) \<Rightarrow>
            if fSeq f \<noteq> ekSeq st then
              (c1\<lparr>droppedOutOfSequence := droppedOutOfSequence c1 + 1\<rparr>, [], None)
            else
              (case openWith st f of
                 Inl e \<Rightarrow> (c1\<lparr>droppedUnauthenticated := droppedUnauthenticated c1 + 1\<rparr>, [], None)
               | Inr pt \<Rightarrow>
                   let st' = st\<lparr>ekSeq := ekSeq st + 1\<rparr>;
                       c2 = c1\<lparr>recvKeys := (recvKeys c1)(fChannel f \<mapsto> st')\<rparr> in
                   recvDispatch ops c2 (fChannel f) (fType f) st' pt)))"

text \<open>
  The loop of \<open>recvLocked\<close> on the octets that the stream delivers before it ends: the new state, the
  rest of the stream, the goroutines started, and the action. It ends because every round takes a
  frame off the stream.
\<close>

function recvLocked :: "crypto_ops \<Rightarrow> conn \<Rightarrow> bytes \<Rightarrow> conn \<times> bytes \<times> task list \<times> recvAction" where
  "recvLocked ops c input =
    (case readFrame input of
       (Inl e, rest) \<Rightarrow> (c, rest, [], actDeliverErr e)
     | (Inr wire, rest) \<Rightarrow>
         (case UnmarshalBinary wire of
            Inl e \<Rightarrow> (c, rest, [], actDeliverErr (ErrNpamp e))
          | Inr f \<Rightarrow>
              (case recvFrame ops c f of
                 (c', ts, Some a) \<Rightarrow> (c', rest, ts, a)
               | (c', ts, None) \<Rightarrow>
                   (case recvLocked ops c' rest of
                      (c'', rest', ts', a) \<Rightarrow> (c'', rest', ts @ ts', a)))))"
  by auto
termination
  by (relation "measure (\<lambda>(ops, c, input). length input)") (auto dest: readFrame_shorter sym)

declare recvLocked.simps [simp del]

text \<open>\<open>Recv\<close>: the reactions that send run after the receive lock is released.\<close>

definition Recv :: "crypto_ops \<Rightarrow> conn \<Rightarrow> bytes \<Rightarrow> write_result
    \<Rightarrow> conn \<times> bytes \<times> bytes \<times> task list \<times> (sdk_err + channel_id \<times> frame_type \<times> bytes)" where
  "Recv ops c input w =
    (case recvLocked ops c input of
       (c1, rest, ts, actEmitError code e) \<Rightarrow>
         (case sendSessionError c1 code w of (c2, out) \<Rightarrow> (Close c2, rest, out, ts, Inl e))
     | (c1, rest, ts, actCloseAck) \<Rightarrow>
         (case sendCloseAck c1 w of (c2, out) \<Rightarrow> (Close c2, rest, out, ts, Inl ErrPeerClosed))
     | (c1, rest, ts, actPeerError e) \<Rightarrow> (Close c1, rest, [], ts, Inl e)
     | (c1, rest, ts, actDeliverErr e) \<Rightarrow> (c1, rest, [], ts, Inl e)
     | (c1, rest, ts, actDeliver ch ft pt) \<Rightarrow> (c1, rest, [], ts, Inr (ch, ft, pt)))"

text \<open>Running a goroutine that a receive has started.\<close>

fun runTask :: "crypto_ops \<Rightarrow> conn \<Rightarrow> task \<Rightarrow> bytes \<Rightarrow> bytes \<Rightarrow> write_result \<Rightarrow> conn \<times> bytes" where
  "runTask ops c (TKeyUpdateAck channel epoch) xk coin w = sendKeyUpdateAck c channel epoch w"
| "runTask ops c (TMasterRatchetAck gen) xk coin w = sendMasterRatchetAck c gen w"
| "runTask ops c (TRespondReKEM share target) xk coin w = respondReKEM ops c share target xk coin w"

end
