(* ===== verification/Direction.thy ===== *)
theory Direction
  imports Session
begin

text \<open>
  One direction of a session as an abstract machine: the root, its generation and the key state of
  every channel, with the transition that a record causes on both of its ends. The operations of
  the sender are shown to emit the record of an event and to follow the transition
  (\<open>sendDS\<close>), and the receiver to open exactly that record and to follow the same transition
  (\<open>recvDS\<close>). Everything about two endpoints rests on these two simulations.
\<close>

section \<open>The machine of a direction\<close>

record dirstate =
  dsRoot :: bytes
  dsGen :: u64
  dsDir :: direction
  dsView :: "channel_id \<Rightarrow> epochKeys"

text \<open>The key state that a channel starts with under a root.\<close>

definition freshKeys :: "bytes \<Rightarrow> direction \<Rightarrow> channel_id \<Rightarrow> epochKeys" where
  "freshKeys root dir ch = fst (ek_derive new_epochKeys root dir ch ProfileStandard)"

definition sendView :: "conn \<Rightarrow> channel_id \<Rightarrow> epochKeys" where
  "sendView c ch = (case sendKeys c ch of Some st \<Rightarrow> st | None \<Rightarrow> freshKeys (masterSend c) (sendDir c) ch)"

definition recvView :: "conn \<Rightarrow> channel_id \<Rightarrow> epochKeys" where
  "recvView c ch = (case recvKeys c ch of Some st \<Rightarrow> st | None \<Rightarrow> freshKeys (masterRecv c) (recvDir c) ch)"

definition sendDS :: "conn \<Rightarrow> dirstate" where
  "sendDS c = \<lparr>dsRoot = masterSend c, dsGen = genSend c, dsDir = sendDir c, dsView = sendView c\<rparr>"

definition recvDS :: "conn \<Rightarrow> dirstate" where
  "recvDS c = \<lparr>dsRoot = masterRecv c, dsGen = genRecv c, dsDir = recvDir c, dsView = recvView c\<rparr>"

text \<open>A record on the stream: channel, frame type and plaintext.\<close>

type_synonym event = "channel_id \<times> frame_type \<times> bytes"

definition dsBump :: "dirstate \<Rightarrow> channel_id \<Rightarrow> dirstate" where
  "dsBump d ch = d\<lparr>dsView := (dsView d)(ch := (dsView d ch)\<lparr>ekSeq := ekSeq (dsView d ch) + 1\<rparr>)\<rparr>"

definition dsAdvance :: "dirstate \<Rightarrow> channel_id \<Rightarrow> dirstate" where
  "dsAdvance d ch = d\<lparr>dsView := (dsView d)(ch := fst (ek_advance (dsView d ch) (dsRoot d) (dsDir d) ch ProfileStandard))\<rparr>"

definition tier1 :: "bytes \<Rightarrow> u64 \<Rightarrow> bytes" where
  "tier1 root gen = projr (RatchetMasterTier1 root gen ProfileStandard)"

definition dsSetRoot :: "dirstate \<Rightarrow> bytes \<Rightarrow> u64 \<Rightarrow> dirstate" where
  "dsSetRoot d root gen = d\<lparr>dsRoot := root, dsGen := gen, dsView := freshKeys root (dsDir d)\<rparr>"

text \<open>The transition of a record: KEY_UPDATE and MASTER_RATCHET are boundaries, all others advance the sequence.\<close>

fun dsStep :: "dirstate \<Rightarrow> event \<Rightarrow> dirstate" where
  "dsStep d (ch, ft, pt) =
    (if ft = FrameKeyUpdate then dsAdvance (dsBump d ch) ch
     else if ft = FrameMasterRatchet \<and> ch = ChanControl then dsSetRoot d (tier1 (dsRoot d) (dsGen d + 1)) (dsGen d + 1)
     else dsBump d ch)"

text \<open>The frame of a record in a state of the direction.\<close>

fun dsFrame :: "dirstate \<Rightarrow> event \<Rightarrow> frame" where
  "dsFrame d (ch, ft, pt) =
    sealed_frame ft ch (ekSeq (dsView d ch)) (record_payload (dsView d ch) ch ft pt)"

text \<open>The boundaries announce the state they lead to.\<close>

fun dsValid :: "dirstate \<Rightarrow> event \<Rightarrow> bool" where
  "dsValid d (ch, ft, pt) \<longleftrightarrow>
    record_fits pt
    \<and> (ft = FrameKeyUpdate \<longrightarrow> pt = keyUpdateMarker (ekEpoch (dsView d ch) + 1))
    \<and> (ft = FrameMasterRatchet \<and> ch = ChanControl \<longrightarrow> pt = ratchetGenMarker (dsGen d + 1))"

section \<open>An open connection at the Standard profile\<close>

definition live :: "conn \<Rightarrow> bool" where
  "live c \<longleftrightarrow> cProfile c = ProfileStandard \<and> \<not> cClosed c \<and> \<not> rawClosed c"

lemma ek_derive_fresh:
  "ek_derive new_epochKeys root dir ch ProfileStandard = (freshKeys root dir ch, Inr ())"
  using ek_derive_Standard(1) [of new_epochKeys root dir ch] by (simp add: freshKeys_def prod_eq_iff)

lemma sendState_live:
  assumes "live c"
  shows "sendState c ch = Inr (c\<lparr>sendKeys := (sendKeys c)(ch \<mapsto> sendView c ch)\<rparr>, sendView c ch)"
proof (cases "sendKeys c ch")
  case None
  then show ?thesis using assms by (simp add: sendState_def live_def ek_derive_fresh sendView_def)
next
  case (Some st)
  then have "(sendKeys c)(ch \<mapsto> st) = sendKeys c" by auto
  then show ?thesis using assms Some by (simp add: sendState_def live_def sendView_def)
qed

lemma recvState_live:
  assumes "live c"
  shows "recvState c ch = Inr (c\<lparr>recvKeys := (recvKeys c)(ch \<mapsto> recvView c ch)\<rparr>, recvView c ch)"
proof (cases "recvKeys c ch")
  case None
  then show ?thesis using assms by (simp add: recvState_def live_def ek_derive_fresh recvView_def)
next
  case (Some st)
  then have "(recvKeys c)(ch \<mapsto> st) = recvKeys c" by auto
  then show ?thesis using assms Some by (simp add: recvState_def live_def recvView_def)
qed

lemma ek_advance_Standard_eq:
  "ek_advance st root dir ch ProfileStandard = (fst (ek_advance st root dir ch ProfileStandard), Inr ())"
  using ek_advance_Standard [of st root dir ch] by (simp add: prod_eq_iff)

lemma tier1_eq: "RatchetMasterTier1 root gen ProfileStandard = Inr (tier1 root gen)"
proof -
  have "\<exists>ms. RatchetMasterTier1 root gen ProfileStandard = Inr ms"
    using HkdfExpandLabel_Inr [of 32] by (simp add: RatchetMasterTier1_def) blast
  then show ?thesis by (auto simp: tier1_def)
qed

lemma sealWrite_live:
  assumes "\<not> rawClosed c" "record_fits pt"
  shows "sealWrite c ch st ft pt WriteOk =
    (c\<lparr>sendKeys := (sendKeys c)(ch \<mapsto> st\<lparr>ekSeq := ekSeq st + 1\<rparr>)\<rparr>,
     marshal (sealed_frame ft ch (ekSeq st) (record_payload st ch ft pt)), Inr ())"
  using assms by (simp add: sealWrite_def sealWith_eq writeWire_def writeFrame_ok sendable_record)

lemma sendView_simps [simp]:
  "sendView (c\<lparr>sendKeys := (sendKeys c)(ch \<mapsto> st)\<rparr>) = (sendView c)(ch := st)"
  by (auto simp: sendView_def fun_eq_iff split: option.splits)

lemma recvView_simps [simp]:
  "recvView (c\<lparr>recvKeys := (recvKeys c)(ch \<mapsto> st)\<rparr>) = (recvView c)(ch := st)"
  by (auto simp: recvView_def fun_eq_iff split: option.splits)

section \<open>The sender follows the machine\<close>

definition bumpSend :: "conn \<Rightarrow> channel_id \<Rightarrow> conn" where
  "bumpSend c ch = c\<lparr>sendKeys := (sendKeys c)(ch \<mapsto> (sendView c ch)\<lparr>ekSeq := ekSeq (sendView c ch) + 1\<rparr>)\<rparr>"

definition advanceSend :: "conn \<Rightarrow> channel_id \<Rightarrow> conn" where
  "advanceSend c ch = c\<lparr>sendKeys := (sendKeys c)(ch \<mapsto> fst (ek_advance (sendView c ch) (masterSend c) (sendDir c) ch ProfileStandard))\<rparr>"

lemma sendDS_bumpSend [simp]: "sendDS (bumpSend c ch) = dsBump (sendDS c) ch"
  by (simp add: sendDS_def bumpSend_def dsBump_def)

lemma sendDS_advanceSend [simp]: "sendDS (advanceSend c ch) = dsAdvance (sendDS c) ch"
  by (simp add: sendDS_def advanceSend_def dsAdvance_def)

lemma sendDS_setSendRoot [simp]: "sendDS (setSendRoot c nr gen) = dsSetRoot (sendDS c) nr gen"
  by (simp add: sendDS_def setSendRoot_def dropSendKeys_def dsSetRoot_def sendView_def fun_eq_iff)

lemma dsAdvance_dsBump: "dsAdvance (dsBump d ch) ch = dsAdvance d ch"
  by (simp add: dsAdvance_def dsBump_def)

lemma sendView_cong:
  "sendKeys c = sendKeys c' \<Longrightarrow> masterSend c = masterSend c' \<Longrightarrow> sendDir c = sendDir c' \<Longrightarrow> sendView c = sendView c'"
  by (auto simp: sendView_def fun_eq_iff split: option.splits)

lemma Send_live:
  assumes "live c" "record_fits pt" "ekSeq (sendView c ch) \<noteq> - 1"
  shows "Send c ch ft pt WriteOk = (bumpSend c ch, marshal (dsFrame (sendDS c) (ch, ft, pt)), Inr ())"
proof -
  from assms(1) have raw: "\<not> rawClosed (c\<lparr>sendKeys := m\<rparr>)" for m by (simp add: live_def)
  show ?thesis
    using assms(2,3) sealWrite_live [OF raw assms(2)]
    by (simp add: Send_def sendState_live [OF assms(1)] bumpSend_def sendDS_def)
qed

lemma markers_fit [simp]: "record_fits (keyUpdateMarker e)" "record_fits (ratchetGenMarker g)"
  by (simp_all add: record_fits_def keyUpdateMarker_def ratchetGenMarker_def length_tlv_Encode HeaderSize_def MaxFrameSize_def)

lemma KeyUpdate_live:
  assumes "live c"
  shows "KeyUpdate c ch WriteOk =
    (addPendingKeyUpdateAck (advanceSend c ch) ch (ekEpoch (sendView c ch) + 1),
     marshal (dsFrame (sendDS c) (ch, FrameKeyUpdate, keyUpdateMarker (ekEpoch (sendView c ch) + 1))), Inr ())"
proof -
  let ?st = "sendView c ch" and ?e = "ekEpoch (sendView c ch) + 1"
  let ?c1 = "c\<lparr>sendKeys := (sendKeys c)(ch \<mapsto> ?st)\<rparr>"
  let ?c2 = "addPendingKeyUpdateAck ?c1 ch ?e"
  let ?f = "dsFrame (sendDS c) (ch, FrameKeyUpdate, keyUpdateMarker ?e)"
  have seal: "sealWith ?st ch FrameKeyUpdate (keyUpdateMarker ?e) = Inr (marshal ?f)"
    by (simp add: sealWith_eq sendDS_def)
  have "sendable ?f" by (simp add: sendDS_def sendable_record)
  then have wr: "writeWire ?c2 WriteOk (marshal ?f) = (marshal ?f, Inr ())"
    using assms by (simp add: writeWire_def writeFrame_ok addPendingKeyUpdateAck_def Let_def live_def)
  have adv: "ek_advance (?st\<lparr>ekSeq := ekSeq ?st + 1\<rparr>) m d ch ProfileStandard = (fst (ek_advance ?st m d ch ProfileStandard), Inr ())" for m d
    by (simp add: prod_eq_iff ek_advance_Standard)
  have c2: "masterSend ?c2 = masterSend c" "sendDir ?c2 = sendDir c" "cProfile ?c2 = ProfileStandard"
    "?c2\<lparr>sendKeys := (sendKeys ?c2)(ch \<mapsto> st)\<rparr> = addPendingKeyUpdateAck (c\<lparr>sendKeys := (sendKeys c)(ch \<mapsto> st)\<rparr>) ch ?e" for st
    using assms by (simp_all add: addPendingKeyUpdateAck_def Let_def kuSet_def live_def)
  show ?thesis
    by (simp only: KeyUpdate_def sendState_live [OF assms] seal wr adv c2 advanceSend_def Let_def sum.case prod.case
        map_err.simps)
qed

lemma RatchetSend_live:
  assumes "live c" "ekSeq (sendView c ChanControl) \<noteq> - 1"
  shows "RatchetSend c WriteOk =
    (addPendingRatchetAck (setSendRoot c (tier1 (masterSend c) (genSend c + 1)) (genSend c + 1)) (genSend c + 1),
     marshal (dsFrame (sendDS c) (ChanControl, FrameMasterRatchet, ratchetGenMarker (genSend c + 1))), Inr ())"
proof -
  let ?st = "sendView c ChanControl" and ?g = "genSend c + 1"
  let ?c1 = "addPendingRatchetAck (c\<lparr>sendKeys := (sendKeys c)(ChanControl \<mapsto> ?st)\<rparr>) ?g"
  have "\<not> rawClosed ?c1" using assms(1) by (simp add: addPendingRatchetAck_def live_def)
  from sealWrite_live [OF this, of "ratchetGenMarker ?g" ChanControl ?st FrameMasterRatchet]
  show ?thesis
    using assms by (simp add: RatchetSend_def sendState_live Let_def live_def tier1_eq)
      (simp add: addPendingRatchetAck_def setSendRoot_def dropSendKeys_def sendDS_def tier1_eq)
qed

lemma sendKeyUpdateAck_live:
  assumes "live c"
  shows "sendKeyUpdateAck c ch e WriteOk =
    (bumpSend c ch, marshal (dsFrame (sendDS c) (ch, FrameKeyUpdateAck, keyUpdateMarker e)))"
proof -
  from assms have raw: "\<not> rawClosed (c\<lparr>sendKeys := m\<rparr>)" for m by (simp add: live_def)
  show ?thesis
    using sealWrite_live [OF raw markers_fit(1)]
    by (simp add: sendKeyUpdateAck_def sendState_live [OF assms] sealWith_eq bumpSend_def sendDS_def)
qed

lemma sendMasterRatchetAck_live:
  assumes "live c"
  shows "sendMasterRatchetAck c g WriteOk =
    (bumpSend c ChanControl, marshal (dsFrame (sendDS c) (ChanControl, FrameMasterRatchetAck, ratchetGenMarker g)))"
proof -
  from assms have raw: "\<not> rawClosed (c\<lparr>sendKeys := m\<rparr>)" for m by (simp add: live_def)
  show ?thesis
    using sealWrite_live [OF raw markers_fit(2)]
    by (simp add: sendMasterRatchetAck_def sendState_live [OF assms] sealWith_eq bumpSend_def sendDS_def)
qed

section \<open>The receiver follows the machine\<close>

definition bumpRecv :: "conn \<Rightarrow> channel_id \<Rightarrow> conn" where
  "bumpRecv c ch = c\<lparr>recvKeys := (recvKeys c)(ch \<mapsto> (recvView c ch)\<lparr>ekSeq := ekSeq (recvView c ch) + 1\<rparr>)\<rparr>"

lemma recvDS_bumpRecv [simp]: "recvDS (bumpRecv c ch) = dsBump (recvDS c) ch"
  by (simp add: recvDS_def bumpRecv_def dsBump_def)

lemma recvDS_setRecvRoot [simp]: "recvDS (setRecvRoot c nr gen) = dsSetRoot (recvDS c) nr gen"
  by (simp add: recvDS_def setRecvRoot_def dropRecvKeys_def dsSetRoot_def recvView_def fun_eq_iff)

lemma recvFrame_live:
  assumes "live c" "record_fits pt"
  shows "recvFrame ops c (dsFrame (recvDS c) (ch, ft, pt)) =
    recvDispatch ops (bumpRecv c ch) ch ft ((recvView c ch)\<lparr>ekSeq := ekSeq (recvView c ch) + 1\<rparr>) pt"
  using assms openWith_sealed [OF refl refl record_fits_gcm [OF assms(2)], of "recvView c ch"]
  by (simp add: recvFrame_def recvState_live recvDS_def bumpRecv_def Let_def)

text \<open>The markers of the control frames parse back.\<close>

lemma DecodeTLVs_single: "tlv_ok t \<Longrightarrow> DecodeTLVs (tlv_Encode t) = Inr [t]"
  using DecodeTLVs_encode [of "[t]"] by (simp add: MaxTLVsPerFrame_def)

lemma DecodeTLVs_pair: "tlv_ok t \<Longrightarrow> tlv_ok u \<Longrightarrow> DecodeTLVs (tlv_Encode t @ tlv_Encode u) = Inr [t, u]"
  using DecodeTLVs_encode [of "[t, u]"] by (simp add: MaxTLVsPerFrame_def)

lemma parse_markers [simp]:
  "parseKeyUpdateMarker (keyUpdateMarker e) = Inr e" "parseRatchetGenMarker (ratchetGenMarker g) = Inr g"
  by (simp_all add: parseKeyUpdateMarker_def keyUpdateMarker_def parseRatchetGenMarker_def ratchetGenMarker_def
      DecodeTLVs_single tlv_ok_def)

lemma parse_rekem:
  "length share = KEMShareSize768 \<Longrightarrow> parseReKEM (encodeReKEM share g) = Inr (share, g)"
  "length ct = KEMCiphertextSize768 \<Longrightarrow> parseReKEMAck (encodeReKEMAck ct g) = Inr (ct, g)"
  by (simp_all add: parseReKEM_def encodeReKEM_def parseReKEMAck_def encodeReKEMAck_def DecodeTLVs_pair tlv_ok_def kem_sizes)

definition advanceRecv :: "conn \<Rightarrow> channel_id \<Rightarrow> conn" where
  "advanceRecv c ch = c\<lparr>recvKeys := (recvKeys c)(ch \<mapsto> fst (ek_advance (recvView c ch) (masterRecv c) (recvDir c) ch ProfileStandard))\<rparr>"

lemma recvDS_advanceRecv [simp]: "recvDS (advanceRecv c ch) = dsAdvance (recvDS c) ch"
  by (simp add: recvDS_def advanceRecv_def dsAdvance_def)

text \<open>An application record: any type but the key-update pair, on any channel but Control.\<close>

definition app_record :: "channel_id \<Rightarrow> frame_type \<Rightarrow> bool" where
  "app_record ch ft \<longleftrightarrow> ch \<noteq> ChanControl \<and> ft \<noteq> FrameKeyUpdate \<and> ft \<noteq> FrameKeyUpdateAck"

lemma recv_app:
  assumes "live c" "record_fits pt" "app_record ch ft"
  shows "recvFrame ops c (dsFrame (recvDS c) (ch, ft, pt)) = (bumpRecv c ch, [], Some (actDeliver ch ft pt))"
  unfolding recvFrame_live [OF assms(1,2)] using assms(3) by (simp add: recvDispatch_def app_record_def)

lemma handleKeyUpdate_next:
  assumes "cProfile c = ProfileStandard"
  shows "handleKeyUpdate c ch st (keyUpdateMarker (ekEpoch st + 1)) =
    (c\<lparr>recvKeys := (recvKeys c)(ch \<mapsto> fst (ek_advance st (masterRecv c) (recvDir c) ch ProfileStandard))\<rparr>,
     Inr [TKeyUpdateAck ch (ekEpoch st + 1)])"
  using assms ek_advance_Standard [of st "masterRecv c" "recvDir c" ch]
  by (cases "ek_advance st (masterRecv c) (recvDir c) ch ProfileStandard") (simp add: handleKeyUpdate_def)

lemma recv_KeyUpdate:
  assumes "live c"
  shows "recvFrame ops c (dsFrame (recvDS c) (ch, FrameKeyUpdate, keyUpdateMarker (ekEpoch (recvView c ch) + 1)))
    = (advanceRecv c ch, [TKeyUpdateAck ch (ekEpoch (recvView c ch) + 1)], None)"
proof -
  let ?st = "(recvView c ch)\<lparr>ekSeq := ekSeq (recvView c ch) + 1\<rparr>"
  have "cProfile (bumpRecv c ch) = ProfileStandard" using assms by (simp add: live_def bumpRecv_def)
  from handleKeyUpdate_next [OF this, of ch ?st] show ?thesis
    unfolding recvFrame_live [OF assms markers_fit(1)]
    by (simp add: recvDispatch_def) (simp add: bumpRecv_def advanceRecv_def)
qed

lemma recv_KeyUpdateAck:
  assumes "live c" "consumePendingKeyUpdateAck (bumpRecv c ch) ch e = (c', True)"
  shows "recvFrame ops c (dsFrame (recvDS c) (ch, FrameKeyUpdateAck, keyUpdateMarker e)) = (c', [], None)"
  unfolding recvFrame_live [OF assms(1) markers_fit(1)] using assms(2)
  by (simp add: recvDispatch_def frame_type_defs)

lemma recv_MasterRatchet:
  assumes "live c"
  shows "recvFrame ops c (dsFrame (recvDS c) (ChanControl, FrameMasterRatchet, ratchetGenMarker (genRecv c + 1)))
    = (setRecvRoot c (tier1 (masterRecv c) (genRecv c + 1)) (genRecv c + 1), [TMasterRatchetAck (genRecv c + 1)], None)"
  unfolding recvFrame_live [OF assms markers_fit(2)] using assms
  by (simp add: recvDispatch_def handleMasterRatchet_def bumpRecv_def live_def tier1_eq frame_type_defs setRecvRoot_def dropRecvKeys_def)

lemma recv_MasterRatchetAck:
  assumes "live c" "consumePendingRatchetAck (bumpRecv c ChanControl) g = (c', True)"
  shows "recvFrame ops c (dsFrame (recvDS c) (ChanControl, FrameMasterRatchetAck, ratchetGenMarker g)) = (c', [], None)"
  unfolding recvFrame_live [OF assms(1) markers_fit(2)] using assms(2)
  by (simp add: recvDispatch_def frame_type_defs)

section \<open>What is dropped and what is accepted\<close>

text \<open>
  A frame is not authentic for a receiver when it is cleartext, has another sequence number than the
  expected one of its channel, or does not open under the channel's key.
\<close>

definition authentic :: "conn \<Rightarrow> frame \<Rightarrow> bool" where
  "authentic c f \<longleftrightarrow> fFlags f AND FlagENC \<noteq> 0 \<and> fSeq f = ekSeq (recvView c (fChannel f))
     \<and> (\<exists>pt. openWith (recvView c (fChannel f)) f = Inr pt)"

text \<open>Equality of sessions up to the drop counters and the cache of derived receive keys.\<close>

definition same_session :: "conn \<Rightarrow> conn \<Rightarrow> bool" where
  "same_session c c' \<longleftrightarrow> recvDS c' = recvDS c
     \<and> c'\<lparr>recvKeys := recvKeys c, droppedUnauthenticated := droppedUnauthenticated c, droppedOutOfSequence := droppedOutOfSequence c\<rparr> = c"

lemma recvFrame_drop:
  assumes "live c" "\<not> authentic c f"
  shows "\<exists>c'. recvFrame ops c f = (c', [], None) \<and> same_session c c'
    \<and> droppedUnauthenticated c' + droppedOutOfSequence c' = droppedUnauthenticated c + droppedOutOfSequence c + 1"
proof -
  let ?st = "recvView c (fChannel f)"
  have view: "recvView (c\<lparr>recvKeys := (recvKeys c)(fChannel f \<mapsto> ?st), droppedUnauthenticated := a, droppedOutOfSequence := b\<rparr>) = recvView c" for a b
    by (auto simp: recvView_def fun_eq_iff split: option.splits)
  have view': "recvView (c\<lparr>droppedUnauthenticated := a\<rparr>) = recvView c"
    "recvView (c\<lparr>recvKeys := (recvKeys c)(fChannel f \<mapsto> ?st), droppedUnauthenticated := a\<rparr>) = recvView c"
    "recvView (c\<lparr>recvKeys := (recvKeys c)(fChannel f \<mapsto> ?st), droppedOutOfSequence := a\<rparr>) = recvView c" for a
    by (auto simp: recvView_def fun_eq_iff split: option.splits)
  show ?thesis
  proof (cases "fFlags f AND FlagENC = 0")
    case True
    then show ?thesis by (simp add: recvFrame_def same_session_def recvDS_def view')
  next
    case False
    show ?thesis
    proof (cases "fSeq f = ekSeq ?st")
      case True
      with False assms(2) obtain e where "openWith ?st f = Inl e"
        by (cases "openWith ?st f") (auto simp: authentic_def)
      with False True assms(1) show ?thesis
        by (simp add: recvFrame_def recvState_live same_session_def recvDS_def view')
    next
      case neq: False
      with False assms(1) show ?thesis
        by (simp add: recvFrame_def recvState_live same_session_def recvDS_def view')
    qed
  qed
qed

lemma authentic_iff:
  assumes "fFlags f = FlagENC" "fVersion f = ProtocolVersion"
  shows "authentic c f \<longleftrightarrow> (\<exists>pt. length pt \<le> gcm_max \<and> f = dsFrame (recvDS c) (fChannel f, fType f, pt))"
proof
  assume "authentic c f"
  then obtain pt where o: "openWith (recvView c (fChannel f)) f = Inr pt" and q: "fSeq f = ekSeq (recvView c (fChannel f))"
    by (auto simp: authentic_def)
  have "length pt \<le> gcm_max" using o by (simp add: openWith_def OpenAES256GCM_iff)
  with openWith_sound [OF o assms(2,1) q] show "\<exists>pt. length pt \<le> gcm_max \<and> f = dsFrame (recvDS c) (fChannel f, fType f, pt)"
    by (auto simp: recvDS_def)
next
  assume "\<exists>pt. length pt \<le> gcm_max \<and> f = dsFrame (recvDS c) (fChannel f, fType f, pt)"
  then obtain pt where pt: "length pt \<le> gcm_max" and f: "f = dsFrame (recvDS c) (fChannel f, fType f, pt)" by blast
  from f have "fSeq f = ekSeq (recvView c (fChannel f))"
    by (metis dsFrame.simps recvDS_def sealed_frame_simps(4) dirstate.select_convs(4))
  moreover have "openWith (recvView c (fChannel f)) f = Inr pt"
    using openWith_sealed [OF refl refl pt, of "recvView c (fChannel f)" "fType f" "fChannel f"] f
    by (simp add: recvDS_def)
  ultimately show "authentic c f" using assms(1) by (auto simp: authentic_def)
qed

lemma recvLocked_frame:
  assumes "sendable f"
  shows "recvLocked ops c (marshal f @ rest) =
    (case recvFrame ops c f of
       (c', ts, Some a) \<Rightarrow> (c', rest, ts, a)
     | (c', ts, None) \<Rightarrow> (case recvLocked ops c' rest of (c'', rest', ts', a) \<Rightarrow> (c'', rest', ts @ ts', a)))"
  using assms by (subst recvLocked.simps) (simp add: readFrame_marshal UnmarshalBinary_marshal sendable_def)

section \<open>Records of a run and their nonces\<close>

text \<open>The frames of a list of records, and the state after them.\<close>

fun dsFrames :: "dirstate \<Rightarrow> event list \<Rightarrow> frame list" where
  "dsFrames d [] = []"
| "dsFrames d (e # es) = dsFrame d e # dsFrames (dsStep d e) es"

fun dsSteps :: "dirstate \<Rightarrow> event list \<Rightarrow> dirstate" where
  "dsSteps d [] = d"
| "dsSteps d (e # es) = dsSteps (dsStep d e) es"

text \<open>
  What selects the key and the nonce of a record: the generation of the root, the channel, the
  epoch and the sequence number.
\<close>

type_synonym nonce_id = "u64 \<times> channel_id \<times> u64 \<times> u64"

fun nonceId :: "dirstate \<Rightarrow> event \<Rightarrow> nonce_id" where
  "nonceId d (ch, ft, pt) = (dsGen d, ch, ekEpoch (dsView d ch), ekSeq (dsView d ch))"

fun nonceIds :: "dirstate \<Rightarrow> event list \<Rightarrow> nonce_id list" where
  "nonceIds d [] = []"
| "nonceIds d (e # es) = nonceId d e # nonceIds (dsStep d e) es"

text \<open>The position of a channel: generation, epoch and sequence number, in lexicographic order.\<close>

definition rank_less :: "u64 \<times> u64 \<times> u64 \<Rightarrow> u64 \<times> u64 \<times> u64 \<Rightarrow> bool" where
  "rank_less r r' \<longleftrightarrow> (case r of (g, e, s) \<Rightarrow> case r' of (g', e', s') \<Rightarrow> g < g' \<or> g = g' \<and> (e < e' \<or> e = e' \<and> s < s'))"

definition rank :: "dirstate \<Rightarrow> channel_id \<Rightarrow> u64 \<times> u64 \<times> u64" where
  "rank d ch = (dsGen d, ekEpoch (dsView d ch), ekSeq (dsView d ch))"

lemma rank_less_trans: "rank_less a b \<Longrightarrow> rank_less b c \<Longrightarrow> rank_less a c"
  by (cases a; cases b; cases c) (auto simp: rank_less_def)

lemma rank_less_irrefl: "\<not> rank_less a a"
  by (cases a) (auto simp: rank_less_def)

text \<open>All counters of a direction are at most \<open>k\<close>.\<close>

definition counters_le :: "nat \<Rightarrow> dirstate \<Rightarrow> bool" where
  "counters_le k d \<longleftrightarrow> unat (dsGen d) \<le> k \<and> (\<forall>ch. unat (ekEpoch (dsView d ch)) \<le> k \<and> unat (ekSeq (dsView d ch)) \<le> k)"

lemma unat_Suc: "unat (w :: u64) \<le> k \<Longrightarrow> k + 1 < 2 ^ 64 \<Longrightarrow> unat (w + 1) = unat w + 1"
  by (simp add: unat_word_ariths)

lemma less_Suc_word: "unat (w :: u64) \<le> k \<Longrightarrow> k + 1 < 2 ^ 64 \<Longrightarrow> w < w + 1"
  by (simp add: word_less_nat_alt unat_Suc)

lemma freshKeys_counters [simp]: "ekEpoch (freshKeys r d ch) = 0" "ekSeq (freshKeys r d ch) = 0"
  by (simp_all add: freshKeys_def ek_derive_fields new_epochKeys_def)

lemma dsAdvance_counters [simp]:
  "dsGen (dsAdvance d ch) = dsGen d"
  "ekEpoch (dsView (dsAdvance d ch) ch') = (if ch' = ch then ekEpoch (dsView d ch) + 1 else ekEpoch (dsView d ch'))"
  "ekSeq (dsView (dsAdvance d ch) ch') = (if ch' = ch then 0 else ekSeq (dsView d ch'))"
  by (simp_all add: dsAdvance_def ek_advance_fields)

lemma dsBump_counters [simp]:
  "dsGen (dsBump d ch) = dsGen d" "ekEpoch (dsView (dsBump d ch) ch') = ekEpoch (dsView d ch')"
  "ekSeq (dsView (dsBump d ch) ch') = (if ch' = ch then ekSeq (dsView d ch) + 1 else ekSeq (dsView d ch'))"
  by (simp_all add: dsBump_def)

lemma dsSetRoot_counters [simp]:
  "dsGen (dsSetRoot d r g) = g" "ekEpoch (dsView (dsSetRoot d r g) ch) = 0" "ekSeq (dsView (dsSetRoot d r g) ch) = 0"
  by (simp_all add: dsSetRoot_def)

lemma counters_le_step:
  assumes "counters_le k d" "k + 1 < 2 ^ 64"
  shows "counters_le (k + 1) (dsStep d e)"
  using assms unat_Suc [OF _ assms(2)]
  by (cases e) (auto simp: counters_le_def dsAdvance_dsBump le_SucI)

lemma rank_step:
  assumes "counters_le k d" "k + 1 < 2 ^ 64"
  shows "rank_less (rank d (fst e)) (rank (dsStep d e) (fst e))"
    and "rank d ch = rank (dsStep d e) ch \<or> rank_less (rank d ch) (rank (dsStep d e) ch)"
proof -
  have le: "dsGen d < dsGen d + 1" "ekEpoch (dsView d c) < ekEpoch (dsView d c) + 1" "ekSeq (dsView d c) < ekSeq (dsView d c) + 1" for c
    using assms less_Suc_word by (auto simp: counters_le_def)
  show "rank_less (rank d (fst e)) (rank (dsStep d e) (fst e))"
    "rank d ch = rank (dsStep d e) ch \<or> rank_less (rank d ch) (rank (dsStep d e) ch)"
    using le by (cases e; auto simp: rank_def rank_less_def dsAdvance_dsBump)+
qed

lemma nonceIds_rank:
  "counters_le k d \<Longrightarrow> k + length es < 2 ^ 64 \<Longrightarrow> (g, ch, ep, sq) \<in> set (nonceIds d es) \<Longrightarrow>
    rank d ch = (g, ep, sq) \<or> rank_less (rank d ch) (g, ep, sq)"
proof (induction es arbitrary: d k)
  case (Cons e es)
  from Cons.prems have k: "counters_le (k + 1) (dsStep d e)" "k + 1 + length es < 2 ^ 64" "k + 1 < 2 ^ 64"
    using counters_le_step [of k d e] by auto
  show ?case
  proof (cases "(g, ch, ep, sq) = nonceId d e")
    case True
    then show ?thesis by (cases e) (auto simp: rank_def)
  next
    case False
    with Cons.IH [OF k(1,2)] Cons.prems(3)
    have "rank (dsStep d e) ch = (g, ep, sq) \<or> rank_less (rank (dsStep d e) ch) (g, ep, sq)" by auto
    then show ?thesis
      using rank_step(2) [OF Cons.prems(1) k(3), of ch e] rank_less_trans [of "rank d ch" "rank (dsStep d e) ch" "(g, ep, sq)"]
      by (elim disjE) simp_all
  qed
qed simp

lemma nonceIds_distinct: "counters_le k d \<Longrightarrow> k + length es < 2 ^ 64 \<Longrightarrow> distinct (nonceIds d es)"
proof (induction es arbitrary: d k)
  case (Cons e es)
  obtain ch ft pt where e: "e = (ch, ft, pt)" by (cases e)
  from Cons.prems have k: "counters_le (k + 1) (dsStep d e)" "k + 1 + length es < 2 ^ 64" "k + 1 < 2 ^ 64"
    using counters_le_step [of k d e] by auto
  have "nonceId d e \<notin> set (nonceIds (dsStep d e) es)"
  proof
    assume "nonceId d e \<in> set (nonceIds (dsStep d e) es)"
    then have "(dsGen d, ch, ekEpoch (dsView d ch), ekSeq (dsView d ch)) \<in> set (nonceIds (dsStep d e) es)"
      by (simp add: e)
    from nonceIds_rank [OF k(1,2) this] rank_step(1) [OF Cons.prems(1) k(3), of e] show False
      by (metis e fst_conv rank_def rank_less_irrefl rank_less_trans)
  qed
  then show ?case using Cons.IH [OF k(1,2)] by simp
qed simp

end
