(* ===== verification/Duplex.thy ===== *)
theory Duplex
  imports Direction "HOL-Library.Multiset" "HOL-Library.Sublist"
begin

text \<open>
  Two endpoints of a session joined by two octet streams, with every interleaving of sends, key
  updates, master ratchets, receives and acknowledgement goroutines. The step relation runs the
  operations of \<open>Session\<close> on the octets of the streams; the invariant says that a stream holds the
  records which lead the receiver's machine (\<open>Direction\<close>) to the sender's, and that every pending
  acknowledgement is accounted for by a record in flight or a goroutine that has yet to run.
\<close>

section \<open>Pending acknowledgements as counts\<close>

definition pendKU :: "conn \<Rightarrow> channel_id \<Rightarrow> u64 \<Rightarrow> nat" where
  "pendKU c ch e = kuCount (kuSet c ch) e"

lemma kuCount_update [simp]: "kuCount (AList.update e n s) e' = (if e' = e then n else kuCount s e')"
  by (simp add: kuCount_def update_conv')

lemma kuCount_delete [simp]: "kuCount (AList.delete e s) e' = (if e' = e then 0 else kuCount s e')"
  by (simp add: kuCount_def delete_conv')

lemma kuCount_Nil [simp]: "kuCount [] e = 0"
  by (simp add: kuCount_def)

lemma pendKU_cong: "pendingKUAck c = pendingKUAck c' \<Longrightarrow> pendKU c = pendKU c'"
  by (simp add: pendKU_def kuSet_def fun_eq_iff)

lemma pendKU_add:
  "pendKU (addPendingKeyUpdateAck c ch e) ch' e' = pendKU c ch' e' + (if ch' = ch \<and> e' = e then 1 else 0)"
  by (simp add: pendKU_def kuSet_def addPendingKeyUpdateAck_def update_conv' Let_def)

lemma pendKU_decrement:
  assumes "pendKU c ch e > 0"
  shows "pendKU (kuDecrement c ch e) ch' e' = pendKU c ch' e' - (if ch' = ch \<and> e' = e then 1 else 0)"
proof (cases "ch' = ch")
  case True
  let ?s = "kuSet c ch"
  let ?s' = "if kuCount ?s e - 1 = 0 then AList.delete e ?s else AList.update e (kuCount ?s e - 1) ?s"
  have "kuSet (kuDecrement c ch e) ch = ?s'"
    by (simp add: kuDecrement_def kuSet_def Let_def update_conv' delete_conv')
  moreover have "kuCount ?s' e' = kuCount ?s e' - (if e' = e then 1 else 0)" by simp
  ultimately show ?thesis using True by (simp add: pendKU_def)
next
  case False
  then have "kuSet (kuDecrement c ch e) ch' = kuSet c ch'"
    by (simp add: kuDecrement_def kuSet_def Let_def update_conv' delete_conv')
  with False show ?thesis by (simp add: pendKU_def)
qed

lemma consume_iff:
  "consumePendingKeyUpdateAck c ch e = (if pendKU c ch e = 0 then (c, False) else (kuDecrement c ch e, True))"
  by (auto simp: consumePendingKeyUpdateAck_def pendKU_def kuSet_def split: option.splits)

text \<open>
  The outstanding KEY_UPDATE acknowledgements are a multiset of pairs of a channel and an
  epoch: registering adds one occurrence, an acknowledgement is accepted exactly when an occurrence
  is outstanding and takes one away, and the roll-back of a failed write undoes a registration.
\<close>

theorem pendingKeyUpdateAck_multiset:
  "pendKU (addPendingKeyUpdateAck c ch e) ch' e' = pendKU c ch' e' + (if ch' = ch \<and> e' = e then 1 else 0)
   \<and> snd (consumePendingKeyUpdateAck c ch e) = (pendKU c ch e > 0)
   \<and> pendKU (fst (consumePendingKeyUpdateAck c ch e)) ch' e' = pendKU c ch' e' - (if ch' = ch \<and> e' = e then 1 else 0)
   \<and> pendKU (removePendingKeyUpdateAck (addPendingKeyUpdateAck c ch e) ch e) ch' e' = pendKU c ch' e'"
proof -
  let ?a = "addPendingKeyUpdateAck c ch e"
  have pos: "pendKU ?a ch e > 0" by (simp add: pendKU_add)
  then have "removePendingKeyUpdateAck ?a ch e = kuDecrement ?a ch e"
    by (auto simp: removePendingKeyUpdateAck_def pendKU_def kuSet_def split: option.splits)
  then show ?thesis
    using pendKU_decrement [OF pos, of ch' e'] by (auto simp: consume_iff pendKU_add pendKU_decrement)
qed

section \<open>Records in flight\<close>

text \<open>The records that an endpoint emits without a re-KEM, a close or an error.\<close>

inductive okEvent :: "event \<Rightarrow> bool" where
  okApp: "app_record ch ft \<Longrightarrow> okEvent (ch, ft, pt)"
| okKU: "okEvent (ch, FrameKeyUpdate, keyUpdateMarker e)"
| okKUAck: "okEvent (ch, FrameKeyUpdateAck, keyUpdateMarker e)"
| okMR: "okEvent (ChanControl, FrameMasterRatchet, ratchetGenMarker g)"
| okMRAck: "okEvent (ChanControl, FrameMasterRatchetAck, ratchetGenMarker g)"

fun is_app :: "event \<Rightarrow> bool" where
  "is_app (ch, ft, pt) \<longleftrightarrow> app_record ch ft"

fun dsValids :: "dirstate \<Rightarrow> event list \<Rightarrow> bool" where
  "dsValids d [] \<longleftrightarrow> True"
| "dsValids d (e # es) \<longleftrightarrow> dsValid d e \<and> dsValids (dsStep d e) es"

text \<open>The work that a record still causes: an announcement is answered by a goroutine and its record.\<close>

fun weight :: "event \<Rightarrow> nat" where
  "weight (ch, ft, pt) = (if ft = FrameKeyUpdate \<or> ft = FrameMasterRatchet \<and> ch = ChanControl then 4 else 1)"

text \<open>The stream from \<open>a\<close> to \<open>b\<close> holds the records \<open>es\<close>, and they lead \<open>b\<close>'s machine to \<open>a\<close>'s.\<close>

definition streamOf :: "dirstate \<Rightarrow> event list \<Rightarrow> bytes" where
  "streamOf d es = concat (map marshal (dsFrames d es))"

definition link :: "conn \<Rightarrow> conn \<Rightarrow> bytes \<Rightarrow> event list \<Rightarrow> bool" where
  "link a b stream es \<longleftrightarrow> stream = streamOf (recvDS b) es \<and> sendDS a = dsSteps (recvDS b) es
     \<and> dsValids (recvDS b) es \<and> (\<forall>e \<in> set es. okEvent e)"

lemma dsFrames_append: "dsFrames d (es @ fs) = dsFrames d es @ dsFrames (dsSteps d es) fs"
  by (induction es arbitrary: d) auto

lemma dsSteps_append [simp]: "dsSteps d (es @ fs) = dsSteps (dsSteps d es) fs"
  by (induction es arbitrary: d) auto

lemma dsValids_append [simp]: "dsValids d (es @ fs) \<longleftrightarrow> dsValids d es \<and> dsValids (dsSteps d es) fs"
  by (induction es arbitrary: d) auto

lemma streamOf_simps [simp]:
  "streamOf d [] = []" "streamOf d (e # es) = marshal (dsFrame d e) @ streamOf (dsStep d e) es"
  "streamOf d (es @ fs) = streamOf d es @ streamOf (dsSteps d es) fs"
  by (simp_all add: streamOf_def dsFrames_append)

lemma link_send:
  assumes "link a b stream es" "sendDS a' = dsStep (sendDS a) e" "dsValid (sendDS a) e" "okEvent e"
    "out = marshal (dsFrame (sendDS a) e)"
  shows "link a' b (stream @ out) (es @ [e])"
  using assms by (simp add: link_def)

lemma link_recv:
  assumes "link a b stream (e # es)" "recvDS b' = dsStep (recvDS b) e"
  shows "link a b' (streamOf (dsStep (recvDS b) e) es) es"
  using assms by (simp add: link_def)

lemma dsFrame_sendable: "dsValid d e \<Longrightarrow> sendable (dsFrame d e)"
  by (cases e) (simp add: sendable_record)

lemma link_Nil: "link a b stream [] \<Longrightarrow> stream = []"
  by (simp add: link_def)

section \<open>Frame rules\<close>

text \<open>What the operations of one side leave alone.\<close>

lemma live_simps [simp]:
  "live (bumpSend c ch) = live c" "live (advanceSend c ch) = live c" "live (setSendRoot c r g) = live c"
  "live (addPendingKeyUpdateAck c ch e) = live c" "live (addPendingRatchetAck c g) = live c"
  "live (bumpRecv c ch) = live c" "live (advanceRecv c ch) = live c" "live (setRecvRoot c r g) = live c"
  "live (kuDecrement c ch e) = live c" "live (c\<lparr>pendingMRAck := m\<rparr>) = live c" "live (c\<lparr>sendKeys := k\<rparr>) = live c"
  by (simp_all add: live_def bumpSend_def advanceSend_def setSendRoot_def dropSendKeys_def addPendingKeyUpdateAck_def
      addPendingRatchetAck_def bumpRecv_def advanceRecv_def setRecvRoot_def dropRecvKeys_def kuDecrement_def Let_def)

lemma recvDS_keep [simp]:
  "recvDS (bumpSend c ch) = recvDS c" "recvDS (advanceSend c ch) = recvDS c" "recvDS (setSendRoot c r g) = recvDS c"
  "recvDS (addPendingKeyUpdateAck c ch e) = recvDS c" "recvDS (addPendingRatchetAck c g) = recvDS c"
  "recvDS (kuDecrement c ch e) = recvDS c" "recvDS (c\<lparr>pendingMRAck := m\<rparr>) = recvDS c" "recvDS (c\<lparr>sendKeys := k\<rparr>) = recvDS c"
  by (simp_all add: recvDS_def recvView_def fun_eq_iff bumpSend_def advanceSend_def setSendRoot_def dropSendKeys_def
      addPendingKeyUpdateAck_def addPendingRatchetAck_def kuDecrement_def Let_def split: option.splits)

lemma sendDS_keep [simp]:
  "sendDS (bumpRecv c ch) = sendDS c" "sendDS (advanceRecv c ch) = sendDS c" "sendDS (setRecvRoot c r g) = sendDS c"
  "sendDS (addPendingKeyUpdateAck c ch e) = sendDS c" "sendDS (addPendingRatchetAck c g) = sendDS c"
  "sendDS (kuDecrement c ch e) = sendDS c" "sendDS (c\<lparr>pendingMRAck := m\<rparr>) = sendDS c"
  by (simp_all add: sendDS_def sendView_def fun_eq_iff bumpRecv_def advanceRecv_def setRecvRoot_def dropRecvKeys_def
      addPendingKeyUpdateAck_def addPendingRatchetAck_def kuDecrement_def Let_def split: option.splits)

lemma sendDS_cached [simp]: "sendDS (c\<lparr>sendKeys := (sendKeys c)(ch \<mapsto> sendView c ch)\<rparr>) = sendDS c"
  by (simp add: sendDS_def)

lemma SecurityDrops_keep [simp]:
  "SecurityDrops (bumpSend c ch) = SecurityDrops c" "SecurityDrops (advanceSend c ch) = SecurityDrops c"
  "SecurityDrops (setSendRoot c r g) = SecurityDrops c" "SecurityDrops (addPendingKeyUpdateAck c ch e) = SecurityDrops c"
  "SecurityDrops (addPendingRatchetAck c g) = SecurityDrops c" "SecurityDrops (bumpRecv c ch) = SecurityDrops c"
  "SecurityDrops (advanceRecv c ch) = SecurityDrops c" "SecurityDrops (setRecvRoot c r g) = SecurityDrops c"
  "SecurityDrops (kuDecrement c ch e) = SecurityDrops c" "SecurityDrops (c\<lparr>pendingMRAck := m\<rparr>) = SecurityDrops c"
  "SecurityDrops (c\<lparr>sendKeys := k\<rparr>) = SecurityDrops c"
  by (simp_all add: SecurityDrops_def bumpSend_def advanceSend_def setSendRoot_def dropSendKeys_def addPendingKeyUpdateAck_def
      addPendingRatchetAck_def bumpRecv_def advanceRecv_def setRecvRoot_def dropRecvKeys_def kuDecrement_def Let_def)

lemma pending_keep [simp]:
  "pendKU (bumpSend c ch) = pendKU c" "pendKU (advanceSend c ch) = pendKU c" "pendKU (setSendRoot c r g) = pendKU c"
  "pendKU (addPendingRatchetAck c g) = pendKU c" "pendKU (bumpRecv c ch) = pendKU c" "pendKU (advanceRecv c ch) = pendKU c"
  "pendKU (setRecvRoot c r g) = pendKU c" "pendKU (c\<lparr>pendingMRAck := m\<rparr>) = pendKU c" "pendKU (c\<lparr>sendKeys := k\<rparr>) = pendKU c"
  by (rule pendKU_cong; simp add: bumpSend_def advanceSend_def setSendRoot_def dropSendKeys_def addPendingRatchetAck_def
      bumpRecv_def advanceRecv_def setRecvRoot_def dropRecvKeys_def)+

lemma pendingMR_keep [simp]:
  "pendingMRAck (bumpSend c ch) = pendingMRAck c" "pendingMRAck (advanceSend c ch) = pendingMRAck c"
  "pendingMRAck (setSendRoot c r g) = pendingMRAck c" "pendingMRAck (addPendingKeyUpdateAck c ch e) = pendingMRAck c"
  "pendingMRAck (bumpRecv c ch) = pendingMRAck c" "pendingMRAck (advanceRecv c ch) = pendingMRAck c"
  "pendingMRAck (setRecvRoot c r g) = pendingMRAck c" "pendingMRAck (kuDecrement c ch e) = pendingMRAck c"
  "pendingMRAck (addPendingRatchetAck c g) = insert g (pendingMRAck c)"
  by (simp_all add: bumpSend_def advanceSend_def setSendRoot_def dropSendKeys_def addPendingKeyUpdateAck_def
      addPendingRatchetAck_def bumpRecv_def advanceRecv_def setRecvRoot_def dropRecvKeys_def kuDecrement_def Let_def)

lemma genSend_keep [simp]:
  "genSend (bumpSend c ch) = genSend c" "genSend (advanceSend c ch) = genSend c" "genSend (setSendRoot c r g) = g"
  "genSend (addPendingKeyUpdateAck c ch e) = genSend c" "genSend (addPendingRatchetAck c g) = genSend c"
  "genSend (bumpRecv c ch) = genSend c" "genSend (advanceRecv c ch) = genSend c" "genSend (setRecvRoot c r g) = genSend c"
  "genSend (kuDecrement c ch e) = genSend c"
  by (simp_all add: bumpSend_def advanceSend_def setSendRoot_def dropSendKeys_def addPendingKeyUpdateAck_def
      addPendingRatchetAck_def bumpRecv_def advanceRecv_def setRecvRoot_def dropRecvKeys_def kuDecrement_def Let_def)

lemma Send_refused:
  assumes "live c" "\<not> (record_fits pt \<and> ekSeq (sendView c ch) \<noteq> - 1)"
  shows "\<exists>e. Send c ch ft pt WriteOk = (c\<lparr>sendKeys := (sendKeys c)(ch \<mapsto> sendView c ch)\<rparr>, [], Inl e)"
proof (cases "ekSeq (sendView c ch) = - 1")
  case True
  then show ?thesis using assms(1) by (simp add: Send_def sendState_live)
next
  case False
  with assms(2) have "\<not> record_fits pt" by simp
  then have "length (marshal (sealed_frame ft ch q (record_payload st ch ft pt))) > maxFrameSize" for q st
    by (simp add: record_fits_def maxFrameSize_def length_marshal)
  then show ?thesis using False assms(1)
    by (simp add: Send_def sendState_live sealWrite_def sealWith_eq writeWire_def writeFrame_def live_def)
qed

section \<open>Two endpoints\<close>

text \<open>
  The sides are the booleans. \<open>stream w s\<close> holds the octets that side \<open>s\<close> has written and the other
  side has not read; \<open>tasks w s\<close> the goroutines that receives at \<open>s\<close> have started and that have not run;
  \<open>sent\<close> and \<open>got\<close> log the application records that \<open>Send\<close> accepted and the receive loop delivered;
  \<open>fault w s\<close> says that the receive loop at \<open>s\<close> has ended with anything but a delivery.
\<close>

type_synonym side = bool

record world =
  endpoint :: "side \<Rightarrow> conn"
  stream :: "side \<Rightarrow> bytes"
  tasks :: "side \<Rightarrow> task multiset"
  sent :: "side \<Rightarrow> event list"
  got :: "side \<Rightarrow> event list"
  fault :: "side \<Rightarrow> bool"

text \<open>One round of the loop of \<open>recvLocked\<close>.\<close>

definition recvOne :: "crypto_ops \<Rightarrow> conn \<Rightarrow> bytes \<Rightarrow> conn \<times> bytes \<times> task list \<times> recvAction option" where
  "recvOne ops c input =
    (case readFrame input of
       (Inl e, rest) \<Rightarrow> (c, rest, [], Some (actDeliverErr e))
     | (Inr wire, rest) \<Rightarrow>
         (case UnmarshalBinary wire of
            Inl e \<Rightarrow> (c, rest, [], Some (actDeliverErr (ErrNpamp e)))
          | Inr f \<Rightarrow> (case recvFrame ops c f of (c', ts, a) \<Rightarrow> (c', rest, ts, a))))"

lemma recvLocked_recvOne:
  "recvLocked ops c input =
    (case recvOne ops c input of
       (c', rest, ts, Some a) \<Rightarrow> (c', rest, ts, a)
     | (c', rest, ts, None) \<Rightarrow> (case recvLocked ops c' rest of (c'', rest', ts', a) \<Rightarrow> (c'', rest', ts @ ts', a)))"
  by (subst recvLocked.simps) (auto simp: recvOne_def split: prod.splits sum.splits option.splits)

fun delivered :: "recvAction option \<Rightarrow> event list" where
  "delivered (Some (actDeliver ch ft pt)) = [(ch, ft, pt)]"
| "delivered _ = []"

fun faulty :: "recvAction option \<Rightarrow> bool" where
  "faulty None = False"
| "faulty (Some (actDeliver ch ft pt)) = False"
| "faulty _ = True"

definition emit :: "world \<Rightarrow> side \<Rightarrow> conn \<Rightarrow> bytes \<Rightarrow> world" where
  "emit w s c out = w\<lparr>endpoint := (endpoint w)(s := c), stream := (stream w)(s := stream w s @ out)\<rparr>"

text \<open>
  A step runs one operation at one side on a transport that accepts the write. The generation of a
  direction is below \<^term>\<open>2 ^ 64 - 1 :: nat\<close> when it is ratcheted.
\<close>

inductive step :: "crypto_ops \<Rightarrow> world \<Rightarrow> world \<Rightarrow> bool" for ops where
  stepSend:
    "app_record ch ft \<Longrightarrow> Send (endpoint w s) ch ft pt WriteOk = (c, out, r) \<Longrightarrow>
     step ops w ((emit w s c out)\<lparr>sent := (sent w)(s := sent w s @ (if r = Inr () then [(ch, ft, pt)] else []))\<rparr>)"
| stepKeyUpdate:
    "KeyUpdate (endpoint w s) ch WriteOk = (c, out, r) \<Longrightarrow> step ops w (emit w s c out)"
| stepRatchet:
    "genSend (endpoint w s) \<noteq> - 1 \<Longrightarrow> RatchetSend (endpoint w s) WriteOk = (c, out, r) \<Longrightarrow> step ops w (emit w s c out)"
| stepTask:
    "tasks w s = add_mset t ts \<Longrightarrow> runTask ops (endpoint w s) t xk coin WriteOk = (c, out) \<Longrightarrow>
     step ops w ((emit w s c out)\<lparr>tasks := (tasks w)(s := ts)\<rparr>)"
| stepRecv:
    "stream w (\<not> s) \<noteq> [] \<Longrightarrow> recvOne ops (endpoint w s) (stream w (\<not> s)) = (c, rest, ts, a) \<Longrightarrow>
     step ops w (w\<lparr>endpoint := (endpoint w)(s := c), stream := (stream w)(\<not> s := rest),
       tasks := (tasks w)(s := tasks w s + mset ts), got := (got w)(s := got w s @ delivered a),
       fault := (fault w)(s := (fault w s \<or> faulty a))\<rparr>)"

text \<open>Endpoints that have just completed a handshake with each other.\<close>

definition paired :: "conn \<Rightarrow> conn \<Rightarrow> bool" where
  "paired a b \<longleftrightarrow> live a \<and> sendDS a = recvDS b \<and> pendingKUAck a = [] \<and> pendingMRAck a = {} \<and> SecurityDrops a = (0, 0)"

definition start :: "conn \<Rightarrow> conn \<Rightarrow> world" where
  "start a b = \<lparr>endpoint = (\<lambda>s. if s then a else b), stream = (\<lambda>_. []), tasks = (\<lambda>_. {#}),
     sent = (\<lambda>_. []), got = (\<lambda>_. []), fault = (\<lambda>_. False)\<rparr>"

lemma paired_newConn: "paired (newConn m p d d') (newConn m p' d' d)"
  by (simp add: paired_def newConn_def live_def sdkProfile_def sendDS_def recvDS_def sendView_def recvView_def
      SecurityDrops_def fun_eq_iff)

section \<open>The invariant\<close>

text \<open>
  The ledger of side \<open>a\<close>: every acknowledgement it waits for is announced by a record in flight, is
  the job of a goroutine at the peer, or is a record in flight on the way back.
\<close>

definition ledger :: "conn \<Rightarrow> event list \<Rightarrow> task multiset \<Rightarrow> event list \<Rightarrow> bool" where
  "ledger a es ts back \<longleftrightarrow>
    (\<forall>ch e. pendKU a ch e = count_list es (ch, FrameKeyUpdate, keyUpdateMarker e) + count ts (TKeyUpdateAck ch e)
       + count_list back (ch, FrameKeyUpdateAck, keyUpdateMarker e))
    \<and> (\<forall>g. (if g \<in> pendingMRAck a then 1 else 0) = count_list es (ChanControl, FrameMasterRatchet, ratchetGenMarker g)
       + count ts (TMasterRatchetAck g) + count_list back (ChanControl, FrameMasterRatchetAck, ratchetGenMarker g))
    \<and> (\<forall>g \<in> pendingMRAck a. g \<le> genSend a)"

fun ackTask :: "task \<Rightarrow> bool" where
  "ackTask (TRespondReKEM share target) = False"
| "ackTask _ = True"

definition inv :: "world \<Rightarrow> (side \<Rightarrow> event list) \<Rightarrow> bool" where
  "inv w es \<longleftrightarrow> (\<forall>s. live (endpoint w s) \<and> link (endpoint w s) (endpoint w (\<not> s)) (stream w s) (es s)
     \<and> ledger (endpoint w s) (es s) (tasks w (\<not> s)) (es (\<not> s)) \<and> (\<forall>t \<in># tasks w s. ackTask t)
     \<and> sent w s = got w (\<not> s) @ filter is_app (es s) \<and> \<not> fault w s \<and> SecurityDrops (endpoint w s) = (0, 0))"

lemma inv_start: "paired a b \<Longrightarrow> paired b a \<Longrightarrow> inv (start a b) (\<lambda>_. [])"
  by (auto simp: inv_def start_def paired_def link_def ledger_def pendKU_def kuSet_def)

lemma marker_inj [simp]:
  "keyUpdateMarker e = keyUpdateMarker e' \<longleftrightarrow> e = e'" "ratchetGenMarker g = ratchetGenMarker g' \<longleftrightarrow> g = g'"
  by (metis parse_markers(1) sum.inject(2), metis parse_markers(2) sum.inject(2))

lemma frame_types_distinct [simp]:
  "FrameKeyUpdate \<noteq> FrameKeyUpdateAck" "FrameKeyUpdate \<noteq> FrameMasterRatchet" "FrameKeyUpdate \<noteq> FrameMasterRatchetAck"
  "FrameKeyUpdateAck \<noteq> FrameMasterRatchet" "FrameKeyUpdateAck \<noteq> FrameMasterRatchetAck" "FrameMasterRatchet \<noteq> FrameMasterRatchetAck"
  by (simp_all add: frame_type_defs)

lemmas frame_types_distinct' [simp] = frame_types_distinct [symmetric]

lemma invD:
  assumes "inv w es"
  shows "live (endpoint w s)" "link (endpoint w s) (endpoint w (\<not> s)) (stream w s) (es s)"
    "ledger (endpoint w s) (es s) (tasks w (\<not> s)) (es (\<not> s))" "\<forall>t \<in># tasks w s. ackTask t"
    "sent w s = got w (\<not> s) @ filter is_app (es s)" "\<not> fault w s" "SecurityDrops (endpoint w s) = (0, 0)"
  using assms by (simp_all add: inv_def)

text \<open>The conjunct of a side, and the two sides.\<close>

definition inv1 :: "world \<Rightarrow> (side \<Rightarrow> event list) \<Rightarrow> side \<Rightarrow> bool" where
  "inv1 w es s \<longleftrightarrow> live (endpoint w s) \<and> link (endpoint w s) (endpoint w (\<not> s)) (stream w s) (es s)
     \<and> ledger (endpoint w s) (es s) (tasks w (\<not> s)) (es (\<not> s)) \<and> (\<forall>t \<in># tasks w s. ackTask t)
     \<and> sent w s = got w (\<not> s) @ filter is_app (es s) \<and> \<not> fault w s \<and> SecurityDrops (endpoint w s) = (0, 0)"

lemma inv_sides: "inv w es \<longleftrightarrow> inv1 w es s \<and> inv1 w es (\<not> s)"
proof -
  have "inv w es \<longleftrightarrow> (\<forall>s. inv1 w es s)" by (simp add: inv_def inv1_def)
  then show ?thesis by (cases s) (auto simp: all_bool_eq)
qed

text \<open>Writing the records \<open>evs\<close> at side \<open>s\<close>.\<close>

lemma inv_emit:
  assumes i: "inv w es" and c: "live c" "recvDS c = recvDS (endpoint w s)" "SecurityDrops c = SecurityDrops (endpoint w s)"
    and l: "link c (endpoint w (\<not> s)) (stream w s @ out) (es s @ evs)"
    and own: "ledger c (es s @ evs) (tasks w (\<not> s)) (es (\<not> s))"
    and peer: "ledger (endpoint w (\<not> s)) (es (\<not> s)) ts (es s @ evs)" "\<forall>t \<in># ts. ackTask t"
  shows "inv ((emit w s c out)\<lparr>tasks := (tasks w)(s := ts), sent := (sent w)(s := sent w s @ filter is_app evs)\<rparr>)
    (es(s := es s @ evs))"
proof -
  note d = invD [OF i]
  from d(2) [of "\<not> s"] c(2) have "link (endpoint w (\<not> s)) c (stream w (\<not> s)) (es (\<not> s))" by (simp add: link_def)
  then show ?thesis
    using d(1) [of "\<not> s"] d(4-7) [of "\<not> s"] d(5-7) [of s] c l own peer
    by (simp add: inv_sides [of _ _ s] inv1_def emit_def)
qed

text \<open>Reading the record \<open>e\<close> at side \<open>s\<close>.\<close>

lemma inv_recv:
  assumes i: "inv w es" and e: "es (\<not> s) = e # es'"
    and c: "live c" "sendDS c = sendDS (endpoint w s)" "SecurityDrops c = SecurityDrops (endpoint w s)"
      "recvDS c = dsStep (recvDS (endpoint w s)) e"
    and own: "ledger c (es s) (tasks w (\<not> s)) es'"
    and peer: "ledger (endpoint w (\<not> s)) es' ts (es s)" "\<forall>t \<in># ts. ackTask t"
    and dl: "dl = (if is_app e then [e] else [])"
  shows "inv (w\<lparr>endpoint := (endpoint w)(s := c), stream := (stream w)(\<not> s := streamOf (recvDS c) es'),
      tasks := (tasks w)(s := ts), got := (got w)(s := got w s @ dl)\<rparr>) (es(\<not> s := es'))"
proof -
  note d = invD [OF i]
  have "link c (endpoint w (\<not> s)) (stream w s) (es s)" using d(2) [of s] c(2) by (simp add: link_def)
  moreover have "link (endpoint w (\<not> s)) c (streamOf (recvDS c) es') es'"
    using link_recv [of _ _ _ e es' c] d(2) [of "\<not> s"] c(4) e by simp
  ultimately show ?thesis
    using d(1) [of "\<not> s"] d(4-7) [of "\<not> s"] d(5-7) [of s] c(1,3) own peer dl e
    by (simp add: inv_sides [of _ _ s] inv1_def)
qed

section \<open>The steps keep the invariant\<close>

lemma ledger_other:
  assumes "ledger a es ts back" "pendKU a' = pendKU a" "pendingMRAck a' = pendingMRAck a" "genSend a' = genSend a"
  shows "ledger a' es ts back"
  using assms by (simp add: ledger_def)

text \<open>A record that is neither an announcement nor an acknowledgement changes no ledger.\<close>

lemma ledger_app:
  assumes "is_app e"
  shows "ledger a (es @ [e]) ts back = ledger a es ts back" "ledger a es ts (back @ [e]) = ledger a es ts back"
    "ledger a (e # es) ts back = ledger a es ts back" "ledger a es ts (e # back) = ledger a es ts back"
  using assms by (cases e; auto simp: ledger_def app_record_def count_list_append)+

lemma inv_Send:
  assumes i: "inv w es" and a: "app_record ch ft" and S: "Send (endpoint w s) ch ft pt WriteOk = (c, out, r)"
  shows "\<exists>es'. inv ((emit w s c out)\<lparr>sent := (sent w)(s := sent w s @ (if r = Inr () then [(ch, ft, pt)] else []))\<rparr>) es'"
proof -
  note d = invD [OF i]
  let ?a = "endpoint w s" and ?e = "(ch, ft, pt)"
  from a have ap: "is_app ?e" by simp
  show ?thesis
  proof (cases "record_fits pt \<and> ekSeq (sendView ?a ch) \<noteq> - 1")
    case True
    with Send_live [OF d(1)] S have S': "c = bumpSend ?a ch" "out = marshal (dsFrame (sendDS ?a) ?e)" "r = Inr ()"
      by auto
    have "link c (endpoint w (\<not> s)) (stream w s @ out) (es s @ [?e])"
      by (rule link_send [OF d(2) [of s]]) (use True a S' in \<open>auto simp: app_record_def intro: okApp\<close>)
    moreover have "ledger c (es s @ [?e]) (tasks w (\<not> s)) (es (\<not> s))"
      unfolding ledger_app [OF ap] using d(3) [of s] by (rule ledger_other) (simp_all add: S')
    moreover have "ledger (endpoint w (\<not> s)) (es (\<not> s)) (tasks w s) (es s @ [?e])"
      unfolding ledger_app [OF ap] using d(3) [of "\<not> s"] by simp
    ultimately have "inv ((emit w s c out)\<lparr>tasks := (tasks w)(s := tasks w s), sent := (sent w)(s := sent w s @ filter is_app [?e])\<rparr>)
        (es(s := es s @ [?e]))"
      by (intro inv_emit i d(4)) (simp_all add: S' d(1))
    then show ?thesis using ap S' by (auto simp: emit_def)
  next
    case False
    with Send_refused [OF d(1) [of s], of pt ch ft] S obtain e
      where S': "c = ?a\<lparr>sendKeys := (sendKeys ?a)(ch \<mapsto> sendView ?a ch)\<rparr>" "out = []" "r = Inl e" by auto
    have "inv ((emit w s c out)\<lparr>tasks := (tasks w)(s := tasks w s), sent := (sent w)(s := sent w s @ filter is_app [])\<rparr>)
        (es(s := es s @ []))"
      by (intro inv_emit i d(4))
        (use d(1) d(2) [of s] d(3) [of s] d(3) [of "\<not> s"] in \<open>simp_all add: S' link_def ledger_def\<close>)
    then show ?thesis using S' by (auto simp: emit_def)
  qed
qed

lemma dsView_DS [simp]: "dsView (sendDS c) = sendView c" "dsView (recvDS c) = recvView c"
  "dsGen (sendDS c) = genSend c" "dsGen (recvDS c) = genRecv c"
  "dsRoot (sendDS c) = masterSend c" "dsRoot (recvDS c) = masterRecv c"
  by (simp_all add: sendDS_def recvDS_def)

text \<open>Announcing and acknowledging, on the ledgers of both sides.\<close>

lemma ledger_KeyUpdate:
  assumes "ledger a es ts back"
  shows "ledger (addPendingKeyUpdateAck (advanceSend a ch) ch e) (es @ [(ch, FrameKeyUpdate, keyUpdateMarker e)]) ts back"
    and "ledger a es ts (back @ [(ch, FrameKeyUpdate, keyUpdateMarker e)])"
  using assms by (auto simp: ledger_def count_list_append pendKU_add)

lemma ledger_MasterRatchet:
  assumes "ledger a es ts back" "genSend a \<noteq> - 1"
  shows "ledger (addPendingRatchetAck (setSendRoot a r (genSend a + 1)) (genSend a + 1))
      (es @ [(ChanControl, FrameMasterRatchet, ratchetGenMarker (genSend a + 1))]) ts back"
proof -
  have "1 + genSend a \<noteq> 0" using assms(2) by (simp add: add_eq_0_iff)
  then have less: "genSend a < genSend a + 1" using unatSuc [of "genSend a"] by (simp add: word_less_nat_alt add.commute)
  then have new: "genSend a + 1 \<notin> pendingMRAck a" using assms(1) by (auto simp: ledger_def dest!: bspec)
  have mr: "(if g \<in> pendingMRAck a then 1 else 0) = count_list es (ChanControl, FrameMasterRatchet, ratchetGenMarker g)
       + count ts (TMasterRatchetAck g) + count_list back (ChanControl, FrameMasterRatchetAck, ratchetGenMarker g)" for g
    using assms(1) by (simp add: ledger_def)
  have "(if g \<in> insert (genSend a + 1) (pendingMRAck a) then 1 else 0)
     = count_list (es @ [(ChanControl, FrameMasterRatchet, ratchetGenMarker (genSend a + 1))]) (ChanControl, FrameMasterRatchet, ratchetGenMarker g)
       + count ts (TMasterRatchetAck g) + count_list back (ChanControl, FrameMasterRatchetAck, ratchetGenMarker g)" for g
    using mr [of g] new by (auto simp: count_list_append split: if_splits)
  moreover have "\<forall>g \<in> pendingMRAck a. g \<le> genSend a + 1" using assms(1) less by (auto simp: ledger_def)
  ultimately show ?thesis using assms(1) by (auto simp: ledger_def count_list_append)
qed

lemma ledger_peer_MasterRatchet:
  "ledger a es ts back \<Longrightarrow> ledger a es ts (back @ [(ChanControl, FrameMasterRatchet, ratchetGenMarker g)])"
  by (auto simp: ledger_def count_list_append)

lemma ledger_ack_task:
  "ledger a es (add_mset (TKeyUpdateAck ch e) ts) back \<Longrightarrow> ledger a es ts (back @ [(ch, FrameKeyUpdateAck, keyUpdateMarker e)])"
  "ledger a es (add_mset (TMasterRatchetAck g) ts) back \<Longrightarrow> ledger a es ts (back @ [(ChanControl, FrameMasterRatchetAck, ratchetGenMarker g)])"
  by (auto simp: ledger_def count_list_append)

lemma ledger_ack_own:
  "ledger a es ts back \<Longrightarrow> ledger a (es @ [(ch, FrameKeyUpdateAck, keyUpdateMarker e)]) ts back"
  "ledger a es ts back \<Longrightarrow> ledger a (es @ [(ChanControl, FrameMasterRatchetAck, ratchetGenMarker g)]) ts back"
  by (auto simp: ledger_def count_list_append)

lemma inv_KeyUpdate:
  assumes i: "inv w es" and K: "KeyUpdate (endpoint w s) ch WriteOk = (c, out, r)"
  shows "\<exists>es'. inv (emit w s c out) es'"
proof -
  note d = invD [OF i]
  let ?a = "endpoint w s"
  let ?n = "ekEpoch (sendView ?a ch) + 1"
  let ?e = "(ch, FrameKeyUpdate, keyUpdateMarker ?n)"
  from KeyUpdate_live [OF d(1)] K have c: "c = addPendingKeyUpdateAck (advanceSend ?a ch) ch ?n"
    and out: "out = marshal (dsFrame (sendDS ?a) ?e)" by auto
  have "link c (endpoint w (\<not> s)) (stream w s @ out) (es s @ [?e])"
    by (rule link_send [OF d(2) [of s]]) (simp_all add: c out dsAdvance_dsBump okKU)
  then have "inv ((emit w s c out)\<lparr>tasks := (tasks w)(s := tasks w s), sent := (sent w)(s := sent w s @ filter is_app [?e])\<rparr>)
      (es(s := es s @ [?e]))"
    using ledger_KeyUpdate(1) [OF d(3) [of s]] ledger_KeyUpdate(2) [OF d(3) [of "\<not> s"]]
    by (intro inv_emit i d(4)) (simp_all add: c d(1))
  then show ?thesis by (auto simp: emit_def app_record_def)
qed

lemma inv_RatchetSend:
  assumes i: "inv w es" and g: "genSend (endpoint w s) \<noteq> - 1" and R: "RatchetSend (endpoint w s) WriteOk = (c, out, r)"
  shows "\<exists>es'. inv (emit w s c out) es'"
proof -
  note d = invD [OF i]
  let ?a = "endpoint w s"
  let ?e = "(ChanControl, FrameMasterRatchet, ratchetGenMarker (genSend ?a + 1))"
  show ?thesis
  proof (cases "ekSeq (sendView ?a ChanControl) = - 1")
    case False
    from RatchetSend_live [OF d(1) False] R
    have c: "c = addPendingRatchetAck (setSendRoot ?a (tier1 (masterSend ?a) (genSend ?a + 1)) (genSend ?a + 1)) (genSend ?a + 1)"
      and out: "out = marshal (dsFrame (sendDS ?a) ?e)" by auto
    have "link c (endpoint w (\<not> s)) (stream w s @ out) (es s @ [?e])"
      by (rule link_send [OF d(2) [of s]]) (simp_all add: c out okMR)
    then have "inv ((emit w s c out)\<lparr>tasks := (tasks w)(s := tasks w s), sent := (sent w)(s := sent w s @ filter is_app [?e])\<rparr>)
        (es(s := es s @ [?e]))"
      using ledger_MasterRatchet [OF d(3) [of s] g] ledger_peer_MasterRatchet [OF d(3) [of "\<not> s"]]
      by (intro inv_emit i d(4)) (simp_all add: c d(1))
    then show ?thesis by (auto simp: emit_def app_record_def)
  next
    case True
    then have c: "c = ?a\<lparr>sendKeys := (sendKeys ?a)(ChanControl \<mapsto> sendView ?a ChanControl)\<rparr>" "out = []"
      using R d(1) [of s] by (auto simp: RatchetSend_def sendState_live Let_def live_def)
    have "inv ((emit w s c out)\<lparr>tasks := (tasks w)(s := tasks w s), sent := (sent w)(s := sent w s @ filter is_app [])\<rparr>)
        (es(s := es s @ []))"
      by (intro inv_emit i d(4))
        (use d(1) d(2) [of s] d(3) [of s] d(3) [of "\<not> s"] in \<open>simp_all add: c link_def ledger_def\<close>)
    then show ?thesis by (auto simp: emit_def)
  qed
qed

lemma inv_task:
  assumes i: "inv w es" and t: "tasks w s = add_mset t ts" and R: "runTask ops (endpoint w s) t xk coin WriteOk = (c, out)"
  shows "\<exists>ev. weight ev = 1 \<and> inv ((emit w s c out)\<lparr>tasks := (tasks w)(s := ts)\<rparr>) (es(s := es s @ [ev]))"
proof -
  note d = invD [OF i]
  let ?a = "endpoint w s"
  have ack: "ackTask t" "\<forall>t \<in># ts. ackTask t" using d(4) [of s] t by auto
  obtain ch ft pt where e: "c = bumpSend ?a ch" "out = marshal (dsFrame (sendDS ?a) (ch, ft, pt))" "okEvent (ch, ft, pt)"
      "record_fits pt" "\<not> app_record ch ft" "ft \<noteq> FrameKeyUpdate" "ft \<noteq> FrameMasterRatchet"
    and own: "ledger ?a (es s @ [(ch, ft, pt)]) (tasks w (\<not> s)) (es (\<not> s))"
    and peer: "ledger (endpoint w (\<not> s)) (es (\<not> s)) ts (es s @ [(ch, ft, pt)])"
  proof (cases t)
    case (TKeyUpdateAck ch n)
    show ?thesis
      by (rule that [of ch FrameKeyUpdateAck "keyUpdateMarker n"])
        (use TKeyUpdateAck R d(3) [of "\<not> s"] t in
          \<open>auto simp: sendKeyUpdateAck_live [OF d(1)] app_record_def intro: okKUAck ledger_ack_own(1) [OF d(3)] ledger_ack_task(1)\<close>)
  next
    case (TMasterRatchetAck g)
    show ?thesis
      by (rule that [of ChanControl FrameMasterRatchetAck "ratchetGenMarker g"])
        (use TMasterRatchetAck R d(3) [of "\<not> s"] t in
          \<open>auto simp: sendMasterRatchetAck_live [OF d(1)] app_record_def intro: okMRAck ledger_ack_own(2) [OF d(3)] ledger_ack_task(2)\<close>)
  qed (use ack in auto)
  have "link c (endpoint w (\<not> s)) (stream w s @ out) (es s @ [(ch, ft, pt)])"
    by (rule link_send [OF d(2) [of s]]) (use e in auto)
  moreover have "ledger c (es s @ [(ch, ft, pt)]) (tasks w (\<not> s)) (es (\<not> s))"
    using own by (rule ledger_other) (simp_all add: e)
  ultimately have "inv ((emit w s c out)\<lparr>tasks := (tasks w)(s := ts), sent := (sent w)(s := sent w s @ filter is_app [(ch, ft, pt)])\<rparr>)
      (es(s := es s @ [(ch, ft, pt)]))"
    using peer ack(2) by (intro inv_emit i) (simp_all add: e d(1))
  then show ?thesis using e by (intro exI [of _ "(ch, ft, pt)"]) (auto simp: emit_def)
qed

lemma ledger_announced:
  "ledger a ((ch, FrameKeyUpdate, keyUpdateMarker e) # es) ts back \<Longrightarrow> ledger a es (add_mset (TKeyUpdateAck ch e) ts) back"
  "ledger a ((ChanControl, FrameMasterRatchet, ratchetGenMarker g) # es) ts back \<Longrightarrow> ledger a es (add_mset (TMasterRatchetAck g) ts) back"
  by (auto simp: ledger_def)

lemma ledger_announced_own:
  "ledger a es ts ((ch, FrameKeyUpdate, keyUpdateMarker e) # back) \<Longrightarrow> ledger a es ts back"
  "ledger a es ts ((ChanControl, FrameMasterRatchet, ratchetGenMarker g) # back) \<Longrightarrow> ledger a es ts back"
  by (auto simp: ledger_def)

lemma ledger_acked_peer:
  "ledger a ((ch, FrameKeyUpdateAck, keyUpdateMarker e) # es) ts back \<Longrightarrow> ledger a es ts back"
  "ledger a ((ChanControl, FrameMasterRatchetAck, ratchetGenMarker g) # es) ts back \<Longrightarrow> ledger a es ts back"
  by (auto simp: ledger_def)

lemma ledger_acked_KU:
  assumes "ledger a es ts ((ch, FrameKeyUpdateAck, keyUpdateMarker e) # back)"
  shows "pendKU a ch e > 0" "ledger (kuDecrement a ch e) es ts back"
proof -
  have ku: "pendKU a ch' e' = count_list es (ch', FrameKeyUpdate, keyUpdateMarker e') + count ts (TKeyUpdateAck ch' e')
       + count_list ((ch, FrameKeyUpdateAck, keyUpdateMarker e) # back) (ch', FrameKeyUpdateAck, keyUpdateMarker e')" for ch' e'
    using assms by (simp add: ledger_def)
  show pos: "pendKU a ch e > 0" using ku [of ch e] by simp
  show "ledger (kuDecrement a ch e) es ts back"
    using assms by (auto simp: ledger_def pendKU_decrement [OF pos])
qed

lemma ledger_acked_MR:
  assumes "ledger a es ts ((ChanControl, FrameMasterRatchetAck, ratchetGenMarker g) # back)"
  shows "g \<in> pendingMRAck a" "ledger (a\<lparr>pendingMRAck := pendingMRAck a - {g}\<rparr>) es ts back"
proof -
  have mr: "(if g' \<in> pendingMRAck a then 1 else 0) = count_list es (ChanControl, FrameMasterRatchet, ratchetGenMarker g')
       + count ts (TMasterRatchetAck g')
       + count_list ((ChanControl, FrameMasterRatchetAck, ratchetGenMarker g) # back) (ChanControl, FrameMasterRatchetAck, ratchetGenMarker g')" for g'
    using assms by (simp add: ledger_def)
  show mem: "g \<in> pendingMRAck a" using mr [of g] by (simp split: if_splits)
  have "(if g' \<in> pendingMRAck a - {g} then 1 else 0) = count_list es (ChanControl, FrameMasterRatchet, ratchetGenMarker g')
       + count ts (TMasterRatchetAck g') + count_list back (ChanControl, FrameMasterRatchetAck, ratchetGenMarker g')" for g'
    using mr [of g'] mem by (simp split: if_splits)
  then show "ledger (a\<lparr>pendingMRAck := pendingMRAck a - {g}\<rparr>) es ts back"
    using assms by (auto simp: ledger_def)
qed

lemma recvOne_frame:
  assumes "dsValid (recvDS c) e" "recvFrame ops c (dsFrame (recvDS c) e) = (c', ts, a)"
  shows "recvOne ops c (marshal (dsFrame (recvDS c) e) @ rest) = (c', rest, ts, a)"
  using dsFrame_sendable [OF assms(1)] assms(2)
  by (simp add: recvOne_def readFrame_marshal UnmarshalBinary_marshal sendable_def)

text \<open>
  The receiver handles the next record of an invariant state without a fault: it follows the machine
  of the direction, keeps both ledgers, and delivers exactly the application records.
\<close>

lemma recv_next:
  assumes i: "inv w es" and e: "es (\<not> s) = e # es'"
  shows "\<exists>c ts. recvFrame ops (endpoint w s) (dsFrame (recvDS (endpoint w s)) e)
      = (c, ts, if is_app e then Some (actDeliver (fst e) (fst (snd e)) (snd (snd e))) else None)
    \<and> live c \<and> sendDS c = sendDS (endpoint w s) \<and> SecurityDrops c = SecurityDrops (endpoint w s)
    \<and> recvDS c = dsStep (recvDS (endpoint w s)) e \<and> ledger c (es s) (tasks w (\<not> s)) es'
    \<and> ledger (endpoint w (\<not> s)) es' (tasks w s + mset ts) (es s) \<and> (\<forall>t \<in> set ts. ackTask t)
    \<and> 2 * length ts < weight e"
proof -
  note d = invD [OF i]
  let ?a = "endpoint w s"
  have own: "ledger ?a (es s) (tasks w (\<not> s)) (e # es')" and peer: "ledger (endpoint w (\<not> s)) (e # es') (tasks w s) (es s)"
    using d(3) [of s] d(3) [of "\<not> s"] e by simp_all
  have v: "dsValid (recvDS ?a) e" and ok: "okEvent e" using d(2) [of "\<not> s"] e by (simp_all add: link_def)
  have L: "live ?a" by (rule d(1))
  from ok show ?thesis
  proof (cases rule: okEvent.cases)
    case (okApp ch ft pt)
    have "ledger (bumpRecv ?a ch) (es s) (tasks w (\<not> s)) es'"
      using own ledger_app(4) [of e] okApp by (auto intro: ledger_other)
    then show ?thesis
      using recv_app [OF L, of pt ch ft] v peer ledger_app(3) [of e] okApp L by (auto simp: app_record_def)
  next
    case (okKU ch n)
    with v have n: "n = ekEpoch (recvView ?a ch) + 1" by simp
    have "ledger (advanceRecv ?a ch) (es s) (tasks w (\<not> s)) es'"
      by (rule ledger_other [OF ledger_announced_own(1)], use own okKU in simp) simp_all
    then show ?thesis
      using recv_KeyUpdate [OF L, of ops ch] peer L ledger_announced(1) okKU n
      by (auto simp: app_record_def dsAdvance_dsBump)
  next
    case (okKUAck ch n)
    have b: "ledger (bumpRecv ?a ch) (es s) (tasks w (\<not> s)) ((ch, FrameKeyUpdateAck, keyUpdateMarker n) # es')"
      using own okKUAck by (auto intro: ledger_other)
    have "consumePendingKeyUpdateAck (bumpRecv ?a ch) ch n = (kuDecrement (bumpRecv ?a ch) ch n, True)"
      using ledger_acked_KU(1) [OF b] by (simp add: consume_iff)
    from recv_KeyUpdateAck [OF L this] show ?thesis
      using ledger_acked_KU(2) [OF b] peer ledger_acked_peer(1) L okKUAck by (auto simp: app_record_def)
  next
    case (okMR g)
    with v have g: "g = genRecv ?a + 1" by simp
    have "ledger (setRecvRoot ?a r q) (es s) (tasks w (\<not> s)) es'" for r q
      by (rule ledger_other [OF ledger_announced_own(2)], use own okMR in simp) simp_all
    then show ?thesis
      using recv_MasterRatchet [OF L, of ops] peer L ledger_announced(2) okMR g by (auto simp: app_record_def)
  next
    case (okMRAck g)
    have b: "ledger (bumpRecv ?a ChanControl) (es s) (tasks w (\<not> s)) ((ChanControl, FrameMasterRatchetAck, ratchetGenMarker g) # es')"
      using own okMRAck by (auto intro: ledger_other)
    have "consumePendingRatchetAck (bumpRecv ?a ChanControl) g
        = ((bumpRecv ?a ChanControl)\<lparr>pendingMRAck := pendingMRAck (bumpRecv ?a ChanControl) - {g}\<rparr>, True)"
      using ledger_acked_MR(1) [OF b] by (simp add: consumePendingRatchetAck_def)
    from recv_MasterRatchetAck [OF L this] show ?thesis
      using ledger_acked_MR(2) [OF b] peer ledger_acked_peer(2) L okMRAck by (auto simp: app_record_def)
  qed
qed

lemma inv_recvOne:
  assumes i: "inv w es" and e: "es (\<not> s) = e # es'"
  obtains c rest ts a where "recvOne ops (endpoint w s) (stream w (\<not> s)) = (c, rest, ts, a)"
    "\<not> faulty a" "2 * length ts < weight e"
    "inv (w\<lparr>endpoint := (endpoint w)(s := c), stream := (stream w)(\<not> s := rest),
       tasks := (tasks w)(s := tasks w s + mset ts), got := (got w)(s := got w s @ delivered a)\<rparr>) (es(\<not> s := es'))"
proof -
  note d = invD [OF i]
  let ?a = "endpoint w s"
  let ?act = "if is_app e then Some (actDeliver (fst e) (fst (snd e)) (snd (snd e))) else None"
  from recv_next [OF i e, of ops] obtain c ts where r: "recvFrame ops ?a (dsFrame (recvDS ?a) e) = (c, ts, ?act)"
    and c: "live c" "sendDS c = sendDS ?a" "SecurityDrops c = SecurityDrops ?a" "recvDS c = dsStep (recvDS ?a) e"
      "ledger c (es s) (tasks w (\<not> s)) es'" "ledger (endpoint w (\<not> s)) es' (tasks w s + mset ts) (es s)"
    and ts: "\<forall>t \<in> set ts. ackTask t" "2 * length ts < weight e" by blast
  have v: "dsValid (recvDS ?a) e" and st: "stream w (\<not> s) = marshal (dsFrame (recvDS ?a) e) @ streamOf (recvDS c) es'"
    using d(2) [of "\<not> s"] e c(4) by (simp_all add: link_def)
  have "\<forall>t \<in># tasks w s + mset ts. ackTask t" using ts(1) d(4) [of s] by auto
  then have "inv (w\<lparr>endpoint := (endpoint w)(s := c), stream := (stream w)(\<not> s := streamOf (recvDS c) es'),
      tasks := (tasks w)(s := tasks w s + mset ts), got := (got w)(s := got w s @ delivered ?act)\<rparr>) (es(\<not> s := es'))"
    by (intro inv_recv [OF i e] c) auto
  moreover have "\<not> faulty ?act" by auto
  ultimately show thesis
    using that recvOne_frame [OF v r] ts(2) st by metis
qed

lemma inv_step:
  assumes "inv w es" "step ops w w'"
  shows "\<exists>es'. inv w' es'"
  using assms(2,1)
proof (induction rule: step.induct)
  case (stepRecv w s c rest ts a)
  obtain e es' where e: "es (\<not> s) = e # es'"
    using stepRecv.hyps(1) link_Nil invD(2) [OF stepRecv.prems, of "\<not> s"] by (cases "es (\<not> s)") auto
  from inv_recvOne [OF stepRecv.prems e, of ops] stepRecv.hyps(2)
  have nf: "\<not> faulty a" and I: "inv (w\<lparr>endpoint := (endpoint w)(s := c), stream := (stream w)(\<not> s := rest),
       tasks := (tasks w)(s := tasks w s + mset ts), got := (got w)(s := got w s @ delivered a)\<rparr>) (es(\<not> s := es'))"
    by auto
  have "(fault w)(s := fault w s \<or> faulty a) = fault w" using nf by auto
  with I have "inv (w\<lparr>endpoint := (endpoint w)(s := c), stream := (stream w)(\<not> s := rest),
       tasks := (tasks w)(s := tasks w s + mset ts), got := (got w)(s := got w s @ delivered a),
       fault := (fault w)(s := fault w s \<or> faulty a)\<rparr>) (es(\<not> s := es'))"
    by (simp only: inv_def) simp
  then show ?case by blast
next
  case (stepTask w s t ts xk coin c out)
  from inv_task [OF stepTask.prems stepTask.hyps] show ?case by blast
qed (blast intro: inv_Send inv_KeyUpdate inv_RatchetSend)+

lemma inv_reachable:
  assumes "paired a b" "paired b a" "(step ops)\<^sup>*\<^sup>* (start a b) w"
  shows "\<exists>es. inv w es"
  using assms(3)
proof (induction rule: rtranclp_induct)
  case base
  then show ?case using inv_start [OF assms(1,2)] by blast
next
  case (step y z)
  then show ?case using inv_step by blast
qed

lemma marshal_nonempty [simp]: "marshal f \<noteq> []"
  using length_marshal [of f] by (auto simp: HeaderSize_def)

lemma streamOf_Nil [simp]: "streamOf d es = [] \<longleftrightarrow> es = []"
  by (cases es) auto

lemma inv_fifo:
  assumes "inv w es"
  shows "\<not> fault w s \<and> SecurityDrops (endpoint w s) = (0, 0) \<and> prefix (got w s) (sent w (\<not> s))
    \<and> (stream w (\<not> s) = [] \<longrightarrow> got w s = sent w (\<not> s))"
proof -
  note d = invD [OF assms]
  have "es (\<not> s) = []" if "stream w (\<not> s) = []"
    using that d(2) [of "\<not> s"] by (metis link_def streamOf_Nil)
  then show ?thesis using d(5) [of "\<not> s"] d(6,7) [of s] by auto
qed

text \<open>
  C2. Reliable delivery of a session under every interleaving. From two paired endpoints, run any
  sequence of sends, key updates, master ratchets, receives and acknowledgement goroutines at both
  sides, in any order. Then no receive has reported an error, no frame has been dropped, the records
  that a side has received are a prefix of those the other side has sent, and they are all of them
  when the stream is empty.
\<close>

theorem duplex_fifo:
  assumes "paired a b" "paired b a" "(step ops)\<^sup>*\<^sup>* (start a b) w"
  shows "\<not> fault w s \<and> SecurityDrops (endpoint w s) = (0, 0) \<and> prefix (got w s) (sent w (\<not> s))
    \<and> (stream w (\<not> s) = [] \<longrightarrow> got w s = sent w (\<not> s))"
  using inv_reachable [OF assms] inv_fifo by blast

text \<open>Two connections that share a master, and the record that the first one sends.\<close>

definition demoA :: conn where "demoA = newConn [1, 2, 3] [] DirClientToServer DirServerToClient"
definition demoB :: conn where "demoB = newConn [1, 2, 3] [] DirServerToClient DirClientToServer"
definition demoE :: event where "demoE = (ChanMemory, ChannelSpecificBase, [7])"

lemma demo_send:
  "paired demoA demoB" "paired demoB demoA"
  "\<exists>w. (step demo_ops)\<^sup>*\<^sup>* (start demoA demoB) w \<and> sent w True = [demoE]"
proof -
  show p: "paired demoA demoB" "paired demoB demoA" by (simp_all add: demoA_def demoB_def paired_newConn)
  have "live demoA" using p by (simp add: paired_def)
  moreover have "record_fits [7]" by (simp add: record_fits_def HeaderSize_def MaxFrameSize_def)
  moreover have "ekSeq (sendView demoA ChanMemory) \<noteq> - 1" by (simp add: demoA_def newConn_def sendView_def)
  ultimately have "Send (endpoint (start demoA demoB) True) ChanMemory ChannelSpecificBase [7] WriteOk
      = (bumpSend demoA ChanMemory, marshal (dsFrame (sendDS demoA) demoE), Inr ())"
    using Send_live by (simp add: start_def demoE_def)
  from stepSend [OF _ this, of demo_ops]
  have st: "step demo_ops (start demoA demoB) ((emit (start demoA demoB) True (bumpSend demoA ChanMemory) (marshal (dsFrame (sendDS demoA) demoE)))
      \<lparr>sent := (sent (start demoA demoB))(True := [demoE])\<rparr>)"
    by (simp add: app_record_def ChanMemory_def ChanControl_def ChannelSpecificBase_def frame_type_defs start_def demoE_def)
  show "\<exists>w. (step demo_ops)\<^sup>*\<^sup>* (start demoA demoB) w \<and> sent w True = [demoE]"
    by (rule exI, rule conjI, rule r_into_rtranclp, rule st) simp
qed

text \<open>The hypotheses of the theorem hold of a run in which a record has been sent.\<close>

theorem duplex_fifo_witness:
  "\<exists>w. paired demoA demoB \<and> paired demoB demoA \<and> (step demo_ops)\<^sup>*\<^sup>* (start demoA demoB) w \<and> sent w True = [demoE]
    \<and> \<not> fault w False \<and> prefix (got w False) [demoE]"
proof -
  from demo_send(3) obtain w where w: "(step demo_ops)\<^sup>*\<^sup>* (start demoA demoB) w" "sent w True = [demoE]" by blast
  from duplex_fifo [OF demo_send(1,2) w(1), of False] w demo_send(1,2) show ?thesis by auto
qed

section \<open>Draining\<close>

definition work :: "world \<Rightarrow> (side \<Rightarrow> event list) \<Rightarrow> side \<Rightarrow> nat" where
  "work w es s = sum_list (map weight (es s)) + 2 * size (tasks w s)"

lemma inv_quiet:
  assumes "inv w es" "es s = []" "es (\<not> s) = []" "tasks w (\<not> s) = {#}"
  shows "stream w s = []" "got w (\<not> s) = sent w s" "sendDS (endpoint w s) = recvDS (endpoint w (\<not> s))"
    "pendKU (endpoint w s) ch e = 0" "pendingMRAck (endpoint w s) = {}"
proof -
  note d = invD(2,3,5) [OF assms(1), of s]
  show "stream w s = []" "got w (\<not> s) = sent w s" "sendDS (endpoint w s) = recvDS (endpoint w (\<not> s))"
    "pendKU (endpoint w s) ch e = 0"
    using d assms(2-4) by (simp_all add: link_def ledger_def)
  have "(if g \<in> pendingMRAck (endpoint w s) then 1 else 0 :: nat) = 0" for g
    using d(2) assms(2-4) by (simp add: ledger_def)
  then show "pendingMRAck (endpoint w s) = {}" by (metis equals0I one_neq_zero)
qed

text \<open>
  The steps that a session takes by itself, with no further call of the application that emits
  anything: an endpoint receives a frame, or one of its goroutines runs.
\<close>

inductive settle :: "crypto_ops \<Rightarrow> world \<Rightarrow> world \<Rightarrow> bool" for ops where
  settleTask:
    "tasks w s = add_mset t ts \<Longrightarrow> runTask ops (endpoint w s) t xk coin WriteOk = (c, out) \<Longrightarrow>
     settle ops w ((emit w s c out)\<lparr>tasks := (tasks w)(s := ts)\<rparr>)"
| settleRecv:
    "stream w (\<not> s) \<noteq> [] \<Longrightarrow> recvOne ops (endpoint w s) (stream w (\<not> s)) = (c, rest, ts, a) \<Longrightarrow>
     settle ops w (w\<lparr>endpoint := (endpoint w)(s := c), stream := (stream w)(\<not> s := rest),
       tasks := (tasks w)(s := tasks w s + mset ts), got := (got w)(s := got w s @ delivered a),
       fault := (fault w)(s := (fault w s \<or> faulty a))\<rparr>)"

lemma settle_step: "settle ops w w' \<Longrightarrow> step ops w w'"
  by (erule settle.cases) (auto intro: stepTask stepRecv)

lemma settle_steps: "(settle ops)\<^sup>*\<^sup>* w w' \<Longrightarrow> (step ops)\<^sup>*\<^sup>* w w'"
  by (induction rule: rtranclp_induct) (auto intro: rtranclp.rtrancl_into_rtrancl settle_step)

lemma drain:
  "inv w es \<Longrightarrow> \<exists>w' es'. (settle ops)\<^sup>*\<^sup>* w w' \<and> inv w' es' \<and> sent w' = sent w \<and> (\<forall>s. es' s = [] \<and> tasks w' s = {#})"
proof (induction "work w es True + work w es False" arbitrary: w es rule: less_induct)
  case less
  have next_step: ?case if "settle ops w w1" "inv w1 es1" "sent w1 = sent w" "work w1 es1 s + work w1 es1 (\<not> s) < work w es s + work w es (\<not> s)" for w1 es1 s
  proof -
    have "work w1 es1 True + work w1 es1 False < work w es True + work w es False" using that(4) by (cases s) auto
    from less.hyps [OF this that(2)] obtain w' es' where "(settle ops)\<^sup>*\<^sup>* w1 w'" "inv w' es'" "sent w' = sent w1"
      "\<forall>s. es' s = [] \<and> tasks w' s = {#}" by blast
    with that(1,3) show ?case by (metis converse_rtranclp_into_rtranclp)
  qed
  show ?case
  proof (cases "\<exists>s. es s \<noteq> []")
    case True
    then obtain s' where "es s' \<noteq> []" ..
    then obtain e es' where e': "es s' = e # es'" by (cases "es s'") auto
    define s where "s = (\<not> s')"
    with e' have e: "es (\<not> s) = e # es'" by simp
    obtain c rest ts a where r: "recvOne ops (endpoint w s) (stream w (\<not> s)) = (c, rest, ts, a)" "\<not> faulty a"
        "2 * length ts < weight e"
      and I: "inv (w\<lparr>endpoint := (endpoint w)(s := c), stream := (stream w)(\<not> s := rest),
         tasks := (tasks w)(s := tasks w s + mset ts), got := (got w)(s := got w s @ delivered a)\<rparr>) (es(\<not> s := es'))"
      by (rule inv_recvOne [OF less.prems e])
    have ne: "stream w (\<not> s) \<noteq> []"
      using invD(2) [OF less.prems, of "\<not> s"] e by (metis link_def list.distinct(1) streamOf_Nil)
    have "(fault w)(s := fault w s \<or> faulty a) = fault w" using r(2) by auto
    then have "settle ops w (w\<lparr>endpoint := (endpoint w)(s := c), stream := (stream w)(\<not> s := rest),
       tasks := (tasks w)(s := tasks w s + mset ts), got := (got w)(s := got w s @ delivered a), fault := fault w\<rparr>)"
      using settleRecv [OF ne r(1)] by simp
    moreover have "inv (w\<lparr>endpoint := (endpoint w)(s := c), stream := (stream w)(\<not> s := rest),
       tasks := (tasks w)(s := tasks w s + mset ts), got := (got w)(s := got w s @ delivered a), fault := fault w\<rparr>) (es(\<not> s := es'))"
      using I by (simp only: inv_def) simp
    ultimately show ?thesis
      by (rule next_step [of _ "es(\<not> s := es')" s]) (use r(3) e in \<open>simp_all add: work_def\<close>)
  next
    case none: False
    show ?thesis
    proof (cases "\<exists>s. tasks w s \<noteq> {#}")
      case True
      then obtain s t ts where t: "tasks w s = add_mset t ts" by (metis multiset_cases)
      obtain c out where R: "runTask ops (endpoint w s) t [] [] WriteOk = (c, out)" by fastforce
      from inv_task [OF less.prems t R] obtain ev
        where ev: "weight ev = 1" "inv ((emit w s c out)\<lparr>tasks := (tasks w)(s := ts)\<rparr>) (es(s := es s @ [ev]))" by blast
      show ?thesis
        by (rule next_step [OF settleTask [OF t R] ev(2), of s]) (use ev(1) t in \<open>auto simp: work_def emit_def\<close>)
    next
      case False
      with none less.prems show ?thesis by blast
    qed
  qed
qed

text \<open>
  C3. A session can always drain: from every state reachable by sends, key updates, symmetric
  ratchets, receives and goroutines, receives and acknowledgement goroutines alone (\<open>settle\<close>) lead to a state in which everything sent has been received, nothing is in flight,
  no goroutine is left, no acknowledgement is outstanding, and the keys of both ends agree again.
\<close>

theorem duplex_drains:
  assumes "paired a b" "paired b a" "(step ops)\<^sup>*\<^sup>* (start a b) w"
  shows "\<exists>w'. (settle ops)\<^sup>*\<^sup>* w w' \<and> sent w' = sent w \<and> (\<forall>s. stream w' s = [] \<and> tasks w' s = {#} \<and> got w' (\<not> s) = sent w s
    \<and> (\<forall>ch e. pendKU (endpoint w' s) ch e = 0) \<and> pendingMRAck (endpoint w' s) = {}
    \<and> sendDS (endpoint w' s) = recvDS (endpoint w' (\<not> s)))"
proof -
  from inv_reachable [OF assms] obtain es where "inv w es" ..
  from drain [OF this] obtain w' es' where w': "(settle ops)\<^sup>*\<^sup>* w w'" "inv w' es'" "sent w' = sent w"
    and q: "\<And>s. es' s = [] \<and> tasks w' s = {#}" by blast
  have "stream w' s = [] \<and> tasks w' s = {#} \<and> got w' (\<not> s) = sent w s
    \<and> (\<forall>ch e. pendKU (endpoint w' s) ch e = 0) \<and> pendingMRAck (endpoint w' s) = {}
    \<and> sendDS (endpoint w' s) = recvDS (endpoint w' (\<not> s))" for s
    using inv_quiet [OF w'(2), of s] q w'(3) by simp
  with w' show ?thesis by blast
qed

text \<open>The record of that run is delivered.\<close>

theorem duplex_drains_witness:
  "\<exists>w w'. (step demo_ops)\<^sup>*\<^sup>* (start demoA demoB) w \<and> (settle demo_ops)\<^sup>*\<^sup>* w w' \<and> got w' False = [demoE] \<and> stream w' True = [] \<and> stream w' False = []"
proof -
  from demo_send(3) obtain w where w: "(step demo_ops)\<^sup>*\<^sup>* (start demoA demoB) w" "sent w True = [demoE]" by blast
  from duplex_drains [OF demo_send(1,2) w(1)] obtain w' where w': "(settle demo_ops)\<^sup>*\<^sup>* w w'"
    "\<forall>s. stream w' s = [] \<and> got w' (\<not> s) = sent w s" by blast
  from w'(2) w(2) have "got w' False = [demoE]" by (metis (full_types))
  with w' w(1) show ?thesis by blast
qed

end
