(* ===== verification/SessionSafety.thy ===== *)
theory SessionSafety
  imports Duplex
begin

text \<open>
  Safety of one endpoint of a session: what a hostile network can do to a receiver, which nonces a
  sender uses, what is left after a close, and the limits of the code in two corners (a write that
  fails, and a sequence number at its maximum).
\<close>

section \<open>Injected frames\<close>

text \<open>
  C4. Injection resilience. A well-formed frame that is not authentic for the receiver (cleartext,
  out of sequence, or not opening under the key of its channel) is consumed and counted, and
  otherwise changes nothing: the receive loop behaves on the rest of the stream as it would have
  without the frame, in the same session.
\<close>

theorem injected_frame_dropped:
  assumes "live c" "sendable f" "\<not> authentic c f"
  shows "\<exists>c'. recvLocked ops c (marshal f @ rest) = recvLocked ops c' rest \<and> same_session c c'
    \<and> droppedUnauthenticated c' + droppedOutOfSequence c' = droppedUnauthenticated c + droppedOutOfSequence c + 1"
proof -
  from recvFrame_drop [OF assms(1,3), of ops] obtain c' where c': "recvFrame ops c f = (c', [], None)" "same_session c c'"
    "droppedUnauthenticated c' + droppedOutOfSequence c' = droppedUnauthenticated c + droppedOutOfSequence c + 1" by blast
  from c'(1) have "recvLocked ops c (marshal f @ rest) = recvLocked ops c' rest"
    by (simp add: recvLocked_frame [OF assms(2)] split: prod.splits)
  with c' show ?thesis by blast
qed

theorem injected_frame_dropped_witness:
  "\<exists>c'. recvLocked demo_ops demoB (marshal demo_frame) = recvLocked demo_ops c' [] \<and> same_session demoB c'"
proof -
  have "live demoB" using demo_send(2) by (simp add: paired_def)
  moreover have "sendable demo_frame" "\<not> authentic demoB demo_frame"
    by (simp_all add: demo_frame_def sendable_def frame_ok_def authentic_def HeaderSize_def MaxFrameSize_def ProtocolVersion_def
        demoB_def newConn_def recvView_def)
  ultimately show ?thesis using injected_frame_dropped [of demoB demo_frame demo_ops "[]"] by auto
qed

text \<open>
  C5. Authenticity of what is acted upon. When the receive loop does anything with a frame but drop it
  (it starts a goroutine, returns an action, or moves the receive keys), whatever its flags are, the
  frame is marked as encrypted, it has the sequence number that the receiver expects next on its
  channel, and its payload is the seal of some plaintext under the key and the IV of that channel and
  epoch with the header of the frame as associated data. A frame with the version and the flags that
  \<open>Send\<close> sets is then the very frame that the sender of this direction makes of that plaintext.
\<close>

theorem acted_frame_is_sealed:
  assumes "live c" and "recvFrame ops c f = (c', ts, a)" "ts \<noteq> [] \<or> a \<noteq> None \<or> recvDS c' \<noteq> recvDS c"
  shows "fFlags f AND FlagENC \<noteq> 0 \<and> fSeq f = ekSeq (recvView c (fChannel f))
    \<and> (\<exists>pt. SealAES256GCM (ekKey (recvView c (fChannel f))) (ekIV (recvView c (fChannel f))) (fSeq f)
            (HeaderPrefix f (of_nat (length (fPayload f)))) pt = Inr (fPayload f)
         \<and> (fFlags f = FlagENC \<and> fVersion f = ProtocolVersion \<longrightarrow> f = dsFrame (recvDS c) (fChannel f, fType f, pt)))"
proof -
  have "authentic c f"
    using recvFrame_drop [OF assms(1), of f ops] assms(2,3) by (auto simp: same_session_def)
  then obtain pt where e: "fFlags f AND FlagENC \<noteq> 0" "fSeq f = ekSeq (recvView c (fChannel f))"
    and o: "openWith (recvView c (fChannel f)) f = Inr pt"
    by (auto simp: authentic_def)
  from o have "SealAES256GCM (ekKey (recvView c (fChannel f))) (ekIV (recvView c (fChannel f))) (fSeq f)
            (HeaderPrefix f (of_nat (length (fPayload f)))) pt = Inr (fPayload f)"
    by (simp add: openWith_def OpenAES256GCM_iff)
  moreover have "f = dsFrame (recvDS c) (fChannel f, fType f, pt)" if "fFlags f = FlagENC" "fVersion f = ProtocolVersion"
    using openWith_sound [OF o that(2,1) e(2)] by (simp add: recvDS_def)
  ultimately show ?thesis using e by blast
qed

theorem acted_frame_is_sealed_witness:
  "\<exists>f c'. recvFrame demo_ops demoB f = (c', [], Some (actDeliver ChanMemory ChannelSpecificBase [7]))
    \<and> fFlags f AND FlagENC \<noteq> 0 \<and> fSeq f = 0 \<and> (\<exists>pt. f = dsFrame (recvDS demoB) (fChannel f, fType f, pt))"
proof -
  let ?f = "dsFrame (recvDS demoB) demoE"
  have "live demoB" using demo_send(2) by (simp add: paired_def)
  moreover have "record_fits [7]" by (simp add: record_fits_def HeaderSize_def MaxFrameSize_def)
  moreover have "app_record ChanMemory ChannelSpecificBase"
    by (simp add: app_record_def ChanMemory_def ChanControl_def ChannelSpecificBase_def frame_type_defs)
  ultimately have r: "recvFrame demo_ops demoB ?f = (bumpRecv demoB ChanMemory, [], Some (actDeliver ChanMemory ChannelSpecificBase [7]))"
    unfolding demoE_def by (rule recv_app)
  have q: "ekSeq (recvView demoB (fChannel ?f)) = 0" by (simp add: demoB_def newConn_def recvView_def)
  have v: "fFlags ?f = FlagENC" "fVersion ?f = ProtocolVersion" by (simp_all add: demoE_def)
  have "fFlags ?f AND FlagENC \<noteq> 0 \<and> fSeq ?f = 0 \<and> (\<exists>pt. ?f = dsFrame (recvDS demoB) (fChannel ?f, fType ?f, pt))"
    using acted_frame_is_sealed [OF \<open>live demoB\<close> r] q v by auto
  with r show ?thesis by blast
qed

section \<open>Nonces\<close>

text \<open>The operations of a sender, and the octets that a list of them puts on the stream.\<close>

datatype send_op = OpSend channel_id frame_type bytes | OpKeyUpdate channel_id | OpRatchetSend | OpAck task

fun doOp :: "crypto_ops \<Rightarrow> conn \<Rightarrow> send_op \<Rightarrow> conn \<times> bytes" where
  "doOp ops c (OpSend ch ft pt) = (case Send c ch ft pt WriteOk of (c', out, r) \<Rightarrow> (c', out))"
| "doOp ops c (OpKeyUpdate ch) = (case KeyUpdate c ch WriteOk of (c', out, r) \<Rightarrow> (c', out))"
| "doOp ops c OpRatchetSend = (case RatchetSend c WriteOk of (c', out, r) \<Rightarrow> (c', out))"
| "doOp ops c (OpAck t) = runTask ops c t [] [] WriteOk"

fun doOps :: "crypto_ops \<Rightarrow> conn \<Rightarrow> send_op list \<Rightarrow> conn \<times> bytes" where
  "doOps ops c [] = (c, [])"
| "doOps ops c (q # qs) = (case doOp ops c q of (c', out) \<Rightarrow> case doOps ops c' qs of (c'', out') \<Rightarrow> (c'', out @ out'))"

text \<open>A record of a plain send: not one of the boundaries, which have their own operations.\<close>

fun op_ok :: "send_op \<Rightarrow> bool" where
  "op_ok (OpSend ch ft pt) \<longleftrightarrow> ft \<noteq> FrameKeyUpdate \<and> (ft = FrameMasterRatchet \<longrightarrow> ch \<noteq> ChanControl)"
| "op_ok (OpAck t) \<longleftrightarrow> ackTask t"
| "op_ok _ \<longleftrightarrow> True"

lemma doOp_sim:
  assumes "live c" "op_ok q" "doOp ops c q = (c', out)"
  shows "live c' \<and> (out = [] \<and> sendDS c' = sendDS c
    \<or> (\<exists>e. out = marshal (dsFrame (sendDS c) e) \<and> sendDS c' = dsStep (sendDS c) e))"
proof (cases q)
  case (OpSend ch ft pt)
  show ?thesis
  proof (cases "record_fits pt \<and> ekSeq (sendView c ch) \<noteq> - 1")
    case True
    then have "c' = bumpSend c ch" "out = marshal (dsFrame (sendDS c) (ch, ft, pt))"
      using assms OpSend Send_live [OF assms(1)] by auto
    with assms(1,2) OpSend show ?thesis by (intro conjI disjI2 exI [of _ "(ch, ft, pt)"]) auto
  next
    case False
    from Send_refused [OF assms(1) this, of ft] assms OpSend show ?thesis by auto
  qed
next
  case (OpKeyUpdate ch)
  then have "c' = addPendingKeyUpdateAck (advanceSend c ch) ch (ekEpoch (sendView c ch) + 1)"
    "out = marshal (dsFrame (sendDS c) (ch, FrameKeyUpdate, keyUpdateMarker (ekEpoch (sendView c ch) + 1)))"
    using assms KeyUpdate_live [OF assms(1)] by auto
  with assms(1) show ?thesis
    by (intro conjI disjI2 exI [of _ "(ch, FrameKeyUpdate, keyUpdateMarker (ekEpoch (sendView c ch) + 1))"])
      (auto simp: dsAdvance_dsBump)
next
  case OpRatchetSend
  show ?thesis
  proof (cases "ekSeq (sendView c ChanControl) = - 1")
    case True
    then have "c' = c\<lparr>sendKeys := (sendKeys c)(ChanControl \<mapsto> sendView c ChanControl)\<rparr>" "out = []"
      using assms OpRatchetSend by (auto simp: RatchetSend_def sendState_live Let_def live_def)
    with assms(1) show ?thesis by simp
  next
    case False
    then have "c' = addPendingRatchetAck (setSendRoot c (tier1 (masterSend c) (genSend c + 1)) (genSend c + 1)) (genSend c + 1)"
      "out = marshal (dsFrame (sendDS c) (ChanControl, FrameMasterRatchet, ratchetGenMarker (genSend c + 1)))"
      using assms OpRatchetSend RatchetSend_live [OF assms(1)] by auto
    with assms(1) show ?thesis
      by (intro conjI disjI2 exI [of _ "(ChanControl, FrameMasterRatchet, ratchetGenMarker (genSend c + 1))"]) auto
  qed
next
  case (OpAck t)
  show ?thesis
  proof (cases t)
    case (TKeyUpdateAck ch n)
    with assms OpAck sendKeyUpdateAck_live [OF assms(1)] show ?thesis
      by (intro conjI disjI2 exI [of _ "(ch, FrameKeyUpdateAck, keyUpdateMarker n)"]) auto
  next
    case (TMasterRatchetAck g)
    with assms OpAck sendMasterRatchetAck_live [OF assms(1)] show ?thesis
      by (intro conjI disjI2 exI [of _ "(ChanControl, FrameMasterRatchetAck, ratchetGenMarker g)"]) auto
  qed (use assms OpAck in auto)
qed

lemma doOps_sim:
  "live c \<Longrightarrow> \<forall>q \<in> set qs. op_ok q \<Longrightarrow> doOps ops c qs = (c', out) \<Longrightarrow>
    \<exists>es. length es \<le> length qs \<and> out = streamOf (sendDS c) es"
proof (induction qs arbitrary: c out)
  case (Cons q qs)
  obtain c1 o1 where q: "doOp ops c q = (c1, o1)" by fastforce
  obtain o2 where qs: "doOps ops c1 qs = (c', o2)" "out = o1 @ o2" using Cons.prems(3) q by (auto split: prod.splits)
  from doOp_sim [OF Cons.prems(1) _ q] Cons.prems(2)
  have sim: "live c1" "o1 = [] \<and> sendDS c1 = sendDS c \<or> (\<exists>e. o1 = marshal (dsFrame (sendDS c) e) \<and> sendDS c1 = dsStep (sendDS c) e)"
    by auto
  from Cons.IH [OF sim(1) _ qs(1)] Cons.prems(2) obtain es where es: "length es \<le> length qs" "o2 = streamOf (sendDS c1) es" by auto
  from sim(2) show ?case
  proof
    assume "o1 = [] \<and> sendDS c1 = sendDS c"
    with es qs show ?thesis by (intro exI [of _ es]) auto
  next
    assume "\<exists>e. o1 = marshal (dsFrame (sendDS c) e) \<and> sendDS c1 = dsStep (sendDS c) e"
    then obtain e where "o1 = marshal (dsFrame (sendDS c) e)" "sendDS c1 = dsStep (sendDS c) e" by blast
    with es qs show ?thesis by (intro exI [of _ "e # es"]) auto
  qed
qed auto

text \<open>
  C9. Nonces are used once. Fewer than \<^term>\<open>2 ^ 64 :: nat\<close> operations of the sender of a new connection
  on a transport that accepts its writes, in any order, put the records of some list on the stream
  no two of which share generation, channel, epoch and sequence number, the four values that select
  the AEAD key and nonce.
\<close>

theorem nonces_used_once:
  assumes "live c" "counters_le 0 (sendDS c)" "\<forall>q \<in> set qs. op_ok q" "length qs < 2 ^ 64"
  shows "\<exists>es. snd (doOps ops c qs) = streamOf (sendDS c) es \<and> distinct (nonceIds (sendDS c) es)"
proof -
  obtain c' out where r: "doOps ops c qs = (c', out)" by fastforce
  from doOps_sim [OF assms(1,3) r] obtain es where "length es \<le> length qs" "out = streamOf (sendDS c) es" by blast
  with nonceIds_distinct [OF assms(2), of es] assms(4) r show ?thesis by auto
qed

lemma newConn_counters: "counters_le 0 (sendDS (newConn m p d d'))"
  by (simp add: counters_le_def sendDS_def sendView_def newConn_def)

theorem nonces_used_once_witness:
  "\<exists>es. snd (doOps demo_ops demoA [OpSend ChanMemory ChannelSpecificBase [7], OpKeyUpdate ChanMemory, OpRatchetSend])
      = streamOf (sendDS demoA) es \<and> distinct (nonceIds (sendDS demoA) es)"
  using nonces_used_once [of demoA "[OpSend ChanMemory ChannelSpecificBase [7], OpKeyUpdate ChanMemory, OpRatchetSend]" demo_ops]
    demo_send(1) newConn_counters
  by (simp add: paired_def demoA_def ChannelSpecificBase_def frame_type_defs)

section \<open>After a close\<close>

lemma recvLocked_closed:
  "cClosed c \<Longrightarrow> \<exists>c' rest e. recvLocked ops c input = (c', rest, [], actDeliverErr e) \<and> cClosed c'"
proof (induction ops c input rule: recvLocked.induct)
  case (1 ops c input)
  show ?case
  proof (cases "readFrame input")
    case (Pair r rest)
    show ?thesis
    proof (cases r)
      case (Inl e)
      then show ?thesis using Pair "1.prems" by (subst recvLocked.simps) simp
    next
      case (Inr wire)
      show ?thesis
      proof (cases "UnmarshalBinary wire")
        case (Inl e)
        then show ?thesis using Pair Inr "1.prems" by (subst recvLocked.simps) simp
      next
        case (Inr f)
        note r = Pair \<open>r = Inr wire\<close> Inr
        show ?thesis
        proof (cases "fFlags f AND FlagENC = 0")
          case True
          let ?c = "c\<lparr>droppedUnauthenticated := droppedUnauthenticated c + 1\<rparr>"
          have f: "recvFrame ops c f = (?c, [], None)" using True by (simp add: recvFrame_def)
          have "\<exists>c' rest' e. recvLocked ops ?c rest = (c', rest', [], actDeliverErr e) \<and> cClosed c'"
            using "1.IH" [of "Inr wire" rest wire f ?c "([], None)" "[]" None] r f "1.prems" by simp
          then show ?thesis using r f by (subst recvLocked.simps) auto
        next
          case False
          then show ?thesis using r "1.prems" by (subst recvLocked.simps) (simp add: recvFrame_def recvState_def)
        qed
      qed
    qed
  qed
qed

text \<open>
  C11. A closed session is silent. On a closed connection no operation writes an octet: sends, key
  updates, ratchets, re-KEM requests and close frames fail or do nothing, goroutines left over from
  earlier receives do nothing, and a receive reports an error whatever the stream holds.
\<close>

theorem closed_session_silent:
  assumes "cClosed c"
  shows "Send c ch ft pt w = (c, [], Inl errClosed) \<and> KeyUpdate c ch w = (c, [], Inl errClosed)
    \<and> RatchetSend c w = (c, [], Inl errClosed) \<and> ReKEM_write ops c client w = (c, [], Inl errClosed)
    \<and> sendClose c w = (c, [], Inr False) \<and> runTask ops c t xk coin w = (c, [])
    \<and> (\<exists>c' rest e. Recv ops c input w = (c', rest, [], [], Inl e) \<and> cClosed c')"
proof -
  have send: "sendState c ch' = Inl errClosed" for ch' using assms by (simp add: sendState_def)
  have "runTask ops c t xk coin w = (c, [])"
    using assms send by (cases t) (auto simp: sendKeyUpdateAck_def sendMasterRatchetAck_def respondReKEM_def split: sum.splits)
  moreover from recvLocked_closed [OF assms, of ops input]
  have "\<exists>c' rest e. Recv ops c input w = (c', rest, [], [], Inl e) \<and> cClosed c'" by (auto simp: Recv_def)
  ultimately show ?thesis
    using assms send by (simp add: Send_def KeyUpdate_def RatchetSend_def ReKEM_write_def sendClose_def)
qed

theorem closed_session_silent_witness:
  "cClosed (Close demoA) \<and> Send (Close demoA) ChanMemory ChannelSpecificBase [7] WriteOk = (Close demoA, [], Inl errClosed)"
proof -
  have "cClosed (Close demoA)" by (simp add: Close_def Zeroize_def demoA_def newConn_def)
  with closed_session_silent [OF this, of ChanMemory ChannelSpecificBase "[7]" WriteOk] show ?thesis by simp
qed

text \<open>
  C12. \<open>Close\<close> leaves no key material: on an open connection it marks the session closed and zeroes both
  roots and the key and IV of every cached epoch, in both directions, and drops a pending re-KEM with
  its ephemeral private keys and every pending acknowledgement.
\<close>

theorem Close_zeroizes:
  assumes "\<not> rawClosed c"
  shows "cClosed (Close c) \<and> rawClosed (Close c) \<and> set (masterSend (Close c)) \<subseteq> {0} \<and> set (masterRecv (Close c)) \<subseteq> {0}
    \<and> (\<forall>ch st. sendKeys (Close c) ch = Some st \<or> recvKeys (Close c) ch = Some st \<longrightarrow> set (ekKey st) \<union> set (ekIV st) \<subseteq> {0})
    \<and> cPendingReKEM (Close c) = None \<and> pendingKUAck (Close c) = [] \<and> pendingMRAck (Close c) = {}"
  using assms by (auto simp: Close_def Zeroize_def wipeRoot_def ek_zeroize_def)

theorem Close_zeroizes_witness: "\<not> rawClosed demoA \<and> cClosed (Close demoA) \<and> set (masterSend (Close demoA)) \<subseteq> {0}"
proof -
  have "\<not> rawClosed demoA" by (simp add: demoA_def newConn_def)
  with Close_zeroizes [OF this] show ?thesis by simp
qed

section \<open>Limits\<close>

text \<open>
  C38. The acknowledgements ignore the limit of the sequence number. At the last sequence number
  \<open>Send\<close> refuses, so that the number is never reused. The goroutine that sends a KEY_UPDATE_ACK on a
  channel at that number, and the one that sends a MASTER_RATCHET_ACK when the control channel is at
  that number, seal the record all the same and leave the number at 0, under the same key: the value
  that the first record under this key was sealed with.
\<close>

theorem ack_wraps_sequence:
  assumes "live c" "ekSeq (sendView c ch) = - 1"
  shows "(\<exists>c'. Send c ch ft pt w = (c', [], Inl ErrSeqExhausted))
    \<and> (\<exists>c' out. sendKeyUpdateAck c ch e WriteOk = (c', out)
        \<and> out = marshal (dsFrame (sendDS c) (ch, FrameKeyUpdateAck, keyUpdateMarker e))
        \<and> ekSeq (sendView c' ch) = 0 \<and> ekKey (sendView c' ch) = ekKey (sendView c ch))
    \<and> (ch = ChanControl \<longrightarrow> (\<exists>c' out. sendMasterRatchetAck c g WriteOk = (c', out)
        \<and> out = marshal (dsFrame (sendDS c) (ChanControl, FrameMasterRatchetAck, ratchetGenMarker g))
        \<and> ekSeq (sendView c' ChanControl) = 0 \<and> ekKey (sendView c' ChanControl) = ekKey (sendView c ChanControl)))"
proof -
  have "Send c ch ft pt w = (c\<lparr>sendKeys := (sendKeys c)(ch \<mapsto> sendView c ch)\<rparr>, [], Inl ErrSeqExhausted)"
    using assms by (simp add: Send_def sendState_live)
  moreover have "ekSeq (sendView (bumpSend c ch) ch) = 0" "ekKey (sendView (bumpSend c ch) ch) = ekKey (sendView c ch)"
    using assms(2) by (simp_all add: bumpSend_def)
  ultimately show ?thesis
    using sendKeyUpdateAck_live [OF assms(1), of ch e] sendMasterRatchetAck_live [OF assms(1), of g]
    by (auto simp del: dsFrame.simps)
qed

definition demoLast :: conn where
  "demoLast = demoA\<lparr>sendKeys := [ChanControl \<mapsto> (sendView demoA ChanControl)\<lparr>ekSeq := - 1\<rparr>]\<rparr>"

theorem ack_wraps_sequence_witness:
  "live demoLast \<and> ekSeq (sendView demoLast ChanControl) = - 1
    \<and> (\<exists>c' out. sendKeyUpdateAck demoLast ChanControl 1 WriteOk = (c', out) \<and> ekSeq (sendView c' ChanControl) = 0)
    \<and> (\<exists>c' out. sendMasterRatchetAck demoLast 1 WriteOk = (c', out) \<and> ekSeq (sendView c' ChanControl) = 0)"
proof -
  have a: "live demoLast" using demo_send(1) by (simp add: demoLast_def paired_def)
  have b: "ekSeq (sendView demoLast ChanControl) = - 1" by (simp add: demoLast_def sendView_def)
  from ack_wraps_sequence [OF a b, of 0 "[]" WriteOk 1 1] a b show ?thesis by blast
qed

text \<open>
  C39. A failed write leaves the sequence number where it was. When the transport fails after it has
  taken part of a frame, the error is reported and the next send of another plaintext on the
  channel seals it with the same key and the same sequence number, so that the octets already
  written and the next record share their nonce.
\<close>

theorem failed_write_keeps_sequence:
  assumes "live c" "record_fits pt" "record_fits pt'" "ekSeq (sendView c ch) \<noteq> - 1"
    and "Send c ch ft pt (WriteFail n) = (c1, out, r)" "Send c1 ch ft' pt' WriteOk = (c2, out', r')"
  shows "r = Inl ErrWrite \<and> out = take n (marshal (dsFrame (sendDS c) (ch, ft, pt)))
    \<and> r' = Inr () \<and> out' = marshal (dsFrame (sendDS c) (ch, ft', pt'))"
proof -
  let ?c1 = "c\<lparr>sendKeys := (sendKeys c)(ch \<mapsto> sendView c ch)\<rparr>"
  have "sendable (dsFrame (sendDS c) (ch, ft, pt))" using assms(2) by (simp add: sendable_record)
  then have "Send c ch ft pt (WriteFail n) = (?c1, take n (marshal (dsFrame (sendDS c) (ch, ft, pt))), Inl ErrWrite)"
    using assms(1,4)
    by (simp add: Send_def sendState_live sealWrite_def sealWith_eq writeWire_def writeFrame_def live_def length_marshal
        sendable_def maxFrameSize_def)
  with assms(5) have c1: "c1 = ?c1" "out = take n (marshal (dsFrame (sendDS c) (ch, ft, pt)))" "r = Inl ErrWrite" by simp_all
  have "Send ?c1 ch ft' pt' WriteOk = (bumpSend ?c1 ch, marshal (dsFrame (sendDS ?c1) (ch, ft', pt')), Inr ())"
    by (rule Send_live) (use assms in simp_all)
  with assms(6) c1 show ?thesis by simp
qed

theorem failed_write_keeps_sequence_witness:
  "\<exists>c1 c2. Send demoA ChanMemory ChannelSpecificBase [7] (WriteFail 40) = (c1, take 40 (marshal (dsFrame (sendDS demoA) demoE)), Inl ErrWrite)
    \<and> Send c1 ChanMemory ChannelSpecificBase [8] WriteOk
        = (c2, marshal (dsFrame (sendDS demoA) (ChanMemory, ChannelSpecificBase, [8])), Inr ())"
proof -
  obtain c1 out r where s1: "Send demoA ChanMemory ChannelSpecificBase [7] (WriteFail 40) = (c1, out, r)" by (rule prod_cases3)
  obtain c2 out' r' where s2: "Send c1 ChanMemory ChannelSpecificBase [8] WriteOk = (c2, out', r')" by (rule prod_cases3)
  have "live demoA" using demo_send(1) by (simp add: paired_def)
  from failed_write_keeps_sequence [OF this _ _ _ s1 s2] s1 s2 show ?thesis
    by (auto simp: record_fits_def HeaderSize_def MaxFrameSize_def demoE_def demoA_def newConn_def sendView_def)
qed

end
