(* ===== verification/Rekem.thy ===== *)
theory Rekem
  imports Duplex
begin

text \<open>
  The Tier-2 step of the master ratchet (\<^verbatim>\<open>ReKEM\<close>, \<^verbatim>\<open>respondReKEM\<close> and \<^verbatim>\<open>handleReKEMAck\<close> of
  \<^verbatim>\<open>src/impl/go/sdk/ratchet.go\<close>): a complete exchange gives both ends the same new root, and the two
  ways in which the exchange goes wrong.
\<close>

section \<open>The operations on an open connection\<close>

definition tier2 :: "bytes \<Rightarrow> SharedSecrets \<Rightarrow> bytes \<Rightarrow> bytes \<Rightarrow> u64 \<Rightarrow> bytes" where
  "tier2 root ss share ct gen =
    projr (RatchetMasterTier2 root (Combined ss) (projr (thRekem ProfileStandard share ct gen)) ProfileStandard)"

lemma thRekem_Standard: "thRekem ProfileStandard share ct g = Inr (projr (thRekem ProfileStandard share ct g))"
  by (simp add: thRekem_def NewTranscript_def hashForProfile_def Let_def)

lemma tier2_eq:
  "RatchetMasterTier2 root (Combined ss) (projr (thRekem ProfileStandard share ct g)) ProfileStandard = Inr (tier2 root ss share ct g)"
proof -
  have "\<exists>x. RatchetMasterTier2 root (Combined ss) th ProfileStandard = Inr x" for th
    using HkdfExpandLabel_Inr [of 32] by (simp add: RatchetMasterTier2_def) blast
  then show ?thesis by (auto simp: tier2_def) (metis sum.sel(2))
qed

lemma rekem_fits:
  "length share = KEMShareSize768 \<Longrightarrow> record_fits (encodeReKEM share g)"
  "length ct = KEMCiphertextSize768 \<Longrightarrow> record_fits (encodeReKEMAck ct g)"
  by (simp_all add: record_fits_def encodeReKEM_def encodeReKEMAck_def length_tlv_Encode HeaderSize_def MaxFrameSize_def kem_sizes)

lemma ReKEM_write_live:
  assumes "live c" "ekSeq (sendView c ChanControl) \<noteq> - 1" "length (KEMShare ops client) = KEMShareSize768"
  shows "ReKEM_write ops c client WriteOk =
    (bumpSend c ChanControl,
     marshal (dsFrame (sendDS c) (ChanControl, FrameReKEM, encodeReKEM (KEMShare ops client) (genRecv c + 1))), Inr (genRecv c + 1))"
proof -
  from assms(1) have "\<not> rawClosed (c\<lparr>sendKeys := m\<rparr>)" "\<not> cClosed c" for m by (simp_all add: live_def)
  then show ?thesis
    using assms(2) sealWrite_live [OF _ rekem_fits(1) [OF assms(3)]]
    by (simp add: ReKEM_write_def sendState_live [OF assms(1)] bumpSend_def Let_def)
qed

lemma recv_ReKEM:
  assumes "live c" "length share = KEMShareSize768"
  shows "recvFrame ops c (dsFrame (recvDS c) (ChanControl, FrameReKEM, encodeReKEM share g))
    = (bumpRecv c ChanControl, [TRespondReKEM share g], None)"
  unfolding recvFrame_live [OF assms(1) rekem_fits(1) [OF assms(2)]]
  by (simp add: recvDispatch_def handleReKEM_def parse_rekem(1) [OF assms(2)] frame_type_defs)

lemma respondReKEM_live:
  assumes "live c" "g = genSend c + 1" "Encapsulate ops xk coin share = Inr (ct, ss)" "length ct = KEMCiphertextSize768"
  shows "respondReKEM ops c share g xk coin WriteOk =
    (setSendRoot c (tier2 (masterSend c) ss share ct g) g,
     marshal (dsFrame (sendDS c) (ChanControl, FrameReKEMAck, encodeReKEMAck ct g)))"
proof -
  from assms(1) have l: "\<not> rawClosed (c\<lparr>sendKeys := m\<rparr>)" "\<not> cClosed c" "cProfile c = ProfileStandard" for m
    by (simp_all add: live_def)
  obtain th where th: "thRekem ProfileStandard share ct g = Inr th" using thRekem_Standard by blast
  have t2: "RatchetMasterTier2 (masterSend c) (Combined ss) th ProfileStandard = Inr (tier2 (masterSend c) ss share ct g)"
    using tier2_eq [of "masterSend c" ss share ct g] th by simp
  show ?thesis
    using sealWrite_live [OF l(1) rekem_fits(2) [OF assms(4)]] l
    by (simp add: respondReKEM_def assms(2,3) sendState_live [OF assms(1)] th [unfolded assms(2)] t2 [unfolded assms(2)]
        setSendRoot_def dropSendKeys_def)
qed

lemma recv_ReKEMAck:
  assumes "live c" "length ct = KEMCiphertextSize768" "g = genRecv c + 1"
    and p: "cPendingReKEM c = Some \<lparr>prClient = client, prShare = share, prTarget = g\<rparr>"
    and ss: "KEMClient_SharedSecrets ops client ct = Inr ss"
  shows "recvFrame ops c (dsFrame (recvDS c) (ChanControl, FrameReKEMAck, encodeReKEMAck ct g))
    = (setRecvRoot (c\<lparr>cPendingReKEM := None\<rparr>) (tier2 (masterRecv c) ss share ct g) g, [], None)"
proof -
  obtain th where th: "thRekem ProfileStandard share ct g = Inr th" using thRekem_Standard by blast
  have t2: "RatchetMasterTier2 (masterRecv c) (Combined ss) th ProfileStandard = Inr (tier2 (masterRecv c) ss share ct g)"
    using tier2_eq [of "masterRecv c" ss share ct g] th by simp
  have "handleReKEMAck ops (bumpRecv c ChanControl) (encodeReKEMAck ct g)
      = (setRecvRoot (c\<lparr>cPendingReKEM := None\<rparr>) (tier2 (masterRecv c) ss share ct g) g, Inr [])"
    using assms(1) ss th t2
    by (simp add: handleReKEMAck_def parse_rekem(2) [OF assms(2)] p assms(3) bumpRecv_def live_def Let_def setRecvRoot_def dropRecvKeys_def)
  then show ?thesis
    unfolding recvFrame_live [OF assms(1) rekem_fits(2) [OF assms(2)]]
    by (simp add: recvDispatch_def frame_type_defs)
qed

lemma recv_unsolicited_ReKEMAck:
  assumes "live c" "length ct = KEMCiphertextSize768" "cPendingReKEM c = None"
  shows "\<exists>c'. recvFrame ops c (dsFrame (recvDS c) (ChanControl, FrameReKEMAck, encodeReKEMAck ct g))
    = (c', [], Some (actEmitError ErrCodeUnexpectedMessage errUnsolicitedReKEMAck))"
  unfolding recvFrame_live [OF assms(1) rekem_fits(2) [OF assms(2)]]
  using assms(3) by (simp add: recvDispatch_def handleReKEMAck_def parse_rekem(2) [OF assms(2)] bumpRecv_def Let_def frame_type_defs)

section \<open>A complete exchange\<close>

lemma recvDS_pending [simp]: "recvDS (c\<lparr>cPendingReKEM := p\<rparr>) = recvDS c" "sendDS (c\<lparr>cPendingReKEM := p\<rparr>) = sendDS c"
  "live (c\<lparr>cPendingReKEM := p\<rparr>) = live c"
  by (simp_all add: recvDS_def sendDS_def recvView_def sendView_def live_def fun_eq_iff split: option.splits)

lemma DS_roots:
  assumes "sendDS b = recvDS a"
  shows "masterRecv a = masterSend b" "genRecv a = genSend b" "recvDir a = sendDir b"
  using assms by (simp_all add: sendDS_def recvDS_def)

text \<open>
  C10. A re-KEM exchange heals a direction. From two open endpoints in step, with no re-KEM in flight,
  let one side run \<open>ReKEM\<close>, the other receive the request and run its goroutine, and the first receive
  the answer. Then both sides have completed without an error, the direction has the same new root at
  both ends, derived from the old root and the fresh shared secret, at the next generation, and nothing is
  pending. The other direction keeps its root, its generation, its epochs and its keys at both ends:
  the request has only used one sequence number of its control channel.
\<close>

theorem rekem_heals:
  assumes "live a" "live b" "sendDS a = recvDS b" "sendDS b = recvDS a" "cPendingReKEM a = None"
    and seq: "ekSeq (sendView a ChanControl) \<noteq> - 1"
    and kem: "mlkem_correct ops" "x25519_correct ops" "KEMClient_ok client" "length xk = 32"
    and enc: "Encapsulate ops xk coin (KEMShare ops client) = Inr (ct, ss)"
  shows "\<exists>a1 req b1 b2 ack a2.
      ReKEM ops a client WriteOk = (a1, req, Inr ())
    \<and> recvOne ops b req = (b1, [], [TRespondReKEM (KEMShare ops client) (genRecv a + 1)], None)
    \<and> runTask ops b1 (TRespondReKEM (KEMShare ops client) (genRecv a + 1)) xk coin WriteOk = (b2, ack)
    \<and> recvOne ops a1 ack = (a2, [], [], None)
    \<and> sendDS b2 = recvDS a2 \<and> sendDS a2 = recvDS b2
    \<and> masterRecv a2 = tier2 (masterRecv a) ss (KEMShare ops client) ct (genRecv a + 1)
    \<and> genRecv a2 = genRecv a + 1 \<and> cPendingReKEM a2 = None
    \<and> sendDS a2 = dsBump (sendDS a) ChanControl \<and> masterSend a2 = masterSend a \<and> genSend a2 = genSend a"
proof -
  let ?g = "genRecv a + 1" and ?share = "KEMShare ops client"
  have share: "length ?share = KEMShareSize768" using length_KEMShare [OF kem(1-3)] by (simp add: kem_sizes)
  have ct: "KEMClient_SharedSecrets ops client ct = Inr ss" "length ct = KEMCiphertextSize768"
    using EncapsulateWith_SharedSecrets [OF kem] enc by (simp_all add: Encapsulate_def)
  let ?req = "(ChanControl, FrameReKEM, encodeReKEM ?share ?g)" and ?ack = "(ChanControl, FrameReKEMAck, encodeReKEMAck ct ?g)"
  define a1 where "a1 = ReKEM_register ops (bumpSend a ChanControl) client ?g"
  let ?b1 = "bumpRecv b ChanControl"
  let ?b2 = "setSendRoot ?b1 (tier2 (masterSend b) ss ?share ct ?g) ?g"
  let ?a2 = "setRecvRoot (a1\<lparr>cPendingReKEM := None\<rparr>) (tier2 (masterRecv a) ss ?share ct ?g) ?g"
  note r = DS_roots [OF assms(4)]
  have a1: "live a1" "recvDS a1 = recvDS a" "sendDS a1 = dsBump (sendDS a) ChanControl" "genRecv a1 = genRecv a" "masterRecv a1 = masterRecv a"
    "cPendingReKEM a1 = Some \<lparr>prClient = client, prShare = ?share, prTarget = ?g\<rparr>"
    using assms(1) by (simp_all add: a1_def ReKEM_register_def) (simp_all add: bumpSend_def)
  have 1: "ReKEM ops a client WriteOk = (a1, marshal (dsFrame (recvDS b) ?req), Inr ())"
    using ReKEM_write_live [OF assms(1) seq share] assms(3,5) by (simp add: ReKEM_def ReKEM_check_def a1_def)
  have 2: "recvOne ops b (marshal (dsFrame (recvDS b) ?req)) = (?b1, [], [TRespondReKEM ?share ?g], None)"
    using recvOne_frame [where rest = "[]", OF _ recv_ReKEM [OF assms(2) share]] rekem_fits(1) [OF share] by (simp add: frame_type_defs)
  have b1: "masterSend ?b1 = masterSend b" by (simp add: bumpRecv_def)
  have 3: "runTask ops ?b1 (TRespondReKEM ?share ?g) xk coin WriteOk = (?b2, marshal (dsFrame (recvDS a1) ?ack))"
    using respondReKEM_live [of ?b1 ?g, OF _ _ enc ct(2)] assms(2) r a1(2) assms(4) b1 by (simp del: dsFrame.simps)
  have g: "?g = genRecv a1 + 1" by (simp add: a1(4))
  have v: "dsValid (recvDS a1) ?ack" using rekem_fits(2) [OF ct(2)] by (simp add: frame_type_defs)
  have 4: "recvOne ops a1 (marshal (dsFrame (recvDS a1) ?ack)) = (?a2, [], [], None)"
    using recvOne_frame [where rest = "[]", OF v recv_ReKEMAck [OF a1(1) ct(2) g a1(6) ct(1)]] by (simp only: append_Nil2 a1(5))
  have "sendDS ?b2 = recvDS ?a2" by (simp add: a1(2) assms(4) r(1))
  moreover have "sendDS ?a2 = recvDS ?b2" by (simp add: a1(3) assms(3))
  moreover have "masterRecv ?a2 = tier2 (masterRecv a) ss ?share ct ?g" "genRecv ?a2 = ?g" "cPendingReKEM ?a2 = None"
    by (simp_all add: setRecvRoot_def dropRecvKeys_def)
  moreover have "sendDS ?a2 = dsBump (sendDS a) ChanControl" by (simp add: a1(3))
  moreover have "masterSend ?a2 = masterSend a" "genSend ?a2 = genSend a"
    by (simp_all add: a1_def setRecvRoot_def dropRecvKeys_def ReKEM_register_def bumpSend_def)
  ultimately show ?thesis using 1 2 3 4 by blast
qed

text \<open>
  C40. The answer to a re-KEM can arrive too early. \<open>ReKEM\<close> registers the exchange after it has written
  the request and not before. A peer that answers in between, correctly and under the right keys, is
  treated as unsolicited: the receive loop reacts with \<open>unexpected_message\<close>, which ends the session.
\<close>

theorem rekem_early_ack_aborts:
  assumes "live a" "ekSeq (sendView a ChanControl) \<noteq> - 1" "cPendingReKEM a = None" "length (KEMShare ops client) = KEMShareSize768"
    and "length ct = KEMCiphertextSize768" "ReKEM_write ops a client WriteOk = (a1, req, Inr g)"
  shows "\<exists>a2. recvOne ops a1 (marshal (dsFrame (recvDS a1) (ChanControl, FrameReKEMAck, encodeReKEMAck ct g)))
      = (a2, [], [], Some (actEmitError ErrCodeUnexpectedMessage errUnsolicitedReKEMAck))"
proof -
  from ReKEM_write_live [OF assms(1,2,4)] assms(6) have a1: "a1 = bumpSend a ChanControl" by simp
  have "live a1" "cPendingReKEM a1 = None" using assms(1,3) by (simp_all add: a1) (simp add: bumpSend_def)
  from recv_unsolicited_ReKEMAck [OF this(1) assms(5) this(2), of ops g] obtain c'
    where "recvFrame ops a1 (dsFrame (recvDS a1) (ChanControl, FrameReKEMAck, encodeReKEMAck ct g))
      = (c', [], Some (actEmitError ErrCodeUnexpectedMessage errUnsolicitedReKEMAck))" by blast
  from recvOne_frame [where rest = "[]", OF _ this] rekem_fits(2) [OF assms(5)] show ?thesis by (simp add: frame_type_defs)
qed

section \<open>Witnesses\<close>

lemma demo_rekem:
  "live demoA" "live demoB" "sendDS demoA = recvDS demoB" "sendDS demoB = recvDS demoA" "cPendingReKEM demoA = None"
  "ekSeq (sendView demoA ChanControl) \<noteq> - 1"
  using demo_send(1,2) by (simp_all add: paired_def) (simp_all add: demoA_def newConn_def sendView_def)

theorem rekem_heals_witness:
  "\<exists>a1 req b1 b2 ack a2. ReKEM demo_ops demoA demoClient WriteOk = (a1, req, Inr ())
    \<and> recvOne demo_ops demoB req = (b1, [], [TRespondReKEM (KEMShare demo_ops demoClient) 1], None)
    \<and> runTask demo_ops b1 (TRespondReKEM (KEMShare demo_ops demoClient) 1) (replicate 32 2) [] WriteOk = (b2, ack)
    \<and> recvOne demo_ops a1 ack = (a2, [], [], None) \<and> genRecv a2 = 1 \<and> sendDS b2 = recvDS a2"
proof -
  from demo_kem(2) obtain ct ss where e: "Encapsulate demo_ops (replicate 32 2) [] (KEMShare demo_ops demoClient) = Inr (ct, ss)" by blast
  have g: "genRecv demoA + 1 = 1" by (simp add: demoA_def newConn_def)
  from rekem_heals [OF demo_rekem(1-6) demo_ops_correct(1,2) demo_kem(1) _ e] show ?thesis unfolding g by auto
qed

theorem rekem_early_ack_aborts_witness:
  "\<exists>a1 a2 req. ReKEM_write demo_ops demoA demoClient WriteOk = (a1, req, Inr 1)
    \<and> recvOne demo_ops a1 (marshal (dsFrame (recvDS a1) (ChanControl, FrameReKEMAck, encodeReKEMAck (replicate 1120 9) 1)))
      = (a2, [], [], Some (actEmitError ErrCodeUnexpectedMessage errUnsolicitedReKEMAck))"
proof -
  have s: "length (KEMShare demo_ops demoClient) = KEMShareSize768"
    using length_KEMShare [OF demo_ops_correct(1,2) demo_kem(1)] by (simp add: kem_sizes)
  have g: "genRecv demoA + 1 = 1" by (simp add: demoA_def newConn_def)
  note w = ReKEM_write_live [OF demo_rekem(1,6) s, unfolded g]
  from rekem_early_ack_aborts [OF demo_rekem(1,6,5) s _ w, of "replicate 1120 9"] w show ?thesis by (auto simp: kem_sizes simp del: dsFrame.simps)
qed

end
