(* ===== verification/SdkHandshake.thy ===== *)
theory SdkHandshake
  imports Session
begin

text \<open>
  The handshake of package sdk (\<^verbatim>\<open>src/impl/go/sdk/handshake.go\<close>, \<^verbatim>\<open>dialconn.go\<close>, \<^verbatim>\<open>dialraw.go\<close>): profile
  negotiation, the three flights of both sides, the reaction to a bad AUTH frame, and the entry
  points that return a connection. A side of the handshake is a function of the octets that its peer
  will send and of the behaviour of its own writes; it returns what it wrote and the result. The
  random choices (KEM key pair, encapsulation, a generated identity) are explicit arguments.
\<close>

section \<open>Reading and writing\<close>

text \<open>
  \<open>ioIn\<close> is what the stream holds before it ends, \<open>ioOut\<close> what has been written, and \<open>ioWrites\<close> what the
  transport does with the next writes; it accepts those that are not listed.
\<close>

record io =
  ioIn :: bytes
  ioOut :: bytes
  ioWrites :: "write_result list"

type_synonym 'a hs = "io \<Rightarrow> io \<times> (sdk_err + 'a)"

definition hret :: "'a \<Rightarrow> 'a hs" where
  "hret x = (\<lambda>s. (s, Inr x))"

definition hbind :: "'a hs \<Rightarrow> ('a \<Rightarrow> 'b hs) \<Rightarrow> 'b hs" where
  "hbind m f = (\<lambda>s. case m s of (s', Inl e) \<Rightarrow> (s', Inl e) | (s', Inr x) \<Rightarrow> f x s')"

definition hsdk :: "sdk_err + 'a \<Rightarrow> 'a hs" where
  "hsdk r = (\<lambda>s. (s, r))"

definition hlift :: "npamp_err + 'a \<Rightarrow> 'a hs" where
  "hlift r = hsdk (map_err ErrNpamp r)"

definition hreadFrame :: "bytes hs" where
  "hreadFrame = (\<lambda>s. case readFrame (ioIn s) of (r, rest) \<Rightarrow> (s\<lparr>ioIn := rest\<rparr>, r))"

definition hwriteFrame :: "bytes \<Rightarrow> unit hs" where
  "hwriteFrame wire = (\<lambda>s.
    case writeFrame (case ioWrites s of [] \<Rightarrow> WriteOk | w # _ \<Rightarrow> w) wire of
      (out, r) \<Rightarrow> (s\<lparr>ioOut := ioOut s @ out, ioWrites := tl (ioWrites s)\<rparr>, r))"

section \<open>Identity and profiles\<close>

record localIdentity =
  edPriv :: bytes
  edPub :: bytes
  liProfiles :: "profile list"

definition profilesOrDefault :: "profile list \<Rightarrow> profile list" where
  "profilesOrDefault profiles = (if length profiles = 0 then [sdkProfile] else profiles)"

definition needsEd25519 :: "profile list \<Rightarrow> bool" where
  "needsEd25519 profiles \<longleftrightarrow> ProfileStandard \<in> set profiles"

fun validateProfiles :: "profile list \<Rightarrow> sdk_err + unit" where
  "validateProfiles [] = Inr ()"
| "validateProfiles (p # ps) =
    (if \<not> profile_Valid p then Inl ErrInvalidProfile
     else if p \<noteq> ProfileStandard then Inl (ErrNpamp ErrNoSuiteForProfile)
     else validateProfiles ps)"

text \<open>The fields of \<open>Config\<close> that the handshake reads; a nil key is \<open>None\<close>.\<close>

record config =
  cfgIdentity :: "bytes option"
  cfgProfiles :: "profile list"
  cfgExpectedPeerKey :: "bytes option"

definition identity :: "crypto_ops \<Rightarrow> bytes \<Rightarrow> bytes option \<Rightarrow> bytes \<times> bytes" where
  "identity ops fresh priv =
    (case priv of None \<Rightarrow> (fresh, ed25519_pub ops fresh) | Some sk \<Rightarrow> (sk, ed25519_pub ops sk))"

definition resolveIdentity :: "crypto_ops \<Rightarrow> bytes \<Rightarrow> config \<Rightarrow> sdk_err + localIdentity" where
  "resolveIdentity ops fresh cfg =
    (let profiles = profilesOrDefault (cfgProfiles cfg) in
     rbind (validateProfiles profiles) (\<lambda>_.
       let (priv, pub) = identity ops fresh (cfgIdentity cfg) in
       Inr \<lparr>edPriv = priv, edPub = pub, liProfiles = profiles\<rparr>))"

definition stdIdentity :: "bytes \<Rightarrow> bytes \<Rightarrow> localIdentity" where
  "stdIdentity priv pub = \<lparr>edPriv = priv, edPub = pub, liProfiles = [ProfileStandard]\<rparr>"

fun selectProfile :: "profile list \<Rightarrow> profile list \<Rightarrow> sdk_err + profile" where
  "selectProfile offered [] = Inl ErrNoCommonProfile"
| "selectProfile offered (p # allowed) = (if p \<in> set offered then Inr p else selectProfile offered allowed)"

definition localIdentityKeyBytes :: "localIdentity \<Rightarrow> sdk_err + bytes" where
  "localIdentityKeyBytes id' = (if length (edPub id') = 0 then Inl ErrNoIdentity else Inr (edPub id'))"

definition signCertVerify :: "crypto_ops \<Rightarrow> localIdentity \<Rightarrow> role \<Rightarrow> bytes \<Rightarrow> sdk_err + bytes" where
  "signCertVerify ops id' r th =
    (if edPriv id' = [] then Inl ErrNoIdentity else map_err ErrNpamp (SignCertVerify ops (edPriv id') r th))"

definition verifyCertVerify :: "crypto_ops \<Rightarrow> bytes \<Rightarrow> role \<Rightarrow> bytes \<Rightarrow> bytes \<Rightarrow> npamp_err + unit" where
  "verifyCertVerify ops peerPub r th certVerifyValue = VerifyCertVerify ops peerPub r th certVerifyValue"

section \<open>Frames of the handshake\<close>

definition cleartext_frame :: "frame_type \<Rightarrow> bytes \<Rightarrow> frame" where
  "cleartext_frame ft payload =
    \<lparr>fVersion = 0, fFlags = 0, fType = ft, fChannel = ChanControl, fSeq = 0, fPayload = payload\<rparr>"

definition sendCleartext :: "frame_type \<Rightarrow> bytes \<Rightarrow> unit hs" where
  "sendCleartext ft payload = hwriteFrame (snd (MarshalBinary (cleartext_frame ft payload)))"

definition recvCleartext :: "frame_type \<Rightarrow> bytes hs" where
  "recvCleartext want =
    hbind hreadFrame (\<lambda>wire.
    hbind (hlift (UnmarshalBinary wire)) (\<lambda>f.
      hsdk (if fType f \<noteq> want then Inl ErrFrameType
            else if fFlags f AND FlagENC \<noteq> 0 then Inl ErrHelloEncrypted
            else Inr (fPayload f))))"

text \<open>An AUTH frame that is refused comes with the code of the ERROR frame that answers it.\<close>

definition openAuthFrame :: "bytes \<Rightarrow> frame_type \<Rightarrow> bytes \<Rightarrow> direction \<Rightarrow> profile \<Rightarrow> session_error_code \<times> sdk_err + AuthMessage" where
  "openAuthFrame wire want baseSecret dir p =
    (case UnmarshalBinary wire of
       Inl e \<Rightarrow> Inl (ErrCodeUnexpectedMessage, ErrNpamp e)
     | Inr f \<Rightarrow>
         if fType f \<noteq> want then Inl (ErrCodeUnexpectedMessage, ErrFrameType)
         else if fFlags f AND FlagENC = 0 then Inl (ErrCodeUnexpectedMessage, ErrAuthCleartext)
         else (case openFrame f baseSecret dir p of
                 Inl e \<Rightarrow> Inl (ErrCodeDecryptFailed, ErrNpamp e)
               | Inr pt \<Rightarrow> (case DecodeAuthMessage pt of
                     Inl e \<Rightarrow> Inl (ErrCodeDecryptFailed, ErrNpamp e)
                   | Inr am \<Rightarrow> Inr am)))"

text \<open>Sealing and writing the ERROR frame may fail without changing the reported error.\<close>

definition emitHandshakeError :: "bytes \<Rightarrow> direction \<Rightarrow> u64 \<Rightarrow> session_error_code \<Rightarrow> profile \<Rightarrow> sdk_err \<Rightarrow> 'a hs" where
  "emitHandshakeError baseSecret dir seq code p wrapped = (\<lambda>s.
    case sealFrame baseSecret dir ChanControl seq FrameError (EncodeErrorBody code []) p of
      Inl e \<Rightarrow> (s, Inl wrapped)
    | Inr wire \<Rightarrow> (fst (hwriteFrame wire s), Inl wrapped))"

text \<open>Continue with a result, or send the ERROR frame of a refusal and fail.\<close>

definition orEmit :: "session_error_code \<times> sdk_err + 'a \<Rightarrow> bytes \<Rightarrow> direction \<Rightarrow> u64 \<Rightarrow> profile \<Rightarrow> 'a hs" where
  "orEmit r baseSecret dir seq p =
    (case r of Inl (code, e) \<Rightarrow> emitHandshakeError baseSecret dir seq code p e | Inr x \<Rightarrow> hret x)"

definition decryptFailed :: "npamp_err + 'a \<Rightarrow> session_error_code \<times> sdk_err + 'a" where
  "decryptFailed r = map_err (\<lambda>e. (ErrCodeDecryptFailed, ErrNpamp e)) r"

definition requireSelections :: "ServerHello \<Rightarrow> profile list \<Rightarrow> kem_id \<Rightarrow> sdk_err + unit" where
  "requireSelections sh offeredProfiles wantKEM =
    (if shProfileSelect sh \<notin> set offeredProfiles then Inl ErrProfileSelect
     else if shKEMSelect sh \<noteq> wantKEM then Inl ErrKEMDowngrade
     else if profile_MinKEM (shProfileSelect sh) \<noteq> wantKEM then Inl ErrKEMDowngrade
     else if shSigSelect sh \<noteq> SigEd25519 then Inl ErrSigSelect
     else if shAEADSelect sh \<noteq> AEADAES256GCM then Inl ErrAEADSelect
     else Inr ())"

definition requireOffers :: "ClientHello \<Rightarrow> profile list \<Rightarrow> sdk_err + profile" where
  "requireOffers ch allowedProfiles =
    rbind (selectProfile (chProfileOffer ch) allowedProfiles) (\<lambda>p.
      if profile_MinKEM p \<notin> set (chKEMOffer ch) then Inl ErrKEMOffer
      else if SigEd25519 \<notin> set (chSigOffer ch) then Inl ErrSigOffer
      else if AEADAES256GCM \<notin> set (chAEADOffer ch) then Inl ErrAEADOffer
      else Inr p)"

section \<open>The client\<close>

text \<open>
  \<open>runClientHandshake\<close> in its three parts: the hellos up to the handshake secrets, the SERVER_AUTH
  flight with the pin check, and the CLIENT_AUTH flight with the master secret.
\<close>

definition clientHello :: "crypto_ops \<Rightarrow> KEMClient \<Rightarrow> profile list \<Rightarrow> ClientHello" where
  "clientHello ops client profiles =
    \<lparr>chProfileOffer = profiles, chKEMOffer = [KEMX25519MLKEM768], chSigOffer = [SigEd25519],
     chAEADOffer = [AEADAES256GCM], chKEMShare = KEMShare ops client\<rparr>"

definition client_hellos :: "crypto_ops \<Rightarrow> KEMClient \<Rightarrow> localIdentity \<Rightarrow> (profile \<times> Transcript \<times> bytes \<times> bytes \<times> bytes) hs" where
  "client_hellos ops client id' =
    (let profiles = profilesOrDefault (liProfiles id') in
     hbind (hsdk (validateProfiles profiles)) (\<lambda>_.
     let wantKEM = KEMX25519MLKEM768; ch = clientHello ops client profiles in
     hbind (sendCleartext FrameClientHello (ClientHello_Encode ch)) (\<lambda>_.
     hbind (recvCleartext FrameServerHello) (\<lambda>shPayload.
     hbind (hlift (DecodeServerHello shPayload)) (\<lambda>sh.
     hbind (hsdk (requireSelections sh profiles wantKEM)) (\<lambda>_.
     let p = shProfileSelect sh in
     hbind (hlift (NewTranscript p)) (\<lambda>t0.
     let t = AddFrame (AddFrame t0 FrameClientHello (ClientHello_TLVs ch)) FrameServerHello (ServerHello_TLVs sh) in
     hbind (hlift (KEMClient_SharedSecrets ops client (shKEMCiphertext sh))) (\<lambda>ss.
     hbind (hlift (HandshakeSecret ss p)) (\<lambda>hsec.
     hbind (hlift (DeriveHandshakeTrafficSecrets hsec (Sum t) p)) (\<lambda>(cHS, sHS).
     hret (p, t, hsec, cHS, sHS)))))))))))"

text \<open>The identity, CertVerify and Finished of an AUTH message enter the transcript one after the other.\<close>

definition addIdentity :: "Transcript \<Rightarrow> frame_type \<Rightarrow> bytes \<Rightarrow> Transcript" where
  "addIdentity t ft key = AddTLV (AddFrameType t ft) \<lparr>tType = TLVIdentityKey, tValue = key\<rparr>"

definition addCertVerify :: "Transcript \<Rightarrow> bytes \<Rightarrow> Transcript" where
  "addCertVerify t cv = AddTLV t \<lparr>tType = TLVCertVerify, tValue = cv\<rparr>"

definition addFinished :: "Transcript \<Rightarrow> bytes \<Rightarrow> Transcript" where
  "addFinished t fin = AddTLV t \<lparr>tType = TLVFinished, tValue = fin\<rparr>"

definition client_serverAuth :: "crypto_ops \<Rightarrow> profile \<Rightarrow> Transcript \<Rightarrow> bytes \<Rightarrow> bytes \<Rightarrow> bytes option \<Rightarrow> (Transcript \<times> bytes) hs" where
  "client_serverAuth ops p t cHS sHS expectedPeer =
    hbind hreadFrame (\<lambda>saWire.
    hbind (orEmit (openAuthFrame saWire FrameServerAuth sHS DirServerToClient p) cHS DirClientToServer 0 p) (\<lambda>sAuth.
    let t1 = addIdentity t FrameServerAuth (amIdentityKey sAuth) in
    hbind (orEmit (decryptFailed (verifyCertVerify ops (amIdentityKey sAuth) RoleServer (Sum t1) (amCertVerify sAuth))) cHS DirClientToServer 0 p) (\<lambda>_.
    let t2 = addCertVerify t1 (amCertVerify sAuth) in
    hbind (hlift (DeriveFinishedKey sHS p)) (\<lambda>sFinKey.
    hbind (orEmit (decryptFailed (VerifyFinished sFinKey (Sum t2) (amFinished sAuth) p)) cHS DirClientToServer 0 p) (\<lambda>_.
    let t3 = addFinished t2 (amFinished sAuth); peer = amIdentityKey sAuth in
    if expectedPeer \<noteq> None \<and> peer \<noteq> the expectedPeer then hsdk (Inl ErrPeerPin)
    else hret (t3, peer))))))"

definition client_auth :: "crypto_ops \<Rightarrow> localIdentity \<Rightarrow> profile \<Rightarrow> Transcript \<Rightarrow> bytes \<Rightarrow> bytes \<Rightarrow> bytes hs" where
  "client_auth ops id' p t hsec cHS =
    hbind (hsdk (localIdentityKeyBytes id')) (\<lambda>localPub.
    let t1 = addIdentity t FrameClientAuth localPub in
    hbind (hsdk (signCertVerify ops id' RoleClient (Sum t1))) (\<lambda>cCV.
    let thCCV = Sum (addCertVerify t1 cCV) in
    hbind (hlift (DeriveFinishedKey cHS p)) (\<lambda>cFinKey.
    hbind (hlift (ComputeFinished cFinKey thCCV p)) (\<lambda>cFin.
    let auth = \<lparr>amIdentityKey = localPub, amCertVerify = cCV, amFinished = cFin\<rparr> in
    hbind (hlift (sealFrame cHS DirClientToServer ChanControl 0 FrameClientAuth (AuthMessage_Encode auth) p)) (\<lambda>caWire.
    hbind (hwriteFrame caWire) (\<lambda>_.
    hlift (DeriveMasterSecret hsec thCCV p)))))))"

definition runClientHandshake :: "crypto_ops \<Rightarrow> KEMClient \<Rightarrow> localIdentity \<Rightarrow> bytes option \<Rightarrow> (bytes \<times> bytes \<times> profile) hs" where
  "runClientHandshake ops client id' expectedPeer =
    hbind (client_hellos ops client id') (\<lambda>(p, t, hsec, cHS, sHS).
    hbind (client_serverAuth ops p t cHS sHS expectedPeer) (\<lambda>(t', peer).
    hbind (client_auth ops id' p t' hsec cHS) (\<lambda>master.
    hret (master, peer, p))))"

section \<open>The server\<close>

text \<open>\<open>xk\<close> and \<open>coin\<close> are the random choices of \<open>Encapsulate\<close>.\<close>

definition server_hellos :: "crypto_ops \<Rightarrow> bytes \<Rightarrow> bytes \<Rightarrow> localIdentity \<Rightarrow> (profile \<times> Transcript \<times> bytes \<times> bytes \<times> bytes) hs" where
  "server_hellos ops xk coin id' =
    (let allowed = profilesOrDefault (liProfiles id') in
     hbind (hsdk (validateProfiles allowed)) (\<lambda>_.
     hbind (recvCleartext FrameClientHello) (\<lambda>chPayload.
     hbind (hlift (DecodeClientHello chPayload)) (\<lambda>ch.
     hbind (hsdk (requireOffers ch allowed)) (\<lambda>p.
     hbind (hlift (NewTranscript p)) (\<lambda>t0.
     let t1 = AddFrame t0 FrameClientHello (ClientHello_TLVs ch) in
     hbind (hlift (Encapsulate ops xk coin (chKEMShare ch))) (\<lambda>(kemCT, kemSS).
     hbind (hlift (HandshakeSecret kemSS p)) (\<lambda>hsec.
     let sh = \<lparr>shProfileSelect = p, shKEMSelect = profile_MinKEM p, shSigSelect = SigEd25519,
               shAEADSelect = AEADAES256GCM, shKEMCiphertext = kemCT\<rparr> in
     hbind (sendCleartext FrameServerHello (ServerHello_Encode sh)) (\<lambda>_.
     let t = AddFrame t1 FrameServerHello (ServerHello_TLVs sh) in
     hbind (hlift (DeriveHandshakeTrafficSecrets hsec (Sum t) p)) (\<lambda>(cHS, sHS).
     hret (p, t, hsec, cHS, sHS)))))))))))"

definition server_auth :: "crypto_ops \<Rightarrow> localIdentity \<Rightarrow> profile \<Rightarrow> Transcript \<Rightarrow> bytes \<Rightarrow> Transcript hs" where
  "server_auth ops id' p t sHS =
    hbind (hsdk (localIdentityKeyBytes id')) (\<lambda>localPub.
    let t1 = addIdentity t FrameServerAuth localPub in
    hbind (hsdk (signCertVerify ops id' RoleServer (Sum t1))) (\<lambda>sCV.
    let t2 = addCertVerify t1 sCV in
    hbind (hlift (DeriveFinishedKey sHS p)) (\<lambda>sFinKey.
    hbind (hlift (ComputeFinished sFinKey (Sum t2) p)) (\<lambda>sFin.
    let t3 = addFinished t2 sFin;
        auth = \<lparr>amIdentityKey = localPub, amCertVerify = sCV, amFinished = sFin\<rparr> in
    hbind (hlift (sealFrame sHS DirServerToClient ChanControl 0 FrameServerAuth (AuthMessage_Encode auth) p)) (\<lambda>saWire.
    hbind (hwriteFrame saWire) (\<lambda>_.
    hret t3))))))"

text \<open>An ERROR frame of the server takes sequence number 1: SERVER_AUTH has used 0.\<close>

definition server_clientAuth :: "crypto_ops \<Rightarrow> profile \<Rightarrow> Transcript \<Rightarrow> bytes \<Rightarrow> bytes \<Rightarrow> bytes \<Rightarrow> bytes option \<Rightarrow> (bytes \<times> bytes) hs" where
  "server_clientAuth ops p t hsec cHS sHS expectedPeer =
    hbind hreadFrame (\<lambda>caWire.
    hbind (orEmit (openAuthFrame caWire FrameClientAuth cHS DirClientToServer p) sHS DirServerToClient 1 p) (\<lambda>cAuth.
    let t1 = addIdentity t FrameClientAuth (amIdentityKey cAuth) in
    hbind (orEmit (decryptFailed (verifyCertVerify ops (amIdentityKey cAuth) RoleClient (Sum t1) (amCertVerify cAuth))) sHS DirServerToClient 1 p) (\<lambda>_.
    let thCCV = Sum (addCertVerify t1 (amCertVerify cAuth)) in
    hbind (hlift (DeriveFinishedKey cHS p)) (\<lambda>cFinKey.
    hbind (orEmit (decryptFailed (VerifyFinished cFinKey thCCV (amFinished cAuth) p)) sHS DirServerToClient 1 p) (\<lambda>_.
    let peer = amIdentityKey cAuth in
    if expectedPeer \<noteq> None \<and> peer \<noteq> the expectedPeer then hsdk (Inl ErrPeerPin)
    else hbind (hlift (DeriveMasterSecret hsec thCCV p)) (\<lambda>master. hret (master, peer)))))))"

definition runServerHandshake :: "crypto_ops \<Rightarrow> bytes \<Rightarrow> bytes \<Rightarrow> localIdentity \<Rightarrow> bytes option \<Rightarrow> (bytes \<times> bytes \<times> profile) hs" where
  "runServerHandshake ops xk coin id' expectedPeer =
    hbind (server_hellos ops xk coin id') (\<lambda>(p, t, hsec, cHS, sHS).
    hbind (server_auth ops id' p t sHS) (\<lambda>t'.
    hbind (server_clientAuth ops p t' hsec cHS sHS expectedPeer) (\<lambda>(master, peer).
    hret (master, peer, p))))"

section \<open>Entry points\<close>

text \<open>
  \<open>DialRaw\<close> and \<open>AcceptRaw\<close> on a stream that the caller supplies. \<open>DialConn\<close> and \<open>AcceptConn\<close> first run TLS
  on it; TLS is not part of the repository, so its outcome (failure, or the negotiated protocol) is
  an argument. \<open>fresh\<close> is the key that \<open>identity\<close> generates when none is configured.
\<close>

definition DialRaw :: "crypto_ops \<Rightarrow> bytes \<Rightarrow> KEMClient \<Rightarrow> config \<Rightarrow> conn hs" where
  "DialRaw ops fresh client cfg =
    hbind (hsdk (resolveIdentity ops fresh cfg)) (\<lambda>id'.
    hbind (runClientHandshake ops client id' (cfgExpectedPeerKey cfg)) (\<lambda>(master, peer, p).
    hret ((newConn master peer DirClientToServer DirServerToClient)\<lparr>cProfile := p\<rparr>)))"

definition AcceptRaw :: "crypto_ops \<Rightarrow> bytes \<Rightarrow> bytes \<Rightarrow> bytes \<Rightarrow> config \<Rightarrow> conn hs" where
  "AcceptRaw ops fresh xk coin cfg =
    hbind (hsdk (resolveIdentity ops fresh cfg)) (\<lambda>id'.
    hbind (runServerHandshake ops xk coin id' (cfgExpectedPeerKey cfg)) (\<lambda>(master, peer, p).
    hret ((newConn master peer DirServerToClient DirClientToServer)\<lparr>cProfile := p\<rparr>)))"

datatype tls_result = TLSFailed | TLSNegotiated string

definition requireALPN :: "tls_result \<Rightarrow> sdk_err + unit" where
  "requireALPN tls = (case tls of TLSFailed \<Rightarrow> Inl ErrTLS | TLSNegotiated proto \<Rightarrow> if proto \<noteq> ALPN then Inl ErrALPN else Inr ())"

definition DialConn :: "crypto_ops \<Rightarrow> tls_result \<Rightarrow> bytes \<Rightarrow> KEMClient \<Rightarrow> config \<Rightarrow> conn hs" where
  "DialConn ops tls fresh client cfg =
    hbind (hsdk (resolveIdentity ops fresh cfg)) (\<lambda>id'.
    hbind (hsdk (requireALPN tls)) (\<lambda>_.
    hbind (runClientHandshake ops client id' (cfgExpectedPeerKey cfg)) (\<lambda>(master, peer, p).
    hret ((newConn master peer DirClientToServer DirServerToClient)\<lparr>cProfile := p\<rparr>))))"

definition AcceptConn :: "crypto_ops \<Rightarrow> tls_result \<Rightarrow> bytes \<Rightarrow> bytes \<Rightarrow> bytes \<Rightarrow> config \<Rightarrow> conn hs" where
  "AcceptConn ops tls fresh xk coin cfg =
    hbind (hsdk (resolveIdentity ops fresh cfg)) (\<lambda>id'.
    hbind (hsdk (requireALPN tls)) (\<lambda>_.
    hbind (runServerHandshake ops xk coin id' (cfgExpectedPeerKey cfg)) (\<lambda>(master, peer, p).
    hret ((newConn master peer DirServerToClient DirClientToServer)\<lparr>cProfile := p\<rparr>))))"

end
