(* ===== verification/Establish.thy ===== *)
theory Establish
  imports SdkHandshake Duplex
begin

text \<open>
  The handshake against its purpose: what an endpoint has verified when it returns a connection, what
  it has revealed when it refuses, and that two honest endpoints end with connections that share
  their master secret and know each other's identity, the state that \<open>Duplex\<close> starts from.
\<close>

section \<open>Successful runs\<close>

lemma hbind_Inr: "hbind m f s = (s', Inr y) \<longleftrightarrow> (\<exists>s1 x. m s = (s1, Inr x) \<and> f x s1 = (s', Inr y))"
  by (auto simp: hbind_def split: prod.splits sum.splits)

lemma hret_Inr: "hret x s = (s', Inr y) \<longleftrightarrow> s' = s \<and> x = y"
  by (auto simp: hret_def)

lemma hsdk_Inr: "hsdk r s = (s', Inr x) \<longleftrightarrow> s' = s \<and> r = Inr x"
  by (auto simp: hsdk_def)

lemma map_err_Inr [simp]: "map_err g r = Inr x \<longleftrightarrow> r = Inr x" "Inr x = map_err g r \<longleftrightarrow> r = Inr x"
  by (cases r; auto)+

lemma orEmit_Inr: "orEmit r b d q p s = (s', Inr x) \<longleftrightarrow> s' = s \<and> r = Inr x"
  by (auto simp: orEmit_def emitHandshakeError_def hret_def split: sum.splits)

lemmas hs_Inr = hbind_Inr hret_Inr hsdk_Inr hlift_def orEmit_Inr decryptFailed_def Let_def split_paired_Ex

lemma profile_Valid_Standard [simp]: "profile_Valid ProfileStandard"
  by (simp add: profile_Valid_def suite_defs)

lemma validateProfiles_Inr: "validateProfiles ps = Inr u \<longleftrightarrow> set ps \<subseteq> {ProfileStandard}"
  by (induction ps) (auto simp: profile_Valid_def suite_defs)

lemma selectProfile_Inr: "selectProfile offered allowed = Inr p \<Longrightarrow> p \<in> set offered \<and> p \<in> set allowed"
  by (induction offered allowed rule: selectProfile.induct) (auto split: if_splits)

text \<open>The transcript that a CertVerify of the server covers, and that of the client.\<close>

definition helloTranscript :: "ClientHello \<Rightarrow> ServerHello \<Rightarrow> Transcript" where
  "helloTranscript ch sh =
    AddFrame (AddFrame \<lparr>trHash = SHA256, trBuf = []\<rparr> FrameClientHello (ClientHello_TLVs ch)) FrameServerHello (ServerHello_TLVs sh)"

definition authTranscript :: "Transcript \<Rightarrow> frame_type \<Rightarrow> AuthMessage \<Rightarrow> Transcript" where
  "authTranscript t ft am = addFinished (addCertVerify (addIdentity t ft (amIdentityKey am)) (amCertVerify am)) (amFinished am)"

text \<open>The frames of the handshake as they are on the stream.\<close>

definition hello_frame :: "frame_type \<Rightarrow> bytes \<Rightarrow> frame" where
  "hello_frame ft payload =
    \<lparr>fVersion = ProtocolVersion, fFlags = 0, fType = ft, fChannel = ChanControl, fSeq = 0, fPayload = payload\<rparr>"

lemma marshal_hello_frame: "snd (MarshalBinary (cleartext_frame ft payload)) = marshal (hello_frame ft payload)"
  by (simp add: marshal_def MarshalBinary_def cleartext_frame_def hello_frame_def ProtocolVersion_def)

definition authKeys :: "bytes \<Rightarrow> direction \<Rightarrow> epochKeys" where
  "authKeys base dir = (case deriveKeyIV base dir ChanControl ProfileStandard of
     Inr (key, iv) \<Rightarrow> \<lparr>ekEpoch = 0, ekKey = key, ekIV = iv, ekSeq = 0\<rparr> | Inl _ \<Rightarrow> new_epochKeys)"

definition auth_frame :: "bytes \<Rightarrow> direction \<Rightarrow> frame_type \<Rightarrow> bytes \<Rightarrow> frame" where
  "auth_frame base dir ft pt = sealed_frame ft ChanControl 0 (record_payload (authKeys base dir) ChanControl ft pt)"

lemma deriveKeyIV_Standard: "\<exists>k v. deriveKeyIV base dir ch ProfileStandard = Inr (k, v)"
  using DeriveTrafficSecret_Inr [of base dir 0 AEADAES256GCM ch] DeriveKeyIV_Inr by (fastforce simp: deriveKeyIV_def)

lemma sealFrame_auth: "sealFrame base dir ChanControl 0 ft pt ProfileStandard = Inr (marshal (auth_frame base dir ft pt))"
proof -
  obtain k v where kv: "deriveKeyIV base dir ChanControl ProfileStandard = Inr (k, v)" using deriveKeyIV_Standard by blast
  then have a: "authKeys base dir = \<lparr>ekEpoch = 0, ekKey = k, ekIV = v, ekSeq = 0\<rparr>" by (simp add: authKeys_def)
  have "sealFrame base dir ChanControl 0 ft pt ProfileStandard = sealWith (authKeys base dir) ChanControl ft pt"
    by (simp add: sealFrame_def sealWith_def kv a)
  then show ?thesis by (simp add: sealWith_eq auth_frame_def a)
qed

definition serverHelloOf :: "bytes \<Rightarrow> ServerHello" where
  "serverHelloOf ct = \<lparr>shProfileSelect = ProfileStandard, shKEMSelect = KEMX25519MLKEM768, shSigSelect = SigEd25519,
     shAEADSelect = AEADAES256GCM, shKEMCiphertext = ct\<rparr>"

text \<open>What a successful step has read from the stream and written to it.\<close>

lemma hreadFrame_Inr: "hreadFrame s = (s', Inr wire) \<Longrightarrow> ioIn s = wire @ ioIn s' \<and> ioOut s' = ioOut s"
  by (auto simp: hreadFrame_def split: prod.splits dest: readFrame_Inr)

lemma hwriteFrame_Inr: "hwriteFrame wire s = (s', Inr u) \<Longrightarrow> ioOut s' = ioOut s @ wire \<and> ioIn s' = ioIn s"
  by (auto simp: hwriteFrame_def writeFrame_def split: prod.splits if_splits write_result.splits list.splits)

lemma sendCleartext_Inr:
  "sendCleartext ft payload s = (s', Inr u) \<Longrightarrow> ioOut s' = ioOut s @ marshal (hello_frame ft payload) \<and> ioIn s' = ioIn s"
  unfolding sendCleartext_def marshal_hello_frame by (rule hwriteFrame_Inr)

lemma recvCleartext_Inr:
  assumes "recvCleartext want s = (s', Inr payload)"
  shows "\<exists>f. ioIn s = marshal f @ ioIn s' \<and> fType f = want \<and> fFlags f AND FlagENC = 0 \<and> fPayload f = payload \<and> ioOut s' = ioOut s"
proof -
  from assms obtain wire f where r: "hreadFrame s = (s', Inr wire)" "UnmarshalBinary wire = Inr f" "fType f = want"
      "fFlags f AND FlagENC = 0" "fPayload f = payload"
    unfolding recvCleartext_def by (auto simp: hs_Inr split: if_splits)
  with hreadFrame_Inr [OF r(1)] UnmarshalBinary_sound [OF r(2)] show ?thesis by auto
qed

lemma openAuthFrame_Inr:
  assumes "openAuthFrame wire want base dir p = Inr am"
  shows "\<exists>f. wire = marshal f \<and> fType f = want \<and> openFrame f base dir p = Inr (AuthMessage_Encode am)"
  using assms UnmarshalBinary_sound [of wire]
  by (auto simp: openAuthFrame_def DecodeAuthMessage_iff split: sum.splits if_splits)

section \<open>The server\<close>

lemma server_hellos_Inr:
  assumes "server_hellos ops xk coin id' s = (s', Inr (p, t, hsec, cHS, sHS))"
  shows "\<exists>f ch ct ss. p = ProfileStandard \<and> p \<in> set (chProfileOffer ch) \<and> KEMX25519MLKEM768 \<in> set (chKEMOffer ch)
    \<and> t = helloTranscript ch (serverHelloOf ct)
    \<and> ioIn s = marshal f @ ioIn s' \<and> fType f = FrameClientHello \<and> fPayload f = ClientHello_Encode ch
    \<and> Encapsulate ops xk coin (chKEMShare ch) = Inr (ct, ss) \<and> HandshakeSecret ss ProfileStandard = Inr hsec
    \<and> DeriveHandshakeTrafficSecrets hsec (Sum t) ProfileStandard = Inr (cHS, sHS)
    \<and> ioOut s' = ioOut s @ marshal (hello_frame FrameServerHello (ServerHello_Encode (serverHelloOf ct)))"
proof -
  define sh where "sh p ct = \<lparr>shProfileSelect = p, shKEMSelect = profile_MinKEM p, shSigSelect = SigEd25519,
      shAEADSelect = AEADAES256GCM, shKEMCiphertext = ct\<rparr>" for p ct
  from assms obtain s1 payload ch t0 ct ss where v: "set (profilesOrDefault (liProfiles id')) \<subseteq> {ProfileStandard}"
    and rd: "recvCleartext FrameClientHello s = (s1, Inr payload)" "DecodeClientHello payload = Inr ch"
    and off: "requireOffers ch (profilesOrDefault (liProfiles id')) = Inr p"
    and t0: "NewTranscript p = Inr t0"
    and enc: "Encapsulate ops xk coin (chKEMShare ch) = Inr (ct, ss)" "HandshakeSecret ss p = Inr hsec"
    and wr: "sendCleartext FrameServerHello (ServerHello_Encode (sh p ct)) s1 = (s', Inr ())"
    and t: "t = AddFrame (AddFrame t0 FrameClientHello (ClientHello_TLVs ch)) FrameServerHello (ServerHello_TLVs (sh p ct))"
    and ks: "DeriveHandshakeTrafficSecrets hsec (Sum t) p = Inr (cHS, sHS)"
    unfolding server_hellos_def sh_def [symmetric] by (auto simp: hs_Inr validateProfiles_Inr split: prod.splits)
  from off obtain k: "selectProfile (chProfileOffer ch) (profilesOrDefault (liProfiles id')) = Inr p" "profile_MinKEM p \<in> set (chKEMOffer ch)"
    by (cases "selectProfile (chProfileOffer ch) (profilesOrDefault (liProfiles id'))") (auto simp: requireOffers_def split: if_splits)
  with selectProfile_Inr v have p: "p = ProfileStandard" "p \<in> set (chProfileOffer ch)" by blast+
  then have s: "sh p ct = serverHelloOf ct" by (simp add: sh_def serverHelloOf_def profile_MinKEM_def)
  from p t0 have t': "t = helloTranscript ch (serverHelloOf ct)" unfolding t s by (simp add: helloTranscript_def)
  from rd(2) have pl: "payload = ClientHello_Encode ch" by (simp add: DecodeClientHello_iff)
  obtain f where f: "ioIn s = marshal f @ ioIn s1" "fType f = FrameClientHello" "fPayload f = payload" "ioOut s1 = ioOut s"
    using recvCleartext_Inr [OF rd(1)] by blast
  note w = sendCleartext_Inr [OF wr [unfolded s]]
  have kem: "KEMX25519MLKEM768 \<in> set (chKEMOffer ch)" using k(2) p(1) by (simp add: profile_MinKEM_def)
  show ?thesis
    using p kem t' f w pl enc ks by (intro exI [of _ f] exI [of _ ch] exI [of _ ct] exI [of _ ss]) simp
qed

lemma server_auth_Inr:
  assumes "server_auth ops id' ProfileStandard t sHS s = (s', Inr t')"
  shows "\<exists>am. amIdentityKey am = edPub id' \<and> t' = authTranscript t FrameServerAuth am \<and> ioIn s' = ioIn s
    \<and> ioOut s' = ioOut s @ marshal (auth_frame sHS DirServerToClient FrameServerAuth (AuthMessage_Encode am))"
proof -
  from assms obtain cv fin where w: "hwriteFrame (marshal (auth_frame sHS DirServerToClient FrameServerAuth
      (AuthMessage_Encode \<lparr>amIdentityKey = edPub id', amCertVerify = cv, amFinished = fin\<rparr>))) s = (s', Inr ())"
    "t' = authTranscript t FrameServerAuth \<lparr>amIdentityKey = edPub id', amCertVerify = cv, amFinished = fin\<rparr>"
    unfolding server_auth_def by (auto simp: hs_Inr localIdentityKeyBytes_def sealFrame_auth authTranscript_def split: if_splits)
  with hwriteFrame_Inr [OF w(1)] show ?thesis
    by (intro exI [of _ "\<lparr>amIdentityKey = edPub id', amCertVerify = cv, amFinished = fin\<rparr>"]) simp
qed

lemma server_clientAuth_Inr:
  assumes "server_clientAuth ops p t hsec cHS sHS pin s = (s', Inr (master, peer))"
  shows "\<exists>f am fk. ioIn s = marshal f @ ioIn s' \<and> ioOut s' = ioOut s \<and> fType f = FrameClientAuth
    \<and> openFrame f cHS DirClientToServer p = Inr (AuthMessage_Encode am) \<and> amIdentityKey am = peer \<and> (pin \<noteq> None \<longrightarrow> pin = Some peer)
    \<and> VerifyCertVerify ops peer RoleClient (Sum (addIdentity t FrameClientAuth peer)) (amCertVerify am) = Inr ()
    \<and> DeriveFinishedKey cHS p = Inr fk
    \<and> ComputeFinished fk (Sum (addCertVerify (addIdentity t FrameClientAuth peer) (amCertVerify am))) p = Inr (amFinished am)
    \<and> DeriveMasterSecret hsec (Sum (addCertVerify (addIdentity t FrameClientAuth peer) (amCertVerify am))) p = Inr master"
proof -
  from assms obtain wire am fk where r: "hreadFrame s = (s', Inr wire)" "openAuthFrame wire FrameClientAuth cHS DirClientToServer p = Inr am"
    and v: "amIdentityKey am = peer" "pin \<noteq> None \<longrightarrow> pin = Some peer"
      "VerifyCertVerify ops peer RoleClient (Sum (addIdentity t FrameClientAuth peer)) (amCertVerify am) = Inr ()"
      "DeriveFinishedKey cHS p = Inr fk"
      "VerifyFinished fk (Sum (addCertVerify (addIdentity t FrameClientAuth peer) (amCertVerify am))) (amFinished am) p = Inr ()"
      "DeriveMasterSecret hsec (Sum (addCertVerify (addIdentity t FrameClientAuth peer) (amCertVerify am))) p = Inr master"
    unfolding server_clientAuth_def by (auto simp: hs_Inr verifyCertVerify_def split: if_splits)
  obtain f where "wire = marshal f" "fType f = FrameClientAuth" "openFrame f cHS DirClientToServer p = Inr (AuthMessage_Encode am)"
    using openAuthFrame_Inr [OF r(2)] by blast
  with hreadFrame_Inr [OF r(1)] v show ?thesis
    by (intro exI [of _ f] exI [of _ am] exI [of _ fk]) (simp add: VerifyFinished_iff)
qed

section \<open>The client\<close>

lemma client_hellos_Inr:
  assumes "client_hellos ops client id' s = (s', Inr (p, t, hsec, cHS, sHS))"
  defines "ch \<equiv> clientHello ops client (profilesOrDefault (liProfiles id'))"
  shows "\<exists>f sh ss. p = ProfileStandard \<and> p \<in> set (profilesOrDefault (liProfiles id'))
    \<and> requireSelections sh (profilesOrDefault (liProfiles id')) KEMX25519MLKEM768 = Inr ()
    \<and> t = helloTranscript ch sh
    \<and> ioIn s = marshal f @ ioIn s' \<and> fType f = FrameServerHello \<and> fPayload f = ServerHello_Encode sh
    \<and> KEMClient_SharedSecrets ops client (shKEMCiphertext sh) = Inr ss \<and> HandshakeSecret ss ProfileStandard = Inr hsec
    \<and> DeriveHandshakeTrafficSecrets hsec (Sum t) ProfileStandard = Inr (cHS, sHS)
    \<and> ioOut s' = ioOut s @ marshal (hello_frame FrameClientHello (ClientHello_Encode ch))"
proof -
  from assms(1) obtain s1 payload sh t0 ss where v: "set (profilesOrDefault (liProfiles id')) \<subseteq> {ProfileStandard}"
    and wr: "sendCleartext FrameClientHello (ClientHello_Encode ch) s = (s1, Inr ())"
    and rd: "recvCleartext FrameServerHello s1 = (s', Inr payload)" "DecodeServerHello payload = Inr sh"
    and sel: "requireSelections sh (profilesOrDefault (liProfiles id')) KEMX25519MLKEM768 = Inr ()" and p: "p = shProfileSelect sh"
    and t0: "NewTranscript p = Inr t0"
    and t: "t = AddFrame (AddFrame t0 FrameClientHello (ClientHello_TLVs ch)) FrameServerHello (ServerHello_TLVs sh)"
    and ks: "KEMClient_SharedSecrets ops client (shKEMCiphertext sh) = Inr ss" "HandshakeSecret ss p = Inr hsec"
      "DeriveHandshakeTrafficSecrets hsec (Sum t) p = Inr (cHS, sHS)"
    unfolding client_hellos_def ch_def by (auto simp: hs_Inr validateProfiles_Inr split: prod.splits)
  from sel p have mem: "p \<in> set (profilesOrDefault (liProfiles id'))" by (auto simp: requireSelections_def split: if_splits)
  with v have std: "p = ProfileStandard" by blast
  with t0 t have t': "t = helloTranscript ch sh" by (simp add: helloTranscript_def)
  from rd(2) have pl: "payload = ServerHello_Encode sh" by (simp add: DecodeServerHello_iff)
  obtain f where f: "ioIn s1 = marshal f @ ioIn s'" "fType f = FrameServerHello" "fPayload f = payload" "ioOut s' = ioOut s1"
    using recvCleartext_Inr [OF rd(1)] by blast
  with sendCleartext_Inr [OF wr] std mem sel t' pl ks show ?thesis
    by (intro exI [of _ f] exI [of _ sh] exI [of _ ss]) simp
qed

lemma client_serverAuth_Inr:
  assumes "client_serverAuth ops p t cHS sHS pin s = (s', Inr (t', peer))"
  shows "\<exists>f am fk. ioIn s = marshal f @ ioIn s' \<and> ioOut s' = ioOut s \<and> fType f = FrameServerAuth
    \<and> openFrame f sHS DirServerToClient p = Inr (AuthMessage_Encode am) \<and> amIdentityKey am = peer \<and> (pin \<noteq> None \<longrightarrow> pin = Some peer)
    \<and> VerifyCertVerify ops peer RoleServer (Sum (addIdentity t FrameServerAuth peer)) (amCertVerify am) = Inr ()
    \<and> DeriveFinishedKey sHS p = Inr fk
    \<and> ComputeFinished fk (Sum (addCertVerify (addIdentity t FrameServerAuth peer) (amCertVerify am))) p = Inr (amFinished am)
    \<and> t' = authTranscript t FrameServerAuth am"
proof -
  from assms obtain wire am fk where r: "hreadFrame s = (s', Inr wire)" "openAuthFrame wire FrameServerAuth sHS DirServerToClient p = Inr am"
    and v: "amIdentityKey am = peer" "pin \<noteq> None \<longrightarrow> pin = Some peer"
      "VerifyCertVerify ops peer RoleServer (Sum (addIdentity t FrameServerAuth peer)) (amCertVerify am) = Inr ()"
      "DeriveFinishedKey sHS p = Inr fk"
      "VerifyFinished fk (Sum (addCertVerify (addIdentity t FrameServerAuth peer) (amCertVerify am))) (amFinished am) p = Inr ()"
      "t' = addFinished (addCertVerify (addIdentity t FrameServerAuth peer) (amCertVerify am)) (amFinished am)"
    unfolding client_serverAuth_def by (auto simp: hs_Inr verifyCertVerify_def split: if_splits)
  obtain f where "wire = marshal f" "fType f = FrameServerAuth" "openFrame f sHS DirServerToClient p = Inr (AuthMessage_Encode am)"
    using openAuthFrame_Inr [OF r(2)] by blast
  with hreadFrame_Inr [OF r(1)] v show ?thesis
    by (intro exI [of _ f] exI [of _ am] exI [of _ fk]) (simp add: VerifyFinished_iff authTranscript_def)
qed

lemma client_auth_Inr:
  assumes "client_auth ops id' ProfileStandard t hsec cHS s = (s', Inr master)"
  shows "\<exists>am. amIdentityKey am = edPub id' \<and> ioIn s' = ioIn s
    \<and> ioOut s' = ioOut s @ marshal (auth_frame cHS DirClientToServer FrameClientAuth (AuthMessage_Encode am))
    \<and> DeriveMasterSecret hsec (Sum (addCertVerify (addIdentity t FrameClientAuth (edPub id')) (amCertVerify am))) ProfileStandard = Inr master"
proof -
  from assms obtain cv fin where w: "hwriteFrame (marshal (auth_frame cHS DirClientToServer FrameClientAuth
      (AuthMessage_Encode \<lparr>amIdentityKey = edPub id', amCertVerify = cv, amFinished = fin\<rparr>))) s = (s', Inr ())"
    "DeriveMasterSecret hsec (Sum (addCertVerify (addIdentity t FrameClientAuth (edPub id')) cv)) ProfileStandard = Inr master"
    unfolding client_auth_def by (auto simp: hs_Inr localIdentityKeyBytes_def sealFrame_auth split: if_splits)
  with hwriteFrame_Inr [OF w(1)] show ?thesis
    by (intro exI [of _ "\<lparr>amIdentityKey = edPub id', amCertVerify = cv, amFinished = fin\<rparr>"]) simp
qed

text \<open>
  C6. What a client has verified. Let the client side of the handshake succeed, whatever the network
  did. Then the stream began with a SERVER_HELLO and a SERVER_AUTH frame, and the client has written
  its CLIENT_HELLO and its CLIENT_AUTH, sealed under the client's handshake secret, and nothing else.
  The negotiated profile is Standard and one that the client offered, and the selections are the
  client's. The identity that is returned is the one in the SERVER_AUTH, which opens under the server's
  handshake secret of this very exchange; the peer has proved possession of it by an Ed25519 signature
  over a server-role input with the hash of the client's own hello, the server's hello as it was read
  and that identity, and the Finished is the MAC of this transcript. The identity is the pinned one
  when a pin was configured, and the master secret comes from the shared secret that the client's key
  gives for the ciphertext of the hello and from the transcript up to the client's CertVerify.
\<close>

theorem client_handshake_authenticates:
  assumes "runClientHandshake ops client id' pin s = (s', Inr (master, peer, p))"
  shows "p = ProfileStandard \<and> p \<in> set (profilesOrDefault (liProfiles id')) \<and> (pin \<noteq> None \<longrightarrow> pin = Some peer)
    \<and> (\<exists>f1 f2 ch sh ss hsec cHS sHS am_s am_c fk i.
          ch = clientHello ops client (profilesOrDefault (liProfiles id'))
        \<and> ioIn s = marshal f1 @ marshal f2 @ ioIn s'
        \<and> fType f1 = FrameServerHello \<and> fPayload f1 = ServerHello_Encode sh
        \<and> requireSelections sh (profilesOrDefault (liProfiles id')) KEMX25519MLKEM768 = Inr ()
        \<and> KEMClient_SharedSecrets ops client (shKEMCiphertext sh) = Inr ss
        \<and> HandshakeSecret ss p = Inr hsec
        \<and> DeriveHandshakeTrafficSecrets hsec (Sum (helloTranscript ch sh)) p = Inr (cHS, sHS)
        \<and> fType f2 = FrameServerAuth \<and> openFrame f2 sHS DirServerToClient p = Inr (AuthMessage_Encode am_s) \<and> amIdentityKey am_s = peer
        \<and> CertVerifySigningInput RoleServer (Sum (addIdentity (helloTranscript ch sh) FrameServerAuth peer)) = Inr i
        \<and> ed25519_verify ops peer i (drop 2 (amCertVerify am_s))
        \<and> DeriveFinishedKey sHS p = Inr fk
        \<and> ComputeFinished fk (Sum (addCertVerify (addIdentity (helloTranscript ch sh) FrameServerAuth peer) (amCertVerify am_s))) p
            = Inr (amFinished am_s)
        \<and> amIdentityKey am_c = edPub id'
        \<and> ioOut s' = ioOut s @ marshal (hello_frame FrameClientHello (ClientHello_Encode ch))
            @ marshal (auth_frame cHS DirClientToServer FrameClientAuth (AuthMessage_Encode am_c))
        \<and> DeriveMasterSecret hsec (Sum (addCertVerify (addIdentity (authTranscript (helloTranscript ch sh) FrameServerAuth am_s)
            FrameClientAuth (edPub id')) (amCertVerify am_c))) p = Inr master)"
proof -
  let ?ch = "clientHello ops client (profilesOrDefault (liProfiles id'))"
  from assms obtain s1 s2 t hsec cHS sHS t' where
    h: "client_hellos ops client id' s = (s1, Inr (p, t, hsec, cHS, sHS))" and
    a: "client_serverAuth ops p t cHS sHS pin s1 = (s2, Inr (t', peer))" and
    c: "client_auth ops id' p t' hsec cHS s2 = (s', Inr master)"
    unfolding runClientHandshake_def by (auto simp: hs_Inr split: prod.splits)
  from client_hellos_Inr [OF h] obtain f1 sh ss where p: "p = ProfileStandard" "p \<in> set (profilesOrDefault (liProfiles id'))"
    and 1: "requireSelections sh (profilesOrDefault (liProfiles id')) KEMX25519MLKEM768 = Inr ()" "t = helloTranscript ?ch sh"
      "ioIn s = marshal f1 @ ioIn s1" "fType f1 = FrameServerHello" "fPayload f1 = ServerHello_Encode sh"
      "KEMClient_SharedSecrets ops client (shKEMCiphertext sh) = Inr ss" "HandshakeSecret ss p = Inr hsec"
      "DeriveHandshakeTrafficSecrets hsec (Sum t) p = Inr (cHS, sHS)"
      "ioOut s1 = ioOut s @ marshal (hello_frame FrameClientHello (ClientHello_Encode ?ch))" by blast
  from client_serverAuth_Inr [OF a] obtain f2 am_s fk where 2: "ioIn s1 = marshal f2 @ ioIn s2" "ioOut s2 = ioOut s1"
      "fType f2 = FrameServerAuth" "openFrame f2 sHS DirServerToClient p = Inr (AuthMessage_Encode am_s)" "amIdentityKey am_s = peer"
      "pin \<noteq> None \<longrightarrow> pin = Some peer"
      "VerifyCertVerify ops peer RoleServer (Sum (addIdentity t FrameServerAuth peer)) (amCertVerify am_s) = Inr ()"
      "DeriveFinishedKey sHS p = Inr fk"
      "ComputeFinished fk (Sum (addCertVerify (addIdentity t FrameServerAuth peer) (amCertVerify am_s))) p = Inr (amFinished am_s)"
      "t' = authTranscript t FrameServerAuth am_s" by blast
  from client_auth_Inr [OF c [unfolded p(1)]] obtain am_c where 3: "amIdentityKey am_c = edPub id'" "ioIn s' = ioIn s2"
      "ioOut s' = ioOut s2 @ marshal (auth_frame cHS DirClientToServer FrameClientAuth (AuthMessage_Encode am_c))"
      "DeriveMasterSecret hsec (Sum (addCertVerify (addIdentity t' FrameClientAuth (edPub id')) (amCertVerify am_c))) p = Inr master"
    unfolding p(1) by blast
  from 2(7) obtain i where i: "CertVerifySigningInput RoleServer (Sum (addIdentity t FrameServerAuth peer)) = Inr i"
      "ed25519_verify ops peer i (drop 2 (amCertVerify am_s))" by (auto simp: VerifyCertVerify_Inr)
  note h1 = 1 [unfolded 1(2)]
  note h2 = 2 [unfolded 1(2)]
  note h3 = 3 [unfolded 2(10), unfolded 1(2)] i [unfolded 1(2)]
  have io: "ioIn s = marshal f1 @ marshal f2 @ ioIn s'"
    "ioOut s' = ioOut s @ marshal (hello_frame FrameClientHello (ClientHello_Encode ?ch))
      @ marshal (auth_frame cHS DirClientToServer FrameClientAuth (AuthMessage_Encode am_c))"
    using 1(3,9) 2(1,2) 3(2,3) by simp_all
  show ?thesis
    by (rule conjI, rule p, rule conjI, rule p, rule conjI, rule 2(6), rule exI [of _ f1], rule exI [of _ f2], rule exI [of _ ?ch],
        rule exI [of _ sh], rule exI [of _ ss], rule exI [of _ hsec], rule exI [of _ cHS], rule exI [of _ sHS], rule exI [of _ am_s],
        rule exI [of _ am_c], rule exI [of _ fk], rule exI [of _ i], intro conjI) (rule refl h1 h2 h3 io)+
qed

text \<open>
  C7. What a server has verified. Let the server side of the handshake succeed, whatever the network
  did. Then the stream began with a CLIENT_HELLO and a CLIENT_AUTH frame, and the server has written
  one SERVER_HELLO, whose ciphertext is the encapsulation to the share in the hello that was read, and
  its SERVER_AUTH, sealed under the server's handshake secret, and nothing else. The profile is
  Standard and was offered by the client together with the KEM group. The identity that is returned is
  the one in the CLIENT_AUTH, which opens under the client's handshake secret of this very exchange; the
  client has proved possession of it by an Ed25519 signature over a client-role input with the hash of
  both hellos as they were read and written, of the AUTH message that was written and of that identity,
  and the Finished is the MAC of this transcript. The identity is the pinned one when a pin was
  configured, and the master secret comes from the encapsulated secret and from this transcript.
\<close>

theorem server_handshake_authenticates:
  assumes "runServerHandshake ops xk coin id' pin s = (s', Inr (master, peer, p))"
  shows "p = ProfileStandard \<and> (pin \<noteq> None \<longrightarrow> pin = Some peer)
    \<and> (\<exists>f1 f2 ch ct ss hsec cHS sHS am_s am_c fk i.
          ioIn s = marshal f1 @ marshal f2 @ ioIn s'
        \<and> fType f1 = FrameClientHello \<and> fPayload f1 = ClientHello_Encode ch
        \<and> p \<in> set (chProfileOffer ch) \<and> KEMX25519MLKEM768 \<in> set (chKEMOffer ch)
        \<and> Encapsulate ops xk coin (chKEMShare ch) = Inr (ct, ss)
        \<and> HandshakeSecret ss p = Inr hsec
        \<and> DeriveHandshakeTrafficSecrets hsec (Sum (helloTranscript ch (serverHelloOf ct))) p = Inr (cHS, sHS)
        \<and> amIdentityKey am_s = edPub id'
        \<and> ioOut s' = ioOut s @ marshal (hello_frame FrameServerHello (ServerHello_Encode (serverHelloOf ct)))
            @ marshal (auth_frame sHS DirServerToClient FrameServerAuth (AuthMessage_Encode am_s))
        \<and> fType f2 = FrameClientAuth \<and> openFrame f2 cHS DirClientToServer p = Inr (AuthMessage_Encode am_c) \<and> amIdentityKey am_c = peer
        \<and> (let t = addIdentity (authTranscript (helloTranscript ch (serverHelloOf ct)) FrameServerAuth am_s) FrameClientAuth peer;
               th = Sum (addCertVerify t (amCertVerify am_c)) in
             CertVerifySigningInput RoleClient (Sum t) = Inr i \<and> ed25519_verify ops peer i (drop 2 (amCertVerify am_c))
           \<and> DeriveFinishedKey cHS p = Inr fk \<and> ComputeFinished fk th p = Inr (amFinished am_c)
           \<and> DeriveMasterSecret hsec th p = Inr master))"
proof -
  from assms obtain s1 s2 t hsec cHS sHS t' where
    h: "server_hellos ops xk coin id' s = (s1, Inr (p, t, hsec, cHS, sHS))" and
    a: "server_auth ops id' p t sHS s1 = (s2, Inr t')" and
    c: "server_clientAuth ops p t' hsec cHS sHS pin s2 = (s', Inr (master, peer))"
    unfolding runServerHandshake_def by (auto simp: hs_Inr split: prod.splits)
  from server_hellos_Inr [OF h] obtain f1 ch ct ss where p: "p = ProfileStandard"
    and 1: "p \<in> set (chProfileOffer ch)" "KEMX25519MLKEM768 \<in> set (chKEMOffer ch)" "t = helloTranscript ch (serverHelloOf ct)"
      "ioIn s = marshal f1 @ ioIn s1" "fType f1 = FrameClientHello" "fPayload f1 = ClientHello_Encode ch"
      "Encapsulate ops xk coin (chKEMShare ch) = Inr (ct, ss)" "HandshakeSecret ss p = Inr hsec"
      "DeriveHandshakeTrafficSecrets hsec (Sum t) p = Inr (cHS, sHS)"
      "ioOut s1 = ioOut s @ marshal (hello_frame FrameServerHello (ServerHello_Encode (serverHelloOf ct)))" by blast
  from server_auth_Inr [OF a [unfolded p]] obtain am_s where 2: "amIdentityKey am_s = edPub id'"
      "t' = authTranscript t FrameServerAuth am_s" "ioIn s2 = ioIn s1"
      "ioOut s2 = ioOut s1 @ marshal (auth_frame sHS DirServerToClient FrameServerAuth (AuthMessage_Encode am_s))" by blast
  from server_clientAuth_Inr [OF c] obtain f2 am_c fk where 3: "ioIn s2 = marshal f2 @ ioIn s'" "ioOut s' = ioOut s2"
      "fType f2 = FrameClientAuth" "openFrame f2 cHS DirClientToServer p = Inr (AuthMessage_Encode am_c)" "amIdentityKey am_c = peer"
      "pin \<noteq> None \<longrightarrow> pin = Some peer"
      "VerifyCertVerify ops peer RoleClient (Sum (addIdentity t' FrameClientAuth peer)) (amCertVerify am_c) = Inr ()"
      "DeriveFinishedKey cHS p = Inr fk"
      "ComputeFinished fk (Sum (addCertVerify (addIdentity t' FrameClientAuth peer) (amCertVerify am_c))) p = Inr (amFinished am_c)"
      "DeriveMasterSecret hsec (Sum (addCertVerify (addIdentity t' FrameClientAuth peer) (amCertVerify am_c))) p = Inr master" by blast
  from 3(7) obtain i where i: "CertVerifySigningInput RoleClient (Sum (addIdentity t' FrameClientAuth peer)) = Inr i"
      "ed25519_verify ops peer i (drop 2 (amCertVerify am_c))" by (auto simp: VerifyCertVerify_Inr)
  note h1 = 1 [unfolded 1(3)]
  note h3 = 3 [unfolded 2(2), unfolded 1(3)] i [unfolded 2(2), unfolded 1(3)]
  have io: "ioIn s = marshal f1 @ marshal f2 @ ioIn s'" using 1(4) 2(3) 3(1) by simp
  have out: "ioOut s' = ioOut s @ marshal (hello_frame FrameServerHello (ServerHello_Encode (serverHelloOf ct)))
      @ marshal (auth_frame sHS DirServerToClient FrameServerAuth (AuthMessage_Encode am_s))"
    using 1(10) 2(4) 3(2) by simp
  show ?thesis
    unfolding Let_def
    by (rule conjI, rule p, rule conjI, rule 3(6), rule exI [of _ f1], rule exI [of _ f2], rule exI [of _ ch], rule exI [of _ ct],
        rule exI [of _ ss], rule exI [of _ hsec], rule exI [of _ cHS], rule exI [of _ sHS], rule exI [of _ am_s], rule exI [of _ am_c],
        rule exI [of _ fk], rule exI [of _ i], intro conjI) (rule h1 2 h3 io out)+
qed

section \<open>Two honest endpoints\<close>

definition io_state :: "bytes \<Rightarrow> bytes \<Rightarrow> io" where
  "io_state i out = \<lparr>ioIn = i, ioOut = out, ioWrites = []\<rparr>"

lemma hello_frame_sendable: "length payload \<le> 70000 \<Longrightarrow> sendable (hello_frame ft payload)"
  by (simp add: sendable_def frame_ok_def hello_frame_def HeaderSize_def MaxFrameSize_def)

lemma hwriteFrame_io: "sendable f \<Longrightarrow> hwriteFrame (marshal f) (io_state i out) = (io_state i (out @ marshal f), Inr ())"
  by (simp add: hwriteFrame_def io_state_def writeFrame_ok)

lemma hreadFrame_io: "sendable f \<Longrightarrow> hreadFrame (io_state (marshal f @ i) out) = (io_state i out, Inr (marshal f))"
  by (simp add: hreadFrame_def io_state_def readFrame_marshal)

lemma hlift_io: "r = Inr x \<Longrightarrow> hlift r (io_state i out) = (io_state i out, Inr x)"
  "q = Inr x \<Longrightarrow> hsdk q (io_state i out) = (io_state i out, Inr x)"
  "z = Inr x \<Longrightarrow> orEmit z b d n p (io_state i out) = (io_state i out, Inr x)"
  by (simp_all add: hlift_def hsdk_def orEmit_def hret_def)

lemma sendCleartext_io:
  "length payload \<le> 70000 \<Longrightarrow> sendCleartext ft payload (io_state i out) = (io_state i (out @ marshal (hello_frame ft payload)), Inr ())"
proof -
  assume "length payload \<le> 70000"
  moreover have "snd (MarshalBinary (cleartext_frame ft payload)) = marshal (hello_frame ft payload)"
    by (simp add: marshal_def MarshalBinary_def cleartext_frame_def hello_frame_def ProtocolVersion_def)
  ultimately show ?thesis unfolding sendCleartext_def by (simp add: hwriteFrame_io hello_frame_sendable)
qed

lemma recvCleartext_io:
  assumes "length payload \<le> 70000"
  shows "recvCleartext ft (io_state (marshal (hello_frame ft payload) @ i) out) = (io_state i out, Inr payload)"
proof -
  note ok = hello_frame_sendable [OF assms, of ft]
  then have "UnmarshalBinary (marshal (hello_frame ft payload)) = Inr (hello_frame ft payload)"
    by (simp add: UnmarshalBinary_marshal sendable_def)
  then show ?thesis
    by (simp add: recvCleartext_def hbind_def hreadFrame_io [OF ok] hlift_def hsdk_def) (simp add: hello_frame_def)
qed

text \<open>The AUTH frames: opening what was sealed under a handshake secret.\<close>

lemma openFrame_auth:
  assumes "length pt \<le> gcm_max"
  shows "openFrame (auth_frame base dir ft pt) base dir ProfileStandard = Inr pt"
proof -
  obtain k v where kv: "deriveKeyIV base dir ChanControl ProfileStandard = Inr (k, v)" using deriveKeyIV_Standard by blast
  then have a: "authKeys base dir = \<lparr>ekEpoch = 0, ekKey = k, ekIV = v, ekSeq = 0\<rparr>" by (simp add: authKeys_def)
  have "openFrame (auth_frame base dir ft pt) base dir ProfileStandard = openWith (authKeys base dir) (auth_frame base dir ft pt)"
    by (simp add: openFrame_def openWith_def auth_frame_def kv a)
  then show ?thesis
    using openWith_sealed [OF refl refl assms, of "authKeys base dir" ft ChanControl] by (simp add: auth_frame_def a)
qed

lemma auth_frame_sendable: "length pt \<le> 70000 \<Longrightarrow> sendable (auth_frame base dir ft pt)"
  by (simp add: auth_frame_def sendable_record record_fits_def HeaderSize_def MaxFrameSize_def)

lemma openAuthFrame_auth:
  assumes "AuthMessage_ok am" "length (AuthMessage_Encode am) \<le> 70000"
  shows "openAuthFrame (marshal (auth_frame base dir ft (AuthMessage_Encode am))) ft base dir ProfileStandard = Inr am"
proof -
  have "UnmarshalBinary (marshal (auth_frame base dir ft (AuthMessage_Encode am))) = Inr (auth_frame base dir ft (AuthMessage_Encode am))"
    using auth_frame_sendable [OF assms(2)] by (simp add: UnmarshalBinary_marshal sendable_def)
  moreover have "length (AuthMessage_Encode am) \<le> gcm_max" using assms(2) by (simp add: gcm_max_def)
  moreover have "DecodeAuthMessage (AuthMessage_Encode am) = Inr am" using assms(1) by (simp add: DecodeAuthMessage_iff)
  ultimately show ?thesis by (simp add: openAuthFrame_def openFrame_auth) (simp add: auth_frame_def)
qed

text \<open>The AUTH message of an honest endpoint, and that its peer accepts it.\<close>

definition authOf :: "crypto_ops \<Rightarrow> bytes \<Rightarrow> role \<Rightarrow> frame_type \<Rightarrow> Transcript \<Rightarrow> bytes \<Rightarrow> AuthMessage" where
  "authOf ops sk r ft t base =
    (let t1 = addIdentity t ft (ed25519_pub ops sk); cv = projr (SignCertVerify ops sk r (Sum t1));
         fk = projr (DeriveFinishedKey base ProfileStandard) in
     \<lparr>amIdentityKey = ed25519_pub ops sk, amCertVerify = cv,
      amFinished = projr (ComputeFinished fk (Sum (addCertVerify t1 cv)) ProfileStandard)\<rparr>)"

lemma authOf_facts:
  fixes t :: Transcript and ft :: frame_type and base :: bytes
  assumes ed: "ed25519_correct ops" "length sk = 64" and r: "r \<in> {RoleClient, RoleServer}"
  defines "am \<equiv> authOf ops sk r ft t base"
  defines "t1 \<equiv> addIdentity t ft (ed25519_pub ops sk)"
  shows "SignCertVerify ops sk r (Sum t1) = Inr (amCertVerify am)" "amIdentityKey am = ed25519_pub ops sk"
    "VerifyCertVerify ops (ed25519_pub ops sk) r (Sum t1) (amCertVerify am) = Inr ()"
    "\<exists>fk. DeriveFinishedKey base ProfileStandard = Inr fk
       \<and> ComputeFinished fk (Sum (addCertVerify t1 (amCertVerify am))) ProfileStandard = Inr (amFinished am)"
    "AuthMessage_ok am" "length (AuthMessage_Encode am) \<le> 70000"
proof -
  obtain cv where cv: "SignCertVerify ops sk r (Sum t1) = Inr cv"
    using r CertVerifySigningInput_Inr by (fastforce simp: SignCertVerify_def)
  obtain fk where fk: "DeriveFinishedKey base ProfileStandard = Inr fk"
    using HkdfExpandLabel_Inr [of 32 base] by (fastforce simp: DeriveFinishedKey_def)
  obtain fin where fin: "ComputeFinished fk (Sum (addCertVerify t1 cv)) ProfileStandard = Inr fin" "length fin = 32"
    by (simp add: ComputeFinished_def length_hmac_sha256)
  have am: "am = \<lparr>amIdentityKey = ed25519_pub ops sk, amCertVerify = cv, amFinished = fin\<rparr>"
    by (simp add: am_def authOf_def Let_def flip: t1_def) (simp add: cv fk fin)
  note v = VerifyCertVerify_Sign [OF ed cv] ed25519_correctD [OF ed]
  show "SignCertVerify ops sk r (Sum t1) = Inr (amCertVerify am)" "amIdentityKey am = ed25519_pub ops sk"
    "VerifyCertVerify ops (ed25519_pub ops sk) r (Sum t1) (amCertVerify am) = Inr ()"
    using cv v by (simp_all add: am)
  show "\<exists>fk. DeriveFinishedKey base ProfileStandard = Inr fk
       \<and> ComputeFinished fk (Sum (addCertVerify t1 (amCertVerify am))) ProfileStandard = Inr (amFinished am)"
    using fk fin by (simp add: am)
  have len: "length (ed25519_pub ops sk) = 32" "length cv = 66" using v by blast+
  show "AuthMessage_ok am" using len fin(2) by (auto simp: am AuthMessage_ok_def)
  show "length (AuthMessage_Encode am) \<le> 70000"
    using len fin(2) by (simp add: am AuthMessage_Encode_def AuthMessage_TLVs_def length_tlv_Encode)
qed

lemma server_auth_io:
  assumes ed: "ed25519_correct ops" "length sk = 64" "edPriv id' = sk" "edPub id' = ed25519_pub ops sk"
  defines "am t sHS \<equiv> authOf ops sk RoleServer FrameServerAuth t sHS"
  shows "server_auth ops id' ProfileStandard t sHS (io_state i out) =
      (io_state i (out @ marshal (auth_frame sHS DirServerToClient FrameServerAuth (AuthMessage_Encode (am t sHS)))),
       Inr (addFinished (addCertVerify (addIdentity t FrameServerAuth (ed25519_pub ops sk)) (amCertVerify (am t sHS))) (amFinished (am t sHS))))"
proof -
  note f = authOf_facts [OF ed(1,2), where r = RoleServer and ft = FrameServerAuth and t = t and base = sHS, simplified, folded am_def]
  from f(4) obtain fk where fk: "DeriveFinishedKey sHS ProfileStandard = Inr fk"
    "ComputeFinished fk (Sum (addCertVerify (addIdentity t FrameServerAuth (ed25519_pub ops sk)) (amCertVerify (am t sHS)))) ProfileStandard = Inr (amFinished (am t sHS))"
    by blast
  have id: "localIdentityKeyBytes id' = Inr (ed25519_pub ops sk)" "signCertVerify ops id' RoleServer th = map_err ErrNpamp (SignCertVerify ops sk RoleServer th)" for th
    using ed ed25519_correctD [OF ed(1,2)] by (auto simp: localIdentityKeyBytes_def signCertVerify_def)
  have am: "\<lparr>amIdentityKey = ed25519_pub ops sk, amCertVerify = amCertVerify (am t sHS), amFinished = amFinished (am t sHS)\<rparr> = am t sHS"
    using f(2) by simp
  show ?thesis
    by (simp add: server_auth_def hbind_def hsdk_def hlift_def hret_def id f(1) fk am sealFrame_auth
        hwriteFrame_io auth_frame_sendable [OF f(6)])
qed

lemma client_serverAuth_io:
  assumes ed: "ed25519_correct ops" "length sk = 64" and pin: "pin = None \<or> pin = Some (ed25519_pub ops sk)"
  defines "am t sHS \<equiv> authOf ops sk RoleServer FrameServerAuth t sHS"
  shows "client_serverAuth ops ProfileStandard t cHS sHS pin
      (io_state (marshal (auth_frame sHS DirServerToClient FrameServerAuth (AuthMessage_Encode (am t sHS))) @ i) out) =
    (io_state i out, Inr (addFinished (addCertVerify (addIdentity t FrameServerAuth (ed25519_pub ops sk)) (amCertVerify (am t sHS))) (amFinished (am t sHS)),
      ed25519_pub ops sk))"
proof -
  note f = authOf_facts [OF ed(1,2), where r = RoleServer and ft = FrameServerAuth and t = t and base = sHS, simplified, folded am_def]
  from f(4) obtain fk where fk: "DeriveFinishedKey sHS ProfileStandard = Inr fk"
    "VerifyFinished fk (Sum (addCertVerify (addIdentity t FrameServerAuth (ed25519_pub ops sk)) (amCertVerify (am t sHS)))) (amFinished (am t sHS)) ProfileStandard = Inr ()"
    by (auto simp: VerifyFinished_iff)
  show ?thesis
    using pin by (simp add: client_serverAuth_def hbind_def hsdk_def hlift_def hret_def orEmit_def decryptFailed_def verifyCertVerify_def
        f(2,3) fk openAuthFrame_auth [OF f(5,6)] hreadFrame_io auth_frame_sendable [OF f(6)] Let_def) auto
qed

lemma client_auth_io:
  assumes ed: "ed25519_correct ops" "length sk = 64" "edPriv id' = sk" "edPub id' = ed25519_pub ops sk"
  defines "am t cHS \<equiv> authOf ops sk RoleClient FrameClientAuth t cHS"
  shows "client_auth ops id' ProfileStandard t hsec cHS (io_state i out) =
      (io_state i (out @ marshal (auth_frame cHS DirClientToServer FrameClientAuth (AuthMessage_Encode (am t cHS)))),
       map_err ErrNpamp (DeriveMasterSecret hsec
         (Sum (addCertVerify (addIdentity t FrameClientAuth (ed25519_pub ops sk)) (amCertVerify (am t cHS)))) ProfileStandard))"
proof -
  note f = authOf_facts [OF ed(1,2), where r = RoleClient and ft = FrameClientAuth and t = t and base = cHS, simplified, folded am_def]
  from f(4) obtain fk where fk: "DeriveFinishedKey cHS ProfileStandard = Inr fk"
    "ComputeFinished fk (Sum (addCertVerify (addIdentity t FrameClientAuth (ed25519_pub ops sk)) (amCertVerify (am t cHS)))) ProfileStandard = Inr (amFinished (am t cHS))"
    by blast
  have id: "localIdentityKeyBytes id' = Inr (ed25519_pub ops sk)" "signCertVerify ops id' RoleClient th = map_err ErrNpamp (SignCertVerify ops sk RoleClient th)" for th
    using ed ed25519_correctD [OF ed(1,2)] by (auto simp: localIdentityKeyBytes_def signCertVerify_def)
  have am: "\<lparr>amIdentityKey = ed25519_pub ops sk, amCertVerify = amCertVerify (am t cHS), amFinished = amFinished (am t cHS)\<rparr> = am t cHS"
    using f(2) by simp
  show ?thesis
    by (simp add: client_auth_def hbind_def hsdk_def hlift_def hret_def id f(1) fk am sealFrame_auth
        hwriteFrame_io auth_frame_sendable [OF f(6)] Let_def)
qed

lemma server_clientAuth_io:
  assumes ed: "ed25519_correct ops" "length sk = 64" and pin: "pin = None \<or> pin = Some (ed25519_pub ops sk)"
  defines "am t cHS \<equiv> authOf ops sk RoleClient FrameClientAuth t cHS"
  assumes m: "DeriveMasterSecret hsec
      (Sum (addCertVerify (addIdentity t FrameClientAuth (ed25519_pub ops sk)) (amCertVerify (am t cHS)))) ProfileStandard = Inr master"
  shows "server_clientAuth ops ProfileStandard t hsec cHS sHS pin
      (io_state (marshal (auth_frame cHS DirClientToServer FrameClientAuth (AuthMessage_Encode (am t cHS))) @ i) out) =
    (io_state i out, Inr (master, ed25519_pub ops sk))"
proof -
  note f = authOf_facts [OF ed(1,2), where r = RoleClient and ft = FrameClientAuth and t = t and base = cHS, simplified, folded am_def]
  from f(4) obtain fk where fk: "DeriveFinishedKey cHS ProfileStandard = Inr fk"
    "VerifyFinished fk (Sum (addCertVerify (addIdentity t FrameClientAuth (ed25519_pub ops sk)) (amCertVerify (am t cHS)))) (amFinished (am t cHS)) ProfileStandard = Inr ()"
    by (auto simp: VerifyFinished_iff)
  show ?thesis
    using pin by (simp add: server_clientAuth_def hbind_def hsdk_def hlift_def hret_def orEmit_def decryptFailed_def verifyCertVerify_def
        f(2,3) fk m openAuthFrame_auth [OF f(5,6)] hreadFrame_io auth_frame_sendable [OF f(6)] Let_def) auto
qed

text \<open>The hellos of an honest client and server, and the secrets both derive from them.\<close>

lemma Standard_derivations:
  "\<exists>x. HandshakeSecret ss ProfileStandard = Inr x" "\<exists>a b. DeriveHandshakeTrafficSecrets x th ProfileStandard = Inr (a, b)"
  "\<exists>m. DeriveMasterSecret x th ProfileStandard = Inr m"
proof -
  show "\<exists>x. HandshakeSecret ss ProfileStandard = Inr x" by (simp add: HandshakeSecret_def)
  obtain a b where "HkdfExpandLabel x (str ''c hs'') th 32 SHA256 = Inr a" "HkdfExpandLabel x (str ''s hs'') th 32 SHA256 = Inr b"
    using HkdfExpandLabel_Inr [of 32 x] by fastforce
  then show "\<exists>a b. DeriveHandshakeTrafficSecrets x th ProfileStandard = Inr (a, b)" by (simp add: DeriveHandshakeTrafficSecrets_def)
  show "\<exists>m. DeriveMasterSecret x th ProfileStandard = Inr m"
    using HkdfExpandLabel_Inr [of 32 x] by (fastforce simp: DeriveMasterSecret_def)
qed

lemma hellos_io:
  assumes kem: "mlkem_correct ops" "x25519_correct ops" "KEMClient_ok client" "length xk = 32"
    and enc: "Encapsulate ops xk coin (KEMShare ops client) = Inr (ct, ss)"
    and prof: "liProfiles idc = [ProfileStandard]" "liProfiles ids = [ProfileStandard]"
  defines "CH \<equiv> marshal (hello_frame FrameClientHello (ClientHello_Encode (clientHello ops client [ProfileStandard])))"
  defines "SH \<equiv> marshal (hello_frame FrameServerHello (ServerHello_Encode (serverHelloOf ct)))"
  obtains t hsec cHS sHS where
    "\<And>i out. client_hellos ops client idc (io_state (SH @ i) out) = (io_state i (out @ CH), Inr (ProfileStandard, t, hsec, cHS, sHS))"
    "\<And>i out. server_hellos ops xk coin ids (io_state (CH @ i) out) = (io_state i (out @ SH), Inr (ProfileStandard, t, hsec, cHS, sHS))"
proof -
  let ?ch = "clientHello ops client [ProfileStandard]" and ?sh = "serverHelloOf ct"
  have share: "length (KEMShare ops client) = 1216" by (rule length_KEMShare [OF kem(1-3)])
  have ct: "KEMClient_SharedSecrets ops client ct = Inr ss" "length ct = 1120"
    using EncapsulateWith_SharedSecrets [OF kem] enc by (simp_all add: Encapsulate_def kem_sizes)
  have dec: "DecodeClientHello (ClientHello_Encode ?ch) = Inr ?ch" "DecodeServerHello (ServerHello_Encode ?sh) = Inr ?sh"
    using share ct(2) by (auto simp: DecodeClientHello_iff DecodeServerHello_iff ClientHello_ok_def ServerHello_ok_def clientHello_def serverHelloOf_def)
  have len: "length (ClientHello_Encode ?ch) \<le> 70000" "length (ServerHello_Encode ?sh) \<le> 70000"
    using share ct(2) by (simp_all add: ClientHello_Encode_def ServerHello_Encode_def ClientHello_TLVs_def ServerHello_TLVs_def
        clientHello_def serverHelloOf_def length_tlv_Encode)
  define t where "t = helloTranscript ?ch ?sh"
  obtain hsec where hsec: "HandshakeSecret ss ProfileStandard = Inr hsec" using Standard_derivations(1) by blast
  obtain cHS sHS where hts: "DeriveHandshakeTrafficSecrets hsec (Sum t) ProfileStandard = Inr (cHS, sHS)"
    using Standard_derivations(2) by blast
  have sel: "profilesOrDefault [ProfileStandard] = [ProfileStandard]" "validateProfiles [ProfileStandard] = Inr ()"
    "requireSelections ?sh [ProfileStandard] KEMX25519MLKEM768 = Inr ()" "requireOffers ?ch [ProfileStandard] = Inr ProfileStandard"
    by (simp_all add: profilesOrDefault_def validateProfiles_Inr requireSelections_def requireOffers_def serverHelloOf_def
        clientHello_def profile_MinKEM_def profile_Valid_def suite_defs)
  have ks: "chKEMShare ?ch = KEMShare ops client" by (simp add: clientHello_def)
  have min: "profile_MinKEM ProfileStandard = KEMX25519MLKEM768" by (simp add: profile_MinKEM_def)
  have "client_hellos ops client idc (io_state (SH @ i) out) = (io_state i (out @ CH), Inr (ProfileStandard, t, hsec, cHS, sHS))" for i out
    by (simp add: client_hellos_def prof sel hbind_def hsdk_def hlift_def hret_def Let_def sendCleartext_io [OF len(1)] SH_def CH_def
        recvCleartext_io [OF len(2)] dec) (simp add: serverHelloOf_def [of ct] ct hsec hts t_def [unfolded helloTranscript_def serverHelloOf_def, symmetric])
  moreover have "server_hellos ops xk coin ids (io_state (CH @ i) out) = (io_state i (out @ SH), Inr (ProfileStandard, t, hsec, cHS, sHS))" for i out
    by (simp add: server_hellos_def prof sel hbind_def hsdk_def hlift_def hret_def Let_def recvCleartext_io [OF len(1)] SH_def CH_def dec
        ks enc hsec min sendCleartext_io [OF len(2), unfolded serverHelloOf_def] hts serverHelloOf_def
        t_def [unfolded helloTranscript_def serverHelloOf_def, symmetric])
  ultimately show thesis using that by blast
qed

lemma handshake_run:
  assumes kem: "mlkem_correct ops" "x25519_correct ops" "KEMClient_ok client" "length xk = 32"
    and enc: "Encapsulate ops xk coin (KEMShare ops client) = Inr (ct, ss)"
    and prof: "liProfiles idc = [ProfileStandard]" "liProfiles ids = [ProfileStandard]"
    and ed: "ed25519_correct ops"
    and c: "length skc = 64" "edPriv idc = skc" "edPub idc = ed25519_pub ops skc"
    and s: "length sks = 64" "edPriv ids = sks" "edPub ids = ed25519_pub ops sks"
    and pin: "pinc = None \<or> pinc = Some (ed25519_pub ops sks)" "pins = None \<or> pins = Some (ed25519_pub ops skc)"
  shows "\<exists>co so master.
      runClientHandshake ops client idc pinc (io_state so []) = (io_state [] co, Inr (master, ed25519_pub ops sks, ProfileStandard))
    \<and> runServerHandshake ops xk coin ids pins (io_state co []) = (io_state [] so, Inr (master, ed25519_pub ops skc, ProfileStandard))"
proof -
  let ?CH = "marshal (hello_frame FrameClientHello (ClientHello_Encode (clientHello ops client [ProfileStandard])))"
  let ?SH = "marshal (hello_frame FrameServerHello (ServerHello_Encode (serverHelloOf ct)))"
  obtain t hsec cHS sHS where
    ch: "\<And>i out. client_hellos ops client idc (io_state (?SH @ i) out) = (io_state i (out @ ?CH), Inr (ProfileStandard, t, hsec, cHS, sHS))" and
    sh: "\<And>i out. server_hellos ops xk coin ids (io_state (?CH @ i) out) = (io_state i (out @ ?SH), Inr (ProfileStandard, t, hsec, cHS, sHS))"
    using hellos_io [OF kem enc prof] by metis
  define t' where "t' = addFinished (addCertVerify (addIdentity t FrameServerAuth (ed25519_pub ops sks))
      (amCertVerify (authOf ops sks RoleServer FrameServerAuth t sHS))) (amFinished (authOf ops sks RoleServer FrameServerAuth t sHS))"
  define SA where "SA = marshal (auth_frame sHS DirServerToClient FrameServerAuth (AuthMessage_Encode (authOf ops sks RoleServer FrameServerAuth t sHS)))"
  define CA where "CA = marshal (auth_frame cHS DirClientToServer FrameClientAuth (AuthMessage_Encode (authOf ops skc RoleClient FrameClientAuth t' cHS)))"
  obtain master where m: "DeriveMasterSecret hsec (Sum (addCertVerify (addIdentity t' FrameClientAuth (ed25519_pub ops skc))
      (amCertVerify (authOf ops skc RoleClient FrameClientAuth t' cHS)))) ProfileStandard = Inr master" using Standard_derivations(3) by blast
  have 1: "client_serverAuth ops ProfileStandard t cHS sHS pinc (io_state (SA @ i) out) = (io_state i out, Inr (t', ed25519_pub ops sks))" for i out
    unfolding SA_def t'_def by (rule client_serverAuth_io [OF ed s(1) pin(1)])
  have 2: "server_auth ops ids ProfileStandard t sHS (io_state i out) = (io_state i (out @ SA), Inr t')" for i out
    unfolding SA_def t'_def by (rule server_auth_io [OF ed s])
  have 3: "client_auth ops idc ProfileStandard t' hsec cHS (io_state i out) = (io_state i (out @ CA), Inr master)" for i out
    unfolding CA_def by (simp add: client_auth_io [OF ed c] m)
  have 4: "server_clientAuth ops ProfileStandard t' hsec cHS sHS pins (io_state (CA @ i) out) = (io_state i out, Inr (master, ed25519_pub ops skc))" for i out
    unfolding CA_def by (rule server_clientAuth_io [OF ed c(1) pin(2) m])
  have "runClientHandshake ops client idc pinc (io_state (?SH @ SA) []) = (io_state [] (?CH @ CA), Inr (master, ed25519_pub ops sks, ProfileStandard))"
    using 1 [of "[]"] by (simp add: runClientHandshake_def hbind_def hret_def ch 3)
  moreover have "runServerHandshake ops xk coin ids pins (io_state (?CH @ CA) []) = (io_state [] (?SH @ SA), Inr (master, ed25519_pub ops skc, ProfileStandard))"
    using 4 [of "[]"] by (simp add: runServerHandshake_def hbind_def hret_def sh 2)
  ultimately show ?thesis by blast
qed

lemma resolveIdentity_Standard:
  assumes "set (cfgProfiles cfg) \<subseteq> {ProfileStandard}" "length (cfgProfiles cfg) \<le> 1" "cfgIdentity cfg = Some sk"
  shows "resolveIdentity ops fresh cfg = Inr \<lparr>edPriv = sk, edPub = ed25519_pub ops sk, liProfiles = [ProfileStandard]\<rparr>"
proof -
  have "profilesOrDefault (cfgProfiles cfg) = [ProfileStandard]"
    using assms(1,2) by (cases "cfgProfiles cfg") (auto simp: profilesOrDefault_def sdkProfile_def)
  then show ?thesis using assms(3) by (simp add: resolveIdentity_def identity_def)
qed

lemma handshake_paired:
  assumes "mlkem_correct ops" "x25519_correct ops" "ed25519_correct ops" "KEMClient_ok client" "length xk = 32"
    and "Encapsulate ops xk coin (KEMShare ops client) = Inr (ct, ss)"
    and "set (cfgProfiles cfgc) \<subseteq> {ProfileStandard}" "length (cfgProfiles cfgc) \<le> 1" "cfgIdentity cfgc = Some skc" "length skc = 64"
    and "set (cfgProfiles cfgs) \<subseteq> {ProfileStandard}" "length (cfgProfiles cfgs) \<le> 1" "cfgIdentity cfgs = Some sks" "length sks = 64"
    and "cfgExpectedPeerKey cfgc \<in> {None, Some (ed25519_pub ops sks)}" "cfgExpectedPeerKey cfgs \<in> {None, Some (ed25519_pub ops skc)}"
  shows "\<exists>co so a b. DialRaw ops fresh client cfgc (io_state so []) = (io_state [] co, Inr a)
    \<and> AcceptRaw ops fresh' xk coin cfgs (io_state co []) = (io_state [] so, Inr b)
    \<and> peerID a = ed25519_pub ops sks \<and> peerID b = ed25519_pub ops skc \<and> paired a b \<and> paired b a"
proof -
  let ?idc = "\<lparr>edPriv = skc, edPub = ed25519_pub ops skc, liProfiles = [ProfileStandard]\<rparr>"
  let ?ids = "\<lparr>edPriv = sks, edPub = ed25519_pub ops sks, liProfiles = [ProfileStandard]\<rparr>"
  from handshake_run [OF assms(1,2,4-6), of ?idc ?ids skc sks "cfgExpectedPeerKey cfgc" "cfgExpectedPeerKey cfgs"] assms
  obtain co so master where r:
      "runClientHandshake ops client ?idc (cfgExpectedPeerKey cfgc) (io_state so []) = (io_state [] co, Inr (master, ed25519_pub ops sks, ProfileStandard))"
      "runServerHandshake ops xk coin ?ids (cfgExpectedPeerKey cfgs) (io_state co []) = (io_state [] so, Inr (master, ed25519_pub ops skc, ProfileStandard))"
    by auto
  note id = resolveIdentity_Standard [OF assms(7-9)] resolveIdentity_Standard [OF assms(11-13)]
  have std: "(newConn m p d d')\<lparr>cProfile := ProfileStandard\<rparr> = newConn m p d d'" for m p d d'
    by (simp add: newConn_def sdkProfile_def)
  have "DialRaw ops fresh client cfgc (io_state so []) = (io_state [] co, Inr (newConn master (ed25519_pub ops sks) DirClientToServer DirServerToClient))"
    using r(1) by (simp add: DialRaw_def hbind_def hsdk_def hret_def id std)
  moreover have "AcceptRaw ops fresh' xk coin cfgs (io_state co []) = (io_state [] so, Inr (newConn master (ed25519_pub ops skc) DirServerToClient DirClientToServer))"
    using r(2) by (simp add: AcceptRaw_def hbind_def hsdk_def hret_def id std)
  moreover have "peerID (newConn m p d d') = p" for m p d d' by (simp add: newConn_def)
  ultimately show ?thesis using paired_newConn by metis
qed

text \<open>
  Honest endpoints establish a session. Let a client and a server with Standard profiles, an
  Ed25519 identity each and either no pin or the pin of the other run \<open>DialRaw\<close> and \<open>AcceptRaw\<close> on the
  two ends of a stream, with primitives that behave as documented. Then there are octets for both
  directions such that each side reads exactly what the other writes, both succeed, each connection
  carries the identity of the other side, and the two connections are paired: same master secret,
  opposite directions, nothing pending.
\<close>

theorem handshake_establishes:
  assumes "mlkem_correct ops" "x25519_correct ops" "ed25519_correct ops" "KEMClient_ok client" "length xk = 32"
    and "Encapsulate ops xk coin (KEMShare ops client) = Inr (ct, ss)"
    and "set (cfgProfiles cfgc) \<subseteq> {ProfileStandard}" "length (cfgProfiles cfgc) \<le> 1" "cfgIdentity cfgc = Some skc" "length skc = 64"
    and "set (cfgProfiles cfgs) \<subseteq> {ProfileStandard}" "length (cfgProfiles cfgs) \<le> 1" "cfgIdentity cfgs = Some sks" "length sks = 64"
    and "cfgExpectedPeerKey cfgc \<in> {None, Some (ed25519_pub ops sks)}" "cfgExpectedPeerKey cfgs \<in> {None, Some (ed25519_pub ops skc)}"
  shows "\<exists>co so a b. DialRaw ops fresh client cfgc (io_state so []) = (io_state [] co, Inr a)
    \<and> AcceptRaw ops fresh' xk coin cfgs (io_state co []) = (io_state [] so, Inr b)
    \<and> peerID a = ed25519_pub ops sks \<and> peerID b = ed25519_pub ops skc \<and> paired a b \<and> paired b a"
  using assms by (rule handshake_paired)

definition demoSkc :: bytes where "demoSkc = replicate 64 1"
definition demoSks :: bytes where "demoSks = replicate 64 2"

definition demoCfg :: "bytes \<Rightarrow> bytes \<Rightarrow> config" where
  "demoCfg sk peer = \<lparr>cfgIdentity = Some sk, cfgProfiles = [], cfgExpectedPeerKey = Some (ed25519_pub demo_ops peer)\<rparr>"

lemma demo_handshake:
  "\<exists>co so a b. DialRaw demo_ops [] demoClient (demoCfg demoSkc demoSks) (io_state so []) = (io_state [] co, Inr a)
    \<and> AcceptRaw demo_ops [] (replicate 32 2) [] (demoCfg demoSks demoSkc) (io_state co []) = (io_state [] so, Inr b)
    \<and> peerID a = ed25519_pub demo_ops demoSks \<and> peerID b = ed25519_pub demo_ops demoSkc \<and> paired a b \<and> paired b a"
proof -
  from demo_kem(2) obtain ct ss where e: "Encapsulate demo_ops (replicate 32 2) [] (KEMShare demo_ops demoClient) = Inr (ct, ss)" by blast
  show ?thesis
    by (rule handshake_paired [OF demo_ops_correct demo_kem(1) _ e]) (simp_all add: demoCfg_def demoSkc_def demoSks_def)
qed

theorem handshake_establishes_witness:
  "\<exists>co so a b. DialRaw demo_ops [] demoClient (demoCfg demoSkc demoSks) (io_state so []) = (io_state [] co, Inr a)
    \<and> AcceptRaw demo_ops [] (replicate 32 2) [] (demoCfg demoSks demoSkc) (io_state co []) = (io_state [] so, Inr b) \<and> paired a b"
proof -
  from demo_kem(2) obtain ct ss where e: "Encapsulate demo_ops (replicate 32 2) [] (KEMShare demo_ops demoClient) = Inr (ct, ss)" by blast
  have "\<exists>co so a b. DialRaw demo_ops [] demoClient (demoCfg demoSkc demoSks) (io_state so []) = (io_state [] co, Inr a)
      \<and> AcceptRaw demo_ops [] (replicate 32 2) [] (demoCfg demoSks demoSkc) (io_state co []) = (io_state [] so, Inr b)
      \<and> peerID a = ed25519_pub demo_ops demoSks \<and> peerID b = ed25519_pub demo_ops demoSkc \<and> paired a b \<and> paired b a"
    by (rule handshake_establishes [OF demo_ops_correct demo_kem(1) _ e]) (simp_all add: demoCfg_def demoSkc_def demoSks_def)
  then show ?thesis by blast
qed

definition demoId :: "bytes \<Rightarrow> localIdentity" where
  "demoId sk = \<lparr>edPriv = sk, edPub = ed25519_pub demo_ops sk, liProfiles = [ProfileStandard]\<rparr>"

lemma demo_run:
  "\<exists>co so master.
     runClientHandshake demo_ops demoClient (demoId demoSkc) (Some (ed25519_pub demo_ops demoSks)) (io_state so [])
       = (io_state [] co, Inr (master, ed25519_pub demo_ops demoSks, ProfileStandard))
   \<and> runServerHandshake demo_ops (replicate 32 2) [] (demoId demoSks) (Some (ed25519_pub demo_ops demoSkc)) (io_state co [])
       = (io_state [] so, Inr (master, ed25519_pub demo_ops demoSkc, ProfileStandard))"
proof -
  from demo_kem(2) obtain ct ss where e: "Encapsulate demo_ops (replicate 32 2) [] (KEMShare demo_ops demoClient) = Inr (ct, ss)" by blast
  show ?thesis
    by (rule handshake_run [OF demo_ops_correct(1,2) demo_kem(1) _ e _ _ demo_ops_correct(3)])
      (simp_all add: demoId_def demoSkc_def demoSks_def)
qed

theorem client_handshake_authenticates_witness:
  "\<exists>so s' master i sig. runClientHandshake demo_ops demoClient (demoId demoSkc) (Some (ed25519_pub demo_ops demoSks)) (io_state so [])
      = (s', Inr (master, ed25519_pub demo_ops demoSks, ProfileStandard)) \<and> ed25519_verify demo_ops (ed25519_pub demo_ops demoSks) i sig"
proof -
  from demo_run obtain co so master where
    r: "runClientHandshake demo_ops demoClient (demoId demoSkc) (Some (ed25519_pub demo_ops demoSks)) (io_state so [])
       = (io_state [] co, Inr (master, ed25519_pub demo_ops demoSks, ProfileStandard))" by blast
  with client_handshake_authenticates [OF r] show ?thesis by blast
qed

theorem server_handshake_authenticates_witness:
  "\<exists>co s' master i sig. runServerHandshake demo_ops (replicate 32 2) [] (demoId demoSks) (Some (ed25519_pub demo_ops demoSkc)) (io_state co [])
      = (s', Inr (master, ed25519_pub demo_ops demoSkc, ProfileStandard)) \<and> ed25519_verify demo_ops (ed25519_pub demo_ops demoSkc) i sig"
proof -
  from demo_run obtain co so master where
    r: "runServerHandshake demo_ops (replicate 32 2) [] (demoId demoSks) (Some (ed25519_pub demo_ops demoSkc)) (io_state co [])
       = (io_state [] so, Inr (master, ed25519_pub demo_ops demoSkc, ProfileStandard))" by blast
  with server_handshake_authenticates [OF r] show ?thesis unfolding Let_def by blast
qed

section \<open>What is revealed\<close>

text \<open>\<open>emits m P\<close>: whatever happens, \<open>m\<close> appends octets that satisfy \<open>P\<close> to what has been written.\<close>

definition emits :: "'a hs \<Rightarrow> (bytes \<Rightarrow> bool) \<Rightarrow> bool" where
  "emits m P \<longleftrightarrow> (\<forall>s. \<exists>x. ioOut (fst (m s)) = ioOut s @ x \<and> P x)"

definition quiet :: "'a hs \<Rightarrow> bool" where
  "quiet m \<longleftrightarrow> (\<forall>s. ioOut (fst (m s)) = ioOut s)"

lemma quiet_basic [intro!, simp]: "quiet (hret x)" "quiet (hsdk r)" "quiet (hlift r')" "quiet hreadFrame"
  by (auto simp: quiet_def hret_def hsdk_def hlift_def hreadFrame_def split: prod.splits)

lemma quiet_bind [intro]: "quiet m \<Longrightarrow> (\<And>x. quiet (f x)) \<Longrightarrow> quiet (hbind m f)"
  by (auto simp: quiet_def hbind_def split: prod.splits sum.splits) (metis fst_conv)+

lemma quiet_recvCleartext [simp]: "quiet (recvCleartext ft)"
  unfolding recvCleartext_def by (intro quiet_bind) auto

lemma emits_quiet: "quiet m \<Longrightarrow> P [] \<Longrightarrow> emits m P"
  by (auto simp: quiet_def emits_def)

lemma emits_bind_quiet:
  assumes "emits m P" "\<And>x. quiet (f x)"
  shows "emits (hbind m f) P"
  unfolding emits_def
proof
  fix s
  from assms(1) obtain x where x: "ioOut (fst (m s)) = ioOut s @ x" "P x" unfolding emits_def by blast
  have "ioOut (fst (hbind m f s)) = ioOut (fst (m s))"
    using assms(2) by (simp add: hbind_def quiet_def split: prod.splits sum.splits)
  with x show "\<exists>x. ioOut (fst (hbind m f s)) = ioOut s @ x \<and> P x" by auto
qed

lemma quiet_bind_emits:
  assumes "quiet m" "\<And>x. emits (f x) P" "P []"
  shows "emits (hbind m f) P"
  unfolding emits_def
proof
  fix s
  show "\<exists>x. ioOut (fst (hbind m f s)) = ioOut s @ x \<and> P x"
  proof (cases "m s")
    case (Pair s1 r)
    have o: "ioOut s1 = ioOut s" using assms(1) Pair unfolding quiet_def by (metis fst_conv)
    show ?thesis
    proof (cases r)
      case (Inl e)
      then show ?thesis using Pair o assms(3) by (simp add: hbind_def)
    next
      case (Inr y)
      from assms(2) [of y] obtain x where "ioOut (fst (f y s1)) = ioOut s1 @ x" "P x" unfolding emits_def by blast
      with Inr Pair o show ?thesis by (simp add: hbind_def)
    qed
  qed
qed

definition error_octets :: "direction \<Rightarrow> u64 \<Rightarrow> bytes \<Rightarrow> bool" where
  "error_octets dir seq y \<longleftrightarrow> y = [] \<or> (\<exists>base code p w. sealFrame base dir ChanControl seq FrameError (EncodeErrorBody code []) p = Inr w \<and> prefix y w)"

lemma hwriteFrame_prefix: "emits (hwriteFrame w) (\<lambda>x. prefix x w)"
  by (auto simp: emits_def hwriteFrame_def writeFrame_def take_is_prefix split: prod.splits write_result.splits list.splits)

lemma emits_orEmit_bind:
  fixes f :: "'a \<Rightarrow> 'b hs"
  assumes "\<And>x. emits (f x) (error_octets d q)"
  shows "emits (hbind (orEmit r b d q p) f) (error_octets d q)"
proof (cases r)
  case (Inr x)
  then show ?thesis using assms by (simp add: orEmit_def hbind_def hret_def emits_def)
next
  case (Inl ce)
  obtain code e where ce: "ce = (code, e)" by (cases ce)
  have "\<exists>x. ioOut (fst ((emitHandshakeError b d q code p e :: 'a hs) s)) = ioOut s @ x \<and> error_octets d q x" for s
  proof (cases "sealFrame b d ChanControl q FrameError (EncodeErrorBody code []) p")
    case (Inl a)
    then show ?thesis by (simp add: emitHandshakeError_def error_octets_def)
  next
    case (Inr w)
    from hwriteFrame_prefix [of w] obtain x where "ioOut (fst (hwriteFrame w s)) = ioOut s @ x" "prefix x w" unfolding emits_def by blast
    with Inr show ?thesis by (auto simp: emitHandshakeError_def error_octets_def)
  qed
  moreover have "snd ((emitHandshakeError b d q code p e :: 'a hs) s) = Inl e" for s
    by (simp add: emitHandshakeError_def split: sum.splits)
  ultimately show ?thesis
    by (simp add: emits_def Inl ce orEmit_def hbind_def case_prod_unfold)
qed

lemma client_serverAuth_emits: "emits (client_serverAuth ops p t cHS sHS pin) (error_octets DirClientToServer 0)"
proof -
  have n: "error_octets d q []" for d q by (simp add: error_octets_def)
  show ?thesis
    unfolding client_serverAuth_def Let_def
    by (intro quiet_bind_emits emits_orEmit_bind n quiet_basic) (auto intro: emits_quiet n)
qed

lemma client_hellos_emits:
  "emits (client_hellos ops client id') (\<lambda>x. prefix x (marshal (cleartext_frame FrameClientHello
     (ClientHello_Encode (clientHello ops client (profilesOrDefault (liProfiles id')))))))"
proof -
  have "emits (sendCleartext FrameClientHello pl) (\<lambda>x. prefix x (marshal (cleartext_frame FrameClientHello pl)))" for pl
    using hwriteFrame_prefix by (simp add: sendCleartext_def marshal_def)
  then show ?thesis unfolding client_hellos_def Let_def
    by (intro quiet_bind_emits emits_bind_quiet quiet_bind quiet_basic quiet_recvCleartext) (auto split: prod.splits)
qed

text \<open>
  C8. A client reveals its identity to the pinned server only. Let a client run the handshake with a
  pinned key, against any peer and any network. Then either it has verified a signature of the
  pinned key over this exchange, or all it has ever written is (a prefix of) its CLIENT_HELLO and (a
  prefix of) one sealed ERROR frame: no CLIENT_AUTH, which carries its identity.
\<close>

theorem no_auth_to_impostor:
  assumes "runClientHandshake ops client id' (Some k) s = (s', r)"
  shows "(\<exists>t sig. VerifyCertVerify ops k RoleServer (Sum (addIdentity t FrameServerAuth k)) sig = Inr ()
      \<and> (\<exists>sh. t = helloTranscript (clientHello ops client (profilesOrDefault (liProfiles id'))) sh))
    \<or> (\<exists>x y. ioOut s' = ioOut s @ x @ y \<and> error_octets DirClientToServer 0 y
        \<and> prefix x (marshal (cleartext_frame FrameClientHello
            (ClientHello_Encode (clientHello ops client (profilesOrDefault (liProfiles id')))))))"
proof (cases "client_hellos ops client id' s")
  case (Pair s1 r1)
  from client_hellos_emits [of ops client id'] Pair obtain x where x: "ioOut s1 = ioOut s @ x"
    "prefix x (marshal (cleartext_frame FrameClientHello (ClientHello_Encode (clientHello ops client (profilesOrDefault (liProfiles id'))))))"
    unfolding emits_def by (metis fst_conv)
  show ?thesis
  proof (cases r1)
    case (Inl e)
    with assms Pair have "s' = s1" by (simp add: runClientHandshake_def hbind_def)
    with x show ?thesis by (intro disjI2 exI [of _ x] exI [of _ "[]"]) (simp add: error_octets_def)
  next
    case (Inr v)
    obtain p t hsec cHS sHS where v: "v = (p, t, hsec, cHS, sHS)" by (cases v)
    obtain s2 r2 where a: "client_serverAuth ops p t cHS sHS (Some k) s1 = (s2, r2)" by fastforce
    show ?thesis
    proof (cases r2)
      case (Inl e)
      with assms Pair Inr v a have "s' = s2" by (simp add: runClientHandshake_def hbind_def)
      moreover from client_serverAuth_emits [of ops p t cHS sHS "Some k"] a obtain y where "ioOut s2 = ioOut s1 @ y" "error_octets DirClientToServer 0 y"
        unfolding emits_def by (metis fst_conv)
      ultimately show ?thesis using x by auto
    next
      case (Inr u)
      obtain t' peer where u: "u = (t', peer)" by (cases u)
      from client_serverAuth_Inr [OF a [unfolded Inr u]] client_hellos_Inr [OF Pair [unfolded \<open>r1 = Inr v\<close> v]] show ?thesis
        by auto
    qed
  qed
qed

theorem no_auth_to_impostor_witness:
  "\<exists>s' r x y. runClientHandshake demo_ops demoClient (demoId demoSkc) (Some (replicate 31 0)) (io_state [] []) = (s', r)
    \<and> ioOut s' = x @ y \<and> error_octets DirClientToServer 0 y"
proof -
  obtain s' r where "runClientHandshake demo_ops demoClient (demoId demoSkc) (Some (replicate 31 0)) (io_state [] []) = (s', r)" by fastforce
  with no_auth_to_impostor [OF this] show ?thesis by (auto simp: VerifyCertVerify_Inr io_state_def)
qed

end
