(* ===== verification/Relay.thy ===== *)
theory Relay
  imports RecordLayer "HOL-Library.Sublist"
begin

text \<open>
  The frame relay of \<^verbatim>\<open>src/impl/go/relay\<close>: reading one raw frame off a leg, the forwarding loop of
  one direction with its inspection hook, and \<open>Run\<close>, which runs both directions and closes both legs
  as soon as one of them ends. The lemmas show that a direction forwards exactly the longest run of
  well-formed accepted frames, octet for octet, and that the flow is torn down as a unit.
\<close>

section \<open>Raw frames (frame.go)\<close>

text \<open>
  A leg is read to the octets it still delivers and the way it ends: by a close of the peer or by a
  transport error. \<open>readFull\<close> is \<^verbatim>\<open>io.ReadFull\<close>: the octets read, and what is left.
\<close>

datatype stream_end = EndEOF | EndErr

datatype io_err = IoEOF | IoUnexpectedEOF | IoErr

definition readFull :: "stream_end \<Rightarrow> nat \<Rightarrow> bytes \<Rightarrow> (io_err + bytes) \<times> bytes" where
  "readFull e n r =
    (if n \<le> length r then (Inr (take n r), drop n r)
     else (Inl (case e of EndErr \<Rightarrow> IoErr | EndEOF \<Rightarrow> if r = [] then IoEOF else IoUnexpectedEOF), []))"

datatype raw_err = RawIO io_err | RawMagic | RawTooLarge

definition readRawFrame :: "stream_end \<Rightarrow> u32 \<Rightarrow> bytes \<Rightarrow> (raw_err + bytes) \<times> bytes" where
  "readRawFrame e maxSz r =
    (case readFull e HeaderSize r of
       (Inl err, rest) \<Rightarrow> (Inl (RawIO err), rest)
     | (Inr header, rest) \<Rightarrow>
         if take 4 header \<noteq> Magic then (Inl RawMagic, rest)
         else
           let payloadLen = unat (get_u32 (gslice 17 21 header)) in
           if HeaderSize + payloadLen > unat maxSz then (Inl RawTooLarge, rest)
           else if payloadLen > 0 then
             (case readFull e payloadLen rest of
                (Inl err, rest') \<Rightarrow> (Inl (RawIO (if err = IoEOF then IoUnexpectedEOF else err)), rest')
              | (Inr payload, rest') \<Rightarrow> (Inr (header @ payload), rest'))
           else (Inr header, rest))"

definition writeRawFrame :: "write_result \<Rightarrow> bytes \<Rightarrow> bytes \<times> bool" where
  "writeRawFrame w raw = (case w of WriteOk \<Rightarrow> (raw, True) | WriteFail n \<Rightarrow> (take n raw, False))"

section \<open>Forwarding (relay.go)\<close>

type_synonym relay_dir = byte

definition DirAToB :: relay_dir where "DirAToB = 0"
definition DirBToA :: relay_dir where "DirBToA = 1"

record FrameHeader =
  hRaw :: bytes
  hVersion :: byte
  hFlags :: byte
  hType :: u16
  hChannel :: u16
  hSeq :: u64
  hPayloadLen :: u32

type_synonym 'e hook = "relay_dir \<Rightarrow> FrameHeader \<Rightarrow> 'e + unit"

record 'e relay =
  rHook :: "'e hook option"
  rMaxFrameSize :: u32

definition relay_maxFrameSize :: "'e relay \<Rightarrow> u32" where
  "relay_maxFrameSize r = (if rMaxFrameSize r = 0 then of_nat MaxFrameSize else rMaxFrameSize r)"

definition frameHeader :: "bytes \<Rightarrow> frame \<Rightarrow> FrameHeader" where
  "frameHeader raw f =
    \<lparr>hRaw = take HeaderSize raw, hVersion = fVersion f, hFlags = fFlags f, hType = fType f, hChannel = fChannel f,
     hSeq = fSeq f, hPayloadLen = of_nat (length (fPayload f))\<rparr>"

datatype 'e fwd_err = FwdDone | FwdRead raw_err | FwdMalformed npamp_err | FwdRejected 'e | FwdWrite

text \<open>
  One round of \<open>forward\<close>: what is left of the source, the octets written to the destination, and the
  result when the loop ends with this round. \<open>cancelled\<close> says that the context is done when the round
  starts, \<open>e\<close> how the source ends, and \<open>w\<close> what becomes of the write.
\<close>

definition forward_round :: "'e relay \<Rightarrow> relay_dir \<Rightarrow> bool \<Rightarrow> stream_end \<Rightarrow> write_result \<Rightarrow> bytes
    \<Rightarrow> bytes \<times> bytes \<times> ('e fwd_err + unit) option" where
  "forward_round r dir cancelled e w src =
    (if cancelled then (src, [], Some (Inl FwdDone))
     else
       (case readRawFrame e (relay_maxFrameSize r) src of
          (Inl err, rest) \<Rightarrow> (rest, [], Some (if err = RawIO IoEOF then Inr () else Inl (FwdRead err)))
        | (Inr raw, rest) \<Rightarrow>
            (case UnmarshalBinary raw of
               Inl err \<Rightarrow> (rest, [], Some (Inl (FwdMalformed err)))
             | Inr f \<Rightarrow>
                 (case (case rHook r of None \<Rightarrow> Inr () | Some hook \<Rightarrow> hook dir (frameHeader raw f)) of
                    Inl err \<Rightarrow> (rest, [], Some (Inl (FwdRejected err)))
                  | Inr _ \<Rightarrow>
                      (case writeRawFrame w raw of
                         (out, True) \<Rightarrow> (rest, out, None)
                       | (out, False) \<Rightarrow> (rest, out, Some (Inl FwdWrite)))))))"

lemma readFull_rest: "readFull e n r = (Inr x, rest) \<Longrightarrow> r = x @ rest \<and> length x = n"
  by (auto simp: readFull_def split: if_splits)

lemma readRawFrame_Inr:
  assumes "readRawFrame e m r = (Inr raw, rest)"
  shows "r = raw @ rest \<and> HeaderSize \<le> length raw"
  using assms by (auto simp: readRawFrame_def Let_def split: prod.splits sum.splits if_splits dest!: readFull_rest)

lemma forward_round_shorter:
  assumes "forward_round r dir c e w src = (rest, out, None)"
  shows "length rest < length src"
  using assms readRawFrame_Inr [of e "relay_maxFrameSize r" src]
  by (auto simp: forward_round_def HeaderSize_def split: if_splits prod.splits sum.splits option.splits bool.splits)

text \<open>
  \<open>forward\<close>: the octets written and the result. \<open>env i\<close> gives the state of the context and the fate of
  the write in round \<open>i\<close>.
\<close>

function forward :: "'e relay \<Rightarrow> relay_dir \<Rightarrow> stream_end \<Rightarrow> (nat \<Rightarrow> bool \<times> write_result) \<Rightarrow> nat \<Rightarrow> bytes \<Rightarrow> bytes \<times> ('e fwd_err + unit)" where
  "forward r dir e env i src =
    (case forward_round r dir (fst (env i)) e (snd (env i)) src of
       (rest, out, Some res) \<Rightarrow> (out, res)
     | (rest, out, None) \<Rightarrow> (case forward r dir e env (Suc i) rest of (out', res) \<Rightarrow> (out @ out', res)))"
  by auto
termination
  by (relation "measure (\<lambda>(r, dir, e, env, i, src). length src)") (auto dest: forward_round_shorter sym)

declare forward.simps [simp del]

section \<open>What a direction forwards\<close>

text \<open>The frames that a relay passes on: conformant, within its size limit, accepted by its hook.\<close>

definition passes :: "'e relay \<Rightarrow> relay_dir \<Rightarrow> frame \<Rightarrow> bool" where
  "passes r dir f \<longleftrightarrow> frame_ok f \<and> HeaderSize + length (fPayload f) \<le> unat (relay_maxFrameSize r)
    \<and> (case rHook r of None \<Rightarrow> True | Some hook \<Rightarrow> hook dir (frameHeader (marshal f) f) = Inr ())"

lemma marshal_split:
  assumes "frame_ok f"
  obtains hdr where "marshal f = hdr @ fPayload f" "length hdr = HeaderSize" "take 4 hdr = Magic"
    "gslice 17 21 hdr = put_u32 (of_nat (length (fPayload f)))"
proof -
  from assms have nz: "fVersion f \<noteq> 0" by (auto simp: frame_ok_def ProtocolVersion_def)
  let ?pre = "HeaderPrefix f (of_nat (length (fPayload f)))"
  let ?hdr = "?pre @ put_u32 (crc32c ?pre) @ replicate 11 0"
  have "marshal f = ?hdr @ fPayload f" "length ?hdr = HeaderSize"
    using marshal_layout [OF nz] by (simp_all add: HeaderSize_def)
  moreover have "take 4 ?hdr = Magic" "gslice 17 21 ?hdr = put_u32 (of_nat (length (fPayload f)))"
    using prefix_fields(7,5) [of f "of_nat (length (fPayload f))" "put_u32 (crc32c ?pre) @ replicate 11 0"] by simp_all
  ultimately show ?thesis by (rule that)
qed

lemma readRawFrame_marshal:
  assumes "frame_ok f" "HeaderSize + length (fPayload f) \<le> unat m"
  shows "readRawFrame e m (marshal f @ rest) = (Inr (marshal f), rest)"
proof -
  from assms(1) obtain hdr where h: "marshal f = hdr @ fPayload f" "length hdr = HeaderSize" "take 4 hdr = Magic"
    "gslice 17 21 hdr = put_u32 (of_nat (length (fPayload f)))" by (rule marshal_split)
  from assms(1) have len: "unat (of_nat (length (fPayload f)) :: u32) = length (fPayload f)"
    by (simp add: frame_ok_def unat_of_nat_small)
  show ?thesis using h assms(2) by (auto simp: readRawFrame_def readFull_def Let_def len)
qed

lemma forward_round_passes:
  assumes "passes r dir f"
  shows "forward_round r dir False e w (marshal f @ rest) =
    (case w of WriteOk \<Rightarrow> (rest, marshal f, None) | WriteFail n \<Rightarrow> (rest, take n (marshal f), Some (Inl FwdWrite)))"
proof -
  from assms have ok: "frame_ok f" and size: "HeaderSize + length (fPayload f) \<le> unat (relay_maxFrameSize r)"
    and hk: "(case rHook r of None \<Rightarrow> Inr () | Some hook \<Rightarrow> hook dir (frameHeader (marshal f) f)) = Inr ()"
    by (auto simp: passes_def split: option.splits)
  show ?thesis
    by (simp add: forward_round_def readRawFrame_marshal [OF ok size] UnmarshalBinary_marshal [OF ok] hk writeRawFrame_def
        split: write_result.splits)
qed

text \<open>A round that writes anything has taken a frame that passes.\<close>

lemma forward_round_writes:
  assumes "forward_round r dir c e w src = (rest, out, res)" "out \<noteq> [] \<or> res = None"
  obtains f where "passes r dir f" "src = marshal f @ rest" "\<not> c" "(out, res = None) = writeRawFrame w (marshal f)"
proof -
  from assms have nc: "\<not> c" by (auto simp: forward_round_def)
  from assms obtain raw where raw: "readRawFrame e (relay_maxFrameSize r) src = (Inr raw, rest)"
    by (auto simp: forward_round_def split: if_splits prod.splits sum.splits option.splits bool.splits)
  with assms obtain f where f: "UnmarshalBinary raw = Inr f"
    by (auto simp: forward_round_def split: if_splits prod.splits sum.splits option.splits bool.splits)
  from assms raw f have hk: "(case rHook r of None \<Rightarrow> Inr () | Some hook \<Rightarrow> hook dir (frameHeader raw f)) = Inr ()"
    and wr: "(out, res = None) = writeRawFrame w raw"
    by (auto simp: forward_round_def split: if_splits prod.splits sum.splits bool.splits)
  from UnmarshalBinary_sound [OF f] have m: "marshal f = raw" and ok: "frame_ok f" by simp_all
  have "length raw \<le> unat (relay_maxFrameSize r)"
    using raw by (auto simp: readRawFrame_def Let_def split: prod.splits sum.splits if_splits dest!: readFull_rest)
  then have "passes r dir f" using ok hk by (simp add: passes_def m length_marshal flip: m split: option.splits)
  moreover have "src = marshal f @ rest" using readRawFrame_Inr [OF raw] by (simp add: m)
  ultimately show ?thesis using nc wr unfolding m [symmetric] by (rule that)
qed

text \<open>The benign environment: the context is never done and every write succeeds.\<close>

definition benign :: "nat \<Rightarrow> bool \<times> write_result" where
  "benign i = (False, WriteOk)"

lemma forward_passes:
  "passes r dir f \<Longrightarrow> forward r dir e benign i (marshal f @ rest) =
    (case forward r dir e benign (Suc i) rest of (out, res) \<Rightarrow> (marshal f @ out, res))"
  by (subst forward.simps) (simp add: benign_def forward_round_passes)

lemma forward_round_stops:
  assumes "\<nexists>f rest. passes r dir f \<and> src = marshal f @ rest"
  shows "\<exists>rest res. forward_round r dir c e w src = (rest, [], Some res) \<and> (res = Inr () \<longleftrightarrow> \<not> c \<and> src = [] \<and> e = EndEOF)"
proof -
  obtain rest out res where fr: "forward_round r dir c e w src = (rest, out, res)" by (metis prod_cases3)
  have "out = [] \<and> res \<noteq> None"
  proof (rule ccontr)
    assume "\<not> (out = [] \<and> res \<noteq> None)"
    with fr obtain f where "passes r dir f" "src = marshal f @ rest" using forward_round_writes by (metis (no_types))
    with assms show False by blast
  qed
  moreover have "res = Some (Inr ()) \<longleftrightarrow> \<not> c \<and> src = [] \<and> e = EndEOF"
  proof
    assume "res = Some (Inr ())"
    with fr show "\<not> c \<and> src = [] \<and> e = EndEOF"
      by (auto simp: forward_round_def readRawFrame_def readFull_def Let_def HeaderSize_def
          split: if_splits prod.splits sum.splits option.splits bool.splits stream_end.splits)
  next
    assume "\<not> c \<and> src = [] \<and> e = EndEOF"
    with fr show "res = Some (Inr ())" by (auto simp: forward_round_def readRawFrame_def readFull_def HeaderSize_def)
  qed
  ultimately show ?thesis using fr by auto
qed

lemma forward_exact:
  assumes "list_all (passes r dir) fs" "\<nexists>f rest. passes r dir f \<and> tail = marshal f @ rest"
  shows "\<exists>res. forward r dir e benign i (concat (map marshal fs) @ tail) = (concat (map marshal fs), res)
    \<and> (res = Inr () \<longleftrightarrow> tail = [] \<and> e = EndEOF)"
  using assms(1)
proof (induction fs arbitrary: i)
  case Nil
  from forward_round_stops [OF assms(2), of False e WriteOk] show ?case
    by (subst forward.simps) (auto simp: benign_def)
next
  case (Cons f fs)
  from Cons obtain res where "forward r dir e benign (Suc i) (concat (map marshal fs) @ tail) = (concat (map marshal fs), res)"
      "res = Inr () \<longleftrightarrow> tail = [] \<and> e = EndEOF" by auto
  with Cons.prems show ?case by (simp add: forward_passes)
qed

text \<open>Every stream starts with a longest run of frames that pass.\<close>

lemma passes_run:
  "\<exists>fs tail. src = concat (map marshal fs) @ tail \<and> list_all (passes r dir) fs \<and> (\<nexists>f rest. passes r dir f \<and> tail = marshal f @ rest)"
proof (induction "length src" arbitrary: src rule: less_induct)
  case less
  show ?case
  proof (cases "\<exists>f rest. passes r dir f \<and> src = marshal f @ rest")
    case True
    then obtain f rest where f: "passes r dir f" "src = marshal f @ rest" by blast
    then have "length rest < length src" by (simp add: length_marshal HeaderSize_def)
    from less [OF this] obtain fs tail where t: "rest = concat (map marshal fs) @ tail" "list_all (passes r dir) fs"
      "\<nexists>f rest. passes r dir f \<and> tail = marshal f @ rest" by blast
    show ?thesis using t f by (intro exI [of _ "f # fs"] exI [of _ tail]) simp
  next
    case False
    then show ?thesis by (intro exI [of _ "[]"] exI [of _ src]) simp
  qed
qed

lemma passes_prefix_free:
  assumes "passes r dir f" "passes r dir g" "marshal f @ a = marshal g @ b"
  shows "f = g \<and> a = b"
proof -
  from assms(1) have ok: "frame_ok f" "readRawFrame EndEOF (relay_maxFrameSize r) (marshal f @ a) = (Inr (marshal f), a)"
    using readRawFrame_marshal [of f] by (auto simp: passes_def)
  from assms(2) have ok': "frame_ok g" "readRawFrame EndEOF (relay_maxFrameSize r) (marshal g @ b) = (Inr (marshal g), b)"
    using readRawFrame_marshal [of g] by (auto simp: passes_def)
  have "(Inr (marshal f) :: raw_err + bytes, a) = (Inr (marshal g), b)"
    by (rule trans [OF ok(2) [symmetric, unfolded assms(3)] ok'(2)])
  then have m: "marshal g = marshal f" and ab: "a = b" by simp_all
  from UnmarshalBinary_marshal [OF ok(1)] UnmarshalBinary_marshal [OF ok'(1), unfolded m] ab show ?thesis by simp
qed

lemma passes_prefix:
  assumes "list_all (passes r dir) gs" "list_all (passes r dir) fs" "\<nexists>f rest. passes r dir f \<and> tail = marshal f @ rest"
    "concat (map marshal fs) @ tail = concat (map marshal gs) @ rest"
  shows "prefix gs fs"
  using assms(1,2,4)
proof (induction gs arbitrary: fs)
  case (Cons g gs)
  show ?case
  proof (cases fs)
    case Nil
    with Cons.prems assms(3) show ?thesis by auto
  next
    case (Cons f fs')
    with Cons.prems have "g = f \<and> concat (map marshal gs) @ rest = concat (map marshal fs') @ tail"
      by (intro passes_prefix_free [of r dir]) auto
    with Cons.IH [of fs'] Cons.prems Cons show ?thesis by auto
  qed
qed simp

text \<open>Whatever the environment does, only whole frames that pass are written, but for the last one.\<close>

lemma forward_safe:
  "\<exists>fs. list_all (passes r dir) fs \<and> prefix (fst (forward r dir e env i src)) (concat (map marshal fs))
     \<and> prefix (concat (map marshal fs)) src"
proof (induction r dir e env i src rule: forward.induct)
  case (1 r dir e env i src)
  obtain rest out res where fr: "forward_round r dir (fst (env i)) e (snd (env i)) src = (rest, out, res)" by (metis prod_cases3)
  show ?case
  proof (cases "out = [] \<and> res \<noteq> None")
    case True
    then show ?thesis using fr by (subst forward.simps) (auto intro!: exI [of _ "[]"])
  next
    case False
    with fr obtain f where f: "passes r dir f" "src = marshal f @ rest"
      and w: "(out, res = None) = writeRawFrame (snd (env i)) (marshal f)"
      using forward_round_writes by (metis (no_types))
    show ?thesis
    proof (cases res)
      case None
      with w have out: "out = marshal f" by (auto simp: writeRawFrame_def split: write_result.splits)
      from 1 [OF fr [symmetric] refl None] obtain fs where "list_all (passes r dir) fs"
        "prefix (fst (forward r dir e env (Suc i) rest)) (concat (map marshal fs))" "prefix (concat (map marshal fs)) rest" by blast
      with f out None fr show ?thesis
        by (subst forward.simps) (auto intro!: exI [of _ "f # fs"] split: prod.splits)
    next
      case (Some x)
      with w have "prefix out (marshal f)" by (auto simp: writeRawFrame_def take_is_prefix split: write_result.splits)
      with f Some fr show ?thesis by (subst forward.simps) (auto intro!: exI [of _ "[f]"])
    qed
  qed
qed

section \<open>Both directions (Run)\<close>

text \<open>
  The legs are the booleans, A is \<open>True\<close>. \<open>fin x s\<close> holds the octets that leg \<open>s\<close> has yet to deliver,
  \<open>fout x s\<close> what has been written to the other leg, \<open>fres x s\<close> the result of the goroutine that reads
  leg \<open>s\<close>, \<open>first\<close> what the first \<open>select\<close> of \<open>Run\<close> has received, and \<open>fclosed\<close> that both legs are closed.
\<close>

record 'e flow =
  fin :: "bool \<Rightarrow> bytes"
  fout :: "bool \<Rightarrow> bytes"
  fres :: "bool \<Rightarrow> ('e fwd_err + unit) option"
  first :: "('e fwd_err + unit) option"
  fclosed :: bool

definition flow_dir :: "bool \<Rightarrow> relay_dir" where
  "flow_dir s = (if s then DirAToB else DirBToA)"

definition flow_start :: "(bool \<Rightarrow> bytes) \<Rightarrow> 'e flow" where
  "flow_start src = \<lparr>fin = src, fout = (\<lambda>_. []), fres = (\<lambda>_. None), first = None, fclosed = False\<rparr>"

text \<open>
  The steps of \<open>Run\<close>: a round of one of the two goroutines while the legs are open, whatever the
  context, the end of the source and the write do; the \<open>select\<close>; closing both legs; and a goroutine
  that finds its leg closed, whose result is drained and dropped.
\<close>

inductive run_step :: "'e relay \<Rightarrow> 'e flow \<Rightarrow> 'e flow \<Rightarrow> bool" for r where
  runForward:
    "\<not> fclosed x \<Longrightarrow> fres x s = None \<Longrightarrow> forward_round r (flow_dir s) c e w (fin x s) = (rest, out, res) \<Longrightarrow>
     run_step r x (x\<lparr>fin := (fin x)(s := rest), fout := (fout x)(s := fout x s @ out), fres := (fres x)(s := res)\<rparr>)"
| runSelect:
    "first x = None \<Longrightarrow> fres x s = Some res \<Longrightarrow> run_step r x (x\<lparr>first := Some res\<rparr>)"
| runClose:
    "first x \<noteq> None \<Longrightarrow> run_step r x (x\<lparr>fclosed := True\<rparr>)"
| runUnblock:
    "fclosed x \<Longrightarrow> fres x s = None \<Longrightarrow> run_step r x (x\<lparr>fres := (fres x)(s := Some res)\<rparr>)"

inductive_cases run_stepE: "run_step r x y"

definition run_returned :: "'e flow \<Rightarrow> bool" where
  "run_returned x \<longleftrightarrow> fclosed x \<and> (\<forall>s. fres x s \<noteq> None)"

definition leg_inv :: "'e relay \<Rightarrow> (bool \<Rightarrow> bytes) \<Rightarrow> 'e flow \<Rightarrow> bool \<Rightarrow> bool" where
  "leg_inv r src x s \<longleftrightarrow>
    (\<exists>fs. list_all (passes r (flow_dir s)) fs \<and> prefix (fout x s) (concat (map marshal fs)) \<and> prefix (concat (map marshal fs)) (src s)
       \<and> (fres x s = None \<longrightarrow> fout x s = concat (map marshal fs) \<and> src s = fout x s @ fin x s))
    \<and> (fres x s = Some (Inr ()) \<and> \<not> fclosed x \<longrightarrow> fout x s = src s)"

definition run_inv :: "'e relay \<Rightarrow> (bool \<Rightarrow> bytes) \<Rightarrow> 'e flow \<Rightarrow> bool" where
  "run_inv r src x \<longleftrightarrow> (\<forall>s. leg_inv r src x s)
    \<and> (fclosed x \<longrightarrow> first x \<noteq> None) \<and> (first x = Some (Inr ()) \<longrightarrow> (\<exists>s. fres x s = Some (Inr ()) \<and> fout x s = src s))"

lemma leg_inv_forward:
  assumes "leg_inv r src x s" "fres x s = None" "forward_round r (flow_dir s) c e w (fin x s) = (rest, out, res)" "\<not> fclosed x"
  shows "leg_inv r src (x\<lparr>fin := (fin x)(s := rest), fout := (fout x)(s := fout x s @ out), fres := (fres x)(s := res)\<rparr>) s"
proof -
  from assms(1,2) obtain fs where fs: "list_all (passes r (flow_dir s)) fs" "fout x s = concat (map marshal fs)" "src s = fout x s @ fin x s"
    by (auto simp: leg_inv_def)
  show ?thesis
  proof (cases "out = [] \<and> res \<noteq> None")
    case True
    have "fin x s = []" if "res = Some (Inr ())"
    proof (rule ccontr)
      assume "fin x s \<noteq> []"
      with assms(3) that show False
        by (auto simp: forward_round_def readRawFrame_def readFull_def Let_def HeaderSize_def
            split: if_splits prod.splits sum.splits option.splits bool.splits stream_end.splits)
    qed
    with True fs show ?thesis by (auto simp: leg_inv_def)
  next
    case False
    with assms(3) obtain f where f: "passes r (flow_dir s) f" "fin x s = marshal f @ rest"
      and w: "(out, res = None) = writeRawFrame w (marshal f)" by (metis (no_types) forward_round_writes)
    have res: "res = None \<or> res = Some (Inl FwdWrite)"
      using assms(3) False by (auto simp: forward_round_def split: if_splits prod.splits sum.splits option.splits bool.splits)
    from w have "prefix out (marshal f)" "res = None \<Longrightarrow> out = marshal f"
      by (auto simp: writeRawFrame_def take_is_prefix split: write_result.splits)
    with fs f res show ?thesis by (auto simp: leg_inv_def intro!: exI [of _ "fs @ [f]"])
  qed
qed

lemma leg_inv_other: "leg_inv r src x s \<Longrightarrow> fin y s = fin x s \<Longrightarrow> fout y s = fout x s \<Longrightarrow> fres y s = fres x s \<Longrightarrow> (fclosed x \<longrightarrow> fclosed y) \<Longrightarrow> leg_inv r src y s"
  by (auto simp: leg_inv_def)

lemma leg_inv_ended: "leg_inv r src x s \<Longrightarrow> fclosed x \<Longrightarrow> leg_inv r src (x\<lparr>fres := (fres x)(s := Some res)\<rparr>) s"
  by (auto simp: leg_inv_def)

lemma run_inv_step:
  assumes "run_inv r src x" "run_step r x y"
  shows "run_inv r src y"
  using assms(2,1)
proof (induction rule: run_step.induct)
  case (runForward x s c e w rest out res)
  let ?y = "x\<lparr>fin := (fin x)(s := rest), fout := (fout x)(s := fout x s @ out), fres := (fres x)(s := res)\<rparr>"
  from runForward.prems have l: "leg_inv r src x t" for t by (simp add: run_inv_def)
  have "leg_inv r src ?y t" for t
  proof (cases "t = s")
    case True
    then show ?thesis using leg_inv_forward [OF l runForward.hyps(2,3,1)] by simp
  next
    case False
    then show ?thesis by (intro leg_inv_other [OF l]) auto
  qed
  moreover have "\<exists>t. fres ?y t = Some (Inr ()) \<and> fout ?y t = src t" if "first x = Some (Inr ())"
  proof -
    from that runForward.prems obtain t where t: "fres x t = Some (Inr ())" "fout x t = src t" by (auto simp: run_inv_def)
    have "t \<noteq> s"
    proof
      assume "t = s"
      then show False using t(1) runForward.hyps(2) by simp
    qed
    with t show ?thesis by (intro exI [of _ t]) simp
  qed
  ultimately show ?case using runForward by (auto simp: run_inv_def)
next
  case (runSelect x s res)
  then have "fres x s = Some (Inr ()) \<and> \<not> fclosed x \<longrightarrow> fout x s = src s" "\<not> fclosed x" by (auto simp: run_inv_def leg_inv_def)
  with runSelect show ?case by (auto simp: run_inv_def leg_inv_def)
next
  case (runClose x)
  then show ?case by (auto simp: run_inv_def leg_inv_def)
next
  case (runUnblock x s res)
  let ?y = "x\<lparr>fres := (fres x)(s := Some res)\<rparr>"
  from runUnblock.prems have l: "leg_inv r src x t" for t by (simp add: run_inv_def)
  have "leg_inv r src ?y t" for t
    using leg_inv_ended [OF l runUnblock.hyps(1), of s res] leg_inv_other [OF l, of ?y t] by (cases "t = s") auto
  moreover have "\<exists>t. fres ?y t = Some (Inr ()) \<and> fout ?y t = src t" if "first x = Some (Inr ())"
  proof -
    from that runUnblock.prems obtain t where t: "fres x t = Some (Inr ())" "fout x t = src t" by (auto simp: run_inv_def)
    have "t \<noteq> s"
    proof
      assume "t = s"
      then show False using t(1) runUnblock.hyps(2) by simp
    qed
    with t show ?thesis by (intro exI [of _ t]) simp
  qed
  ultimately show ?case using runUnblock by (auto simp: run_inv_def)
qed

lemma run_inv_reachable: "(run_step r)\<^sup>*\<^sup>* (flow_start src) x \<Longrightarrow> run_inv r src x"
proof (induction rule: rtranclp_induct)
  case base
  show ?case by (auto simp: run_inv_def leg_inv_def flow_start_def intro!: exI [of _ "[]"])
next
  case (step y z)
  then show ?case by (blast intro: run_inv_step)
qed

lemma run_closed_silent: "(run_step r)\<^sup>*\<^sup>* x y \<Longrightarrow> fclosed x \<Longrightarrow> fclosed y \<and> fout y = fout x \<and> (first x \<noteq> None \<longrightarrow> first y = first x)"
proof (induction rule: rtranclp_induct)
  case (step y z)
  then show ?case by (auto elim!: run_stepE)
qed simp

text \<open>A flow in which one direction has ended can be brought to its end without any octet moving.\<close>

lemma run_terminates:
  assumes "fres x s = Some res"
  shows "\<exists>y. (run_step r)\<^sup>*\<^sup>* x y \<and> run_returned y \<and> fout y = fout x"
proof -
  obtain x1 where x1: "(run_step r)\<^sup>*\<^sup>* x x1" "first x1 \<noteq> None" "fres x1 = fres x" "fout x1 = fout x"
  proof (cases "first x")
    case None
    from runSelect [OF None assms] show ?thesis by (intro that [of "x\<lparr>first := Some res\<rparr>"]) auto
  qed (auto intro: that)
  let ?x2 = "x1\<lparr>fclosed := True\<rparr>"
  have x2: "(run_step r)\<^sup>*\<^sup>* x ?x2" using x1(1) runClose [OF x1(2)] by (rule rtranclp.rtrancl_into_rtrancl)
  show ?thesis
  proof (cases "fres x1 (\<not> s)")
    case None
    let ?x3 = "?x2\<lparr>fres := (fres ?x2)(\<not> s := Some (Inl (FwdRead (RawIO IoErr))))\<rparr>"
    have "run_step r ?x2 ?x3" by (rule runUnblock) (use None in simp_all)
    with x2 have "(run_step r)\<^sup>*\<^sup>* x ?x3" by (rule rtranclp.rtrancl_into_rtrancl)
    moreover have "fres ?x3 t \<noteq> None" for t using assms x1(3) by (cases "t = s") auto
    then have "run_returned ?x3" by (simp add: run_returned_def)
    ultimately show ?thesis using x1(4) by (intro exI [of _ ?x3]) simp
  next
    case (Some y)
    have "fres ?x2 t \<noteq> None" for t using assms x1(3) Some by (cases "t = s") auto
    then have "run_returned ?x2" by (simp add: run_returned_def)
    with x2 x1(4) show ?thesis by (intro exI [of _ ?x2]) simp
  qed
qed

section \<open>Properties\<close>

text \<open>
  C21. A direction of the relay forwards the longest run of frames that pass. Its source starts with a
  unique longest run of frames that are conformant, within the size limit and accepted by the hook;
  when the context and the writes cause no trouble, the octets written are exactly those frames, in
  order and unchanged, and the loop reports success exactly when nothing else was on the stream and
  the peer closed it; and whatever the context and the writes do, what is written is a prefix of those
  frames' octets.
\<close>

theorem forward_verbatim:
  "\<exists>fs tail. src = concat (map marshal fs) @ tail \<and> list_all (passes r dir) fs \<and> (\<nexists>f rest. passes r dir f \<and> tail = marshal f @ rest)
     \<and> fst (forward r dir e benign i src) = concat (map marshal fs)
     \<and> (snd (forward r dir e benign i src) = Inr () \<longleftrightarrow> tail = [] \<and> e = EndEOF)
     \<and> (\<forall>env. prefix (fst (forward r dir e env i src)) (concat (map marshal fs)))"
proof -
  obtain fs tail where t: "src = concat (map marshal fs) @ tail" "list_all (passes r dir) fs"
    and no: "\<nexists>f rest. passes r dir f \<and> tail = marshal f @ rest" using passes_run by blast
  from forward_exact [OF t(2) no, of e i] t(1) have x: "fst (forward r dir e benign i src) = concat (map marshal fs)"
    "snd (forward r dir e benign i src) = Inr () \<longleftrightarrow> tail = [] \<and> e = EndEOF" by auto
  have "prefix (fst (forward r dir e env i src)) (concat (map marshal fs))" for env
  proof -
    obtain gs where g: "list_all (passes r dir) gs" "prefix (fst (forward r dir e env i src)) (concat (map marshal gs))"
      "prefix (concat (map marshal gs)) src" using forward_safe by blast
    from g(3) obtain rest where "src = concat (map marshal gs) @ rest" by (auto simp: prefix_def)
    with t(1) have "concat (map marshal fs) @ tail = concat (map marshal gs) @ rest" by simp
    with g(1) t(2) no have "prefix gs fs" by (rule passes_prefix)
    then have "prefix (concat (map marshal gs)) (concat (map marshal fs))" by (auto simp: prefix_def)
    with g(2) show ?thesis by (rule prefix_order.trans)
  qed
  with t no x show ?thesis by blast
qed

text \<open>
  C20. A relayed flow is torn down as a unit. In every run of \<open>Run\<close>, whatever the order of the two
  goroutines, the context, the legs and the writes: what has been written to a leg is a prefix of
  frames that pass and stand, unchanged and in order, at the front of what the other leg delivered;
  once the legs are closed nothing is written any more; as soon as one direction has ended, \<open>Run\<close> can
  return without an octet moving, with both goroutines ended; and when it reports success, everything
  that one of the legs delivered has been forwarded.
\<close>

theorem Run_fail_closed:
  assumes "(run_step r)\<^sup>*\<^sup>* (flow_start src) x"
  shows "(\<exists>fs. list_all (passes r (flow_dir s)) fs \<and> prefix (fout x s) (concat (map marshal fs)) \<and> prefix (concat (map marshal fs)) (src s))
    \<and> (fclosed x \<longrightarrow> (\<forall>y. (run_step r)\<^sup>*\<^sup>* x y \<longrightarrow> fout y = fout x))
    \<and> (fres x s \<noteq> None \<longrightarrow> (\<exists>y. (run_step r)\<^sup>*\<^sup>* x y \<and> run_returned y \<and> fout y = fout x))
    \<and> (first x = Some (Inr ()) \<longrightarrow> (\<exists>t. fout x t = src t))"
proof -
  from run_inv_reachable [OF assms] have "run_inv r src x" .
  then have "leg_inv r src x s" "first x = Some (Inr ()) \<longrightarrow> (\<exists>t. fout x t = src t)" by (auto simp: run_inv_def)
  then show ?thesis using run_closed_silent [of r x] run_terminates [of x s] unfolding leg_inv_def by blast
qed

text \<open>A relay without a hook that has forwarded one frame.\<close>

definition demo_relay :: "unit relay" where
  "demo_relay = \<lparr>rHook = None, rMaxFrameSize = 0\<rparr>"

lemma demo_relay_passes: "passes demo_relay d demo_frame"
  using demo_frame_ok by (simp add: passes_def demo_relay_def relay_maxFrameSize_def MaxFrameSize_def)

theorem Run_fail_closed_witness:
  "\<exists>x :: unit flow. (run_step demo_relay)\<^sup>*\<^sup>* (flow_start (\<lambda>s. if s then marshal demo_frame else [])) x
    \<and> fout x True = marshal demo_frame
    \<and> (\<exists>fs. list_all (passes demo_relay DirAToB) fs \<and> prefix (fout x True) (concat (map marshal fs)))"
proof -
  let ?st = "flow_start (\<lambda>s. if s then marshal demo_frame else []) :: unit flow"
  let ?x = "?st\<lparr>fin := (fin ?st)(True := []), fout := (fout ?st)(True := fout ?st True @ marshal demo_frame), fres := (fres ?st)(True := None)\<rparr>"
  have "forward_round demo_relay (flow_dir True) False EndEOF WriteOk (fin ?st True) = ([], marshal demo_frame, None)"
    using forward_round_passes [OF demo_relay_passes, of "flow_dir True" EndEOF WriteOk "[]"] by (simp add: flow_start_def)
  then have "run_step demo_relay ?st ?x" by (intro runForward) (simp_all add: flow_start_def)
  then have r: "(run_step demo_relay)\<^sup>*\<^sup>* ?st ?x" by (rule r_into_rtranclp)
  show ?thesis
    using r Run_fail_closed [OF r, of True] by (intro exI [of _ ?x]) (auto simp: flow_dir_def flow_start_def)
qed

end
