(* ===== verification/GoText.thy ===== *)
theory GoText
  imports Prelude
begin

text \<open>
  The functions of Go's \<^verbatim>\<open>strings\<close>, \<^verbatim>\<open>strconv\<close> and \<^verbatim>\<open>fmt\<close> packages that the registry loader and the
  command-line policies use, on ASCII text: \<open>TrimSpace\<close>, \<open>ParseUint\<close> with base 0, and the verb
  \<^verbatim>\<open>%04X\<close>.
\<close>

section \<open>Trimming\<close>

definition isSpace :: "char \<Rightarrow> bool" where
  "isSpace c \<longleftrightarrow> c = CHR '' '' \<or> of_char c \<in> {9, 10, 11, 12, 13 :: nat}"

definition trimSpace :: "string \<Rightarrow> string" where
  "trimSpace s = rev (dropWhile isSpace (rev (dropWhile isSpace s)))"

section \<open>Parsing integers\<close>

definition lower :: "char \<Rightarrow> nat" where
  "lower c = (let n = of_char c :: nat in if (n div 32) mod 2 = 0 then n + 32 else n)"

text \<open>\<open>underscoreOK\<close>: what was seen last is the start (\<open>0\<close>), a digit (\<open>1\<close>), an underscore (\<open>2\<close>) or anything else (\<open>3\<close>).\<close>

fun underscoreScan :: "bool \<Rightarrow> nat \<Rightarrow> string \<Rightarrow> bool" where
  "underscoreScan hex saw [] = (saw \<noteq> 2)"
| "underscoreScan hex saw (c # cs) =
    (let n = of_char c :: nat in
     if 48 \<le> n \<and> n \<le> 57 \<or> hex \<and> 97 \<le> lower c \<and> lower c \<le> 102 then underscoreScan hex 1 cs
     else if c = CHR ''_'' then (if saw \<noteq> 1 then False else underscoreScan hex 2 cs)
     else if saw = 2 then False
     else underscoreScan hex 3 cs)"

definition underscoreOK :: "string \<Rightarrow> bool" where
  "underscoreOK s0 =
    (let s = (if s0 \<noteq> [] \<and> (hd s0 = CHR ''-'' \<or> hd s0 = CHR ''+'') then tl s0 else s0) in
     if 2 \<le> length s \<and> s ! 0 = CHR ''0'' \<and> lower (s ! 1) \<in> {98, 111, 120}
     then underscoreScan (lower (s ! 1) = 120) 1 (drop 2 s)
     else underscoreScan False 0 s)"

text \<open>
  The digit loop: the accumulator and whether an underscore was seen, or \<open>None\<close> for a syntax or range
  error. The overflow tests of the source on 64-bit values are the comparison with the largest value.
\<close>

fun parseDigits :: "nat \<Rightarrow> nat \<Rightarrow> nat \<Rightarrow> bool \<Rightarrow> string \<Rightarrow> (nat \<times> bool) option" where
  "parseDigits base maxVal n us [] = Some (n, us)"
| "parseDigits base maxVal n us (c # cs) =
    (if c = CHR ''_'' then parseDigits base maxVal n True cs
     else
       let k = of_char c :: nat;
           d = (if 48 \<le> k \<and> k \<le> 57 then Some (k - 48) else if 97 \<le> lower c \<and> lower c \<le> 122 then Some (lower c - 87) else None) in
       (case d of
          None \<Rightarrow> None
        | Some v \<Rightarrow>
            if base \<le> v then None
            else if n * base + v > maxVal then None
            else parseDigits base maxVal (n * base + v) us cs))"

definition parsePrefix :: "string \<Rightarrow> nat \<times> string" where
  "parsePrefix s =
    (if s \<noteq> [] \<and> s ! 0 = CHR ''0'' then
       if 3 \<le> length s \<and> lower (s ! 1) = 98 then (2, drop 2 s)
       else if 3 \<le> length s \<and> lower (s ! 1) = 111 then (8, drop 2 s)
       else if 3 \<le> length s \<and> lower (s ! 1) = 120 then (16, drop 2 s)
       else (8, drop 1 s)
     else (10, s))"

definition ParseUint0 :: "nat \<Rightarrow> string \<Rightarrow> nat option" where
  "ParseUint0 bitSize s =
    (if s = [] then None
     else
       (case parsePrefix s of (base, t) \<Rightarrow>
         (case parseDigits base (2 ^ bitSize - 1) 0 False t of
            None \<Rightarrow> None
          | Some (n, us) \<Rightarrow> if us \<and> \<not> underscoreOK s then None else Some n)))"

lemma parseDigits_le: "parseDigits base m n us s = Some (v, us') \<Longrightarrow> n \<le> m \<Longrightarrow> v \<le> m"
  by (induction base m n us s rule: parseDigits.induct) (auto simp: Let_def split: if_splits option.splits)

lemma ParseUint0_bound:
  assumes "ParseUint0 bits s = Some v"
  shows "v < 2 ^ bits"
proof -
  from assms obtain base t us where "parseDigits base (2 ^ bits - 1) 0 False t = Some (v, us)"
    by (auto simp: ParseUint0_def split: if_splits prod.splits option.splits)
  from parseDigits_le [OF this] have "v \<le> 2 ^ bits - 1" by simp
  moreover have "0 < (2 :: nat) ^ bits" by simp
  ultimately show ?thesis by linarith
qed

section \<open>Formatting\<close>

definition hexDigit :: "nat \<Rightarrow> char" where
  "hexDigit n = char_of (if n < 10 then 48 + n else 55 + n)"

definition hex04 :: "u16 \<Rightarrow> string" where
  "hex04 w = (let n = unat w in map hexDigit [n div 4096, n div 256 mod 16, n div 16 mod 16, n mod 16])"

lemma of_char_hexDigit: "n < 16 \<Longrightarrow> of_char (hexDigit n) = (if n < 10 then 48 + n else 55 + n)"
  by (simp add: hexDigit_def)

lemma hexDigit_not_underscore: "n < 16 \<Longrightarrow> hexDigit n \<noteq> CHR ''_''"
  using of_char_hexDigit [of n] by (auto split: if_splits)

lemma lower_hexDigit: "10 \<le> n \<Longrightarrow> n < 16 \<Longrightarrow> lower (hexDigit n) = 87 + n"
proof -
  assume n: "10 \<le> n" "n < 16"
  then have "(55 + n) div 32 = 2" by simp
  then show "lower (hexDigit n) = 87 + n" using n by (simp add: lower_def of_char_hexDigit)
qed

lemma parseDigits_hexDigit:
  assumes "v < 16" "n * 16 + v \<le> m"
  shows "parseDigits 16 m n us (hexDigit v # cs) = parseDigits 16 m (n * 16 + v) us cs"
  using assms by (cases "v < 10") (simp_all add: of_char_hexDigit hexDigit_not_underscore lower_hexDigit)

lemma parseDigits_hex4:
  assumes "a < 16" "b < 16" "c < 16" "d < 16" "((a * 16 + b) * 16 + c) * 16 + d \<le> m"
  shows "parseDigits 16 m 0 us (map hexDigit [a, b, c, d]) = Some (((a * 16 + b) * 16 + c) * 16 + d, us)"
proof -
  have "a \<le> m" "a * 16 + b \<le> m" "(a * 16 + b) * 16 + c \<le> m" using assms(5) by simp_all
  with assms show ?thesis
    using parseDigits_hexDigit [of a 0 m us] parseDigits_hexDigit [of b a m us] parseDigits_hexDigit [of c "a * 16 + b" m us]
      parseDigits_hexDigit [of d "(a * 16 + b) * 16 + c" m us]
    by (simp del: parseDigits.simps(2))
qed

text \<open>A code point written as \<open>0x%04X\<close> parses to itself.\<close>

lemma ParseUint0_hex04:
  assumes "16 \<le> bits"
  shows "ParseUint0 bits (''0x'' @ hex04 w) = Some (unat w)"
proof -
  let ?n = "unat w"
  have n: "?n < 65536" using unat_less [of w] by simp
  have "(2 :: nat) ^ 16 \<le> 2 ^ bits" using assms by (rule power_increasing) simp
  with n have le: "?n \<le> 2 ^ bits - 1" by simp
  have s: "((?n div 4096 * 16 + ?n div 256 mod 16) * 16 + ?n div 16 mod 16) * 16 + ?n mod 16 = ?n"
    using div_mult_mod_eq [of "?n div 256" 16] div_mult_mod_eq [of "?n div 16" 16] div_mult_mod_eq [of ?n 16]
    by (simp flip: div_mult2_eq)
  have "parseDigits 16 (2 ^ bits - 1) 0 False (hex04 w) = Some (?n, False)"
    using parseDigits_hex4 [of "?n div 4096" "?n div 256 mod 16" "?n div 16 mod 16" "?n mod 16" "2 ^ bits - 1" False] n le
    unfolding hex04_def Let_def s by simp
  moreover have "parsePrefix (''0x'' @ hex04 w) = (16, hex04 w)" by (simp add: parsePrefix_def hex04_def lower_def Let_def)
  ultimately show ?thesis by (simp add: ParseUint0_def)
qed

end
