(* ===== verification/WireValidator.thy ===== *)
theory WireValidator
  imports Relay ErrorFrame Tlv GoText "HOL-Library.AList"
begin

text \<open>
  The wire validator of \<^verbatim>\<open>src/impl/go/wirevalidator\<close>: the allowlists that are loaded from the registry
  files, the checks of frames, TLVs and error codes against them, and the hook that installs the
  header checks in a relay. An error is represented by its reason; its text is left out.
\<close>

section \<open>Registries (registries.go)\<close>

definition SystemFrameMax :: u16 where "SystemFrameMax = 0x000A"

text \<open>A Go map that is only inserted into and looked up is an association list.\<close>

record registries =
  regChannels :: "(u16 \<times> string) list"
  systemFrames :: "(u16 \<times> string) list"
  chanFrames :: "((u16 \<times> u16) \<times> string) list"
  tlvTags :: "(u16 \<times> string) list"
  errorCodes :: "(byte \<times> string) list"

definition parseCodePoint :: "string \<Rightarrow> nat option" where
  "parseCodePoint tok =
    (let t = trimSpace tok in if t = [] \<or> CHR ''-'' \<in> set t then None else ParseUint0 64 t)"

text \<open>
  A registry file as \<^verbatim>\<open>encoding/csv\<close> reads it: it cannot be opened, or it gives records and then ends,
  or fails on the next record.
\<close>

datatype csv_file = CsvMissing | CsvRecords "string list list" bool

datatype load_err = LoadOpen | LoadHeader | LoadRow | LoadCodePoint | LoadName | LoadEmpty

type_synonym csv_row = "(string \<times> string) list"

definition readCSVRows :: "csv_file \<Rightarrow> load_err + csv_row list" where
  "readCSVRows f =
    (case f of
       CsvMissing \<Rightarrow> Inl LoadOpen
     | CsvRecords [] bad \<Rightarrow> Inl LoadHeader
     | CsvRecords (header # recs) bad \<Rightarrow> if bad then Inl LoadRow else Inr (map (\<lambda>rec. rev (zip header rec)) recs))"

definition col :: "csv_row \<Rightarrow> string \<Rightarrow> string" where
  "col row name = (case map_of row name of None \<Rightarrow> '''' | Some v \<Rightarrow> v)"

fun loadChannels :: "(u16 \<times> string) list \<Rightarrow> csv_row list \<Rightarrow> load_err + (u16 \<times> string) list" where
  "loadChannels m [] = Inr m"
| "loadChannels m (row # rows) =
    (case parseCodePoint (col row ''channel_id'') of
       None \<Rightarrow> Inl LoadCodePoint
     | Some i \<Rightarrow>
         if i > 0xFFFF then Inl LoadCodePoint
         else if col row ''name'' = '''' then Inl LoadName
         else loadChannels (AList.update (of_nat i) (col row ''name'') m) rows)"

fun loadSystemFrames_loop :: "(u16 \<times> string) list \<Rightarrow> csv_row list \<Rightarrow> (u16 \<times> string) list" where
  "loadSystemFrames_loop m [] = m"
| "loadSystemFrames_loop m (row # rows) =
    (case parseCodePoint (col row ''frame_type'') of
       None \<Rightarrow> loadSystemFrames_loop m rows
     | Some ft \<Rightarrow>
         if ft = 0 \<or> ft > unat SystemFrameMax then loadSystemFrames_loop m rows
         else if col row ''name'' = '''' \<or> col row ''name'' = ''(reserved)'' then loadSystemFrames_loop m rows
         else loadSystemFrames_loop (AList.update (of_nat ft) (col row ''name'') m) rows)"

definition loadSystemFrames :: "csv_row list \<Rightarrow> load_err + (u16 \<times> string) list" where
  "loadSystemFrames rows = (let m = loadSystemFrames_loop [] rows in if m = [] then Inl LoadEmpty else Inr m)"

fun loadChanFrames :: "((u16 \<times> u16) \<times> string) list \<Rightarrow> csv_row list \<Rightarrow> load_err + ((u16 \<times> u16) \<times> string) list" where
  "loadChanFrames m [] = Inr m"
| "loadChanFrames m (row # rows) =
    (case parseCodePoint (col row ''channel_id'') of
       None \<Rightarrow> Inl LoadCodePoint
     | Some cid \<Rightarrow>
         if cid > 0xFFFF then Inl LoadCodePoint
         else
           (case parseCodePoint (col row ''frame_type'') of
              None \<Rightarrow> Inl LoadCodePoint
            | Some ft \<Rightarrow>
                if ft > 0xFFFF then Inl LoadCodePoint
                else if col row ''name'' = '''' then Inl LoadName
                else loadChanFrames (AList.update (of_nat cid, of_nat ft) (col row ''name'') m) rows))"

text \<open>\<open>loadTLVTags\<close> and \<open>loadErrorCodes\<close> keep the single code points below a limit that have a real name.\<close>

fun loadAssigned :: "string \<Rightarrow> nat \<Rightarrow> ('a::len word \<times> string) list \<Rightarrow> csv_row list \<Rightarrow> ('a word \<times> string) list" where
  "loadAssigned c limit m [] = m"
| "loadAssigned c limit m (row # rows) =
    (case parseCodePoint (col row c) of
       None \<Rightarrow> loadAssigned c limit m rows
     | Some v \<Rightarrow>
         if v > limit then loadAssigned c limit m rows
         else if col row ''name'' = '''' \<or> col row ''name'' = ''(reserved)'' then loadAssigned c limit m rows
         else loadAssigned c limit (AList.update (of_nat v) (col row ''name'') m) rows)"

definition loadTLVTags :: "csv_row list \<Rightarrow> load_err + (u16 \<times> string) list" where
  "loadTLVTags rows = (let m = loadAssigned ''tag'' 0xFFFF [] rows in if m = [] then Inl LoadEmpty else Inr m)"

definition loadErrorCodes :: "csv_row list \<Rightarrow> load_err + (byte \<times> string) list" where
  "loadErrorCodes rows = (let m = loadAssigned ''code'' 0xFF [] rows in if m = [] then Inl LoadEmpty else Inr m)"

text \<open>\<open>Load\<close>; \<open>dir\<close> gives the content of a file of the registry directory.\<close>

definition Load :: "(string \<Rightarrow> csv_file) \<Rightarrow> load_err + registries" where
  "Load dir =
    rbind (rbind (readCSVRows (dir ''channels.csv'')) (loadChannels [])) (\<lambda>chs.
    rbind (rbind (readCSVRows (dir ''frame_types_reserved.csv'')) loadSystemFrames) (\<lambda>sys.
    rbind (rbind (readCSVRows (dir ''frame_types_channel.csv'')) (loadChanFrames [])) (\<lambda>cfs.
    rbind (rbind (readCSVRows (dir ''tlv_tags.csv'')) loadTLVTags) (\<lambda>tags.
    rbind (rbind (readCSVRows (dir ''error_codes.csv'')) loadErrorCodes) (\<lambda>codes.
      if chs = [] \<or> sys = [] \<or> cfs = [] \<or> tags = [] \<or> codes = [] then Inl LoadEmpty
      else Inr \<lparr>regChannels = chs, systemFrames = sys, chanFrames = cfs, tlvTags = tags, errorCodes = codes\<rparr>)))))"

section \<open>Validation (validate.go)\<close>

datatype reject_reason =
    ReasonFrameTypeReserved | ReasonChannelNotRegistered | ReasonFrameTypeNotRegisteredForChannel
  | ReasonFrameTooLarge | ReasonTooManyTLVs | ReasonTLVTagNotRegistered | ReasonErrorCodeNotRegistered

definition checkFrameType :: "registries \<Rightarrow> u16 \<Rightarrow> u16 \<Rightarrow> reject_reason + unit" where
  "checkFrameType reg channel frameType =
    (if frameType = 0 then Inl ReasonFrameTypeReserved
     else if map_of (regChannels reg) channel = None then Inl ReasonChannelNotRegistered
     else if frameType \<le> SystemFrameMax then
       (if map_of (systemFrames reg) frameType = None then Inl ReasonFrameTypeNotRegisteredForChannel else Inr ())
     else if map_of (chanFrames reg) (channel, frameType) = None then Inl ReasonFrameTypeNotRegisteredForChannel
     else Inr ())"

definition checkBounds :: "int \<Rightarrow> int \<Rightarrow> reject_reason + unit" where
  "checkBounds totalSize tlvCount =
    (if totalSize > int MaxFrameSize then Inl ReasonFrameTooLarge
     else if tlvCount \<ge> 0 \<and> tlvCount > int MaxTLVsPerFrame then Inl ReasonTooManyTLVs
     else Inr ())"

text \<open>A nil frame is \<open>None\<close>.\<close>

definition Validate :: "registries \<Rightarrow> frame option \<Rightarrow> reject_reason + unit" where
  "Validate reg f =
    (case f of
       None \<Rightarrow> Inl ReasonFrameTypeReserved
     | Some f \<Rightarrow> rbind (checkFrameType reg (fChannel f) (fType f)) (\<lambda>_. checkBounds (int (HeaderSize + length (fPayload f))) (- 1)))"

definition ValidateBytes :: "registries \<Rightarrow> bytes \<Rightarrow> (npamp_err + reject_reason) + unit" where
  "ValidateBytes reg buf =
    (case UnmarshalBinary buf of
       Inl e \<Rightarrow> Inl (Inl e)
     | Inr f \<Rightarrow> map_err Inr (Validate reg (Some f)))"

definition ValidateTLVTag :: "registries \<Rightarrow> u16 \<Rightarrow> reject_reason + unit" where
  "ValidateTLVTag reg t = (if map_of (tlvTags reg) t = None then Inl ReasonTLVTagNotRegistered else Inr ())"

fun validateTags :: "registries \<Rightarrow> tlv list \<Rightarrow> reject_reason + unit" where
  "validateTags reg [] = Inr ()"
| "validateTags reg (t # ts) = rbind (ValidateTLVTag reg (tType t)) (\<lambda>_. validateTags reg ts)"

definition ValidateTLVSequence :: "registries \<Rightarrow> tlv list \<Rightarrow> reject_reason + unit" where
  "ValidateTLVSequence reg tlvs = rbind (checkBounds 0 (int (length tlvs))) (\<lambda>_. validateTags reg tlvs)"

definition ValidateErrorCode :: "registries \<Rightarrow> session_error_code \<Rightarrow> reject_reason + unit" where
  "ValidateErrorCode reg code = (if map_of (errorCodes reg) code = None then Inl ReasonErrorCodeNotRegistered else Inr ())"

definition RelayHook :: "registries \<Rightarrow> reject_reason hook" where
  "RelayHook reg dir header =
    rbind (checkFrameType reg (hChannel header) (hType header)) (\<lambda>_.
      checkBounds (int (HeaderSize + unat (hPayloadLen header))) (- 1))"

section \<open>What is accepted\<close>

text \<open>A registered pair: a known channel with a system frame type, or with a frame type of its own.\<close>

definition registered :: "registries \<Rightarrow> u16 \<Rightarrow> u16 \<Rightarrow> bool" where
  "registered reg channel frameType \<longleftrightarrow> frameType \<noteq> 0 \<and> channel \<in> dom (map_of (regChannels reg))
    \<and> (if frameType \<le> SystemFrameMax then frameType \<in> dom (map_of (systemFrames reg))
       else (channel, frameType) \<in> dom (map_of (chanFrames reg)))"

lemma checkFrameType_iff: "checkFrameType reg ch ft = Inr () \<longleftrightarrow> registered reg ch ft"
  by (auto simp: checkFrameType_def registered_def)

lemma checkBounds_iff:
  "checkBounds n k = Inr () \<longleftrightarrow> n \<le> int MaxFrameSize \<and> (k < 0 \<or> k \<le> int MaxTLVsPerFrame)"
  by (auto simp: checkBounds_def)

lemma RelayHook_Validate:
  assumes "frame_ok f"
  shows "RelayHook reg dir (frameHeader (marshal f) f) = Validate reg (Some f)"
  using assms by (simp add: RelayHook_def Validate_def frameHeader_def frame_ok_def unat_of_nat_small)

lemma Validate_iff:
  "Validate reg (Some f) = Inr () \<longleftrightarrow> registered reg (fChannel f) (fType f) \<and> HeaderSize + length (fPayload f) \<le> MaxFrameSize"
  by (simp add: Validate_def checkFrameType_iff checkBounds_iff del: of_nat_add)

lemma ValidateBytes_iff:
  "ValidateBytes reg b = Inr () \<longleftrightarrow> (\<exists>f. b = marshal f \<and> sendable f \<and> registered reg (fChannel f) (fType f))"
proof (cases "UnmarshalBinary b")
  case (Inl e)
  then have "b \<noteq> marshal f" if "sendable f" for f using UnmarshalBinary_marshal [of f] that by (auto simp: sendable_def)
  with Inl show ?thesis by (auto simp: ValidateBytes_def)
next
  case (Inr g)
  have "f = g" if "b = marshal f" "sendable f" for f using UnmarshalBinary_marshal [of f] that Inr by (auto simp: sendable_def)
  with UnmarshalBinary_sound [OF Inr] Inr show ?thesis by (auto simp: ValidateBytes_def Validate_iff sendable_def)
qed

lemma validateTags_iff: "validateTags reg ts = Inr () \<longleftrightarrow> (\<forall>t \<in> set ts. tType t \<in> dom (map_of (tlvTags reg)))"
  by (induction ts) (auto simp: ValidateTLVTag_def)

text \<open>
  C23. The validator accepts exactly what the registries list. It passes a byte string exactly when it
  is the wire form of a conformant frame within the size limit whose type is registered for its
  channel; the relay hook, which sees the header only, gives the verdict and the reason that
  \<open>Validate\<close> gives on the whole frame; a TLV sequence passes exactly when it has at most the permitted
  number of TLVs and each has an assigned tag.
\<close>

theorem validator_exact:
  "(ValidateBytes reg b = Inr () \<longleftrightarrow> (\<exists>f. b = marshal f \<and> sendable f \<and> registered reg (fChannel f) (fType f)))
   \<and> (UnmarshalBinary b = Inr g \<longrightarrow> RelayHook reg dir (frameHeader b g) = Validate reg (Some g))
   \<and> (ValidateTLVSequence reg ts = Inr () \<longleftrightarrow> length ts \<le> MaxTLVsPerFrame \<and> (\<forall>t \<in> set ts. tType t \<in> dom (map_of (tlvTags reg))))"
proof -
  have "RelayHook reg dir (frameHeader b g) = Validate reg (Some g)" if "UnmarshalBinary b = Inr g"
    using UnmarshalBinary_sound [OF that] RelayHook_Validate [of g reg dir] by simp
  then show ?thesis by (auto simp: ValidateBytes_iff ValidateTLVSequence_def checkBounds_iff validateTags_iff)
qed

section \<open>What is loaded\<close>

lemma dom_update: "dom (map_of (AList.update k v m)) = insert k (dom (map_of m))"
  by (simp add: update_conv')

lemma loadChannels_Inr:
  "loadChannels m rows = Inr m' \<Longrightarrow>
    (\<forall>row \<in> set rows. \<exists>i \<le> 0xFFFF. parseCodePoint (col row ''channel_id'') = Some i \<and> col row ''name'' \<noteq> '''')
    \<and> dom (map_of m') = dom (map_of m) \<union> {of_nat i | i row. row \<in> set rows \<and> parseCodePoint (col row ''channel_id'') = Some i}"
proof (induction m rows rule: loadChannels.induct)
  case (2 m row rows)
  then obtain i where i: "parseCodePoint (col row ''channel_id'') = Some i" "i \<le> 0xFFFF" "col row ''name'' \<noteq> ''''"
    and l: "loadChannels (AList.update (of_nat i) (col row ''name'') m) rows = Inr m'"
    by (auto split: option.splits if_splits)
  from 2(1) [OF i(1) _ i(3) l] i(2) have
    *: "\<forall>row \<in> set rows. \<exists>i \<le> 0xFFFF. parseCodePoint (col row ''channel_id'') = Some i \<and> col row ''name'' \<noteq> ''''"
    "dom (map_of m') = dom (map_of (AList.update (of_nat i) (col row ''name'') m)) \<union> {of_nat i | i row. row \<in> set rows \<and> parseCodePoint (col row ''channel_id'') = Some i}"
    by auto
  with i show ?case by (auto simp: dom_update)
qed simp

lemma loadChanFrames_Inr:
  "loadChanFrames m rows = Inr m' \<Longrightarrow>
    (\<forall>row \<in> set rows. \<exists>i \<le> 0xFFFF. \<exists>ft \<le> 0xFFFF. parseCodePoint (col row ''channel_id'') = Some i
       \<and> parseCodePoint (col row ''frame_type'') = Some ft \<and> col row ''name'' \<noteq> '''')
    \<and> dom (map_of m') = dom (map_of m) \<union> {(of_nat i, of_nat ft) | i ft row. row \<in> set rows
       \<and> parseCodePoint (col row ''channel_id'') = Some i \<and> parseCodePoint (col row ''frame_type'') = Some ft}"
proof (induction m rows rule: loadChanFrames.induct)
  case (2 m row rows)
  then obtain i ft where i: "parseCodePoint (col row ''channel_id'') = Some i" "i \<le> 0xFFFF" "parseCodePoint (col row ''frame_type'') = Some ft"
      "ft \<le> 0xFFFF" "col row ''name'' \<noteq> ''''"
    and l: "loadChanFrames (AList.update (of_nat i, of_nat ft) (col row ''name'') m) rows = Inr m'"
    by (auto split: option.splits if_splits)
  from 2(1) [OF i(1) _ i(3) _ i(5) l] i(2,4) have
    *: "\<forall>row \<in> set rows. \<exists>i \<le> 0xFFFF. \<exists>ft \<le> 0xFFFF. parseCodePoint (col row ''channel_id'') = Some i
       \<and> parseCodePoint (col row ''frame_type'') = Some ft \<and> col row ''name'' \<noteq> ''''"
    "dom (map_of m') = dom (map_of (AList.update (of_nat i, of_nat ft) (col row ''name'') m)) \<union> {(of_nat i, of_nat ft) | i ft row. row \<in> set rows
       \<and> parseCodePoint (col row ''channel_id'') = Some i \<and> parseCodePoint (col row ''frame_type'') = Some ft}"
    by auto
  with i show ?case by (auto simp: dom_update)
qed simp

definition real_name :: "csv_row \<Rightarrow> bool" where
  "real_name row \<longleftrightarrow> col row ''name'' \<noteq> '''' \<and> col row ''name'' \<noteq> ''(reserved)''"

lemma loadSystemFrames_dom:
  "dom (map_of (loadSystemFrames_loop m rows)) = dom (map_of m) \<union> {of_nat ft | ft row. row \<in> set rows
     \<and> parseCodePoint (col row ''frame_type'') = Some ft \<and> 0 < ft \<and> ft \<le> unat SystemFrameMax \<and> real_name row}"
  by (induction m rows rule: loadSystemFrames_loop.induct) (auto simp: dom_update real_name_def not_less split: option.splits)


lemma loadAssigned_dom:
  "dom (map_of (loadAssigned c limit m rows)) = dom (map_of m) \<union> {of_nat v | v row. row \<in> set rows
     \<and> parseCodePoint (col row c) = Some v \<and> v \<le> limit \<and> real_name row}"
  by (induction c limit m rows rule: loadAssigned.induct) (auto simp: dom_update real_name_def not_less split: option.splits)

text \<open>
  C24. Loading fails closed and is exact. When \<open>Load\<close> succeeds, every row of the channel file and of the
  channel frame type file has code points of 16 bits and a name; the registered channels and pairs are
  exactly those rows; the system frame types, TLV tags and error codes are exactly the single code
  points in range that have a name other than the placeholder; and none of the five sets is empty.
\<close>

theorem Load_exact:
  assumes "Load dir = Inr reg"
  shows "\<exists>chs sys cfs tags codes.
      readCSVRows (dir ''channels.csv'') = Inr chs \<and> readCSVRows (dir ''frame_types_reserved.csv'') = Inr sys
    \<and> readCSVRows (dir ''frame_types_channel.csv'') = Inr cfs \<and> readCSVRows (dir ''tlv_tags.csv'') = Inr tags
    \<and> readCSVRows (dir ''error_codes.csv'') = Inr codes
    \<and> (\<forall>row \<in> set chs. \<exists>i \<le> 0xFFFF. parseCodePoint (col row ''channel_id'') = Some i \<and> col row ''name'' \<noteq> '''')
    \<and> (\<forall>row \<in> set cfs. \<exists>i \<le> 0xFFFF. \<exists>ft \<le> 0xFFFF. parseCodePoint (col row ''channel_id'') = Some i
         \<and> parseCodePoint (col row ''frame_type'') = Some ft \<and> col row ''name'' \<noteq> '''')
    \<and> dom (map_of (regChannels reg)) = {of_nat i | i row. row \<in> set chs \<and> parseCodePoint (col row ''channel_id'') = Some i}
    \<and> dom (map_of (chanFrames reg)) = {(of_nat i, of_nat ft) | i ft row. row \<in> set cfs
         \<and> parseCodePoint (col row ''channel_id'') = Some i \<and> parseCodePoint (col row ''frame_type'') = Some ft}
    \<and> dom (map_of (systemFrames reg)) = {of_nat ft | ft row. row \<in> set sys
         \<and> parseCodePoint (col row ''frame_type'') = Some ft \<and> 0 < ft \<and> ft \<le> 0x000A \<and> real_name row}
    \<and> dom (map_of (tlvTags reg)) = {of_nat v | v row. row \<in> set tags \<and> parseCodePoint (col row ''tag'') = Some v \<and> v \<le> 0xFFFF \<and> real_name row}
    \<and> dom (map_of (errorCodes reg)) = {of_nat v | v row. row \<in> set codes \<and> parseCodePoint (col row ''code'') = Some v \<and> v \<le> 0xFF \<and> real_name row}
    \<and> regChannels reg \<noteq> [] \<and> chanFrames reg \<noteq> [] \<and> systemFrames reg \<noteq> [] \<and> tlvTags reg \<noteq> [] \<and> errorCodes reg \<noteq> []"
proof -
  from assms obtain chs sys cfs tags codes mc ms mf mt me where
    rows: "readCSVRows (dir ''channels.csv'') = Inr chs" "readCSVRows (dir ''frame_types_reserved.csv'') = Inr sys"
      "readCSVRows (dir ''frame_types_channel.csv'') = Inr cfs" "readCSVRows (dir ''tlv_tags.csv'') = Inr tags"
      "readCSVRows (dir ''error_codes.csv'') = Inr codes"
    and maps: "loadChannels [] chs = Inr mc" "loadSystemFrames sys = Inr ms" "loadChanFrames [] cfs = Inr mf"
      "loadTLVTags tags = Inr mt" "loadErrorCodes codes = Inr me"
    and reg: "reg = \<lparr>regChannels = mc, systemFrames = ms, chanFrames = mf, tlvTags = mt, errorCodes = me\<rparr>"
      "mc \<noteq> []" "ms \<noteq> []" "mf \<noteq> []" "mt \<noteq> []" "me \<noteq> []"
    by (auto simp: Load_def split: if_splits)
  from maps(2) have ms: "ms = loadSystemFrames_loop [] sys" by (auto simp: loadSystemFrames_def Let_def split: if_splits)
  from maps(4) have mt: "mt = loadAssigned ''tag'' 0xFFFF [] tags" by (auto simp: loadTLVTags_def Let_def split: if_splits)
  from maps(5) have me: "me = loadAssigned ''code'' 0xFF [] codes" by (auto simp: loadErrorCodes_def Let_def split: if_splits)
  have "unat SystemFrameMax = 0x000A" by (simp add: SystemFrameMax_def)
  then have sys: "dom (map_of ms) = {of_nat ft | ft row. row \<in> set sys
         \<and> parseCodePoint (col row ''frame_type'') = Some ft \<and> 0 < ft \<and> ft \<le> 0x000A \<and> real_name row}"
    unfolding ms loadSystemFrames_dom by simp
  have tags: "dom (map_of mt) = {of_nat v | v row. row \<in> set tags \<and> parseCodePoint (col row ''tag'') = Some v \<and> v \<le> 0xFFFF \<and> real_name row}"
    unfolding mt loadAssigned_dom by simp
  have codes: "dom (map_of me) = {of_nat v | v row. row \<in> set codes \<and> parseCodePoint (col row ''code'') = Some v \<and> v \<le> 0xFF \<and> real_name row}"
    unfolding me loadAssigned_dom by simp
  show ?thesis
    using rows reg(2-) sys tags codes loadChannels_Inr [OF maps(1)] loadChanFrames_Inr [OF maps(3)]
    by (intro exI [of _ chs] exI [of _ sys] exI [of _ cfs] exI [of _ tags] exI [of _ codes]) (simp add: reg(1))
qed


text \<open>Rows that parse load.\<close>

lemma loadChannels_ok:
  "\<forall>row \<in> set rows. \<exists>i \<le> 0xFFFF. parseCodePoint (col row ''channel_id'') = Some i \<and> col row ''name'' \<noteq> ''''
    \<Longrightarrow> \<exists>m'. loadChannels m rows = Inr m'"
  by (induction m rows rule: loadChannels.induct) (auto split: option.splits)

lemma loadChanFrames_ok:
  "\<forall>row \<in> set rows. \<exists>i \<le> 0xFFFF. \<exists>ft \<le> 0xFFFF. parseCodePoint (col row ''channel_id'') = Some i
       \<and> parseCodePoint (col row ''frame_type'') = Some ft \<and> col row ''name'' \<noteq> ''''
    \<Longrightarrow> \<exists>m'. loadChanFrames m rows = Inr m'"
  by (induction m rows rule: loadChanFrames.induct) (auto split: option.splits)


text \<open>A registry with one channel, and the frame of \<open>Frame\<close> on it.\<close>

definition demo_registries :: registries where
  "demo_registries = \<lparr>regChannels = [(1, ''Memory'')], systemFrames = [(1, ''PING'')], chanFrames = [((1, 0x0101), ''RESULT'')],
     tlvTags = [(7, ''KEMShare'')], errorCodes = [(1, ''unexpected_message'')]\<rparr>"

lemma demo_registered: "registered demo_registries (fChannel demo_frame) (fType demo_frame)"
  by (simp add: registered_def demo_registries_def demo_frame_def SystemFrameMax_def)

theorem validator_exact_witness:
  "UnmarshalBinary (marshal demo_frame) = Inr demo_frame \<and> ValidateBytes demo_registries (marshal demo_frame) = Inr ()
    \<and> RelayHook demo_registries DirAToB (frameHeader (marshal demo_frame) demo_frame) = Validate demo_registries (Some demo_frame)"
  using validator_exact [of demo_registries "marshal demo_frame" demo_frame DirAToB "[]"] demo_registered demo_frame_ok
  by (auto simp: UnmarshalBinary_marshal sendable_def)

end
