(* ===== verification/Firewall.thy ===== *)
theory Firewall
  imports WireValidator
begin

text \<open>
  The firewall of \<^verbatim>\<open>src/impl/go/firewall\<close> and of the command \<^verbatim>\<open>src/impl/go/cmd/n-pamp-firewall\<close>: a deny
  list over channels and frame types behind the wire validator, composed into one relay hook, and the
  deny list that the command line describes.
\<close>

section \<open>Policies (policy.go)\<close>

record policy_reject =
  prDir :: relay_dir
  prChannel :: u16
  prType :: u16
  prReason :: string

record channel_policy =
  DeniedChannels :: "(u16 \<times> string) list"
  DeniedFrameTypes :: "((u16 \<times> u16) \<times> string) list"

definition reasonOrDefault :: "string \<Rightarrow> string \<Rightarrow> string" where
  "reasonOrDefault reason def = (if reason \<noteq> '''' then reason else def)"

text \<open>A nil map has no entries.\<close>

definition Decide :: "channel_policy \<Rightarrow> policy_reject hook" where
  "Decide p dir header =
    (let ch = hChannel header; ft = hType header in
     case map_of (DeniedChannels p) ch of
       Some reason \<Rightarrow>
         Inl \<lparr>prDir = dir, prChannel = ch, prType = ft,
           prReason = reasonOrDefault reason (''channel 0x'' @ hex04 ch @ '' is denied by firewall policy'')\<rparr>
     | None \<Rightarrow>
         (case map_of (DeniedFrameTypes p) (ch, ft) of
            Some reason \<Rightarrow>
              Inl \<lparr>prDir = dir, prChannel = ch, prType = ft,
                prReason = reasonOrDefault reason
                  (''frame type 0x'' @ hex04 ft @ '' on channel 0x'' @ hex04 ch @ '' is denied by firewall policy'')\<rparr>
          | None \<Rightarrow> Inr ()))"

section \<open>Composition (firewall.go)\<close>

datatype fw_err = ErrNoRegistries

datatype fw_reject = FwRegistry reject_reason | FwPolicy policy_reject

record firewall =
  fwRegistries :: "registries option"
  fwPolicy :: "policy_reject hook option"

definition Hook :: "firewall \<Rightarrow> fw_err + fw_reject hook" where
  "Hook fw =
    (case fwRegistries fw of
       None \<Rightarrow> Inl ErrNoRegistries
     | Some reg \<Rightarrow>
         Inr (\<lambda>dir header.
           rbind (map_err FwRegistry (RelayHook reg dir header)) (\<lambda>_.
             case fwPolicy fw of None \<Rightarrow> Inr () | Some policy \<Rightarrow> map_err FwPolicy (policy dir header))))"

definition Wrap :: "firewall \<Rightarrow> u32 \<Rightarrow> fw_err + fw_reject relay" where
  "Wrap fw maxSz = rbind (Hook fw) (\<lambda>hook. Inr \<lparr>rHook = Some hook, rMaxFrameSize = maxSz\<rparr>)"

section \<open>The command line (cmd/n-pamp-firewall)\<close>

definition parseUint16 :: "string \<Rightarrow> u16 option" where
  "parseUint16 tok = map_option of_nat (ParseUint0 16 (trimSpace tok))"

text \<open>\<open>strings.SplitN(raw, ":", 2)\<close>: the two parts around the first colon.\<close>

definition splitColon :: "string \<Rightarrow> (string \<times> string) option" where
  "splitColon raw =
    (if CHR '':'' \<in> set raw then Some (takeWhile (\<lambda>c. c \<noteq> CHR '':'') raw, tl (dropWhile (\<lambda>c. c \<noteq> CHR '':'') raw)) else None)"

definition parsePair :: "string \<Rightarrow> (u16 \<times> u16) option" where
  "parsePair raw =
    (case splitColon raw of
       None \<Rightarrow> None
     | Some (a, b) \<Rightarrow>
         (case parseUint16 a of None \<Rightarrow> None | Some ch \<Rightarrow> (case parseUint16 b of None \<Rightarrow> None | Some ft \<Rightarrow> Some (ch, ft))))"

fun denyAll :: "(string \<Rightarrow> 'a option) \<Rightarrow> string \<Rightarrow> ('a \<times> string) list \<Rightarrow> string list \<Rightarrow> ('a \<times> string) list option" where
  "denyAll parse reason m [] = Some m"
| "denyAll parse reason m (raw # rest) =
    (case parse raw of None \<Rightarrow> None | Some k \<Rightarrow> denyAll parse reason (AList.update k reason m) rest)"

definition buildPolicy :: "string list \<Rightarrow> string list \<Rightarrow> channel_policy option" where
  "buildPolicy denyChannels denyFrameTypes =
    (case denyAll parseUint16 ''denied by -deny-channel'' [] denyChannels of
       None \<Rightarrow> None
     | Some chs \<Rightarrow>
         (case denyAll parsePair ''denied by -deny-frame-type'' [] denyFrameTypes of
            None \<Rightarrow> None
          | Some fts \<Rightarrow> Some \<lparr>DeniedChannels = chs, DeniedFrameTypes = fts\<rparr>))"

section \<open>What passes\<close>

lemma denyAll_Some:
  "denyAll parse reason m raws = Some m' \<Longrightarrow>
    (\<forall>raw \<in> set raws. parse raw \<noteq> None) \<and> dom (map_of m') = dom (map_of m) \<union> {k. \<exists>raw \<in> set raws. parse raw = Some k}"
proof (induction parse reason m raws rule: denyAll.induct)
  case (2 parse reason m raw rest)
  then show ?case by (auto simp: dom_update split: option.splits)
qed simp

lemma Decide_iff:
  "Decide p dir h = Inr () \<longleftrightarrow> hChannel h \<notin> dom (map_of (DeniedChannels p)) \<and> (hChannel h, hType h) \<notin> dom (map_of (DeniedFrameTypes p))"
  by (auto simp: Decide_def Let_def split: option.splits)

lemma passes_Wrap:
  assumes "Wrap \<lparr>fwRegistries = Some reg, fwPolicy = pol\<rparr> m = Inr r"
  shows "passes r dir f \<longleftrightarrow> frame_ok f \<and> HeaderSize + length (fPayload f) \<le> min MaxFrameSize (unat (relay_maxFrameSize r))
    \<and> registered reg (fChannel f) (fType f)
    \<and> (case pol of None \<Rightarrow> True | Some policy \<Rightarrow> policy dir (frameHeader (marshal f) f) = Inr ())"
proof -
  from assms have "rHook r = Some (\<lambda>dir header. rbind (map_err FwRegistry (RelayHook reg dir header)) (\<lambda>_.
      case pol of None \<Rightarrow> Inr () | Some policy \<Rightarrow> map_err FwPolicy (policy dir header)))"
    by (auto simp: Wrap_def Hook_def)
  moreover have "RelayHook reg dir (frameHeader (marshal f) f) = Inr () \<longleftrightarrow> registered reg (fChannel f) (fType f) \<and> HeaderSize + length (fPayload f) \<le> MaxFrameSize"
    if "frame_ok f" by (simp add: RelayHook_Validate [OF that] Validate_iff)
  ultimately show ?thesis by (auto simp: passes_def split: option.splits)
qed

text \<open>
  C22. The firewall passes exactly the registered frames that are not denied. When the command line is
  accepted, every entry parses, and the relay that the firewall wraps forwards a frame exactly when it
  is conformant, within the protocol limit and the configured limit, registered for its channel, on no
  channel that a \<^verbatim>\<open>-deny-channel\<close> entry names and of no pair that a \<^verbatim>\<open>-deny-frame-type\<close> entry names.
\<close>

theorem firewall_exact:
  assumes "buildPolicy denyChannels denyFrameTypes = Some p"
    and "Wrap \<lparr>fwRegistries = Some reg, fwPolicy = Some (Decide p)\<rparr> maxSz = Inr r"
  shows "(\<forall>raw \<in> set denyChannels. parseUint16 raw \<noteq> None) \<and> (\<forall>raw \<in> set denyFrameTypes. parsePair raw \<noteq> None)
    \<and> (passes r dir f \<longleftrightarrow> frame_ok f \<and> HeaderSize + length (fPayload f) \<le> min MaxFrameSize (unat (relay_maxFrameSize r))
         \<and> registered reg (fChannel f) (fType f)
         \<and> (\<forall>raw \<in> set denyChannels. parseUint16 raw \<noteq> Some (fChannel f))
         \<and> (\<forall>raw \<in> set denyFrameTypes. parsePair raw \<noteq> Some (fChannel f, fType f)))"
proof -
  from assms(1) obtain chs fts where d: "denyAll parseUint16 ''denied by -deny-channel'' [] denyChannels = Some chs"
    "denyAll parsePair ''denied by -deny-frame-type'' [] denyFrameTypes = Some fts"
    and p: "p = \<lparr>DeniedChannels = chs, DeniedFrameTypes = fts\<rparr>"
    by (auto simp: buildPolicy_def split: option.splits)
  have "hChannel (frameHeader raw f) = fChannel f" "hType (frameHeader raw f) = fType f" for raw by (simp_all add: frameHeader_def)
  then show ?thesis
    using denyAll_Some [OF d(1)] denyAll_Some [OF d(2)] passes_Wrap [OF assms(2), of dir f]
    by (auto simp: Decide_iff p)
qed


text \<open>A command line that denies channel 2 and one frame type of channel 1 lets the other types of channel 1 pass.\<close>

definition demo_policy :: channel_policy where
  "demo_policy = \<lparr>DeniedChannels = [(2, ''denied by -deny-channel'')], DeniedFrameTypes = [((1, 0x0100), ''denied by -deny-frame-type'')]\<rparr>"

lemmas parse_simps = parseUint16_def trimSpace_def isSpace_def ParseUint0_def parsePrefix_def lower_def Let_def

lemma demo_parse: "parseUint16 ''0x0002'' = Some 2" "parsePair ''1:0x0100'' = Some (1, 0x0100)"
  by (simp_all add: parse_simps parsePair_def splitColon_def)

theorem firewall_exact_witness:
  "buildPolicy [''0x0002''] [''1:0x0100''] = Some demo_policy
    \<and> (\<exists>r. Wrap \<lparr>fwRegistries = Some demo_registries, fwPolicy = Some (Decide demo_policy)\<rparr> 0 = Inr r \<and> passes r DirAToB demo_frame)"
proof -
  have p: "buildPolicy [''0x0002''] [''1:0x0100''] = Some demo_policy"
    by (simp add: buildPolicy_def demo_parse demo_policy_def)
  obtain r where r: "Wrap \<lparr>fwRegistries = Some demo_registries, fwPolicy = Some (Decide demo_policy)\<rparr> 0 = Inr r" "rMaxFrameSize r = 0"
    by (simp add: Wrap_def Hook_def)
  have "passes r DirAToB demo_frame"
    using firewall_exact [OF p r(1), of DirAToB demo_frame] demo_registered demo_frame_ok r(2)
    by (simp add: demo_parse demo_frame_def relay_maxFrameSize_def MaxFrameSize_def HeaderSize_def)
  with p r show ?thesis by blast
qed

end
