(* ===== verification/Bodies.thy ===== *)
theory Bodies
  imports Cbor "HOL-Library.AList"
begin

text \<open>
  What the bodies of the native channels share: the schema helpers of
  \<^verbatim>\<open>src/impl/go/memory_bodies.go\<close> (\<open>memField\<close>, \<open>matchesKind\<close>, \<open>checkFields\<close>), the envelope checks
  that every \<open>Validate*Payload\<close> repeats, the conversion \<open>cborToGo\<close> of \<^verbatim>\<open>memory_api.go\<close>, and the
  generic codec surface of \<^verbatim>\<open>codecbind_export.go\<close>. The locale \<open>channel_body\<close> is the contract of one
  channel's validator: what it accepts, and which sentinel every refusal wraps. It is interpreted on
  the validator of each channel, and what follows from the contract is proved once, here.
\<close>

section \<open>Model\<close>

datatype body_sentinel = ErrMemoryMalformed | ErrStreamMalformed | ErrTelemetryMalformed
  | ErrCommerceMalformed | ErrImmuneMalformed | ErrCapMalformed | ErrSettlementMalformed
  | ErrInteractionMalformed | ErrKnowledgeMalformed | ErrWorkflowMalformed

text \<open>The faults that the error texts tell apart, with the key the text names.\<close>

datatype body_fault = NotFrameType | BadCBOR cbor_err | NotMap | MissingKey u64 | WrongType u64
  | FrameKindContradicts | BadCorr | NegativeKey | NonIntegerKey | BadElement | UnknownParty
  | MissingSubID | StraySubID | EmptyReport | EmptyUpdate

type_synonym body_err = "body_sentinel \<times> body_fault"

type_synonym body_map = "cborEntry list"

datatype cborKind = kUint | kText | kBytes | kArray | kMap | kBool

text \<open>\<open>memField\<close>: the key, the kind, and whether the field is required.\<close>

type_synonym memField = "u64 \<times> cborKind \<times> bool"

definition matchesKind :: "goval \<Rightarrow> cborKind \<Rightarrow> bool" where
  "matchesKind v k =
    (case k of
       kUint \<Rightarrow> (case v of GUint _ \<Rightarrow> True | _ \<Rightarrow> False)
     | kText \<Rightarrow> (case v of GString _ \<Rightarrow> True | _ \<Rightarrow> False)
     | kBytes \<Rightarrow> (case v of GBytes _ \<Rightarrow> True | _ \<Rightarrow> False)
     | kArray \<Rightarrow> (case v of GArr _ \<Rightarrow> True | _ \<Rightarrow> False)
     | kMap \<Rightarrow> (case v of GMapC _ \<Rightarrow> True | _ \<Rightarrow> False)
     | kBool \<Rightarrow> (case v of GBool _ \<Rightarrow> True | _ \<Rightarrow> False))"

text \<open>
  \<open>checkFields\<close>: the loop over the schema, then the loop over the keys, which
  \<open>telemetryForwardCompat\<close> and \<open>commerceForwardCompatKeys\<close> repeat. The set \<open>known\<close> that the code also
  fills from the schema and from its argument \<open>envelope\<close> is never read, and is left out.
\<close>

fun checkSchema :: "body_map \<Rightarrow> memField list \<Rightarrow> body_err + unit" where
  "checkSchema m [] = Inr ()"
| "checkSchema m ((k, kd, required) # fs) =
    (case cborMap_get m k of
       None \<Rightarrow> if required then Inl (ErrMemoryMalformed, MissingKey k) else checkSchema m fs
     | Some v \<Rightarrow> if \<not> matchesKind v kd then Inl (ErrMemoryMalformed, WrongType k) else checkSchema m fs)"

fun checkKeys :: "body_sentinel \<Rightarrow> goval list \<Rightarrow> body_err + unit" where
  "checkKeys s [] = Inr ()"
| "checkKeys s (GUint _ # ks) = checkKeys s ks"
| "checkKeys s (GInt64 t # ks) = (if sint t < 0 then Inl (s, NegativeKey) else checkKeys s ks)"
| "checkKeys s (_ # ks) = Inl (s, NonIntegerKey)"

definition checkFields :: "body_map \<Rightarrow> memField list \<Rightarrow> body_err + unit" where
  "checkFields m schema =
    rbind (checkSchema m schema) (\<lambda>_. checkKeys ErrMemoryMalformed (cborMap_keys m))"

text \<open>\<open>fmt.Errorf("%w: %v", s, err)\<close>: the error now wraps \<open>s\<close> and keeps only the text of the old one.\<close>

definition rewrap :: "body_sentinel \<Rightarrow> body_err + 'a \<Rightarrow> body_err + 'a" where
  "rewrap s r = map_err (\<lambda>e. (s, snd e)) r"

text \<open>The blocks that the validators repeat: decode to a map, \<open>frame_kind\<close> (0), \<open>corr\<close> (1).\<close>

definition decodeBodyMap :: "body_sentinel \<Rightarrow> bytes \<Rightarrow> body_err + body_map" where
  "decodeBodyMap s payload =
    (case cborDecodeTop payload of
       Inl e \<Rightarrow> Inl (s, BadCBOR e)
     | Inr (GMapC m) \<Rightarrow> Inr m
     | Inr _ \<Rightarrow> Inl (s, NotMap))"

definition checkFrameKind :: "body_sentinel \<Rightarrow> frame_type \<Rightarrow> body_map \<Rightarrow> body_err + unit" where
  "checkFrameKind s ft m =
    (case cborMap_get m 0 of
       None \<Rightarrow> Inl (s, MissingKey 0)
     | Some (GUint fkv) \<Rightarrow> if fkv \<noteq> ucast ft then Inl (s, FrameKindContradicts) else Inr ()
     | Some _ \<Rightarrow> Inl (s, WrongType 0))"

definition checkCorr :: "body_sentinel \<Rightarrow> body_map \<Rightarrow> body_err + unit" where
  "checkCorr s m =
    (case cborMap_get m 1 of
       None \<Rightarrow> Inl (s, MissingKey 1)
     | Some (GBytes cb) \<Rightarrow> if length cb < 1 \<or> 64 < length cb then Inl (s, BadCorr) else Inr ()
     | Some _ \<Rightarrow> Inl (s, BadCorr))"

text \<open>What every \<open>Decode*Envelope\<close> reads of a validated map: a Go zero value where the key is not of its type.\<close>

definition envelopeOf :: "body_map \<Rightarrow> u64 \<times> bytes" where
  "envelopeOf m =
    ((case cborMap_get m 0 of Some (GUint u) \<Rightarrow> u | _ \<Rightarrow> 0),
     (case cborMap_get m 1 of Some (GBytes b) \<Rightarrow> b | _ \<Rightarrow> []))"

text \<open>
  \<open>cborToGo\<close>: the Go map is written entry by entry, so a later entry would overwrite an earlier one
  with the same key, and an entry whose key is not a \<open>uint64\<close> is skipped.
\<close>

fun uintEntries :: "(goval \<times> goval) list \<Rightarrow> (u64 \<times> goval) list" where
  "uintEntries [] = []"
| "uintEntries ((GUint uk, v) # es) = (uk, v) # uintEntries es"
| "uintEntries (_ # es) = uintEntries es"

function cborToGo :: "goval \<Rightarrow> goval" where
  "cborToGo (GMapC es) =
    GMapU (fold (\<lambda>(uk, v) out. AList.update uk v out) (uintEntries (map (\<lambda>(ke, k, v). (k, cborToGo v)) es)) [])"
| "cborToGo (GArr xs) = GArr (map cborToGo xs)"
| "cborToGo (GUint n) = GUint n"
| "cborToGo (GInt t) = GInt t"
| "cborToGo (GInt64 t) = GInt64 t"
| "cborToGo (GBytes b) = GBytes b"
| "cborToGo (GString b) = GString b"
| "cborToGo (GMapU m) = GMapU m"
| "cborToGo (GBool b) = GBool b"
| "cborToGo GNil = GNil"
  by pat_completeness auto
termination
  by (relation "measure size") (auto dest: entry_size simp: less_Suc_eq_le size_list_estimation')

text \<open>The generic surface of \<^verbatim>\<open>codecbind_export.go\<close>.\<close>

definition EncodeCanonicalCBOR :: "goval \<Rightarrow> bytes" where
  "EncodeCanonicalCBOR v = cborEncode v"

definition DecodeCanonicalCBOR :: "bytes \<Rightarrow> cbor_err + goval" where
  "DecodeCanonicalCBOR b = rbind (cborDecodeTop b) (\<lambda>v. Inr (cborToGo v))"

section \<open>What the checks accept\<close>

definition field_ok :: "body_map \<Rightarrow> memField \<Rightarrow> bool" where
  "field_ok m = (\<lambda>(k, kd, required). case cborMap_get m k of None \<Rightarrow> \<not> required | Some v \<Rightarrow> matchesKind v kd)"

fun uint_key :: "goval \<Rightarrow> bool" where
  "uint_key (GUint _) = True" | "uint_key (GInt64 t) = (\<not> sint t < 0)" | "uint_key _ = False"

definition keys_ok :: "body_map \<Rightarrow> bool" where
  "keys_ok m = list_all uint_key (cborMap_keys m)"

definition fields_ok :: "memField list \<Rightarrow> body_map \<Rightarrow> bool" where
  "fields_ok schema m = (list_all (field_ok m) schema \<and> keys_ok m)"

definition corr_ok :: "body_map \<Rightarrow> bool" where
  "corr_ok m = (\<exists>cb. cborMap_get m 1 = Some (GBytes cb) \<and> 1 \<le> length cb \<and> length cb \<le> 64)"

definition schemaOk :: "(frame_type \<Rightarrow> memField list option) \<Rightarrow> frame_type \<Rightarrow> body_map \<Rightarrow> bool" where
  "schemaOk schemas ft m = (case schemas ft of None \<Rightarrow> False | Some schema \<Rightarrow> fields_ok schema m)"

named_theorems body_accepts \<open>when the checks of a body succeed\<close>
named_theorems body_refuses \<open>which sentinel the errors of the checks wrap\<close>

lemma checkSchema_ok [body_accepts]: "checkSchema m schema = Inr u \<longleftrightarrow> list_all (field_ok m) schema"
  by (induction m schema rule: checkSchema.induct) (auto simp: field_ok_def split: option.splits)

lemma checkKeys_ok [body_accepts]: "checkKeys s ks = Inr u \<longleftrightarrow> list_all uint_key ks"
  by (induction s ks rule: checkKeys.induct) auto

lemma checkFields_ok [body_accepts]: "checkFields m schema = Inr u \<longleftrightarrow> fields_ok schema m"
  by (simp add: checkFields_def body_accepts fields_ok_def keys_ok_def)

lemma checkSchema_err [body_refuses]: "checkSchema m schema = Inl e \<Longrightarrow> fst e = ErrMemoryMalformed"
  by (induction m schema rule: checkSchema.induct) (auto split: option.splits if_splits)

lemma checkKeys_err [body_refuses]: "checkKeys s ks = Inl e \<Longrightarrow> fst e = s"
  by (induction s ks rule: checkKeys.induct) (auto split: if_splits)

lemma checkFields_err [body_refuses]: "checkFields m schema = Inl e \<Longrightarrow> fst e = ErrMemoryMalformed"
  by (auto simp: checkFields_def rbind_Inl_iff dest: body_refuses)

lemma rewrap_ok [body_accepts]: "rewrap s r = Inr x \<longleftrightarrow> r = Inr x"
  by (simp add: rewrap_def)

lemma rewrap_err [body_refuses]: "rewrap s r = Inl e \<Longrightarrow> fst e = s"
  by (auto simp: rewrap_def map_err_Inl_iff)

lemma decodeBodyMap_ok [body_accepts]: "decodeBodyMap s p = Inr m \<longleftrightarrow> cborDecodeTop p = Inr (GMapC m)"
  by (auto simp: decodeBodyMap_def split: sum.splits goval.splits)

lemma decodeBodyMap_err [body_refuses]: "decodeBodyMap s p = Inl e \<Longrightarrow> fst e = s"
  by (auto simp: decodeBodyMap_def split: sum.splits goval.splits)

lemma checkFrameKind_ok [body_accepts]: "checkFrameKind s ft m = Inr u \<longleftrightarrow> cborMap_get m 0 = Some (GUint (ucast ft))"
  by (auto simp: checkFrameKind_def split: option.splits goval.splits if_splits)

lemma checkFrameKind_err [body_refuses]: "checkFrameKind s ft m = Inl e \<Longrightarrow> fst e = s"
  by (auto simp: checkFrameKind_def split: option.splits goval.splits if_splits)

lemma checkCorr_ok [body_accepts]: "checkCorr s m = Inr u \<longleftrightarrow> corr_ok m"
  by (auto simp: checkCorr_def corr_ok_def not_less not_le Suc_le_eq split: option.splits goval.splits if_splits)

lemma checkCorr_err [body_refuses]: "checkCorr s m = Inl e \<Longrightarrow> fst e = s"
  by (auto simp: checkCorr_def split: option.splits goval.splits if_splits)

section \<open>Values and their decoded form\<close>

text \<open>
  The form in which the codec gives a Go value back: an \<open>int\<close> or \<open>int64\<close> as \<open>uint64\<close> when it is not
  negative and as \<open>int64\<close> otherwise, maps listed by ascending key. \<open>wireForm\<close> is the decoded tree in
  between, \<open>encodable d\<close> says that the value has distinct keys and at most \<open>d\<close> levels.
\<close>

definition intForm :: "u64 \<Rightarrow> goval" where
  "intForm t = (if sint t < 0 then GInt64 t else GUint t)"

function goForm :: "goval \<Rightarrow> goval" where
  "goForm (GMapU m) = GMapU (sort_key fst (map (\<lambda>(k, v). (k, goForm v)) m))"
| "goForm (GArr xs) = GArr (map goForm xs)"
| "goForm (GInt t) = intForm t"
| "goForm (GInt64 t) = intForm t"
| "goForm (GUint n) = GUint n"
| "goForm (GBytes b) = GBytes b"
| "goForm (GString b) = GString b"
| "goForm (GMapC es) = GMapC es"
| "goForm (GBool b) = GBool b"
| "goForm GNil = GNil"
  by pat_completeness auto
termination
  by (relation "measure size") (auto simp: less_Suc_eq_le size_list_estimation' intro!: size_list_estimation')

function wireForm :: "goval \<Rightarrow> goval" where
  "wireForm (GMapU m) = GMapC (newCBORMapU (map (\<lambda>(k, v). (k, wireForm v)) m))"
| "wireForm (GArr xs) = GArr (map wireForm xs)"
| "wireForm (GInt t) = intForm t"
| "wireForm (GInt64 t) = intForm t"
| "wireForm (GUint n) = GUint n"
| "wireForm (GBytes b) = GBytes b"
| "wireForm (GString b) = GString b"
| "wireForm (GMapC es) = GMapC es"
| "wireForm (GBool b) = GBool b"
| "wireForm GNil = GNil"
  by pat_completeness auto
termination
  by (relation "measure size") (auto simp: less_Suc_eq_le size_list_estimation' intro!: size_list_estimation')

primrec encodable :: "nat \<Rightarrow> goval \<Rightarrow> bool" where
  "encodable 0 v = False"
| "encodable (Suc d) v =
    (case v of
       GBytes b \<Rightarrow> length b < 2 ^ 64
     | GString b \<Rightarrow> length b < 2 ^ 64
     | GArr xs \<Rightarrow> length xs < 2 ^ 64 \<and> list_all (encodable d) xs
     | GMapU m \<Rightarrow> length m < 2 ^ 64 \<and> distinct (map fst m) \<and> list_all (encodable d) (map snd m)
     | GMapC _ \<Rightarrow> False
     | _ \<Rightarrow> True)"

lemma sort_key_map: "sort_key f (map g xs) = map g (sort_key (f \<circ> g) xs)"
proof (induction xs)
  case (Cons x xs)
  have "insort_key f (g x) (map g ys) = map g (insort_key (f \<circ> g) x ys)" for ys
    by (induction ys) auto
  with Cons show ?case by (simp add: comp_def)
qed simp

lemma newCBORMapU_map:
  "newCBORMapU (map (\<lambda>(k, v). (k, f v)) m) = map (\<lambda>(ke, k, v). (ke, k, f v)) (newCBORMapU m)"
  by (simp add: newCBORMapU_def sort_key_map comp_def case_prod_unfold)

lemma cborEncode_wireForm: "cborEncode (wireForm v) = cborEncode v"
proof (induction v rule: wireForm.induct)
  case (1 m)
  have "cborEncode (wireForm v) = cborEncode v" if "(ke, k, v) \<in> set (newCBORMapU m)" for ke k v
    using 1 that by (force simp: set_newCBORMapU)
  then show ?case
    unfolding wireForm.simps newCBORMapU_map by (auto simp: comp_def intro!: arg_cong [where f = concat] map_cong)
next
  case (2 xs)
  then show ?case by (auto simp: comp_def intro!: arg_cong [where f = concat] map_cong)
qed (auto simp: intForm_def)

lemma cbor_ok_wireForm: "encodable d v \<Longrightarrow> cbor_ok d (wireForm v)"
proof (induction d arbitrary: v)
  case (Suc d)
  show ?case
  proof (cases v)
    case (GMapU m)
    then have m: "distinct (map fst m)" "length m < 2 ^ 64" "list_all (encodable d) (map snd m)"
      using Suc.prems by simp_all
    let ?m = "map (\<lambda>(k, v). (k, wireForm v)) m"
    have "map fst ?m = map fst m" by auto
    then have s: "sorted_wrt (<) (map fst (newCBORMapU ?m))"
      using m(1) by (intro newCBORMapU_sorted) (simp only:)
    have e: "entry_ok (cbor_ok d) e" if e: "e \<in> set (newCBORMapU ?m)" for e
    proof -
      obtain k v where kv: "(k, v) \<in> set m" "e = (encodeHead 0 k, GUint k, wireForm v)"
        using e by (auto simp: set_newCBORMapU)
      then have "encodable d v" using m(3) by (auto simp: list_all_iff)
      then have "cbor_ok d (wireForm v)" "d \<noteq> 0" using Suc.IH by (auto intro: gr0I)
      then show ?thesis using kv(2) by (cases d) auto
    qed
    then show ?thesis using GMapU s m(2) by (simp add: list_all_iff byteLess_eq)
  qed (use Suc in \<open>auto simp: list_all_iff intForm_def\<close>)
qed simp


lemma fold_update_distinct:
  assumes "distinct (map fst xs)" and "fst ` set xs \<inter> fst ` set out = {}"
  shows "fold (\<lambda>(k, v) out. AList.update k v out) xs out = out @ xs"
  using assms
proof (induction xs arbitrary: out)
  case (Cons x xs)
  obtain k v where x: "x = (k, v)" by (cases x)
  have "k \<notin> fst ` set out" using Cons.prems(2) x by auto
  then have "AList.update k v out = out @ [(k, v)]" by (induction out) auto
  then show ?case using Cons x by (auto simp: image_iff)
qed simp

lemma uintEntries_uint: "uintEntries (map (\<lambda>(k, v). (GUint k, f v)) m) = map (\<lambda>(k, v). (k, f v)) m"
  by (induction m) auto

lemma encodeHead_le: "encodeHead 0 a \<le> encodeHead 0 b \<longleftrightarrow> a \<le> b"
  using encodeHead_less [of a b] encodeHead_less [of b a] by (cases a b rule: linorder_cases) auto

lemma newCBORMapU_sort: "newCBORMapU m = map (\<lambda>(k, v). (encodeHead 0 k, GUint k, v)) (sort_key fst m)"
proof -
  have "insort_key (\<lambda>x. encodeHead 0 (fst x)) (k, v) ys = insort_key fst (k, v) ys"
    for k :: u64 and v :: goval and ys
    by (induction ys) (auto simp: encodeHead_le)
  then have "sort_key (\<lambda>x. encodeHead 0 (fst x)) m = sort_key fst m"
    by (induction m) auto
  then show ?thesis by (simp add: newCBORMapU_def sort_key_map comp_def case_prod_unfold)
qed

lemma cborToGo_wireForm: "encodable d v \<Longrightarrow> cborToGo (wireForm v) = goForm v"
proof (induction d arbitrary: v)
  case (Suc d)
  show ?case
  proof (cases v)
    case (GMapU m)
    let ?m = "sort_key fst m"
    have IH: "cborToGo (wireForm x) = goForm x" if "(k, x) \<in> set m" for k x
      using that Suc GMapU by (auto simp: list_all_iff)
    have d: "distinct (map fst (map (\<lambda>(k, v). (k, cborToGo (wireForm v))) ?m))"
      using Suc.prems GMapU by (simp add: comp_def case_prod_unfold distinct_map)
    have "map (\<lambda>(k, v). (k, cborToGo (wireForm v))) ?m = map (\<lambda>(k, v). (k, goForm v)) ?m"
      using IH by (auto intro!: map_cong)
    moreover have "map (\<lambda>(k, v). (k, goForm v)) ?m = sort_key fst (map (\<lambda>(k, v). (k, goForm v)) m)"
      by (simp add: sort_key_map comp_def case_prod_unfold)
    ultimately show ?thesis
      using fold_update_distinct [OF d, of "[]"] uintEntries_uint [of "\<lambda>v. cborToGo (wireForm v)" ?m]
      unfolding GMapU wireForm.simps newCBORMapU_map newCBORMapU_sort
      by (simp add: sort_key_map comp_def case_prod_unfold)
  qed (use Suc in \<open>auto simp: list_all_iff intForm_def\<close>)
qed simp

lemma DecodeCanonicalCBOR_Encode:
  assumes "encodable cborMaxNestingDepth v"
  shows "DecodeCanonicalCBOR (EncodeCanonicalCBOR v) = Inr (goForm v)"
proof -
  have "cborDecodeTop (cborEncode v) = Inr (wireForm v)"
    using assms by (simp add: cborDecodeTop_iff cbor_ok_wireForm cborEncode_wireForm)
  then show ?thesis
    using cborToGo_wireForm [OF assms] by (simp add: DecodeCanonicalCBOR_def EncodeCanonicalCBOR_def)
qed

section \<open>Go maps of validated bodies\<close>

text \<open>The \<open>map[uint64]any\<close> that every \<open>Decode*Body\<close> returns for a validated map.\<close>

definition bodyFields :: "body_sentinel \<Rightarrow> body_map \<Rightarrow> body_err + (u64 \<times> goval) list" where
  "bodyFields s m = (case cborToGo (GMapC m) of GMapU out \<Rightarrow> Inr out | _ \<Rightarrow> Inl (s, NotMap))"

lemma uint_entries:
  assumes "cbor_ok d (GMapC m)" and "keys_ok m"
  obtains xs where "m = map (\<lambda>(k, v). (encodeHead 0 k, GUint k, v)) xs" and "distinct (map fst xs)"
proof -
  obtain d' where d: "d = Suc d'" using assms(1) by (cases d) auto
  have "\<exists>k v. e = (encodeHead 0 k, GUint k, v)" if "e \<in> set m" for e
  proof -
    obtain ke k v where e: "e = (ke, k, v)" by (cases e)
    have "ke = cborEncode k" "cbor_ok d' k" using assms(1) that e d by (auto simp: list_all_iff)
    moreover have "uint_key k" using assms(2) that e by (force simp: keys_ok_def cborMap_keys_def list_all_iff)
    ultimately show ?thesis using e by (cases d'; cases k) auto
  qed
  then have "\<forall>e \<in> set m. \<exists>kv. e = (encodeHead 0 (fst kv), GUint (fst kv), snd kv)" by fastforce
  then obtain f where f: "\<forall>e \<in> set m. e = (encodeHead 0 (fst (f e)), GUint (fst (f e)), snd (f e))"
    using bchoice [of "set m" "\<lambda>e kv. e = (encodeHead 0 (fst kv), GUint (fst kv), snd kv)"] by blast
  have eq: "m = map (\<lambda>(k, v). (encodeHead 0 k, GUint k, v)) (map f m)"
    using f by (auto simp: comp_def case_prod_unfold intro!: map_idI [symmetric])
  have "sorted_wrt (<) (map fst m)" using assms(1) d by (simp add: byteLess_eq)
  then have "distinct (map fst m)" by (simp add: strict_sorted_iff)
  moreover have "map fst m = map (encodeHead 0) (map fst (map f m))"
    using f by (auto intro!: map_cong)
  ultimately have "distinct (map (encodeHead 0) (map fst (map f m)))" by metis
  then have "distinct (map fst (map f m))" by (rule conjunct1 [OF iffD1 [OF distinct_map]])
  with eq show ?thesis by (rule that)
qed

lemma bodyFields_exact:
  assumes "cbor_ok d (GMapC m)" and "keys_ok m"
  obtains out where "bodyFields s m = Inr out" and "distinct (map fst out)"
    and "map GUint (map fst out) = cborMap_keys m"
    and "\<And>k. map_of out k = map_option cborToGo (cborMap_get m k)"
proof -
  obtain xs where m: "m = map (\<lambda>(k, v). (encodeHead 0 k, GUint k, v)) xs" and d: "distinct (map fst xs)"
    by (rule uint_entries [OF assms])
  let ?out = "map (\<lambda>(k, v). (k, cborToGo v)) xs"
  have f: "map fst ?out = map fst xs" by auto
  have "cborToGo (GMapC m) = GMapU ?out"
    using fold_update_distinct [of ?out "[]"] d f uintEntries_uint [of cborToGo xs]
    by (simp add: m comp_def case_prod_unfold)
  moreover have "map_of ?out k = map_option cborToGo (cborMap_get m k)" for k
    unfolding m by (induction xs) (auto simp: encodeHead_inject)
  moreover have "map GUint (map fst ?out) = cborMap_keys m"
    by (auto simp: m cborMap_keys_def)
  moreover have "distinct (map fst ?out)" using d unfolding f .
  ultimately show ?thesis by (intro that [of ?out]) (simp_all only: bodyFields_def goval.case)
qed

lemma wireForm_fields:
  assumes "encodable d (GMapU fields)"
  shows "wireForm (GMapU fields) = GMapC (newCBORMapU (map (\<lambda>(k, v). (k, wireForm v)) fields))"
    and "cborMap_get (newCBORMapU (map (\<lambda>(k, v). (k, wireForm v)) fields)) k = map_option wireForm (map_of fields k)"
    and "keys_ok (newCBORMapU (map (\<lambda>(k, v). (k, wireForm v)) fields))"
proof -
  have "map fst (map (\<lambda>(k, v). (k, wireForm v)) fields) = map fst fields" by auto
  moreover have "distinct (map fst fields)" using assms by (cases d) auto
  ultimately have "distinct (map fst (map (\<lambda>(k, v). (k, wireForm v)) fields))" by (simp only:)
  then show "cborMap_get (newCBORMapU (map (\<lambda>(k, v). (k, wireForm v)) fields)) k = map_option wireForm (map_of fields k)"
    by (simp add: cborMap_get_newCBORMapU map_of_map)
qed (auto simp: keys_ok_def cborMap_keys_def list_all_iff set_newCBORMapU)

definition wireFields :: "(u64 \<times> goval) list \<Rightarrow> body_map" where
  "wireFields fields = newCBORMapU (map (\<lambda>(k, v). (k, wireForm v)) fields)"

section \<open>The contract of a channel's validator\<close>

text \<open>\<open>body_ok\<close> is what the channel demands beyond the common part: its schema, its correlation rule, its nested rules.\<close>

locale channel_body =
  fixes validate :: "frame_type \<Rightarrow> bytes \<Rightarrow> body_err + body_map"
    and s :: body_sentinel
    and body_ok :: "frame_type \<Rightarrow> body_map \<Rightarrow> bool"
  assumes accepts: "validate ft p = Inr m \<longleftrightarrow>
      cborDecodeTop p = Inr (GMapC m) \<and> cborMap_get m 0 = Some (GUint (ucast ft)) \<and> keys_ok m \<and> body_ok ft m"
    and refuses: "validate ft p = Inl e \<Longrightarrow> fst e = s"
begin

lemma canonical: "validate ft p = Inr m \<Longrightarrow> p = EncodeCanonicalCBOR (GMapC m)"
  by (simp add: accepts cborDecodeTop_iff EncodeCanonicalCBOR_def)

lemma one_frame_type:
  assumes "validate ft p = Inr m" and "validate ft' p = Inr m'"
  shows "ft' = ft"
proof -
  have "(ucast ft :: u64) = ucast ft'" using assms by (auto simp: accepts)
  then have "(ucast (ucast ft :: u64) :: frame_type) = ucast (ucast ft' :: u64)" by (rule arg_cong)
  then show ?thesis by (simp add: ucast_up_ucast_id is_up)
qed

lemma fields_exact:
  assumes "validate ft p = Inr m"
  obtains out where "bodyFields s m = Inr out" and "distinct (map fst out)"
    and "map GUint (map fst out) = cborMap_keys m"
    and "\<And>k. map_of out k = map_option cborToGo (cborMap_get m k)"
  using assms bodyFields_exact [of cborMaxNestingDepth m s] by (auto simp: accepts cborDecodeTop_iff)

lemma encode_validates:
  assumes "encodable cborMaxNestingDepth (GMapU fields)"
    and "map_option wireForm (map_of fields 0) = Some (GUint (ucast ft))" and "body_ok ft (wireFields fields)"
  shows "validate ft (cborEncode (GMapU fields)) = Inr (wireFields fields)"
    and "bodyFields s (wireFields fields) = Inr (sort_key fst (map (\<lambda>(k, v). (k, goForm v)) fields))"
proof -
  have "cborDecodeTop (cborEncode (GMapU fields)) = Inr (GMapC (wireFields fields))"
    using assms(1) cbor_ok_wireForm [OF assms(1)] cborEncode_wireForm [of "GMapU fields"]
    by (simp add: cborDecodeTop_iff wireFields_def)
  then show "validate ft (cborEncode (GMapU fields)) = Inr (wireFields fields)"
    using assms wireForm_fields [OF assms(1)] by (simp add: accepts wireFields_def)
  show "bodyFields s (wireFields fields) = Inr (sort_key fst (map (\<lambda>(k, v). (k, goForm v)) fields))"
    using cborToGo_wireForm [OF assms(1)] by (simp add: bodyFields_def wireFields_def)
qed

end

section \<open>Frame type ranges\<close>

lemma frame_range:
  "lo \<le> ft \<and> ft \<le> hi \<longleftrightarrow> ft \<in> set (map (of_nat :: nat \<Rightarrow> frame_type) [unat lo..<Suc (unat hi)])"
proof
  assume "lo \<le> ft \<and> ft \<le> hi"
  then have "unat ft \<in> set [unat lo..<Suc (unat hi)]" by (auto simp: word_le_nat_alt le_less)
  then have "(of_nat (unat ft) :: frame_type) \<in> of_nat ` set [unat lo..<Suc (unat hi)]" by (rule imageI)
  then show "ft \<in> set (map (of_nat :: nat \<Rightarrow> frame_type) [unat lo..<Suc (unat hi)])" by simp
next
  assume "ft \<in> set (map (of_nat :: nat \<Rightarrow> frame_type) [unat lo..<Suc (unat hi)])"
  then obtain n where n: "unat lo \<le> n" "n \<le> unat hi" and ft: "ft = of_nat n" by auto
  have "n < 2 ^ 16" using n(2) unat_less [of hi] by simp
  then have "unat ft = n" by (simp add: ft unat_of_nat_small)
  then show "lo \<le> ft \<and> ft \<le> hi" using n by (simp add: word_le_nat_alt)
qed

lemma cborEncode_goForm: "cborEncode (goForm v) = cborEncode v"
proof (induction v rule: goForm.induct)
  case (1 m)
  have eq: "newCBORMapU (sort_key fst (map (\<lambda>(k, v). (k, goForm v)) m))
      = map (\<lambda>(ke, k, v). (ke, k, goForm v)) (newCBORMapU m)"
    by (simp add: newCBORMapU_sort sort_key_map comp_def case_prod_unfold sort_key_id_if_sorted)
  have "cborEncode (goForm v) = cborEncode v" if "(ke, k, v) \<in> set (newCBORMapU m)" for ke k v
    using 1 that by (force simp: set_newCBORMapU)
  then have "map (\<lambda>(ke, k, v). ke @ cborEncode v) (map (\<lambda>(ke, k, v). (ke, k, goForm v)) (newCBORMapU m))
      = map (\<lambda>(ke, k, v). ke @ cborEncode v) (newCBORMapU m)"
    by auto
  then show ?case unfolding goForm.simps cborEncode.simps eq by (simp only: length_map)
next
  case (2 xs)
  then show ?case by (auto simp: comp_def intro!: arg_cong [where f = concat] map_cong)
qed (auto simp: intForm_def)

section \<open>What the conversion to Go values loses\<close>

text \<open>
  \<open>uintKeyed\<close>: every key of every map inside the item is unsigned. The conversion drops the other
  entries, so it loses nothing exactly on these items.
\<close>

function uintKeyed :: "goval \<Rightarrow> bool" where
  "uintKeyed (GMapC es) \<longleftrightarrow> list_all (\<lambda>(ke, k, v). uint_key k \<and> uintKeyed v) es"
| "uintKeyed (GArr xs) \<longleftrightarrow> list_all uintKeyed xs"
| "uintKeyed (GMapU m) \<longleftrightarrow> True"
| "uintKeyed (GUint n) \<longleftrightarrow> True"
| "uintKeyed (GInt t) \<longleftrightarrow> True"
| "uintKeyed (GInt64 t) \<longleftrightarrow> True"
| "uintKeyed (GBytes b) \<longleftrightarrow> True"
| "uintKeyed (GString b) \<longleftrightarrow> True"
| "uintKeyed (GBool b) \<longleftrightarrow> True"
| "uintKeyed GNil \<longleftrightarrow> True"
  by pat_completeness auto
termination
  by (relation "measure size") (auto dest: entry_size simp: less_Suc_eq_le size_list_estimation')

lemma wireForm_uintKeyed: "encodable d v \<Longrightarrow> uintKeyed (wireForm v)"
proof (induction d arbitrary: v)
  case (Suc d)
  then show ?case
    by (cases v) (auto simp: list_all_iff set_newCBORMapU intForm_def)
qed simp

lemma uintEntries_set: "(u, v) \<in> set (uintEntries es) \<longleftrightarrow> (GUint u, v) \<in> set es" "length (uintEntries es) \<le> length es"
  by (induction es rule: uintEntries.induct) auto

lemma uintEntries_distinct:
  assumes "list_all (entry_ok ok) es" and "sorted_wrt byteLess (map fst es)"
  shows "distinct (map fst (uintEntries (map (\<lambda>(ke, k, v). (k, f v)) es)))"
  using assms
proof (induction es)
  case (Cons e es)
  obtain ke k v where e: "e = (ke, k, v)" by (cases e)
  have "ke \<noteq> ke'" if "(ke', k', v') \<in> set es" for ke' k' v'
    using Cons.prems(2) that e by (force simp: byteLess_eq)
  then have "u \<notin> fst ` set (uintEntries (map (\<lambda>(ke, k, v). (k, f v)) es))" if "k = GUint u" for u
    using that Cons.prems(1) e by (fastforce simp: uintEntries_set list_all_iff)
  with Cons e show ?case by (cases k) auto
qed simp

lemma cborToGo_map:
  assumes "list_all (entry_ok ok) es" and "sorted_wrt byteLess (map fst es)"
  shows "cborToGo (GMapC es) = GMapU (uintEntries (map (\<lambda>(ke, k, v). (k, cborToGo v)) es))"
  using fold_update_distinct [OF uintEntries_distinct [OF assms, of cborToGo], of "[]"] by simp

lemma cborToGo_encodable: "cbor_ok d v \<Longrightarrow> encodable d (cborToGo v)"
proof (induction d arbitrary: v)
  case (Suc d)
  show ?case
  proof (cases v)
    case (GMapC es)
    with Suc.prems have es: "length es < 2 ^ 64" "list_all (entry_ok (cbor_ok d)) es" "sorted_wrt byteLess (map fst es)" by simp_all
    let ?us = "uintEntries (map (\<lambda>(ke, k, v). (k, cborToGo v)) es)"
    have "length ?us < 2 ^ 64" using uintEntries_set(2) [of "map (\<lambda>(ke, k, v). (k, cborToGo v)) es"] es(1) by simp
    moreover have "encodable d w" if "(u, w) \<in> set ?us" for u w
      using that es(2) Suc.IH by (fastforce simp: uintEntries_set list_all_iff)
    ultimately show ?thesis
      using uintEntries_distinct [OF es(2,3), of cborToGo] by (auto simp: GMapC cborToGo_map [OF es(2,3)] list_all_iff simp del: cborToGo.simps(1))
  qed (use Suc in \<open>auto simp: list_all_iff\<close>)
qed simp

text \<open>The conversion to Go values keeps the item exactly when every map key in it is unsigned.\<close>

lemma wireForm_cborToGo: "cbor_ok d v \<Longrightarrow> uintKeyed v \<Longrightarrow> wireForm (cborToGo v) = v"
proof (induction d arbitrary: v)
  case (Suc d)
  show ?case
  proof (cases v)
    case (GMapC es)
    have "keys_ok es" using Suc.prems(2) GMapC by (auto simp: keys_ok_def cborMap_keys_def list_all_iff)
    then obtain xs where es: "es = map (\<lambda>(k, v). (encodeHead 0 k, GUint k, v)) xs" using uint_entries Suc.prems(1) GMapC by blast
    have ok: "list_all (entry_ok (cbor_ok d)) es" "sorted_wrt byteLess (map fst es)" using Suc.prems(1) GMapC by simp_all
    have IH: "wireForm (cborToGo w) = w" if "(k, w) \<in> set xs" for k w
      using that Suc.IH Suc.prems GMapC by (fastforce simp: es list_all_iff)
    have "sorted_wrt (<) (map (encodeHead 0) (map fst xs))" using ok(2) by (simp add: es byteLess_eq comp_def case_prod_unfold)
    then have "sorted (map fst xs)" by (auto simp: sorted_wrt_map encodeHead_le [symmetric] elim!: sorted_wrt_mono_rel [rotated])
    then have "sorted (map fst (map (\<lambda>(k, v). (k, cborToGo v)) xs))" by (simp add: comp_def case_prod_unfold)
    moreover have "cborToGo (GMapC es) = GMapU (map (\<lambda>(k, v). (k, cborToGo v)) xs)"
      using uintEntries_uint [of cborToGo xs] unfolding cborToGo_map [OF ok] by (simp add: es comp_def case_prod_unfold)
    ultimately have "wireForm (cborToGo (GMapC es)) = GMapC (map (\<lambda>(k, v). (encodeHead 0 k, GUint k, wireForm (cborToGo v))) xs)"
      by (simp add: newCBORMapU_map newCBORMapU_sort sort_key_id_if_sorted comp_def case_prod_unfold del: cborToGo.simps(1))
    also have "\<dots> = GMapC es" using IH by (auto simp: es)
    finally show ?thesis by (simp add: GMapC)
  qed (use Suc in \<open>auto simp: list_all_iff intForm_def intro: map_idI\<close>)
qed simp

lemma cborToGo_lossless:
  assumes "cbor_ok cborMaxNestingDepth v"
  shows "cborEncode (cborToGo v) = cborEncode v \<longleftrightarrow> uintKeyed v"
proof
  note enc = cborToGo_encodable [OF assms]
  assume "cborEncode (cborToGo v) = cborEncode v"
  then have "cborDecodeTop (cborEncode v) = Inr (wireForm (cborToGo v))"
    using cbor_ok_wireForm [OF enc] by (simp add: cborDecodeTop_iff cborEncode_wireForm)
  moreover have "cborDecodeTop (cborEncode v) = Inr v" using assms by (simp add: cborDecodeTop_iff)
  ultimately show "uintKeyed v" using wireForm_uintKeyed [OF enc] by simp
next
  assume "uintKeyed v"
  from wireForm_cborToGo [OF assms this] show "cborEncode (cborToGo v) = cborEncode v" by (metis cborEncode_wireForm)
qed

section \<open>Properties\<close>

text \<open>
  Claim C29 (codec round trip). A Go value of at most eight levels, with the keys of every map
  distinct, is given back by \<open>DecodeCanonicalCBOR\<close> from its encoding: integers come back as \<open>uint64\<close> or,
  when negative, as \<open>int64\<close>, maps with the same entries; and the value given back has the same encoding,
  so the encoding of a map does not depend on the order in which the runtime iterates over it.
\<close>

theorem codec_roundtrip:
  assumes "encodable cborMaxNestingDepth v"
  shows "DecodeCanonicalCBOR (EncodeCanonicalCBOR v) = Inr (goForm v)
    \<and> EncodeCanonicalCBOR (goForm v) = EncodeCanonicalCBOR v"
  using DecodeCanonicalCBOR_Encode [OF assms] by (simp add: EncodeCanonicalCBOR_def cborEncode_goForm)

lemma encodable_numeral: 
  "encodable (numeral k) v =
    (case v of
       GBytes b \<Rightarrow> length b < 2 ^ 64
     | GString b \<Rightarrow> length b < 2 ^ 64
     | GArr xs \<Rightarrow> length xs < 2 ^ 64 \<and> list_all (encodable (pred_numeral k)) xs
     | GMapU m \<Rightarrow> length m < 2 ^ 64 \<and> distinct (map fst m) \<and> list_all (encodable (pred_numeral k)) (map snd m)
     | GMapC _ \<Rightarrow> False
     | _ \<Rightarrow> True)"
  by (simp only: numeral_eq_Suc encodable.simps)

theorem codec_roundtrip_witness:
  "DecodeCanonicalCBOR (EncodeCanonicalCBOR (GMapU [(7, GInt (- 1)), (2, GArr [GInt64 5, GMapU []])]))
     = Inr (GMapU [(2, GArr [GUint 5, GMapU []]), (7, GInt64 (- 1))])"
proof -
  let ?v = "GMapU [(7, GInt (- 1)), (2, GArr [GInt64 5, GMapU []])]"
  have "encodable cborMaxNestingDepth ?v"
    by (simp add: cborMaxNestingDepth_def encodable_numeral)
  moreover have "goForm ?v = GMapU [(2, GArr [GUint 5, GMapU []]), (7, GInt64 (- 1))]"
    by (simp add: intForm_def)
  ultimately show ?thesis using codec_roundtrip [of ?v] by simp
qed

text \<open>
  The decoder is not injective: an entry whose key is not unsigned is dropped by \<open>cborToGo\<close>, so two
  canonical items decode to the same Go value.
\<close>

lemma DecodeCanonicalCBOR_drops_entry:
  "DecodeCanonicalCBOR [0xA1, 0x61, 0x61, 0x01] = Inr (GMapU []) \<and> DecodeCanonicalCBOR [0xA0] = Inr (GMapU [])"
proof -
  let ?m = "GMapC [([0x61, 0x61], GString [0x61], GUint 1)]"
  have "cbor_ok cborMaxNestingDepth ?m" "cborEncode ?m = [0xA1, 0x61, 0x61, 0x01]"
    "cbor_ok cborMaxNestingDepth (GMapC [])" "cborEncode (GMapC []) = [0xA0]"
    by (simp_all add: cborMaxNestingDepth_def cbor_ok_numeral encodeHead_def)
  then have "cborDecodeTop [0xA1, 0x61, 0x61, 0x01] = Inr ?m" "cborDecodeTop [0xA0] = Inr (GMapC [])"
    by (metis cborDecodeTop_iff)+
  then show ?thesis by (simp add: DecodeCanonicalCBOR_def)
qed

end
