(* ===== verification/MemoryBodies.thy ===== *)
theory MemoryBodies
  imports Bodies
begin

text \<open>
  The Memory channel: \<^verbatim>\<open>memory.go\<close>, \<^verbatim>\<open>memory_bodies.go\<close> and \<^verbatim>\<open>memory_api.go\<close> under
  \<^verbatim>\<open>src/impl/go\<close>. The checks themselves are in theory Bodies.
\<close>

section \<open>Model\<close>

text \<open>The frame types of the channel.\<close>

abbreviation FrameMemoryCreateReq :: frame_type where "FrameMemoryCreateReq \<equiv> 0x0100"
abbreviation FrameMemoryCreateResult :: frame_type where "FrameMemoryCreateResult \<equiv> 0x0101"
abbreviation FrameMemoryReadReq :: frame_type where "FrameMemoryReadReq \<equiv> 0x0102"
abbreviation FrameMemoryReadResult :: frame_type where "FrameMemoryReadResult \<equiv> 0x0103"
abbreviation FrameMemoryUpdateReq :: frame_type where "FrameMemoryUpdateReq \<equiv> 0x0104"
abbreviation FrameMemoryUpdateResult :: frame_type where "FrameMemoryUpdateResult \<equiv> 0x0105"
abbreviation FrameMemoryDeleteReq :: frame_type where "FrameMemoryDeleteReq \<equiv> 0x0106"
abbreviation FrameMemoryDeleteResult :: frame_type where "FrameMemoryDeleteResult \<equiv> 0x0107"
abbreviation FrameMemoryRetrieveReq :: frame_type where "FrameMemoryRetrieveReq \<equiv> 0x0108"
abbreviation FrameMemoryRetrieveResult :: frame_type where "FrameMemoryRetrieveResult \<equiv> 0x0109"
abbreviation FrameMemoryRetrieveStreamData :: frame_type where "FrameMemoryRetrieveStreamData \<equiv> 0x010A"
abbreviation FrameMemoryRetrieveStreamEnd :: frame_type where "FrameMemoryRetrieveStreamEnd \<equiv> 0x010B"
abbreviation FrameMemoryStatusReq :: frame_type where "FrameMemoryStatusReq \<equiv> 0x010C"
abbreviation FrameMemoryStatusResult :: frame_type where "FrameMemoryStatusResult \<equiv> 0x010D"
abbreviation FrameMemoryError :: frame_type where "FrameMemoryError \<equiv> 0x010E"
abbreviation FrameMemoryEvict :: frame_type where "FrameMemoryEvict \<equiv> 0x0035"
abbreviation FrameMemoryRevive :: frame_type where "FrameMemoryRevive \<equiv> 0x0036"

definition IsMemoryFrame :: "frame_type \<Rightarrow> bool" where
  "IsMemoryFrame ft = (ft = FrameMemoryEvict \<or> ft = FrameMemoryRevive \<or>
    (FrameMemoryCreateReq \<le> ft \<and> ft \<le> FrameMemoryError))"

definition IsMemoryRequest :: "frame_type \<Rightarrow> bool" where
  "IsMemoryRequest ft = (ft \<in> {FrameMemoryCreateReq, FrameMemoryReadReq, FrameMemoryUpdateReq,
     FrameMemoryDeleteReq, FrameMemoryRetrieveReq, FrameMemoryStatusReq,
     FrameMemoryEvict, FrameMemoryRevive})"

definition memorySchemas :: "frame_type \<Rightarrow> memField list option" where
  "memorySchemas = map_of
    [(FrameMemoryCreateReq, [(2, kText, True), (3, kText, False), (4, kText, False), (5, kText, False),
        (6, kText, False), (7, kText, False), (8, kText, False), (9, kText, False),
        (10, kMap, False), (11, kUint, True)]),
     (FrameMemoryCreateResult, [(2, kText, True), (3, kText, True)]),
     (FrameMemoryReadReq, [(2, kText, True), (3, kUint, True)]),
     (FrameMemoryReadResult, [(2, kMap, True)]),
     (FrameMemoryUpdateReq, [(2, kText, True), (3, kText, False), (4, kText, False), (5, kText, False),
        (6, kText, False), (7, kText, False), (8, kText, False), (9, kMap, False),
        (10, kUint, True)]),
     (FrameMemoryUpdateResult, [(2, kText, True), (3, kText, True)]),
     (FrameMemoryDeleteReq, [(2, kText, True), (3, kUint, True)]),
     (FrameMemoryDeleteResult, [(2, kText, True), (3, kText, True)]),
     (FrameMemoryRetrieveReq, [(2, kText, False), (3, kText, False), (4, kText, False), (5, kText, False),
        (6, kText, False), (7, kUint, False), (8, kText, False), (9, kBytes, False),
        (10, kUint, True)]),
     (FrameMemoryRetrieveResult, [(2, kArray, True), (3, kBool, True), (4, kBytes, False), (5, kUint, False),
        (6, kBool, False)]),
     (FrameMemoryRetrieveStreamData, [(2, kArray, True)]),
     (FrameMemoryRetrieveStreamEnd, [(2, kArray, False), (3, kBool, True)]),
     (FrameMemoryStatusReq, []),
     (FrameMemoryStatusResult, [(2, kText, True), (3, kText, False), (4, kUint, False), (5, kMap, False)]),
     (FrameMemoryError, [(2, kUint, True), (3, kText, True), (4, kUint, False), (5, kText, False)]),
     (FrameMemoryEvict, [(2, kText, True), (3, kText, False), (4, kUint, True)]),
     (FrameMemoryRevive, [(2, kText, True), (3, kUint, True)])]"

definition memoryRecordSchema :: "memField list" where
  "memoryRecordSchema =
    [(0, kText, True), (1, kText, True), (2, kText, False), (3, kText, False),
     (4, kText, False), (5, kText, False), (6, kText, False), (7, kText, False),
     (8, kText, False), (9, kText, False), (10, kText, False), (11, kText, False),
     (12, kText, False), (13, kText, False), (14, kText, False)]"

definition ValidateMemoryPayload :: "frame_type \<Rightarrow> bytes \<Rightarrow> body_err + body_map" where
  "ValidateMemoryPayload ft payload =
    (case memorySchemas ft of
       None \<Rightarrow> Inl (ErrMemoryMalformed, NotFrameType)
     | Some schema \<Rightarrow>
         rbind (decodeBodyMap ErrMemoryMalformed payload) (\<lambda>m.
         rbind (checkFrameKind ErrMemoryMalformed ft m) (\<lambda>_.
         rbind (checkCorr ErrMemoryMalformed m) (\<lambda>_.
         rbind (checkFields m schema) (\<lambda>_.
         Inr m)))))"

text \<open>\<open>None\<close> is the nil pointer.\<close>

definition ValidateMemoryRecord :: "body_map option \<Rightarrow> body_err + unit" where
  "ValidateMemoryRecord rec =
    (case rec of None \<Rightarrow> Inl (ErrMemoryMalformed, NotMap) | Some m \<Rightarrow> checkFields m memoryRecordSchema)"

definition EncodeMemoryBody :: "(u64 \<times> goval) list \<Rightarrow> bytes" where
  "EncodeMemoryBody fields = cborEncode (GMapU fields)"

definition DecodeMemoryEnvelope :: "frame_type \<Rightarrow> bytes \<Rightarrow> body_err + u64 \<times> bytes" where
  "DecodeMemoryEnvelope ft body = rbind (ValidateMemoryPayload ft body) (\<lambda>m. Inr (envelopeOf m))"

definition DecodeMemoryBody :: "frame_type \<Rightarrow> bytes \<Rightarrow> body_err + (u64 \<times> goval) list" where
  "DecodeMemoryBody ft body = rbind (ValidateMemoryPayload ft body) (bodyFields ErrMemoryMalformed)"

section \<open>Contract\<close>

text \<open>The predicate on frame types and the schema table name the same frame types.\<close>

lemma memory_frames: "IsMemoryFrame ft \<longleftrightarrow> ft \<in> dom memorySchemas"
  by (auto simp: IsMemoryFrame_def frame_range memorySchemas_def upt_rec split: if_splits)

lemma memory_requests: "IsMemoryRequest ft \<Longrightarrow> ft \<in> dom memorySchemas"
  by (auto simp: IsMemoryRequest_def memorySchemas_def)

definition memory_body_ok :: "frame_type \<Rightarrow> body_map \<Rightarrow> bool" where
  "memory_body_ok ft m = (corr_ok m \<and> schemaOk memorySchemas ft m)"

interpretation mem: channel_body ValidateMemoryPayload ErrMemoryMalformed memory_body_ok
proof
  fix ft p m e
  show "ValidateMemoryPayload ft p = Inr m \<longleftrightarrow>
      cborDecodeTop p = Inr (GMapC m) \<and> cborMap_get m 0 = Some (GUint (ucast ft)) \<and> keys_ok m \<and> memory_body_ok ft m"
    by (auto simp: ValidateMemoryPayload_def memory_body_ok_def body_accepts schemaOk_def fields_ok_def split: option.splits)
  show "fst e = ErrMemoryMalformed" if "ValidateMemoryPayload ft p = Inl e"
    using that by (auto simp: ValidateMemoryPayload_def rbind_Inl_iff dest!: body_refuses split: option.splits)
qed

end
