(* ===== verification/StreamBodies.thy ===== *)
theory StreamBodies
  imports Bodies
begin

text \<open>
  The Stream channel: \<^verbatim>\<open>stream.go\<close>, \<^verbatim>\<open>stream_bodies.go\<close> and \<^verbatim>\<open>stream_api.go\<close> under
  \<^verbatim>\<open>src/impl/go\<close>. Key 1 is an unsigned sub-stream id here, not a byte string.
\<close>

section \<open>Model\<close>

text \<open>The frame types of the channel.\<close>

abbreviation FrameStreamOpen :: frame_type where "FrameStreamOpen \<equiv> 0x0100"
abbreviation FrameStreamData :: frame_type where "FrameStreamData \<equiv> 0x0101"
abbreviation FrameStreamClose :: frame_type where "FrameStreamClose \<equiv> 0x0102"
abbreviation FrameStreamReset :: frame_type where "FrameStreamReset \<equiv> 0x0103"
abbreviation FrameStreamWindowUpdate :: frame_type where "FrameStreamWindowUpdate \<equiv> 0x0104"

definition IsStreamFrame :: "frame_type \<Rightarrow> bool" where
  "IsStreamFrame ft = (FrameStreamOpen \<le> ft \<and> ft \<le> FrameStreamWindowUpdate)"

definition streamSchemas :: "frame_type \<Rightarrow> memField list option" where
  "streamSchemas = map_of
    [(FrameStreamOpen, [(2, kUint, True), (3, kUint, True), (4, kText, False), (5, kUint, False)]),
     (FrameStreamData, [(2, kUint, True), (3, kBytes, True), (4, kUint, False)]),
     (FrameStreamClose, [(2, kUint, True)]),
     (FrameStreamReset, [(2, kUint, True), (3, kUint, True)]),
     (FrameStreamWindowUpdate, [(2, kUint, True)])]"

text \<open>The \<open>sub_stream_id\<close> (1) block of \<open>ValidateStreamPayload\<close>.\<close>

definition checkSubStreamID :: "body_map \<Rightarrow> body_err + unit" where
  "checkSubStreamID m =
    (case cborMap_get m 1 of
       None \<Rightarrow> Inl (ErrStreamMalformed, MissingKey 1)
     | Some (GUint _) \<Rightarrow> Inr ()
     | Some _ \<Rightarrow> Inl (ErrStreamMalformed, WrongType 1))"

definition ValidateStreamPayload :: "frame_type \<Rightarrow> bytes \<Rightarrow> body_err + body_map" where
  "ValidateStreamPayload ft payload =
    (case streamSchemas ft of
       None \<Rightarrow> Inl (ErrStreamMalformed, NotFrameType)
     | Some schema \<Rightarrow>
         rbind (decodeBodyMap ErrStreamMalformed payload) (\<lambda>m.
         rbind (checkFrameKind ErrStreamMalformed ft m) (\<lambda>_.
         rbind (checkSubStreamID m) (\<lambda>_.
         rbind (rewrap ErrStreamMalformed (checkFields m schema)) (\<lambda>_.
         Inr m)))))"

definition DecodeStreamEnvelope :: "frame_type \<Rightarrow> bytes \<Rightarrow> body_err + u64 \<times> u64" where
  "DecodeStreamEnvelope ft body = rbind (ValidateStreamPayload ft body) (\<lambda>m.
    Inr ((case cborMap_get m 0 of Some (GUint u) \<Rightarrow> u | _ \<Rightarrow> 0),
         (case cborMap_get m 1 of Some (GUint u) \<Rightarrow> u | _ \<Rightarrow> 0)))"

definition EncodeStreamBody :: "(u64 \<times> goval) list \<Rightarrow> bytes" where
  "EncodeStreamBody fields = cborEncode (GMapU fields)"

lemma checkSubStreamID_ok: "checkSubStreamID m = Inr u \<longleftrightarrow> (\<exists>n. cborMap_get m 1 = Some (GUint n))"
  by (auto simp: checkSubStreamID_def split: option.splits goval.splits)

lemma checkSubStreamID_err [body_refuses]: "checkSubStreamID m = Inl e \<Longrightarrow> fst e = ErrStreamMalformed"
  by (auto simp: checkSubStreamID_def split: option.splits goval.splits)

section \<open>Contract\<close>

text \<open>The predicate on frame types and the schema table name the same frame types.\<close>

lemma stream_frames: "IsStreamFrame ft \<longleftrightarrow> ft \<in> dom streamSchemas"
  by (auto simp: IsStreamFrame_def frame_range streamSchemas_def upt_rec split: if_splits)

definition stream_body_ok :: "frame_type \<Rightarrow> body_map \<Rightarrow> bool" where
  "stream_body_ok ft m = ((\<exists>n. cborMap_get m 1 = Some (GUint n)) \<and> schemaOk streamSchemas ft m)"

interpretation stm: channel_body ValidateStreamPayload ErrStreamMalformed stream_body_ok
proof
  fix ft p m e
  show "ValidateStreamPayload ft p = Inr m \<longleftrightarrow>
      cborDecodeTop p = Inr (GMapC m) \<and> cborMap_get m 0 = Some (GUint (ucast ft)) \<and> keys_ok m \<and> stream_body_ok ft m"
    by (auto simp: ValidateStreamPayload_def stream_body_ok_def body_accepts schemaOk_def fields_ok_def checkSubStreamID_ok split: option.splits)
  show "fst e = ErrStreamMalformed" if "ValidateStreamPayload ft p = Inl e"
    using that by (auto simp: ValidateStreamPayload_def rbind_Inl_iff dest!: body_refuses split: option.splits)
qed

end
