(* ===== verification/TelemetryBodies.thy ===== *)
theory TelemetryBodies
  imports Bodies
begin

text \<open>
  The Telemetry channel: \<^verbatim>\<open>telemetry.go\<close>, \<^verbatim>\<open>telemetry_bodies.go\<close> and
  \<^verbatim>\<open>telemetry_api.go\<close> under \<^verbatim>\<open>src/impl/go\<close>. Its fields are checked with predicates instead of kinds,
  and a report has rules of its own: a subscribed report carries \<open>corr\<close> and \<open>sub_id\<close>, a standalone
  one neither, and at least one of its arrays is not empty.
\<close>

section \<open>Model\<close>

text \<open>The frame types of the channel.\<close>

abbreviation FrameTelemetryReport :: frame_type where "FrameTelemetryReport \<equiv> 0x0100"
abbreviation FrameTelemetrySubscribe :: frame_type where "FrameTelemetrySubscribe \<equiv> 0x0101"
abbreviation FrameTelemetrySubAck :: frame_type where "FrameTelemetrySubAck \<equiv> 0x0102"
abbreviation FrameTelemetryUnsubscribe :: frame_type where "FrameTelemetryUnsubscribe \<equiv> 0x0103"
abbreviation FrameTelemetryCredit :: frame_type where "FrameTelemetryCredit \<equiv> 0x0104"
abbreviation FrameTelemetryError :: frame_type where "FrameTelemetryError \<equiv> 0x0105"

definition IsTelemetryFrame :: "frame_type \<Rightarrow> bool" where
  "IsTelemetryFrame ft = (FrameTelemetryReport \<le> ft \<and> ft \<le> FrameTelemetryError)"

type_synonym telField = "u64 \<times> (goval \<Rightarrow> bool) \<times> bool"

fun telIsUint :: "goval \<Rightarrow> bool" where
  "telIsUint (GUint _) = True" | "telIsUint _ = False"

fun telIsText :: "goval \<Rightarrow> bool" where
  "telIsText (GString _) = True" | "telIsText _ = False"

fun telIsBytes :: "goval \<Rightarrow> bool" where
  "telIsBytes (GBytes _) = True" | "telIsBytes _ = False"

fun telIsArray :: "goval \<Rightarrow> bool" where
  "telIsArray (GArr _) = True" | "telIsArray _ = False"

fun telIsMap :: "goval \<Rightarrow> bool" where
  "telIsMap (GMapC _) = True" | "telIsMap _ = False"

fun telIsNumber :: "goval \<Rightarrow> bool" where
  "telIsNumber (GUint _) = True" | "telIsNumber (GInt64 _) = True" | "telIsNumber _ = False"

text \<open>Indexing the Go map with the absent \<open>FrameTelemetryReport\<close> would give the nil slice.\<close>

definition telemetrySchemas :: "frame_type \<Rightarrow> telField list" where
  "telemetrySchemas ft = (case map_of
    [(FrameTelemetrySubscribe, [(2, telIsArray, False), (3, telIsArray, False), (4, telIsArray, False),
        (5, telIsUint, False), (6, telIsUint, False), (7, telIsUint, True)]),
     (FrameTelemetrySubAck, [(2, telIsBytes, True), (3, telIsUint, True), (4, telIsArray, False)]),
     (FrameTelemetryUnsubscribe, [(2, telIsBytes, True)]),
     (FrameTelemetryCredit, [(2, telIsBytes, True), (3, telIsUint, True), (4, telIsUint, False)]),
     (FrameTelemetryError, [(2, telIsUint, True), (3, telIsText, False), (4, telIsBytes, False)])] ft of Some schema \<Rightarrow> schema | None \<Rightarrow> [])"

definition metricSchema :: "telField list" where
  "metricSchema =
    [(0, telIsText, True), (1, telIsUint, True), (2, telIsUint, True),
     (3, telIsNumber, True), (4, telIsText, False), (5, telIsMap, False),
     (6, telIsUint, False)]"

definition eventSchema :: "telField list" where
  "eventSchema =
    [(0, telIsText, True), (1, telIsUint, True), (2, telIsUint, False),
     (3, telIsMap, False), (4, telIsText, False), (5, telIsUint, False)]"

definition healthSchema :: "telField list" where
  "healthSchema =
    [(0, telIsText, True), (1, telIsUint, True), (2, telIsUint, True),
     (3, telIsText, False), (4, telIsMap, False)]"

definition telemetryForwardCompat :: "body_map \<Rightarrow> body_err + unit" where
  "telemetryForwardCompat m = checkKeys ErrTelemetryMalformed (cborMap_keys m)"

fun checkTelSchema :: "body_map \<Rightarrow> telField list \<Rightarrow> body_err + unit" where
  "checkTelSchema m [] = Inr ()"
| "checkTelSchema m ((k, ok, required) # fs) =
    (case cborMap_get m k of
       None \<Rightarrow> if required then Inl (ErrTelemetryMalformed, MissingKey k) else checkTelSchema m fs
     | Some v \<Rightarrow> if \<not> ok v then Inl (ErrTelemetryMalformed, WrongType k) else checkTelSchema m fs)"

definition checkTelemetryFields :: "body_map \<Rightarrow> telField list \<Rightarrow> body_err + unit" where
  "checkTelemetryFields m schema = rbind (checkTelSchema m schema) (\<lambda>_. telemetryForwardCompat m)"

definition checkTelemetryCorr :: "body_map \<Rightarrow> bool \<Rightarrow> body_err + unit" where
  "checkTelemetryCorr m required =
    (case cborMap_get m 1 of
       None \<Rightarrow> if required then Inl (ErrTelemetryMalformed, MissingKey 1) else Inr ()
     | Some (GBytes cb) \<Rightarrow> if length cb < 1 \<or> 64 < length cb then Inl (ErrTelemetryMalformed, BadCorr) else Inr ()
     | Some _ \<Rightarrow> Inl (ErrTelemetryMalformed, BadCorr))"

text \<open>The parts of \<open>validateTelemetryReport\<close>: the subscription fields, one array, the count of arrays that are not empty.\<close>

definition checkSubscription :: "body_map \<Rightarrow> body_err + unit" where
  "checkSubscription m =
    (case cborMap_get m 1 of
       Some corr \<Rightarrow>
         (case corr of
            GBytes cb \<Rightarrow>
              if length cb < 1 \<or> 64 < length cb then Inl (ErrTelemetryMalformed, BadCorr)
              else (case cborMap_get m 2 of
                      None \<Rightarrow> Inl (ErrTelemetryMalformed, MissingSubID)
                    | Some sub \<Rightarrow> if \<not> telIsBytes sub then Inl (ErrTelemetryMalformed, WrongType 2) else Inr ())
          | _ \<Rightarrow> Inl (ErrTelemetryMalformed, BadCorr))
     | None \<Rightarrow> if cborMap_get m 2 \<noteq> None then Inl (ErrTelemetryMalformed, StraySubID) else Inr ())"

fun checkTelElements :: "telField list \<Rightarrow> goval list \<Rightarrow> body_err + unit" where
  "checkTelElements schema [] = Inr ()"
| "checkTelElements schema (GMapC em # els) =
    rbind (checkTelemetryFields em schema) (\<lambda>_. checkTelElements schema els)"
| "checkTelElements schema (_ # els) = Inl (ErrTelemetryMalformed, BadElement)"

definition checkTelArray :: "body_map \<Rightarrow> nat \<Rightarrow> u64 \<times> telField list \<Rightarrow> body_err + nat" where
  "checkTelArray m nonEmpty = (\<lambda>(k, schema).
    (case cborMap_get m k of
       None \<Rightarrow> Inr nonEmpty
     | Some (GArr arr) \<Rightarrow>
         rbind (checkTelElements schema arr) (\<lambda>_. Inr (if 0 < length arr then nonEmpty + 1 else nonEmpty))
     | Some _ \<Rightarrow> Inl (ErrTelemetryMalformed, WrongType k)))"

definition validateTelemetryReport :: "body_map \<Rightarrow> body_err + body_map" where
  "validateTelemetryReport m =
    rbind (checkSubscription m) (\<lambda>_.
    rbind (case cborMap_get m 3 of
             None \<Rightarrow> Inl (ErrTelemetryMalformed, MissingKey 3)
           | Some bs \<Rightarrow> guard (telIsUint bs) (ErrTelemetryMalformed, WrongType 3)) (\<lambda>_.
    rbind (checkTelArray m 0 (4, metricSchema)) (\<lambda>n.
    rbind (checkTelArray m n (5, eventSchema)) (\<lambda>n.
    rbind (checkTelArray m n (6, healthSchema)) (\<lambda>n.
    rbind (guard (n \<noteq> 0) (ErrTelemetryMalformed, EmptyReport)) (\<lambda>_.
    rbind (telemetryForwardCompat m) (\<lambda>_.
    Inr m)))))))"

definition ValidateTelemetryPayload :: "frame_type \<Rightarrow> bytes \<Rightarrow> body_err + body_map" where
  "ValidateTelemetryPayload ft payload =
    (if \<not> IsTelemetryFrame ft then Inl (ErrTelemetryMalformed, NotFrameType)
     else rbind (decodeBodyMap ErrTelemetryMalformed payload) (\<lambda>m.
          rbind (checkFrameKind ErrTelemetryMalformed ft m) (\<lambda>_.
          if ft = FrameTelemetryReport then validateTelemetryReport m
          else rbind (checkTelemetryCorr m True) (\<lambda>_.
               rbind (checkTelemetryFields m (telemetrySchemas ft)) (\<lambda>_.
               Inr m)))))"

definition EncodeTelemetryBody :: "(u64 \<times> goval) list \<Rightarrow> bytes" where
  "EncodeTelemetryBody fields = cborEncode (GMapU fields)"

definition DecodeTelemetryEnvelope :: "frame_type \<Rightarrow> bytes \<Rightarrow> body_err + u64 \<times> bytes" where
  "DecodeTelemetryEnvelope ft body = rbind (ValidateTelemetryPayload ft body) (\<lambda>m. Inr (envelopeOf m))"

definition DecodeTelemetryBody :: "frame_type \<Rightarrow> bytes \<Rightarrow> body_err + (u64 \<times> goval) list" where
  "DecodeTelemetryBody ft body = rbind (ValidateTelemetryPayload ft body) (bodyFields ErrTelemetryMalformed)"

section \<open>Reports\<close>

definition tel_field_ok :: "body_map \<Rightarrow> telField \<Rightarrow> bool" where
  "tel_field_ok m = (\<lambda>(k, ok, required). case cborMap_get m k of None \<Rightarrow> \<not> required | Some v \<Rightarrow> ok v)"

definition tel_fields_ok :: "telField list \<Rightarrow> body_map \<Rightarrow> bool" where
  "tel_fields_ok schema m = (list_all (tel_field_ok m) schema \<and> keys_ok m)"

fun tel_element_ok :: "telField list \<Rightarrow> goval \<Rightarrow> bool" where
  "tel_element_ok schema (GMapC em) = tel_fields_ok schema em"
| "tel_element_ok schema _ = False"

definition tel_array_ok :: "body_map \<Rightarrow> u64 \<Rightarrow> telField list \<Rightarrow> bool" where
  "tel_array_ok m k schema =
    (\<forall>v. cborMap_get m k = Some v \<longrightarrow> (\<exists>arr. v = GArr arr \<and> list_all (tel_element_ok schema) arr))"

definition carries :: "body_map \<Rightarrow> u64 \<Rightarrow> bool" where
  "carries m k = (\<exists>el arr. cborMap_get m k = Some (GArr (el # arr)))"

definition subscription_ok :: "body_map \<Rightarrow> bool" where
  "subscription_ok m = ((cborMap_get m 1 = None \<and> cborMap_get m 2 = None)
     \<or> (corr_ok m \<and> (\<exists>sub. cborMap_get m 2 = Some (GBytes sub))))"

definition report_ok :: "body_map \<Rightarrow> bool" where
  "report_ok m = (subscription_ok m \<and> (\<exists>n. cborMap_get m 3 = Some (GUint n))
     \<and> tel_array_ok m 4 metricSchema \<and> tel_array_ok m 5 eventSchema \<and> tel_array_ok m 6 healthSchema
     \<and> (carries m 4 \<or> carries m 5 \<or> carries m 6))"

lemma telIs_cases:
  "telIsBytes v \<longleftrightarrow> (\<exists>b. v = GBytes b)" "telIsUint v \<longleftrightarrow> (\<exists>n. v = GUint n)"
  by (cases v; simp)+

lemma telemetryForwardCompat_ok [body_accepts]: "telemetryForwardCompat m = Inr u \<longleftrightarrow> keys_ok m"
  by (simp add: telemetryForwardCompat_def body_accepts keys_ok_def)

lemma telemetryForwardCompat_err [body_refuses]: "telemetryForwardCompat m = Inl e \<Longrightarrow> fst e = ErrTelemetryMalformed"
  by (auto simp: telemetryForwardCompat_def dest: body_refuses)

lemma checkTelSchema_ok [body_accepts]: "checkTelSchema m schema = Inr u \<longleftrightarrow> list_all (tel_field_ok m) schema"
  by (induction m schema rule: checkTelSchema.induct) (auto simp: tel_field_ok_def split: option.splits)

lemma checkTelSchema_err [body_refuses]: "checkTelSchema m schema = Inl e \<Longrightarrow> fst e = ErrTelemetryMalformed"
  by (induction m schema rule: checkTelSchema.induct) (auto split: option.splits if_splits)

lemma checkTelemetryFields_ok [body_accepts]: "checkTelemetryFields m schema = Inr u \<longleftrightarrow> tel_fields_ok schema m"
  by (simp add: checkTelemetryFields_def body_accepts tel_fields_ok_def)

lemma checkTelemetryFields_err [body_refuses]: "checkTelemetryFields m schema = Inl e \<Longrightarrow> fst e = ErrTelemetryMalformed"
  by (auto simp: checkTelemetryFields_def rbind_Inl_iff dest: body_refuses)

lemma checkTelemetryCorr_eq: "checkTelemetryCorr m True = checkCorr ErrTelemetryMalformed m"
  by (simp add: checkTelemetryCorr_def checkCorr_def split: option.split)

lemma checkSubscription_ok [body_accepts]: "checkSubscription m = Inr u \<longleftrightarrow> subscription_ok m"
  by (auto simp: checkSubscription_def subscription_ok_def corr_ok_def telIs_cases not_less Suc_le_eq
    split: option.splits goval.splits if_splits)

lemma checkSubscription_err [body_refuses]: "checkSubscription m = Inl e \<Longrightarrow> fst e = ErrTelemetryMalformed"
  by (auto simp: checkSubscription_def split: option.splits goval.splits if_splits)

lemma checkTelElements_ok [body_accepts]: "checkTelElements schema els = Inr u \<longleftrightarrow> list_all (tel_element_ok schema) els"
  by (induction schema els rule: checkTelElements.induct) (auto simp: body_accepts)

lemma checkTelElements_err [body_refuses]: "checkTelElements schema els = Inl e \<Longrightarrow> fst e = ErrTelemetryMalformed"
  by (induction schema els rule: checkTelElements.induct) (auto simp: rbind_Inl_iff dest: body_refuses)

lemma checkTelArray_ok:
  "checkTelArray m n (k, schema) = Inr n' \<longleftrightarrow> tel_array_ok m k schema \<and> n' = (if carries m k then n + 1 else n)"
  by (auto simp: checkTelArray_def tel_array_ok_def carries_def body_accepts neq_Nil_conv
    split: option.splits goval.splits)

lemma checkTelArray_err [body_refuses]: "checkTelArray m n ks = Inl e \<Longrightarrow> fst e = ErrTelemetryMalformed"
  by (cases ks) (auto simp: checkTelArray_def rbind_Inl_iff dest: body_refuses split: option.splits goval.splits)

lemma validateTelemetryReport_ok [body_accepts]:
  "validateTelemetryReport m = Inr m' \<longleftrightarrow> m' = m \<and> report_ok m \<and> keys_ok m"
  by (auto simp: validateTelemetryReport_def report_ok_def body_accepts checkTelArray_ok telIs_cases
    split: option.splits if_splits)

lemma validateTelemetryReport_err [body_refuses]: "validateTelemetryReport m = Inl e \<Longrightarrow> fst e = ErrTelemetryMalformed"
  by (auto simp: validateTelemetryReport_def rbind_Inl_iff dest: body_refuses split: option.splits)

definition telemetry_body_ok :: "frame_type \<Rightarrow> body_map \<Rightarrow> bool" where
  "telemetry_body_ok ft m = (IsTelemetryFrame ft \<and>
    (if ft = FrameTelemetryReport then report_ok m else corr_ok m \<and> tel_fields_ok (telemetrySchemas ft) m))"

interpretation tlm: channel_body ValidateTelemetryPayload ErrTelemetryMalformed telemetry_body_ok
proof
  fix ft p m e
  show "ValidateTelemetryPayload ft p = Inr m \<longleftrightarrow>
      cborDecodeTop p = Inr (GMapC m) \<and> cborMap_get m 0 = Some (GUint (ucast ft)) \<and> keys_ok m \<and> telemetry_body_ok ft m"
    by (auto simp: ValidateTelemetryPayload_def telemetry_body_ok_def body_accepts checkTelemetryCorr_eq tel_fields_ok_def)
  show "fst e = ErrTelemetryMalformed" if "ValidateTelemetryPayload ft p = Inl e"
    using that by (auto simp: ValidateTelemetryPayload_def rbind_Inl_iff checkTelemetryCorr_eq dest!: body_refuses
      split: if_splits)
qed

end
