(* ===== verification/CommerceBodies.thy ===== *)
theory CommerceBodies
  imports Bodies
begin

text \<open>
  The Commerce channel: \<^verbatim>\<open>commerce.go\<close>, \<^verbatim>\<open>commerce_bodies.go\<close> and \<^verbatim>\<open>commerce_api.go\<close>
  under \<^verbatim>\<open>src/impl/go\<close>. A mandate carries an amount; a proposed intent carries settlement legs whose
  ends must be among the parties it names.
\<close>

section \<open>Model\<close>

text \<open>The frame types of the channel.\<close>

abbreviation FrameCommerceMandateCreateReq :: frame_type where "FrameCommerceMandateCreateReq \<equiv> 0x0100"
abbreviation FrameCommerceMandateCreateResult :: frame_type where "FrameCommerceMandateCreateResult \<equiv> 0x0101"
abbreviation FrameCommerceMandateReadReq :: frame_type where "FrameCommerceMandateReadReq \<equiv> 0x0102"
abbreviation FrameCommerceMandateReadResult :: frame_type where "FrameCommerceMandateReadResult \<equiv> 0x0103"
abbreviation FrameCommerceMandateRevokeReq :: frame_type where "FrameCommerceMandateRevokeReq \<equiv> 0x0104"
abbreviation FrameCommerceMandateRevokeResult :: frame_type where "FrameCommerceMandateRevokeResult \<equiv> 0x0105"
abbreviation FrameCommerceMandateStatusReq :: frame_type where "FrameCommerceMandateStatusReq \<equiv> 0x0106"
abbreviation FrameCommerceMandateStatusResult :: frame_type where "FrameCommerceMandateStatusResult \<equiv> 0x0107"
abbreviation FrameCommerceIntentProposeReq :: frame_type where "FrameCommerceIntentProposeReq \<equiv> 0x0108"
abbreviation FrameCommerceIntentProposeResult :: frame_type where "FrameCommerceIntentProposeResult \<equiv> 0x0109"
abbreviation FrameCommerceIntentRespondReq :: frame_type where "FrameCommerceIntentRespondReq \<equiv> 0x010A"
abbreviation FrameCommerceIntentRespondResult :: frame_type where "FrameCommerceIntentRespondResult \<equiv> 0x010B"
abbreviation FrameCommerceIntentStatusReq :: frame_type where "FrameCommerceIntentStatusReq \<equiv> 0x010C"
abbreviation FrameCommerceIntentStatusResult :: frame_type where "FrameCommerceIntentStatusResult \<equiv> 0x010D"
abbreviation FrameCommerceError :: frame_type where "FrameCommerceError \<equiv> 0x010E"

definition IsCommerceFrame :: "frame_type \<Rightarrow> bool" where
  "IsCommerceFrame ft = (FrameCommerceMandateCreateReq \<le> ft \<and> ft \<le> FrameCommerceError)"

definition IsCommerceRequest :: "frame_type \<Rightarrow> bool" where
  "IsCommerceRequest ft = (ft \<in> {FrameCommerceMandateCreateReq, FrameCommerceMandateReadReq,
     FrameCommerceMandateRevokeReq, FrameCommerceMandateStatusReq,
     FrameCommerceIntentProposeReq, FrameCommerceIntentRespondReq,
     FrameCommerceIntentStatusReq})"

definition commerceSchemas :: "frame_type \<Rightarrow> memField list option" where
  "commerceSchemas = map_of
    [(FrameCommerceMandateCreateReq, [(2, kText, True), (3, kText, True), (4, kMap, True), (5, kText, False),
        (6, kText, False), (7, kText, False), (8, kMap, False), (9, kText, False),
        (10, kBytes, False), (11, kText, False), (12, kText, False), (13, kUint, True)]),
     (FrameCommerceMandateCreateResult, [(2, kText, True), (3, kText, True)]),
     (FrameCommerceMandateReadReq, [(2, kText, True), (3, kUint, True)]),
     (FrameCommerceMandateReadResult, [(2, kMap, True)]),
     (FrameCommerceMandateRevokeReq, [(2, kText, True), (3, kText, False), (4, kUint, True)]),
     (FrameCommerceMandateRevokeResult, [(2, kText, True), (3, kText, True)]),
     (FrameCommerceMandateStatusReq, [(2, kText, True), (3, kUint, True)]),
     (FrameCommerceMandateStatusResult, [(2, kText, True), (3, kText, True), (4, kText, False)]),
     (FrameCommerceIntentProposeReq, [(2, kArray, True), (3, kArray, True), (4, kText, False), (5, kMap, False),
        (6, kText, False), (7, kUint, True)]),
     (FrameCommerceIntentProposeResult, [(2, kText, True), (3, kText, True)]),
     (FrameCommerceIntentRespondReq, [(2, kText, True), (3, kUint, True), (4, kArray, False), (5, kText, False),
        (6, kUint, True)]),
     (FrameCommerceIntentRespondResult, [(2, kText, True), (3, kText, True)]),
     (FrameCommerceIntentStatusReq, [(2, kText, True), (3, kUint, True)]),
     (FrameCommerceIntentStatusResult, [(2, kText, True), (3, kText, True), (4, kArray, False), (5, kArray, False)]),
     (FrameCommerceError, [(2, kUint, True), (3, kText, True), (4, kUint, False), (5, kText, False)])]"

definition commerceForwardCompatKeys :: "body_map \<Rightarrow> body_err + unit" where
  "commerceForwardCompatKeys m = checkKeys ErrCommerceMalformed (cborMap_keys m)"

definition validateCommerceAmount :: "goval \<Rightarrow> body_err + unit" where
  "validateCommerceAmount v =
    (case v of
       GMapC m \<Rightarrow>
         rbind (case cborMap_get m 0 of
                  None \<Rightarrow> Inl (ErrCommerceMalformed, MissingKey 0)
                | Some (GUint _) \<Rightarrow> Inr () | Some (GInt64 _) \<Rightarrow> Inr ()
                | Some _ \<Rightarrow> Inl (ErrCommerceMalformed, WrongType 0)) (\<lambda>_.
         rbind (case cborMap_get m 1 of
                  None \<Rightarrow> Inl (ErrCommerceMalformed, MissingKey 1)
                | Some (GUint _) \<Rightarrow> Inr ()
                | Some _ \<Rightarrow> Inl (ErrCommerceMalformed, WrongType 1)) (\<lambda>_.
         rbind (case cborMap_get m 2 of
                  None \<Rightarrow> Inl (ErrCommerceMalformed, MissingKey 2)
                | Some (GString _) \<Rightarrow> Inr ()
                | Some _ \<Rightarrow> Inl (ErrCommerceMalformed, WrongType 2)) (\<lambda>_.
         commerceForwardCompatKeys m)))
     | _ \<Rightarrow> Inl (ErrCommerceMalformed, NotMap))"

text \<open>The text string at a key of a leg, and the set of parties as the list of its members.\<close>

definition textAt :: "body_map \<Rightarrow> u64 \<Rightarrow> body_err + bytes" where
  "textAt m k =
    (case cborMap_get m k of
       None \<Rightarrow> Inl (ErrCommerceMalformed, MissingKey k)
     | Some (GString t) \<Rightarrow> Inr t
     | Some _ \<Rightarrow> Inl (ErrCommerceMalformed, WrongType k))"

definition validateCommerceLeg :: "goval \<Rightarrow> bytes list \<Rightarrow> body_err + unit" where
  "validateCommerceLeg v parties =
    (case v of
       GMapC m \<Rightarrow>
         rbind (textAt m 0) (\<lambda>frmS.
         rbind (textAt m 1) (\<lambda>toS.
         rbind (case cborMap_get m 2 of
                  None \<Rightarrow> Inl (ErrCommerceMalformed, MissingKey 2)
                | Some amt \<Rightarrow> validateCommerceAmount amt) (\<lambda>_.
         rbind (guard (frmS \<in> set parties) (ErrCommerceMalformed, UnknownParty)) (\<lambda>_.
         rbind (guard (toS \<in> set parties) (ErrCommerceMalformed, UnknownParty)) (\<lambda>_.
         commerceForwardCompatKeys m)))))
     | _ \<Rightarrow> Inl (ErrCommerceMalformed, NotMap))"

fun validateCommerceLegs :: "goval list \<Rightarrow> bytes list \<Rightarrow> body_err + unit" where
  "validateCommerceLegs [] parties = Inr ()"
| "validateCommerceLegs (lg # legs) parties =
    rbind (validateCommerceLeg lg parties) (\<lambda>_. validateCommerceLegs legs parties)"

text \<open>\<open>v, _ := m.get(k); arr, _ := v.([]any)\<close>: the nil slice unless the key holds an array.\<close>

definition arrayAt :: "body_map \<Rightarrow> u64 \<Rightarrow> goval list" where
  "arrayAt m k = (case cborMap_get m k of Some (GArr arr) \<Rightarrow> arr | _ \<Rightarrow> [])"

fun partySet :: "goval list \<Rightarrow> body_err + bytes list" where
  "partySet [] = Inr []"
| "partySet (GString t # ps) = rbind (partySet ps) (\<lambda>set. Inr (t # set))"
| "partySet (_ # ps) = Inl (ErrCommerceMalformed, BadElement)"

definition commerceParties :: "body_map \<Rightarrow> body_err + bytes list" where
  "commerceParties m = partySet (arrayAt m 2)"

definition validateCommerceNested :: "frame_type \<Rightarrow> body_map \<Rightarrow> body_err + unit" where
  "validateCommerceNested ft m =
    (if ft = FrameCommerceMandateCreateReq then
       (case cborMap_get m 4 of Some av \<Rightarrow> validateCommerceAmount av | None \<Rightarrow> Inr ())
     else if ft = FrameCommerceIntentProposeReq then
       rbind (commerceParties m) (\<lambda>parties. validateCommerceLegs (arrayAt m 3) parties)
     else Inr ())"

definition ValidateCommercePayload :: "frame_type \<Rightarrow> bytes \<Rightarrow> body_err + body_map" where
  "ValidateCommercePayload ft payload =
    (case commerceSchemas ft of
       None \<Rightarrow> Inl (ErrCommerceMalformed, NotFrameType)
     | Some schema \<Rightarrow>
         rbind (decodeBodyMap ErrCommerceMalformed payload) (\<lambda>m.
         rbind (checkFrameKind ErrCommerceMalformed ft m) (\<lambda>_.
         rbind (checkCorr ErrCommerceMalformed m) (\<lambda>_.
         rbind (rewrap ErrCommerceMalformed (checkFields m schema)) (\<lambda>_.
         rbind (validateCommerceNested ft m) (\<lambda>_.
         Inr m))))))"

definition EncodeCommerceBody :: "(u64 \<times> goval) list \<Rightarrow> bytes" where
  "EncodeCommerceBody fields = cborEncode (GMapU fields)"

definition DecodeCommerceEnvelope :: "frame_type \<Rightarrow> bytes \<Rightarrow> body_err + u64 \<times> bytes" where
  "DecodeCommerceEnvelope ft body = rbind (ValidateCommercePayload ft body) (\<lambda>m. Inr (envelopeOf m))"

definition DecodeCommerceBody :: "frame_type \<Rightarrow> bytes \<Rightarrow> body_err + (u64 \<times> goval) list" where
  "DecodeCommerceBody ft body = rbind (ValidateCommercePayload ft body) (bodyFields ErrCommerceMalformed)"

section \<open>Amounts and legs\<close>

fun amount_ok :: "goval \<Rightarrow> bool" where
  "amount_ok (GMapC m) = ((\<exists>n. cborMap_get m 0 \<in> {Some (GUint n), Some (GInt64 n)})
     \<and> (\<exists>n. cborMap_get m 1 = Some (GUint n)) \<and> (\<exists>t. cborMap_get m 2 = Some (GString t)) \<and> keys_ok m)"
| "amount_ok _ = False"

fun leg_ok :: "bytes set \<Rightarrow> goval \<Rightarrow> bool" where
  "leg_ok parties (GMapC m) = ((\<exists>p \<in> parties. cborMap_get m 0 = Some (GString p))
     \<and> (\<exists>p \<in> parties. cborMap_get m 1 = Some (GString p))
     \<and> (\<exists>a. cborMap_get m 2 = Some a \<and> amount_ok a) \<and> keys_ok m)"
| "leg_ok parties _ = False"

definition intent_ok :: "body_map \<Rightarrow> bool" where
  "intent_ok m = (\<exists>parties. arrayAt m 2 = map GString parties \<and> list_all (leg_ok (set parties)) (arrayAt m 3))"

lemma commerceForwardCompatKeys_ok [body_accepts]: "commerceForwardCompatKeys m = Inr u \<longleftrightarrow> keys_ok m"
  by (simp add: commerceForwardCompatKeys_def body_accepts keys_ok_def)

lemma commerceForwardCompatKeys_err [body_refuses]: "commerceForwardCompatKeys m = Inl e \<Longrightarrow> fst e = ErrCommerceMalformed"
  by (auto simp: commerceForwardCompatKeys_def dest: body_refuses)

lemma textAt_ok [body_accepts]: "textAt m k = Inr t \<longleftrightarrow> cborMap_get m k = Some (GString t)"
  by (auto simp: textAt_def split: option.splits goval.splits)

lemma textAt_err [body_refuses]: "textAt m k = Inl e \<Longrightarrow> fst e = ErrCommerceMalformed"
  by (auto simp: textAt_def split: option.splits goval.splits)

lemma validateCommerceAmount_ok [body_accepts]: "validateCommerceAmount v = Inr u \<longleftrightarrow> amount_ok v"
  by (cases v) (auto simp: validateCommerceAmount_def body_accepts split: option.splits goval.splits)

lemma validateCommerceAmount_err [body_refuses]: "validateCommerceAmount v = Inl e \<Longrightarrow> fst e = ErrCommerceMalformed"
  by (cases v) (auto simp: validateCommerceAmount_def rbind_Inl_iff dest: body_refuses split: option.splits goval.splits)

lemma validateCommerceLeg_ok [body_accepts]: "validateCommerceLeg v parties = Inr u \<longleftrightarrow> leg_ok (set parties) v"
  by (cases v) (auto simp: validateCommerceLeg_def body_accepts split: option.splits)

lemma validateCommerceLeg_err [body_refuses]: "validateCommerceLeg v parties = Inl e \<Longrightarrow> fst e = ErrCommerceMalformed"
  by (cases v) (auto simp: validateCommerceLeg_def rbind_Inl_iff dest: body_refuses split: option.splits)

lemma validateCommerceLegs_ok [body_accepts]: "validateCommerceLegs legs parties = Inr u \<longleftrightarrow> list_all (leg_ok (set parties)) legs"
  by (induction legs) (auto simp: body_accepts)

lemma validateCommerceLegs_err [body_refuses]: "validateCommerceLegs legs parties = Inl e \<Longrightarrow> fst e = ErrCommerceMalformed"
  by (induction legs) (auto simp: rbind_Inl_iff dest: body_refuses)

lemma partySet_ok: "partySet ps = Inr ts \<longleftrightarrow> ps = map GString ts"
  by (induction ps arbitrary: ts rule: partySet.induct) (auto simp: Cons_eq_map_conv)

lemma partySet_err [body_refuses]: "partySet ps = Inl e \<Longrightarrow> fst e = ErrCommerceMalformed"
  by (induction ps rule: partySet.induct) (auto simp: rbind_Inl_iff)

lemma validateCommerceNested_ok [body_accepts]:
  "validateCommerceNested ft m = Inr u \<longleftrightarrow>
    (ft = FrameCommerceMandateCreateReq \<longrightarrow> (\<forall>a. cborMap_get m 4 = Some a \<longrightarrow> amount_ok a))
    \<and> (ft = FrameCommerceIntentProposeReq \<longrightarrow> intent_ok m)"
  by (auto simp: validateCommerceNested_def body_accepts intent_ok_def commerceParties_def partySet_ok
    split: option.splits)

lemma validateCommerceNested_err [body_refuses]: "validateCommerceNested ft m = Inl e \<Longrightarrow> fst e = ErrCommerceMalformed"
  by (auto simp: validateCommerceNested_def rbind_Inl_iff commerceParties_def dest: body_refuses
    split: if_splits option.splits)

section \<open>Contract\<close>

text \<open>The predicate on frame types and the schema table name the same frame types.\<close>

lemma commerce_frames: "IsCommerceFrame ft \<longleftrightarrow> ft \<in> dom commerceSchemas"
  by (auto simp: IsCommerceFrame_def frame_range commerceSchemas_def upt_rec split: if_splits)

lemma commerce_requests: "IsCommerceRequest ft \<Longrightarrow> ft \<in> dom commerceSchemas"
  by (auto simp: IsCommerceRequest_def commerceSchemas_def)

definition commerce_body_ok :: "frame_type \<Rightarrow> body_map \<Rightarrow> bool" where
  "commerce_body_ok ft m = (corr_ok m \<and> schemaOk commerceSchemas ft m
    \<and> (ft = FrameCommerceMandateCreateReq \<longrightarrow> (\<forall>a. cborMap_get m 4 = Some a \<longrightarrow> amount_ok a))
    \<and> (ft = FrameCommerceIntentProposeReq \<longrightarrow> intent_ok m))"

interpretation com: channel_body ValidateCommercePayload ErrCommerceMalformed commerce_body_ok
proof
  fix ft p m e
  show "ValidateCommercePayload ft p = Inr m \<longleftrightarrow>
      cborDecodeTop p = Inr (GMapC m) \<and> cborMap_get m 0 = Some (GUint (ucast ft)) \<and> keys_ok m \<and> commerce_body_ok ft m"
    by (auto simp: ValidateCommercePayload_def commerce_body_ok_def body_accepts schemaOk_def fields_ok_def split: option.splits)
  show "fst e = ErrCommerceMalformed" if "ValidateCommercePayload ft p = Inl e"
    using that by (auto simp: ValidateCommercePayload_def rbind_Inl_iff dest!: body_refuses split: option.splits)
qed

end
