(* ===== verification/ImmuneBodies.thy ===== *)
theory ImmuneBodies
  imports Bodies
begin

text \<open>
  The Immune channel: \<^verbatim>\<open>immune.go\<close>, \<^verbatim>\<open>immune_bodies.go\<close> and \<^verbatim>\<open>immune_api.go\<close> under
  \<^verbatim>\<open>src/impl/go\<close>. The items of a gossip advertisement and of a pull result are maps with schemas of
  their own.
\<close>

section \<open>Model\<close>

text \<open>The frame types of the channel.\<close>

abbreviation FrameImmuneReportReq :: frame_type where "FrameImmuneReportReq \<equiv> 0x0100"
abbreviation FrameImmuneReportResult :: frame_type where "FrameImmuneReportResult \<equiv> 0x0101"
abbreviation FrameImmuneError :: frame_type where "FrameImmuneError \<equiv> 0x0102"
abbreviation FrameImmuneGossipAdvertise :: frame_type where "FrameImmuneGossipAdvertise \<equiv> 0x00C0"
abbreviation FrameImmuneGossipAck :: frame_type where "FrameImmuneGossipAck \<equiv> 0x00C1"
abbreviation FrameImmuneGossipPullReq :: frame_type where "FrameImmuneGossipPullReq \<equiv> 0x00C2"
abbreviation FrameImmuneGossipPullResult :: frame_type where "FrameImmuneGossipPullResult \<equiv> 0x00C3"
abbreviation FrameImmuneGossipRetract :: frame_type where "FrameImmuneGossipRetract \<equiv> 0x00C4"

definition IsImmuneFrame :: "frame_type \<Rightarrow> bool" where
  "IsImmuneFrame ft = ((FrameImmuneGossipAdvertise \<le> ft \<and> ft \<le> FrameImmuneGossipRetract) \<or>
    (FrameImmuneReportReq \<le> ft \<and> ft \<le> FrameImmuneError))"

definition IsImmuneRequest :: "frame_type \<Rightarrow> bool" where
  "IsImmuneRequest ft = (ft \<in> {FrameImmuneReportReq, FrameImmuneGossipAdvertise, FrameImmuneGossipPullReq,
     FrameImmuneGossipRetract})"

definition IsImmunePropagationFrame :: "frame_type \<Rightarrow> bool" where
  "IsImmunePropagationFrame ft = (FrameImmuneGossipAdvertise \<le> ft \<and> ft \<le> FrameImmuneGossipRetract)"

definition immuneSchemas :: "frame_type \<Rightarrow> memField list option" where
  "immuneSchemas = map_of
    [(FrameImmuneReportReq, [(2, kText, True), (3, kUint, True), (4, kUint, True), (5, kText, False),
        (6, kText, False), (7, kText, False), (8, kBytes, False), (9, kUint, False),
        (10, kText, False)]),
     (FrameImmuneReportResult, [(2, kUint, True), (3, kText, False)]),
     (FrameImmuneError, [(2, kUint, True), (3, kText, True), (4, kUint, False)]),
     (FrameImmuneGossipAdvertise, [(2, kArray, True), (3, kBool, False)]),
     (FrameImmuneGossipAck, [(2, kArray, False), (3, kArray, False), (4, kUint, False)]),
     (FrameImmuneGossipPullReq, [(2, kArray, True)]),
     (FrameImmuneGossipPullResult, [(2, kArray, True)]),
     (FrameImmuneGossipRetract, [(2, kBytes, True), (3, kUint, True), (4, kUint, False)])]"

definition gossipDescriptorSchema :: "memField list" where
  "gossipDescriptorSchema =
    [(0, kBytes, True), (1, kUint, True), (2, kUint, False), (3, kUint, False),
     (4, kBytes, False), (5, kText, False), (6, kText, False), (7, kUint, False),
     (8, kBytes, False), (9, kBytes, False)]"

definition gossipItemSchema :: "memField list" where
  "gossipItemSchema =
    [(0, kBytes, True), (1, kUint, True), (2, kUint, False), (3, kUint, False),
     (4, kBytes, False), (5, kText, False), (6, kText, False), (7, kUint, False),
     (8, kBytes, True)]"

fun validateGossipItems :: "memField list \<Rightarrow> goval list \<Rightarrow> body_err + unit" where
  "validateGossipItems nested [] = Inr ()"
| "validateGossipItems nested (GMapC em # els) =
    rbind (rewrap ErrImmuneMalformed (checkFields em nested)) (\<lambda>_. validateGossipItems nested els)"
| "validateGossipItems nested (_ # els) = Inl (ErrImmuneMalformed, BadElement)"

definition validateGossipArray :: "body_map \<Rightarrow> memField list \<Rightarrow> body_err + unit" where
  "validateGossipArray m nested =
    (case cborMap_get m 2 of
       None \<Rightarrow> Inl (ErrImmuneMalformed, MissingKey 2)
     | Some (GArr arr) \<Rightarrow> validateGossipItems nested arr
     | Some _ \<Rightarrow> Inl (ErrImmuneMalformed, WrongType 2))"

text \<open>The last \<open>switch\<close> of \<open>ValidateImmunePayload\<close>.\<close>

definition validateImmuneNested :: "frame_type \<Rightarrow> body_map \<Rightarrow> body_err + unit" where
  "validateImmuneNested ft m =
    (if ft = FrameImmuneGossipAdvertise then validateGossipArray m gossipDescriptorSchema
     else if ft = FrameImmuneGossipPullResult then validateGossipArray m gossipItemSchema
     else Inr ())"

definition ValidateImmunePayload :: "frame_type \<Rightarrow> bytes \<Rightarrow> body_err + body_map" where
  "ValidateImmunePayload ft payload =
    (case immuneSchemas ft of
       None \<Rightarrow> Inl (ErrImmuneMalformed, NotFrameType)
     | Some schema \<Rightarrow>
         rbind (decodeBodyMap ErrImmuneMalformed payload) (\<lambda>m.
         rbind (checkFrameKind ErrImmuneMalformed ft m) (\<lambda>_.
         rbind (checkCorr ErrImmuneMalformed m) (\<lambda>_.
         rbind (rewrap ErrImmuneMalformed (checkFields m schema)) (\<lambda>_.
         rbind (validateImmuneNested ft m) (\<lambda>_.
         Inr m))))))"

definition EncodeImmuneBody :: "(u64 \<times> goval) list \<Rightarrow> bytes" where
  "EncodeImmuneBody fields = cborEncode (GMapU fields)"

definition DecodeImmuneEnvelope :: "frame_type \<Rightarrow> bytes \<Rightarrow> body_err + u64 \<times> bytes" where
  "DecodeImmuneEnvelope ft body = rbind (ValidateImmunePayload ft body) (\<lambda>m. Inr (envelopeOf m))"

definition DecodeImmuneBody :: "frame_type \<Rightarrow> bytes \<Rightarrow> body_err + (u64 \<times> goval) list" where
  "DecodeImmuneBody ft body = rbind (ValidateImmunePayload ft body) (bodyFields ErrImmuneMalformed)"

section \<open>Gossip items\<close>

fun map_of_schema :: "memField list \<Rightarrow> goval \<Rightarrow> bool" where
  "map_of_schema schema (GMapC em) = fields_ok schema em"
| "map_of_schema schema _ = False"

definition gossip_ok :: "memField list \<Rightarrow> body_map \<Rightarrow> bool" where
  "gossip_ok schema m = (\<exists>arr. cborMap_get m 2 = Some (GArr arr) \<and> list_all (map_of_schema schema) arr)"

lemma validateGossipItems_ok [body_accepts]: "validateGossipItems schema els = Inr u \<longleftrightarrow> list_all (map_of_schema schema) els"
  by (induction schema els rule: validateGossipItems.induct) (auto simp: body_accepts)

lemma validateGossipItems_err: "validateGossipItems schema els = Inl e \<Longrightarrow> fst e = ErrImmuneMalformed"
  by (induction schema els rule: validateGossipItems.induct) (auto simp: rbind_Inl_iff dest: body_refuses)

lemma validateGossipArray_ok [body_accepts]: "validateGossipArray m schema = Inr u \<longleftrightarrow> gossip_ok schema m"
  by (auto simp: validateGossipArray_def gossip_ok_def body_accepts split: option.splits goval.splits)

lemma validateGossipArray_err [body_refuses]: "validateGossipArray m schema = Inl e \<Longrightarrow> fst e = ErrImmuneMalformed"
  by (auto simp: validateGossipArray_def dest: validateGossipItems_err split: option.splits goval.splits)

lemma validateImmuneNested_err [body_refuses]: "validateImmuneNested ft m = Inl e \<Longrightarrow> fst e = ErrImmuneMalformed"
  by (auto simp: validateImmuneNested_def dest: body_refuses split: if_splits)

lemma validateImmuneNested_ok [body_accepts]:
  "validateImmuneNested ft m = Inr u \<longleftrightarrow>
    (ft = FrameImmuneGossipAdvertise \<longrightarrow> gossip_ok gossipDescriptorSchema m)
    \<and> (ft = FrameImmuneGossipPullResult \<longrightarrow> gossip_ok gossipItemSchema m)"
  by (auto simp: validateImmuneNested_def body_accepts)

section \<open>Contract\<close>

text \<open>The predicate on frame types and the schema table name the same frame types.\<close>

lemma immune_frames: "IsImmuneFrame ft \<longleftrightarrow> ft \<in> dom immuneSchemas"
  by (auto simp: IsImmuneFrame_def frame_range immuneSchemas_def upt_rec split: if_splits)

lemma immune_requests: "IsImmuneRequest ft \<Longrightarrow> ft \<in> dom immuneSchemas"
  by (auto simp: IsImmuneRequest_def immuneSchemas_def)

definition immune_body_ok :: "frame_type \<Rightarrow> body_map \<Rightarrow> bool" where
  "immune_body_ok ft m = (corr_ok m \<and> schemaOk immuneSchemas ft m
    \<and> (ft = FrameImmuneGossipAdvertise \<longrightarrow> gossip_ok gossipDescriptorSchema m)
    \<and> (ft = FrameImmuneGossipPullResult \<longrightarrow> gossip_ok gossipItemSchema m))"

interpretation imm: channel_body ValidateImmunePayload ErrImmuneMalformed immune_body_ok
proof
  fix ft p m e
  show "ValidateImmunePayload ft p = Inr m \<longleftrightarrow>
      cborDecodeTop p = Inr (GMapC m) \<and> cborMap_get m 0 = Some (GUint (ucast ft)) \<and> keys_ok m \<and> immune_body_ok ft m"
    by (auto simp: ValidateImmunePayload_def immune_body_ok_def body_accepts schemaOk_def fields_ok_def split: option.splits)
  show "fst e = ErrImmuneMalformed" if "ValidateImmunePayload ft p = Inl e"
    using that by (auto simp: ValidateImmunePayload_def rbind_Inl_iff dest!: body_refuses split: option.splits)
qed

end
