(* ===== verification/CapabilityBodies.thy ===== *)
theory CapabilityBodies
  imports Bodies
begin

text \<open>
  The Capability channel: \<^verbatim>\<open>capability.go\<close>, \<^verbatim>\<open>capability_bodies.go\<close> and
  \<^verbatim>\<open>capability_api.go\<close> under \<^verbatim>\<open>src/impl/go\<close>.
\<close>

section \<open>Model\<close>

text \<open>The frame types of the channel.\<close>

abbreviation FrameCapIssueReq :: frame_type where "FrameCapIssueReq \<equiv> 0x0100"
abbreviation FrameCapIssueResult :: frame_type where "FrameCapIssueResult \<equiv> 0x0101"
abbreviation FrameCapDelegateReq :: frame_type where "FrameCapDelegateReq \<equiv> 0x0102"
abbreviation FrameCapDelegateResult :: frame_type where "FrameCapDelegateResult \<equiv> 0x0103"
abbreviation FrameCapRevokeReq :: frame_type where "FrameCapRevokeReq \<equiv> 0x0104"
abbreviation FrameCapRevokeResult :: frame_type where "FrameCapRevokeResult \<equiv> 0x0105"
abbreviation FrameCapLookupReq :: frame_type where "FrameCapLookupReq \<equiv> 0x0106"
abbreviation FrameCapLookupResult :: frame_type where "FrameCapLookupResult \<equiv> 0x0107"
abbreviation FrameCapError :: frame_type where "FrameCapError \<equiv> 0x0108"
abbreviation FrameCapTokenPresent :: frame_type where "FrameCapTokenPresent \<equiv> 0x0060"
abbreviation FrameCapTokenAccept :: frame_type where "FrameCapTokenAccept \<equiv> 0x0061"
abbreviation FrameCapTokenChallenge :: frame_type where "FrameCapTokenChallenge \<equiv> 0x0062"
abbreviation FrameCapTokenProof :: frame_type where "FrameCapTokenProof \<equiv> 0x0063"

definition IsCapabilityFrame :: "frame_type \<Rightarrow> bool" where
  "IsCapabilityFrame ft = ((FrameCapTokenPresent \<le> ft \<and> ft \<le> FrameCapTokenProof) \<or>
    (FrameCapIssueReq \<le> ft \<and> ft \<le> FrameCapError))"

definition IsCapabilityRequest :: "frame_type \<Rightarrow> bool" where
  "IsCapabilityRequest ft = (ft \<in> {FrameCapIssueReq, FrameCapDelegateReq, FrameCapRevokeReq, FrameCapLookupReq,
     FrameCapTokenPresent, FrameCapTokenChallenge})"

definition capabilitySchemas :: "frame_type \<Rightarrow> memField list option" where
  "capabilitySchemas = map_of
    [(FrameCapIssueReq, [(2, kText, True), (3, kText, True), (4, kMap, False), (5, kText, False),
        (6, kText, False), (7, kUint, False), (8, kText, False), (9, kUint, True)]),
     (FrameCapIssueResult, [(2, kMap, True), (3, kText, True)]),
     (FrameCapDelegateReq, [(2, kText, True), (3, kText, True), (4, kMap, False), (5, kText, False),
        (6, kUint, False), (7, kUint, True)]),
     (FrameCapDelegateResult, [(2, kMap, True), (3, kText, True)]),
     (FrameCapRevokeReq, [(2, kText, True), (3, kBool, False), (4, kText, False), (5, kUint, True)]),
     (FrameCapRevokeResult, [(2, kText, True), (3, kText, True), (4, kUint, False)]),
     (FrameCapLookupReq, [(2, kText, False), (3, kText, False), (4, kText, False), (5, kBool, False),
        (6, kUint, False), (7, kBytes, False), (8, kUint, True)]),
     (FrameCapLookupResult, [(2, kArray, True), (3, kBool, True), (4, kBytes, False)]),
     (FrameCapError, [(2, kUint, True), (3, kText, True), (4, kUint, False), (5, kText, False)]),
     (FrameCapTokenPresent, [(2, kMap, True), (3, kArray, False), (4, kUint, True)]),
     (FrameCapTokenAccept, [(2, kText, True), (3, kText, True)]),
     (FrameCapTokenChallenge, [(2, kText, True), (3, kBytes, True), (4, kUint, True)]),
     (FrameCapTokenProof, [(2, kText, True), (3, kBytes, True)])]"

definition capabilityTokenSchema :: "memField list" where
  "capabilityTokenSchema =
    [(0, kText, True), (1, kText, True), (2, kText, True), (3, kText, True),
     (4, kMap, False), (5, kText, False), (6, kText, False), (7, kText, False),
     (8, kUint, False), (9, kUint, False), (10, kText, False), (11, kText, False),
     (12, kText, False), (13, kText, False)]"

definition ValidateCapabilityPayload :: "frame_type \<Rightarrow> bytes \<Rightarrow> body_err + body_map" where
  "ValidateCapabilityPayload ft payload =
    (case capabilitySchemas ft of
       None \<Rightarrow> Inl (ErrCapMalformed, NotFrameType)
     | Some schema \<Rightarrow>
         rbind (decodeBodyMap ErrCapMalformed payload) (\<lambda>m.
         rbind (checkFrameKind ErrCapMalformed ft m) (\<lambda>_.
         rbind (checkCorr ErrCapMalformed m) (\<lambda>_.
         rbind (rewrap ErrCapMalformed (checkFields m schema)) (\<lambda>_.
         Inr m)))))"

definition ValidateCapabilityToken :: "body_map option \<Rightarrow> body_err + unit" where
  "ValidateCapabilityToken tok =
    (case tok of
       None \<Rightarrow> Inl (ErrCapMalformed, NotMap)
     | Some m \<Rightarrow> rewrap ErrCapMalformed (checkFields m capabilityTokenSchema))"

definition EncodeCapabilityBody :: "(u64 \<times> goval) list \<Rightarrow> bytes" where
  "EncodeCapabilityBody fields = cborEncode (GMapU fields)"

definition DecodeCapabilityEnvelope :: "frame_type \<Rightarrow> bytes \<Rightarrow> body_err + u64 \<times> bytes" where
  "DecodeCapabilityEnvelope ft body = rbind (ValidateCapabilityPayload ft body) (\<lambda>m. Inr (envelopeOf m))"

definition DecodeCapabilityBody :: "frame_type \<Rightarrow> bytes \<Rightarrow> body_err + (u64 \<times> goval) list" where
  "DecodeCapabilityBody ft body = rbind (ValidateCapabilityPayload ft body) (bodyFields ErrCapMalformed)"

section \<open>Contract\<close>

text \<open>The predicate on frame types and the schema table name the same frame types.\<close>

lemma capability_frames: "IsCapabilityFrame ft \<longleftrightarrow> ft \<in> dom capabilitySchemas"
  by (auto simp: IsCapabilityFrame_def frame_range capabilitySchemas_def upt_rec split: if_splits)

lemma capability_requests: "IsCapabilityRequest ft \<Longrightarrow> ft \<in> dom capabilitySchemas"
  by (auto simp: IsCapabilityRequest_def capabilitySchemas_def)

definition capability_body_ok :: "frame_type \<Rightarrow> body_map \<Rightarrow> bool" where
  "capability_body_ok ft m = (corr_ok m \<and> schemaOk capabilitySchemas ft m)"

interpretation cap: channel_body ValidateCapabilityPayload ErrCapMalformed capability_body_ok
proof
  fix ft p m e
  show "ValidateCapabilityPayload ft p = Inr m \<longleftrightarrow>
      cborDecodeTop p = Inr (GMapC m) \<and> cborMap_get m 0 = Some (GUint (ucast ft)) \<and> keys_ok m \<and> capability_body_ok ft m"
    by (auto simp: ValidateCapabilityPayload_def capability_body_ok_def body_accepts schemaOk_def fields_ok_def split: option.splits)
  show "fst e = ErrCapMalformed" if "ValidateCapabilityPayload ft p = Inl e"
    using that by (auto simp: ValidateCapabilityPayload_def rbind_Inl_iff dest!: body_refuses split: option.splits)
qed

end
