(* ===== verification/SettlementBodies.thy ===== *)
theory SettlementBodies
  imports Bodies
begin

text \<open>
  The Settlement channel: \<^verbatim>\<open>settlement.go\<close>, \<^verbatim>\<open>settlement_bodies.go\<close> and
  \<^verbatim>\<open>settlement_api.go\<close> under \<^verbatim>\<open>src/impl/go\<close>.
\<close>

section \<open>Model\<close>

text \<open>The frame types of the channel.\<close>

abbreviation FrameSettleIntentReq :: frame_type where "FrameSettleIntentReq \<equiv> 0x0100"
abbreviation FrameSettleIntentResult :: frame_type where "FrameSettleIntentResult \<equiv> 0x0101"
abbreviation FrameReceiptReq :: frame_type where "FrameReceiptReq \<equiv> 0x0102"
abbreviation FrameReceiptResult :: frame_type where "FrameReceiptResult \<equiv> 0x0103"
abbreviation FrameSettleError :: frame_type where "FrameSettleError \<equiv> 0x0104"
abbreviation FrameSettleBatchCommitReq :: frame_type where "FrameSettleBatchCommitReq \<equiv> 0x00A0"
abbreviation FrameSettleBatchCommitResult :: frame_type where "FrameSettleBatchCommitResult \<equiv> 0x00A1"

definition IsSettlementFrame :: "frame_type \<Rightarrow> bool" where
  "IsSettlementFrame ft = (ft = FrameSettleBatchCommitReq \<or> ft = FrameSettleBatchCommitResult \<or>
    (FrameSettleIntentReq \<le> ft \<and> ft \<le> FrameSettleError))"

definition IsSettlementRequest :: "frame_type \<Rightarrow> bool" where
  "IsSettlementRequest ft = (ft \<in> {FrameSettleIntentReq, FrameReceiptReq, FrameSettleBatchCommitReq})"

definition settlementSchemas :: "frame_type \<Rightarrow> memField list option" where
  "settlementSchemas = map_of
    [(FrameSettleIntentReq, [(2, kText, True), (3, kText, False), (4, kText, False), (5, kText, False),
        (6, kText, False), (7, kText, False), (8, kUint, True)]),
     (FrameSettleIntentResult, [(2, kText, True), (3, kText, True), (4, kText, False)]),
     (FrameReceiptReq, [(2, kText, True), (3, kText, False), (4, kUint, True)]),
     (FrameReceiptResult, [(2, kMap, True)]),
     (FrameSettleError, [(2, kUint, True), (3, kText, True), (4, kUint, False), (5, kText, False)]),
     (FrameSettleBatchCommitReq, [(2, kText, True), (3, kBytes, True), (4, kText, False), (5, kUint, False),
        (6, kText, False), (7, kUint, True)]),
     (FrameSettleBatchCommitResult, [(2, kText, True), (3, kText, True), (4, kText, False)])]"

definition settlementReceiptSchema :: "memField list" where
  "settlementReceiptSchema =
    [(0, kText, True), (1, kText, True), (2, kText, False), (3, kText, False),
     (4, kText, False), (5, kText, True), (6, kText, False), (7, kText, False),
     (8, kText, False), (9, kText, False), (10, kText, False)]"

definition ValidateSettlementPayload :: "frame_type \<Rightarrow> bytes \<Rightarrow> body_err + body_map" where
  "ValidateSettlementPayload ft payload =
    (case settlementSchemas ft of
       None \<Rightarrow> Inl (ErrSettlementMalformed, NotFrameType)
     | Some schema \<Rightarrow>
         rbind (decodeBodyMap ErrSettlementMalformed payload) (\<lambda>m.
         rbind (checkFrameKind ErrSettlementMalformed ft m) (\<lambda>_.
         rbind (checkCorr ErrSettlementMalformed m) (\<lambda>_.
         rbind (rewrap ErrSettlementMalformed (checkFields m schema)) (\<lambda>_.
         Inr m)))))"

definition ValidateSettlementReceipt :: "body_map option \<Rightarrow> body_err + unit" where
  "ValidateSettlementReceipt rec =
    (case rec of
       None \<Rightarrow> Inl (ErrSettlementMalformed, NotMap)
     | Some m \<Rightarrow> rewrap ErrSettlementMalformed (checkFields m settlementReceiptSchema))"

definition EncodeSettlementBody :: "(u64 \<times> goval) list \<Rightarrow> bytes" where
  "EncodeSettlementBody fields = cborEncode (GMapU fields)"

definition DecodeSettlementEnvelope :: "frame_type \<Rightarrow> bytes \<Rightarrow> body_err + u64 \<times> bytes" where
  "DecodeSettlementEnvelope ft body = rbind (ValidateSettlementPayload ft body) (\<lambda>m. Inr (envelopeOf m))"

definition DecodeSettlementBody :: "frame_type \<Rightarrow> bytes \<Rightarrow> body_err + (u64 \<times> goval) list" where
  "DecodeSettlementBody ft body = rbind (ValidateSettlementPayload ft body) (bodyFields ErrSettlementMalformed)"

section \<open>Contract\<close>

text \<open>The predicate on frame types and the schema table name the same frame types.\<close>

lemma settlement_frames: "IsSettlementFrame ft \<longleftrightarrow> ft \<in> dom settlementSchemas"
  by (auto simp: IsSettlementFrame_def frame_range settlementSchemas_def upt_rec split: if_splits)

lemma settlement_requests: "IsSettlementRequest ft \<Longrightarrow> ft \<in> dom settlementSchemas"
  by (auto simp: IsSettlementRequest_def settlementSchemas_def)

definition settlement_body_ok :: "frame_type \<Rightarrow> body_map \<Rightarrow> bool" where
  "settlement_body_ok ft m = (corr_ok m \<and> schemaOk settlementSchemas ft m)"

interpretation stl: channel_body ValidateSettlementPayload ErrSettlementMalformed settlement_body_ok
proof
  fix ft p m e
  show "ValidateSettlementPayload ft p = Inr m \<longleftrightarrow>
      cborDecodeTop p = Inr (GMapC m) \<and> cborMap_get m 0 = Some (GUint (ucast ft)) \<and> keys_ok m \<and> settlement_body_ok ft m"
    by (auto simp: ValidateSettlementPayload_def settlement_body_ok_def body_accepts schemaOk_def fields_ok_def split: option.splits)
  show "fst e = ErrSettlementMalformed" if "ValidateSettlementPayload ft p = Inl e"
    using that by (auto simp: ValidateSettlementPayload_def rbind_Inl_iff dest!: body_refuses split: option.splits)
qed

end
