(* ===== verification/InteractionBodies.thy ===== *)
theory InteractionBodies
  imports Bodies
begin

text \<open>
  The Interaction channel: \<^verbatim>\<open>interaction.go\<close>, \<^verbatim>\<open>interaction_bodies.go\<close> and
  \<^verbatim>\<open>interaction_api.go\<close> under \<^verbatim>\<open>src/impl/go\<close>.
\<close>

section \<open>Model\<close>

text \<open>The frame types of the channel.\<close>

abbreviation FrameInteractEvent :: frame_type where "FrameInteractEvent \<equiv> 0x0100"
abbreviation FrameInteractEventAck :: frame_type where "FrameInteractEventAck \<equiv> 0x0101"
abbreviation FrameInteractPromptReq :: frame_type where "FrameInteractPromptReq \<equiv> 0x0102"
abbreviation FrameInteractPromptResult :: frame_type where "FrameInteractPromptResult \<equiv> 0x0103"
abbreviation FrameInteractApprovalReq :: frame_type where "FrameInteractApprovalReq \<equiv> 0x0104"
abbreviation FrameInteractApprovalResult :: frame_type where "FrameInteractApprovalResult \<equiv> 0x0105"
abbreviation FrameInteractCancel :: frame_type where "FrameInteractCancel \<equiv> 0x0106"
abbreviation FrameInteractError :: frame_type where "FrameInteractError \<equiv> 0x0107"

definition IsInteractionFrame :: "frame_type \<Rightarrow> bool" where
  "IsInteractionFrame ft = (FrameInteractEvent \<le> ft \<and> ft \<le> FrameInteractError)"

definition IsInteractionRequest :: "frame_type \<Rightarrow> bool" where
  "IsInteractionRequest ft = (ft \<in> {FrameInteractEvent, FrameInteractPromptReq, FrameInteractApprovalReq})"

definition interactionSchemas :: "frame_type \<Rightarrow> memField list option" where
  "interactionSchemas = map_of
    [(FrameInteractEvent, [(2, kUint, True), (3, kText, False), (4, kMap, False), (5, kBool, False)]),
     (FrameInteractEventAck, []),
     (FrameInteractPromptReq, [(2, kUint, True), (3, kText, True), (4, kArray, False), (5, kMap, False),
        (6, kUint, False)]),
     (FrameInteractPromptResult, [(2, kUint, True)]),
     (FrameInteractApprovalReq, [(2, kText, True), (3, kUint, False), (4, kMap, False), (5, kUint, False)]),
     (FrameInteractApprovalResult, [(2, kUint, True), (3, kText, False)]),
     (FrameInteractCancel, [(2, kUint, False)]),
     (FrameInteractError, [(2, kUint, True), (3, kText, True), (4, kUint, False), (5, kText, False)])]"

definition ValidateInteractionPayload :: "frame_type \<Rightarrow> bytes \<Rightarrow> body_err + body_map" where
  "ValidateInteractionPayload ft payload =
    (case interactionSchemas ft of
       None \<Rightarrow> Inl (ErrInteractionMalformed, NotFrameType)
     | Some schema \<Rightarrow>
         rbind (decodeBodyMap ErrInteractionMalformed payload) (\<lambda>m.
         rbind (checkFrameKind ErrInteractionMalformed ft m) (\<lambda>_.
         rbind (checkCorr ErrInteractionMalformed m) (\<lambda>_.
         rbind (rewrap ErrInteractionMalformed (checkFields m schema)) (\<lambda>_.
         Inr m)))))"

definition EncodeInteractionBody :: "(u64 \<times> goval) list \<Rightarrow> bytes" where
  "EncodeInteractionBody fields = cborEncode (GMapU fields)"

definition DecodeInteractionEnvelope :: "frame_type \<Rightarrow> bytes \<Rightarrow> body_err + u64 \<times> bytes" where
  "DecodeInteractionEnvelope ft body = rbind (ValidateInteractionPayload ft body) (\<lambda>m. Inr (envelopeOf m))"

definition DecodeInteractionBody :: "frame_type \<Rightarrow> bytes \<Rightarrow> body_err + (u64 \<times> goval) list" where
  "DecodeInteractionBody ft body = rbind (ValidateInteractionPayload ft body) (bodyFields ErrInteractionMalformed)"

section \<open>Contract\<close>

text \<open>The predicate on frame types and the schema table name the same frame types.\<close>

lemma interaction_frames: "IsInteractionFrame ft \<longleftrightarrow> ft \<in> dom interactionSchemas"
  by (auto simp: IsInteractionFrame_def frame_range interactionSchemas_def upt_rec split: if_splits)

lemma interaction_requests: "IsInteractionRequest ft \<Longrightarrow> ft \<in> dom interactionSchemas"
  by (auto simp: IsInteractionRequest_def interactionSchemas_def)

definition interaction_body_ok :: "frame_type \<Rightarrow> body_map \<Rightarrow> bool" where
  "interaction_body_ok ft m = (corr_ok m \<and> schemaOk interactionSchemas ft m)"

interpretation itr: channel_body ValidateInteractionPayload ErrInteractionMalformed interaction_body_ok
proof
  fix ft p m e
  show "ValidateInteractionPayload ft p = Inr m \<longleftrightarrow>
      cborDecodeTop p = Inr (GMapC m) \<and> cborMap_get m 0 = Some (GUint (ucast ft)) \<and> keys_ok m \<and> interaction_body_ok ft m"
    by (auto simp: ValidateInteractionPayload_def interaction_body_ok_def body_accepts schemaOk_def fields_ok_def split: option.splits)
  show "fst e = ErrInteractionMalformed" if "ValidateInteractionPayload ft p = Inl e"
    using that by (auto simp: ValidateInteractionPayload_def rbind_Inl_iff dest!: body_refuses split: option.splits)
qed

end
