(* ===== verification/KnowledgeBodies.thy ===== *)
theory KnowledgeBodies
  imports Bodies
begin

text \<open>
  The Knowledge channel: \<^verbatim>\<open>knowledge.go\<close>, \<^verbatim>\<open>knowledge_bodies.go\<close> and
  \<^verbatim>\<open>knowledge_api.go\<close> under \<^verbatim>\<open>src/impl/go\<close>.
\<close>

section \<open>Model\<close>

text \<open>The frame types of the channel.\<close>

abbreviation FrameKnowledgeQueryReq :: frame_type where "FrameKnowledgeQueryReq \<equiv> 0x0100"
abbreviation FrameKnowledgeQueryResult :: frame_type where "FrameKnowledgeQueryResult \<equiv> 0x0101"
abbreviation FrameKnowledgeQueryStreamData :: frame_type where "FrameKnowledgeQueryStreamData \<equiv> 0x0102"
abbreviation FrameKnowledgeQueryStreamEnd :: frame_type where "FrameKnowledgeQueryStreamEnd \<equiv> 0x0103"
abbreviation FrameKnowledgeSubscribeReq :: frame_type where "FrameKnowledgeSubscribeReq \<equiv> 0x0104"
abbreviation FrameKnowledgeSubscribeAck :: frame_type where "FrameKnowledgeSubscribeAck \<equiv> 0x0105"
abbreviation FrameKnowledgeUpdate :: frame_type where "FrameKnowledgeUpdate \<equiv> 0x0106"
abbreviation FrameKnowledgeCredit :: frame_type where "FrameKnowledgeCredit \<equiv> 0x0107"
abbreviation FrameKnowledgeUnsubscribe :: frame_type where "FrameKnowledgeUnsubscribe \<equiv> 0x0108"
abbreviation FrameKnowledgeError :: frame_type where "FrameKnowledgeError \<equiv> 0x0109"

definition IsKnowledgeFrame :: "frame_type \<Rightarrow> bool" where
  "IsKnowledgeFrame ft = (FrameKnowledgeQueryReq \<le> ft \<and> ft \<le> FrameKnowledgeError)"

definition IsKnowledgeRequest :: "frame_type \<Rightarrow> bool" where
  "IsKnowledgeRequest ft = (ft \<in> {FrameKnowledgeQueryReq, FrameKnowledgeSubscribeReq})"

definition knowledgeSchemas :: "frame_type \<Rightarrow> memField list option" where
  "knowledgeSchemas = map_of
    [(FrameKnowledgeQueryReq, [(2, kText, False), (3, kText, False), (4, kText, False), (5, kText, False),
        (6, kUint, False), (8, kText, False), (9, kBytes, False)]),
     (FrameKnowledgeQueryResult, [(2, kArray, True), (3, kBool, True), (4, kBytes, False), (5, kUint, False),
        (6, kBool, False)]),
     (FrameKnowledgeQueryStreamData, [(2, kArray, True)]),
     (FrameKnowledgeQueryStreamEnd, [(2, kArray, False), (3, kBool, True)]),
     (FrameKnowledgeSubscribeReq, [(2, kText, False), (3, kText, False), (4, kText, False), (5, kText, False),
        (7, kText, False), (8, kBool, False), (9, kUint, True)]),
     (FrameKnowledgeSubscribeAck, [(2, kBytes, True), (3, kUint, True), (4, kBool, False)]),
     (FrameKnowledgeUpdate, [(2, kBytes, True), (3, kUint, True), (4, kArray, False), (5, kArray, False)]),
     (FrameKnowledgeCredit, [(2, kBytes, True), (3, kUint, True), (4, kUint, False)]),
     (FrameKnowledgeUnsubscribe, [(2, kBytes, True)]),
     (FrameKnowledgeError, [(2, kUint, True), (3, kText, True), (4, kUint, False), (5, kBytes, False)])]"

text \<open>The cross-field rule of \<open>ValidateKnowledgePayload\<close>: an update carries results (4) or removed (5).\<close>

definition checkUpdateCarries :: "frame_type \<Rightarrow> body_map \<Rightarrow> body_err + unit" where
  "checkUpdateCarries ft m =
    (if ft = FrameKnowledgeUpdate \<and> cborMap_get m 4 = None \<and> cborMap_get m 5 = None
     then Inl (ErrKnowledgeMalformed, EmptyUpdate) else Inr ())"

definition ValidateKnowledgePayload :: "frame_type \<Rightarrow> bytes \<Rightarrow> body_err + body_map" where
  "ValidateKnowledgePayload ft payload =
    (case knowledgeSchemas ft of
       None \<Rightarrow> Inl (ErrKnowledgeMalformed, NotFrameType)
     | Some schema \<Rightarrow>
         rbind (decodeBodyMap ErrKnowledgeMalformed payload) (\<lambda>m.
         rbind (checkFrameKind ErrKnowledgeMalformed ft m) (\<lambda>_.
         rbind (checkCorr ErrKnowledgeMalformed m) (\<lambda>_.
         rbind (rewrap ErrKnowledgeMalformed (checkFields m schema)) (\<lambda>_.
         rbind (checkUpdateCarries ft m) (\<lambda>_.
         Inr m))))))"

definition EncodeKnowledgeBody :: "(u64 \<times> goval) list \<Rightarrow> bytes" where
  "EncodeKnowledgeBody fields = cborEncode (GMapU fields)"

definition DecodeKnowledgeEnvelope :: "frame_type \<Rightarrow> bytes \<Rightarrow> body_err + u64 \<times> bytes" where
  "DecodeKnowledgeEnvelope ft body = rbind (ValidateKnowledgePayload ft body) (\<lambda>m. Inr (envelopeOf m))"

definition DecodeKnowledgeBody :: "frame_type \<Rightarrow> bytes \<Rightarrow> body_err + (u64 \<times> goval) list" where
  "DecodeKnowledgeBody ft body = rbind (ValidateKnowledgePayload ft body) (bodyFields ErrKnowledgeMalformed)"

lemma checkUpdateCarries_err [body_refuses]: "checkUpdateCarries ft m = Inl e \<Longrightarrow> fst e = ErrKnowledgeMalformed"
  by (auto simp: checkUpdateCarries_def split: if_splits)

section \<open>Contract\<close>

text \<open>The predicate on frame types and the schema table name the same frame types.\<close>

lemma knowledge_frames: "IsKnowledgeFrame ft \<longleftrightarrow> ft \<in> dom knowledgeSchemas"
  by (auto simp: IsKnowledgeFrame_def frame_range knowledgeSchemas_def upt_rec split: if_splits)

lemma knowledge_requests: "IsKnowledgeRequest ft \<Longrightarrow> ft \<in> dom knowledgeSchemas"
  by (auto simp: IsKnowledgeRequest_def knowledgeSchemas_def)

definition knowledge_body_ok :: "frame_type \<Rightarrow> body_map \<Rightarrow> bool" where
  "knowledge_body_ok ft m = (corr_ok m \<and> schemaOk knowledgeSchemas ft m
    \<and> (ft = FrameKnowledgeUpdate \<longrightarrow> cborMap_get m 4 \<noteq> None \<or> cborMap_get m 5 \<noteq> None))"

interpretation knw: channel_body ValidateKnowledgePayload ErrKnowledgeMalformed knowledge_body_ok
proof
  fix ft p m e
  show "ValidateKnowledgePayload ft p = Inr m \<longleftrightarrow>
      cborDecodeTop p = Inr (GMapC m) \<and> cborMap_get m 0 = Some (GUint (ucast ft)) \<and> keys_ok m \<and> knowledge_body_ok ft m"
    by (auto simp: ValidateKnowledgePayload_def knowledge_body_ok_def body_accepts schemaOk_def fields_ok_def checkUpdateCarries_def split: option.splits)
  show "fst e = ErrKnowledgeMalformed" if "ValidateKnowledgePayload ft p = Inl e"
    using that by (auto simp: ValidateKnowledgePayload_def rbind_Inl_iff dest!: body_refuses split: option.splits)
qed

end
