(* ===== verification/WorkflowBodies.thy ===== *)
theory WorkflowBodies
  imports Bodies
begin

text \<open>
  The Workflow channel: \<^verbatim>\<open>workflow.go\<close>, \<^verbatim>\<open>workflow_bodies.go\<close> and
  \<^verbatim>\<open>workflow_api.go\<close> under \<^verbatim>\<open>src/impl/go\<close>. The task-scoped notifications carry no \<open>corr\<close>.
\<close>

section \<open>Model\<close>

text \<open>The frame types of the channel.\<close>

abbreviation FrameWorkflowSubmitReq :: frame_type where "FrameWorkflowSubmitReq \<equiv> 0x0100"
abbreviation FrameWorkflowSubmitResult :: frame_type where "FrameWorkflowSubmitResult \<equiv> 0x0101"
abbreviation FrameWorkflowStatusReq :: frame_type where "FrameWorkflowStatusReq \<equiv> 0x0102"
abbreviation FrameWorkflowStatusResult :: frame_type where "FrameWorkflowStatusResult \<equiv> 0x0103"
abbreviation FrameWorkflowCancelReq :: frame_type where "FrameWorkflowCancelReq \<equiv> 0x0104"
abbreviation FrameWorkflowCancelResult :: frame_type where "FrameWorkflowCancelResult \<equiv> 0x0105"
abbreviation FrameWorkflowStepEvent :: frame_type where "FrameWorkflowStepEvent \<equiv> 0x0106"
abbreviation FrameWorkflowComplete :: frame_type where "FrameWorkflowComplete \<equiv> 0x0107"
abbreviation FrameWorkflowError :: frame_type where "FrameWorkflowError \<equiv> 0x0108"

definition IsWorkflowFrame :: "frame_type \<Rightarrow> bool" where
  "IsWorkflowFrame ft = (FrameWorkflowSubmitReq \<le> ft \<and> ft \<le> FrameWorkflowError)"

definition IsWorkflowRequest :: "frame_type \<Rightarrow> bool" where
  "IsWorkflowRequest ft = (ft \<in> {FrameWorkflowSubmitReq, FrameWorkflowStatusReq, FrameWorkflowCancelReq})"

definition workflowFrameHasCorr :: "frame_type \<Rightarrow> bool" where
  "workflowFrameHasCorr ft = (ft \<noteq> FrameWorkflowStepEvent \<and> ft \<noteq> FrameWorkflowComplete)"

definition workflowSchemas :: "frame_type \<Rightarrow> memField list option" where
  "workflowSchemas = map_of
    [(FrameWorkflowSubmitReq, [(2, kText, True), (3, kBytes, False), (4, kMap, False), (5, kUint, False),
        (6, kText, False), (7, kText, False), (8, kText, False), (9, kText, False),
        (10, kMap, False), (11, kUint, True)]),
     (FrameWorkflowSubmitResult, [(2, kText, True), (3, kUint, True)]),
     (FrameWorkflowStatusReq, [(2, kText, True)]),
     (FrameWorkflowStatusResult, [(2, kText, True), (3, kUint, True), (4, kUint, False), (5, kText, False),
        (6, kUint, False), (7, kText, False)]),
     (FrameWorkflowCancelReq, [(2, kText, True), (3, kText, False)]),
     (FrameWorkflowCancelResult, [(2, kText, True), (3, kUint, True)]),
     (FrameWorkflowStepEvent, [(2, kText, True), (3, kUint, True), (4, kUint, True), (5, kUint, False),
        (6, kText, False), (7, kUint, False), (8, kBytes, False), (9, kText, False)]),
     (FrameWorkflowComplete, [(2, kText, True), (3, kUint, True), (4, kUint, True), (5, kBytes, False),
        (6, kUint, False), (7, kText, False)]),
     (FrameWorkflowError, [(2, kUint, True), (3, kText, True), (4, kUint, False), (5, kText, False)])]"

text \<open>The \<open>corr\<close> (1) block of \<open>ValidateWorkflowPayload\<close>.\<close>

definition checkWorkflowCorr :: "frame_type \<Rightarrow> body_map \<Rightarrow> body_err + unit" where
  "checkWorkflowCorr ft m = (if workflowFrameHasCorr ft then checkCorr ErrWorkflowMalformed m else Inr ())"

definition ValidateWorkflowPayload :: "frame_type \<Rightarrow> bytes \<Rightarrow> body_err + body_map" where
  "ValidateWorkflowPayload ft payload =
    (case workflowSchemas ft of
       None \<Rightarrow> Inl (ErrWorkflowMalformed, NotFrameType)
     | Some schema \<Rightarrow>
         rbind (decodeBodyMap ErrWorkflowMalformed payload) (\<lambda>m.
         rbind (checkFrameKind ErrWorkflowMalformed ft m) (\<lambda>_.
         rbind (checkWorkflowCorr ft m) (\<lambda>_.
         rbind (rewrap ErrWorkflowMalformed (checkFields m schema)) (\<lambda>_.
         Inr m)))))"

definition EncodeWorkflowBody :: "(u64 \<times> goval) list \<Rightarrow> bytes" where
  "EncodeWorkflowBody fields = cborEncode (GMapU fields)"

definition DecodeWorkflowEnvelope :: "frame_type \<Rightarrow> bytes \<Rightarrow> body_err + u64 \<times> bytes" where
  "DecodeWorkflowEnvelope ft body = rbind (ValidateWorkflowPayload ft body) (\<lambda>m. Inr (envelopeOf m))"

definition DecodeWorkflowBody :: "frame_type \<Rightarrow> bytes \<Rightarrow> body_err + (u64 \<times> goval) list" where
  "DecodeWorkflowBody ft body = rbind (ValidateWorkflowPayload ft body) (bodyFields ErrWorkflowMalformed)"

lemma checkWorkflowCorr_ok [body_accepts]: "checkWorkflowCorr ft m = Inr u \<longleftrightarrow> (workflowFrameHasCorr ft \<longrightarrow> corr_ok m)"
  by (simp add: checkWorkflowCorr_def body_accepts)

lemma checkWorkflowCorr_err [body_refuses]: "checkWorkflowCorr ft m = Inl e \<Longrightarrow> fst e = ErrWorkflowMalformed"
  by (auto simp: checkWorkflowCorr_def dest: body_refuses split: if_splits)

section \<open>Contract\<close>

text \<open>The predicate on frame types and the schema table name the same frame types.\<close>

lemma workflow_frames: "IsWorkflowFrame ft \<longleftrightarrow> ft \<in> dom workflowSchemas"
  by (auto simp: IsWorkflowFrame_def frame_range workflowSchemas_def upt_rec split: if_splits)

lemma workflow_requests: "IsWorkflowRequest ft \<Longrightarrow> ft \<in> dom workflowSchemas"
  by (auto simp: IsWorkflowRequest_def workflowSchemas_def)

definition workflow_body_ok :: "frame_type \<Rightarrow> body_map \<Rightarrow> bool" where
  "workflow_body_ok ft m = ((workflowFrameHasCorr ft \<longrightarrow> corr_ok m) \<and> schemaOk workflowSchemas ft m)"

interpretation wfl: channel_body ValidateWorkflowPayload ErrWorkflowMalformed workflow_body_ok
proof
  fix ft p m e
  show "ValidateWorkflowPayload ft p = Inr m \<longleftrightarrow>
      cborDecodeTop p = Inr (GMapC m) \<and> cborMap_get m 0 = Some (GUint (ucast ft)) \<and> keys_ok m \<and> workflow_body_ok ft m"
    by (auto simp: ValidateWorkflowPayload_def workflow_body_ok_def body_accepts schemaOk_def fields_ok_def split: option.splits)
  show "fst e = ErrWorkflowMalformed" if "ValidateWorkflowPayload ft p = Inl e"
    using that by (auto simp: ValidateWorkflowPayload_def rbind_Inl_iff dest!: body_refuses split: option.splits)
qed

end
