(* ===== verification/BridgeBodies.thy ===== *)
theory BridgeBodies
  imports Tlv Bodies
begin

text \<open>
  The Bridge channel: \<^verbatim>\<open>bridge.go\<close>, \<^verbatim>\<open>bridge_bodies.go\<close> and \<^verbatim>\<open>bridge_api.go\<close> under
  \<^verbatim>\<open>src/impl/go\<close>. A payload is an envelope TLV, an optional safety label TLV and the foreign message.
  The validator is characterised exactly by the encoder; what it cannot tell apart is a foreign
  message that itself starts like a safety label.
\<close>

section \<open>Model\<close>

abbreviation FrameBridgeRequest :: frame_type where "FrameBridgeRequest \<equiv> 0x0100"
abbreviation FrameBridgeResponse :: frame_type where "FrameBridgeResponse \<equiv> 0x0101"
abbreviation FrameBridgeError :: frame_type where "FrameBridgeError \<equiv> 0x0102"
abbreviation FrameBridgeNotify :: frame_type where "FrameBridgeNotify \<equiv> 0x0103"
abbreviation FrameBridgeStreamData :: frame_type where "FrameBridgeStreamData \<equiv> 0x0104"
abbreviation FrameBridgeStreamEnd :: frame_type where "FrameBridgeStreamEnd \<equiv> 0x0105"

definition TLVBridgeEnvelope :: tlv_type where "TLVBridgeEnvelope = 0x0010"
definition TLVSafetyLabel :: tlv_type where "TLVSafetyLabel = 0x0013"

text \<open>\<open>BridgeMessageKind\<close>, \<open>BridgeEffect\<close> and \<open>BridgeFlagFinal\<close>: the constants that the code consults.\<close>

abbreviation BridgeKindRequest :: byte where "BridgeKindRequest \<equiv> 0x01"
abbreviation BridgeKindResponse :: byte where "BridgeKindResponse \<equiv> 0x02"
abbreviation BridgeKindNotification :: byte where "BridgeKindNotification \<equiv> 0x03"
abbreviation BridgeKindError :: byte where "BridgeKindError \<equiv> 0x04"
abbreviation BridgeKindStreamData :: byte where "BridgeKindStreamData \<equiv> 0x05"
abbreviation BridgeKindStreamEnd :: byte where "BridgeKindStreamEnd \<equiv> 0x06"
abbreviation BridgeEffectDestructive :: byte where "BridgeEffectDestructive \<equiv> 0x03"
abbreviation BridgeFlagFinal :: byte where "BridgeFlagFinal \<equiv> 0x01"

definition bridgeFrameKind :: "frame_type \<Rightarrow> byte option" where
  "bridgeFrameKind = map_of
    [(FrameBridgeRequest, BridgeKindRequest), (FrameBridgeResponse, BridgeKindResponse),
     (FrameBridgeError, BridgeKindError), (FrameBridgeNotify, BridgeKindNotification),
     (FrameBridgeStreamData, BridgeKindStreamData), (FrameBridgeStreamEnd, BridgeKindStreamEnd)]"

definition IsBridgeFrame :: "frame_type \<Rightarrow> bool" where
  "IsBridgeFrame ft = (FrameBridgeRequest \<le> ft \<and> ft \<le> FrameBridgeStreamEnd)"

definition IsBridgeRequest :: "frame_type \<Rightarrow> bool" where
  "IsBridgeRequest ft = (ft = FrameBridgeRequest)"

definition IsBridgeReply :: "frame_type \<Rightarrow> bool" where
  "IsBridgeReply ft = (ft \<in> {FrameBridgeResponse, FrameBridgeError, FrameBridgeStreamData, FrameBridgeStreamEnd})"

record BridgeEnvelope =
  bProtocol :: u16
  bKind :: byte
  bContentType :: byte
  bFlags :: byte
  bCorrelationID :: bytes
  bMethod :: bytes

record SafetyLabel =
  bEffect :: byte
  bScope :: bytes

record BridgeFrame =
  bEnvelope :: BridgeEnvelope
  bSafety :: "SafetyLabel option"
  bForeign :: bytes

definition envelope_Final :: "BridgeEnvelope \<Rightarrow> bool" where
  "envelope_Final e = (bFlags e AND BridgeFlagFinal \<noteq> 0)"

definition EffectiveEffect :: "BridgeFrame \<Rightarrow> byte" where
  "EffectiveEffect f = (case bSafety f of None \<Rightarrow> BridgeEffectDestructive | Some s \<Rightarrow> bEffect s)"

text \<open>The encoders panic on a field that its one-octet length cannot represent.\<close>

datatype bridge_err = ErrBridgeMalformed | PanicFieldTooLong

definition encodeEnvelopeValue :: "BridgeEnvelope \<Rightarrow> bridge_err + bytes" where
  "encodeEnvelopeValue e =
    (if length (bCorrelationID e) > 255 then Inl PanicFieldTooLong
     else if length (bMethod e) > 255 then Inl PanicFieldTooLong
     else Inr (put_u16 (bProtocol e)
       @ [bKind e, bContentType e, bFlags e, of_nat (length (bCorrelationID e))] @ bCorrelationID e
       @ [of_nat (length (bMethod e))] @ bMethod e))"

definition encodeSafetyValue :: "SafetyLabel \<Rightarrow> bridge_err + bytes" where
  "encodeSafetyValue s =
    (if length (bScope s) > 255 then Inl PanicFieldTooLong
     else Inr ([bEffect s, of_nat (length (bScope s))] @ bScope s))"

definition EncodeBridgeFrame :: "BridgeFrame \<Rightarrow> bridge_err + bytes" where
  "EncodeBridgeFrame f =
    rbind (encodeEnvelopeValue (bEnvelope f)) (\<lambda>ev.
    rbind (case bSafety f of
             None \<Rightarrow> Inr []
           | Some s \<Rightarrow> rbind (encodeSafetyValue s) (\<lambda>sv. Inr (tlv_Encode \<lparr>tType = TLVSafetyLabel, tValue = sv\<rparr>))) (\<lambda>st.
    Inr (tlv_Encode \<lparr>tType = TLVBridgeEnvelope, tValue = ev\<rparr> @ st @ bForeign f)))"

definition decodeEnvelopeValue :: "bytes \<Rightarrow> bridge_err + BridgeEnvelope" where
  "decodeEnvelopeValue v =
    (if length v < 6 then Inl ErrBridgeMalformed
     else let corrLen = unat (v ! 5) in
       if length v < 6 + corrLen + 1 then Inl ErrBridgeMalformed
       else let methodLen = unat (v ! (6 + corrLen)); end = 6 + corrLen + 1 + methodLen in
         if length v < end then Inl ErrBridgeMalformed
         else if length v \<noteq> end then Inl ErrBridgeMalformed
         else Inr \<lparr>bProtocol = get_u16 (gslice 0 2 v), bKind = v ! 2, bContentType = v ! 3, bFlags = v ! 4,
                bCorrelationID = gslice 6 (6 + corrLen) v, bMethod = gslice (6 + corrLen + 1) end v\<rparr>)"

definition decodeSafetyValue :: "bytes \<Rightarrow> bridge_err + SafetyLabel" where
  "decodeSafetyValue v =
    (if length v < 2 then Inl ErrBridgeMalformed
     else let end = 2 + unat (v ! 1) in
       if length v < end then Inl ErrBridgeMalformed
       else if length v \<noteq> end then Inl ErrBridgeMalformed
       else Inr \<lparr>bEffect = v ! 0, bScope = gslice 2 end v\<rparr>)"

text \<open>The \<open>switch\<close> on the role of the frame in \<open>ValidateBridgePayload\<close>.\<close>

definition checkBridgeCorr :: "frame_type \<Rightarrow> BridgeEnvelope \<Rightarrow> bridge_err + unit" where
  "checkBridgeCorr ft env =
    (if ft = FrameBridgeNotify then guard (length (bCorrelationID env) = 0) ErrBridgeMalformed
     else if ft = FrameBridgeRequest then guard (length (bCorrelationID env) \<noteq> 0) ErrBridgeMalformed
     else guard (length (bCorrelationID env) \<noteq> 0) ErrBridgeMalformed)"

text \<open>Its last part: the optional safety label and what is left for the foreign message.\<close>

definition splitSafety :: "bytes \<Rightarrow> bridge_err + SafetyLabel option \<times> bytes" where
  "splitSafety rest =
    (if 4 \<le> length rest \<and> get_u16 (gslice 0 2 rest) = TLVSafetyLabel then
       let sLen = unat (get_u16 (gslice 2 4 rest)) in
       if length rest < 4 + sLen then Inl ErrBridgeMalformed
       else rbind (decodeSafetyValue (gslice 4 (4 + sLen) rest)) (\<lambda>s. Inr (Some s, drop (4 + sLen) rest))
     else Inr (None, rest))"

definition ValidateBridgePayload :: "frame_type \<Rightarrow> bytes \<Rightarrow> bridge_err + BridgeFrame" where
  "ValidateBridgePayload ft payload =
    (case bridgeFrameKind ft of
       None \<Rightarrow> Inl ErrBridgeMalformed
     | Some wantKind \<Rightarrow>
         if length payload < 4 then Inl ErrBridgeMalformed
         else let envType = get_u16 (gslice 0 2 payload); envLen = unat (get_u16 (gslice 2 4 payload)) in
           if envType \<noteq> TLVBridgeEnvelope then Inl ErrBridgeMalformed
           else if length payload < 4 + envLen then Inl ErrBridgeMalformed
           else
             rbind (decodeEnvelopeValue (gslice 4 (4 + envLen) payload)) (\<lambda>env.
             rbind (guard (bKind env = wantKind) ErrBridgeMalformed) (\<lambda>_.
             rbind (checkBridgeCorr ft env) (\<lambda>_.
             rbind (splitSafety (drop (4 + envLen) payload)) (\<lambda>(safety, foreign).
             Inr \<lparr>bEnvelope = env, bSafety = safety, bForeign = foreign\<rparr>)))))"

definition CorrelateBridgeReply :: "BridgeEnvelope \<Rightarrow> BridgeEnvelope \<Rightarrow> bool" where
  "CorrelateBridgeReply request reply =
    (if length (bCorrelationID request) = 0 \<or> length (bCorrelationID reply) = 0 then False
     else bCorrelationID request = bCorrelationID reply)"

definition EncodeBridgePayload :: "BridgeEnvelope \<Rightarrow> SafetyLabel option \<Rightarrow> bytes \<Rightarrow> bridge_err + bytes" where
  "EncodeBridgePayload env safety foreign =
    EncodeBridgeFrame \<lparr>bEnvelope = env, bSafety = safety, bForeign = foreign\<rparr>"

definition DecodeBridgeFrame :: "frame_type \<Rightarrow> bytes \<Rightarrow> bridge_err + BridgeFrame" where
  "DecodeBridgeFrame ft payload = ValidateBridgePayload ft payload"

definition DecodeBridgeEnvelope :: "frame_type \<Rightarrow> bytes \<Rightarrow> bridge_err + BridgeEnvelope" where
  "DecodeBridgeEnvelope ft payload = rbind (ValidateBridgePayload ft payload) (\<lambda>f. Inr (bEnvelope f))"

record BridgeTransportError =
  bCode :: byte
  bMessage :: bytes

definition EncodeBridgeTransportError :: "BridgeTransportError \<Rightarrow> bridge_err + bytes" where
  "EncodeBridgeTransportError te =
    (if length (bMessage te) > 255 then Inl PanicFieldTooLong
     else Inr ([bCode te, of_nat (length (bMessage te))] @ bMessage te))"

definition DecodeBridgeTransportError :: "bytes \<Rightarrow> bridge_err + BridgeTransportError" where
  "DecodeBridgeTransportError b =
    (if length b < 2 then Inl ErrBridgeMalformed
     else let end = 2 + unat (b ! 1) in
       if length b \<noteq> end then Inl ErrBridgeMalformed
       else Inr \<lparr>bCode = b ! 0, bMessage = gslice 2 end b\<rparr>)"

section \<open>The values inside the TLVs\<close>

lemma of_nat_octet: "length xs \<le> 255 \<Longrightarrow> unat (of_nat (length xs) :: byte) = length xs"
  by (simp add: unat_of_nat_small)

lemma unat_byte_le: "unat (x :: byte) \<le> 255"
  using unat_less [of x] by simp

lemma envelope_value: "decodeEnvelopeValue v = Inr e \<longleftrightarrow> encodeEnvelopeValue e = Inr v"
proof
  assume dec: "decodeEnvelopeValue v = Inr e"
  then have "6 \<le> length v" by (auto simp: decodeEnvelopeValue_def split: if_splits)
  then obtain a b c d f n w where v: "v = a # b # c # d # f # n # w"
    by (auto simp: numeral_eq_Suc Suc_le_length_iff)
  let ?c = "unat n"
  have w: "?c < length w" "length w = Suc (?c + unat (w ! ?c))"
    using dec by (auto simp: decodeEnvelopeValue_def v Let_def numeral_eq_Suc split: if_splits)
  have e: "e = \<lparr>bProtocol = get_u16 [a, b], bKind = c, bContentType = d, bFlags = f,
      bCorrelationID = take ?c w, bMethod = drop (Suc ?c) w\<rparr>"
    using dec w by (auto simp: decodeEnvelopeValue_def v Let_def gslice_def numeral_eq_Suc split: if_splits)
  have "take ?c w @ w ! ?c # drop (Suc ?c) w = w" using w(1) by (simp add: id_take_nth_drop [symmetric])
  then show "encodeEnvelopeValue e = Inr v"
    using w unat_byte_le [of n] unat_byte_le [of "w ! ?c"] by (simp add: encodeEnvelopeValue_def e v put_get_uN min_def)
next
  assume enc: "encodeEnvelopeValue e = Inr v"
  let ?c = "bCorrelationID e" and ?m = "bMethod e"
  have l: "length ?c \<le> 255" "length ?m \<le> 255"
    using enc by (auto simp: encodeEnvelopeValue_def split: if_splits)
  have v: "v = put_u16 (bProtocol e) @ [bKind e, bContentType e, bFlags e, of_nat (length ?c)] @ ?c
      @ [of_nat (length ?m)] @ ?m"
    using enc by (auto simp: encodeEnvelopeValue_def split: if_splits)
  obtain a b where p: "put_u16 (bProtocol e) = [a, b]"
    by (simp add: put_uN_eval)
  then have "get_u16 [a, b] = bProtocol e" by (metis get_put_uN(1))
  then show "decodeEnvelopeValue v = Inr e"
    using l by (simp add: decodeEnvelopeValue_def v p Let_def of_nat_octet gslice_def nth_append numeral_eq_Suc)
qed

lemma safety_value: "decodeSafetyValue v = Inr s \<longleftrightarrow> encodeSafetyValue s = Inr v"
proof
  assume dec: "decodeSafetyValue v = Inr s"
  then have "2 \<le> length v" by (auto simp: decodeSafetyValue_def split: if_splits)
  then obtain a n w where v: "v = a # n # w" by (auto simp: numeral_eq_Suc Suc_le_length_iff)
  show "encodeSafetyValue s = Inr v"
    using dec unat_byte_le [of n]
    by (auto simp: decodeSafetyValue_def encodeSafetyValue_def v Let_def gslice_def split: if_splits)
next
  assume "encodeSafetyValue s = Inr v"
  then show "decodeSafetyValue v = Inr s"
    by (auto simp: decodeSafetyValue_def encodeSafetyValue_def Let_def gslice_def of_nat_octet split: if_splits)
qed

lemma transport_error: "DecodeBridgeTransportError b = Inr te \<longleftrightarrow> EncodeBridgeTransportError te = Inr b"
proof
  assume dec: "DecodeBridgeTransportError b = Inr te"
  then have "2 \<le> length b" by (auto simp: DecodeBridgeTransportError_def split: if_splits)
  then obtain a n w where b: "b = a # n # w" by (auto simp: numeral_eq_Suc Suc_le_length_iff)
  show "EncodeBridgeTransportError te = Inr b"
    using dec unat_byte_le [of n]
    by (auto simp: DecodeBridgeTransportError_def EncodeBridgeTransportError_def b Let_def gslice_def split: if_splits)
next
  assume "EncodeBridgeTransportError te = Inr b"
  then show "DecodeBridgeTransportError b = Inr te"
    by (auto simp: DecodeBridgeTransportError_def EncodeBridgeTransportError_def Let_def gslice_def of_nat_octet
      split: if_splits)
qed

section \<open>The payload\<close>

lemma tlv_front:
  "4 \<le> length b \<and> get_u16 (gslice 0 2 b) = ty \<and> 4 + unat (get_u16 (gslice 2 4 b)) \<le> length b
      \<and> v = gslice 4 (4 + unat (get_u16 (gslice 2 4 b))) b \<and> r = drop (4 + unat (get_u16 (gslice 2 4 b))) b
   \<longleftrightarrow> length v < 2 ^ 16 \<and> b = tlv_Encode \<lparr>tType = ty, tValue = v\<rparr> @ r"
  (is "?L \<longleftrightarrow> ?R")
proof
  assume L: ?L
  then have "decodeTLV b = Inr (\<lparr>tType = ty, tValue = v\<rparr>, 4 + unat (get_u16 (gslice 2 4 b)))"
    by (auto simp: decodeTLV_def Let_def)
  from tlvc.dec_consumes [OF this] L show ?R by (simp add: tlv_ok_def)
next
  assume R: ?R
  let ?t = "\<lparr>tType = ty, tValue = v\<rparr>"
  have "decodeTLV b = Inr (?t, length (tlv_Encode ?t))"
    using R tlvc.dec_enc [of ?t r] by (simp add: tlv_ok_def)
  then have n: "length (tlv_Encode ?t) = 4 + unat (get_u16 (gslice 2 4 b))"
    "4 \<le> length b" "get_u16 (gslice 0 2 b) = ty" "4 + unat (get_u16 (gslice 2 4 b)) \<le> length b"
    "v = gslice 4 (4 + unat (get_u16 (gslice 2 4 b))) b"
    by (auto simp: decodeTLV_def Let_def split: if_splits)
  moreover have "r = drop (length (tlv_Encode ?t)) b" using R by simp
  ultimately show ?L by simp
qed

definition label_like :: "bytes \<Rightarrow> bool" where
  "label_like b = (4 \<le> length b \<and> get_u16 (gslice 0 2 b) = TLVSafetyLabel)"

lemma encodeSafetyValue_size: "encodeSafetyValue s = Inr sv \<Longrightarrow> length sv < 2 ^ 16"
  by (auto simp: encodeSafetyValue_def split: if_splits)

lemma encodeEnvelopeValue_size: "encodeEnvelopeValue e = Inr ev \<Longrightarrow> length ev < 2 ^ 16"
  by (auto simp: encodeEnvelopeValue_def split: if_splits)

lemma splitSafety_None: "splitSafety rest = Inr (None, foreign) \<longleftrightarrow> rest = foreign \<and> \<not> label_like foreign"
  by (auto simp: splitSafety_def label_like_def Let_def split: if_splits)

lemma splitSafety_Some:
  "splitSafety rest = Inr (Some s, foreign) \<longleftrightarrow>
    (\<exists>sv. encodeSafetyValue s = Inr sv \<and> rest = tlv_Encode \<lparr>tType = TLVSafetyLabel, tValue = sv\<rparr> @ foreign)"
proof -
  have "splitSafety rest = Inr (Some s, foreign) \<longleftrightarrow>
      (\<exists>sv. decodeSafetyValue sv = Inr s \<and> 4 \<le> length rest \<and> get_u16 (gslice 0 2 rest) = TLVSafetyLabel
        \<and> 4 + unat (get_u16 (gslice 2 4 rest)) \<le> length rest
        \<and> sv = gslice 4 (4 + unat (get_u16 (gslice 2 4 rest))) rest
        \<and> foreign = drop (4 + unat (get_u16 (gslice 2 4 rest))) rest)"
    by (auto simp: splitSafety_def Let_def not_less)
  then show ?thesis
    unfolding tlv_front safety_value using encodeSafetyValue_size by blast
qed

lemma EncodeBridgeFrame_iff:
  "EncodeBridgeFrame f = Inr p \<longleftrightarrow>
    (\<exists>ev. encodeEnvelopeValue (bEnvelope f) = Inr ev \<and>
      (case bSafety f of
         None \<Rightarrow> p = tlv_Encode \<lparr>tType = TLVBridgeEnvelope, tValue = ev\<rparr> @ bForeign f
       | Some s \<Rightarrow> (\<exists>sv. encodeSafetyValue s = Inr sv \<and>
           p = tlv_Encode \<lparr>tType = TLVBridgeEnvelope, tValue = ev\<rparr> @ tlv_Encode \<lparr>tType = TLVSafetyLabel, tValue = sv\<rparr> @ bForeign f)))"
  by (cases "bSafety f") (auto simp: EncodeBridgeFrame_def)

definition bridge_ok :: "frame_type \<Rightarrow> BridgeFrame \<Rightarrow> bool" where
  "bridge_ok ft f = (bridgeFrameKind ft = Some (bKind (bEnvelope f))
    \<and> (bCorrelationID (bEnvelope f) = [] \<longleftrightarrow> ft = FrameBridgeNotify)
    \<and> (bSafety f = None \<longrightarrow> \<not> label_like (bForeign f)))"

lemma checkBridgeCorr_ok: "checkBridgeCorr ft env = Inr u \<longleftrightarrow> (bCorrelationID env = [] \<longleftrightarrow> ft = FrameBridgeNotify)"
  by (auto simp: checkBridgeCorr_def)

lemma ValidateBridgePayload_iff:
  "ValidateBridgePayload ft p = Inr f \<longleftrightarrow>
    (\<exists>ev r. bridgeFrameKind ft = Some (bKind (bEnvelope f)) \<and> decodeEnvelopeValue ev = Inr (bEnvelope f)
      \<and> (4 \<le> length p \<and> get_u16 (gslice 0 2 p) = TLVBridgeEnvelope \<and> 4 + unat (get_u16 (gslice 2 4 p)) \<le> length p
        \<and> ev = gslice 4 (4 + unat (get_u16 (gslice 2 4 p))) p \<and> r = drop (4 + unat (get_u16 (gslice 2 4 p))) p)
      \<and> checkBridgeCorr ft (bEnvelope f) = Inr () \<and> splitSafety r = Inr (bSafety f, bForeign f))"
  by (cases f) (auto simp: ValidateBridgePayload_def Let_def not_less split: option.splits)

lemma ValidateBridgePayload_encodes:
  "ValidateBridgePayload ft p = Inr f \<longleftrightarrow> EncodeBridgeFrame f = Inr p \<and> bridge_ok ft f"
proof -
  have "ValidateBridgePayload ft p = Inr f \<longleftrightarrow>
      (\<exists>ev r. bridgeFrameKind ft = Some (bKind (bEnvelope f)) \<and> encodeEnvelopeValue (bEnvelope f) = Inr ev
        \<and> p = tlv_Encode \<lparr>tType = TLVBridgeEnvelope, tValue = ev\<rparr> @ r
        \<and> (bCorrelationID (bEnvelope f) = [] \<longleftrightarrow> ft = FrameBridgeNotify) \<and> splitSafety r = Inr (bSafety f, bForeign f))"
    unfolding ValidateBridgePayload_iff tlv_front envelope_value checkBridgeCorr_ok
    using encodeEnvelopeValue_size by blast
  then show ?thesis
    by (cases "bSafety f") (auto simp: EncodeBridgeFrame_iff bridge_ok_def splitSafety_None splitSafety_Some)
qed

section \<open>Properties\<close>

text \<open>
  Claim C33 (bridge payloads). \<open>ValidateBridgePayload\<close> accepts a payload for a frame type exactly when
  \<open>EncodeBridgeFrame\<close> gives that payload for the frame returned and the frame agrees with the frame
  type: the message kind is the one of the type, the correlation id is empty exactly on a notify, and
  an unlabelled foreign message does not itself begin like a safety label. So no payload has two
  readings, and the foreign octets of a frame that meets these conditions are carried verbatim; those
  of an unlabelled frame that begin like a label are not.
\<close>

theorem bridge_payload_exact:
  "ValidateBridgePayload ft p = Inr f \<longleftrightarrow> EncodeBridgeFrame f = Inr p \<and> bridge_ok ft f"
  by (rule ValidateBridgePayload_encodes)

text \<open>
  The restriction on unlabelled foreign messages is real: a sender that labels nothing can produce the
  octets of any labelled payload, and the receiver then takes the label's effect instead of the
  fail-safe \<open>BridgeEffectDestructive\<close>, and shortens the foreign message.
\<close>

lemma bridge_label_ambiguity:
  assumes "EncodeBridgePayload env (Some s) foreign = Inr p"
    and "bridgeFrameKind ft = Some (bKind env)" and "bCorrelationID env = [] \<longleftrightarrow> ft = FrameBridgeNotify"
  obtains foreign' where "EncodeBridgePayload env None foreign' = Inr p"
    and "DecodeBridgeFrame ft p = Inr \<lparr>bEnvelope = env, bSafety = Some s, bForeign = foreign\<rparr>"
    and "foreign' \<noteq> foreign"
proof -
  obtain ev sv where ev: "encodeEnvelopeValue env = Inr ev" and sv: "encodeSafetyValue s = Inr sv"
    and p: "p = tlv_Encode \<lparr>tType = TLVBridgeEnvelope, tValue = ev\<rparr> @ tlv_Encode \<lparr>tType = TLVSafetyLabel, tValue = sv\<rparr> @ foreign"
    using assms(1) by (auto simp: EncodeBridgePayload_def EncodeBridgeFrame_iff)
  let ?foreign = "tlv_Encode \<lparr>tType = TLVSafetyLabel, tValue = sv\<rparr> @ foreign"
  have "EncodeBridgePayload env None ?foreign = Inr p"
    using ev p by (simp add: EncodeBridgePayload_def EncodeBridgeFrame_iff)
  moreover have "DecodeBridgeFrame ft p = Inr \<lparr>bEnvelope = env, bSafety = Some s, bForeign = foreign\<rparr>"
    using assms by (simp add: DecodeBridgeFrame_def ValidateBridgePayload_encodes EncodeBridgePayload_def bridge_ok_def)
  moreover have "?foreign \<noteq> foreign" by (simp add: tlv_Encode_def put_uN_eval)
  ultimately show ?thesis by (rule that)
qed

lemma bridge_frames: "IsBridgeFrame ft \<longleftrightarrow> ft \<in> dom bridgeFrameKind"
proof -
  have "FrameBridgeRequest \<le> ft \<and> ft \<le> FrameBridgeStreamEnd \<longleftrightarrow>
      ft \<in> set (map (of_nat :: nat \<Rightarrow> frame_type) [unat FrameBridgeRequest..<Suc (unat FrameBridgeStreamEnd)])"
    by (rule frame_range)
  then show ?thesis
    by (auto simp: IsBridgeFrame_def bridgeFrameKind_def upt_rec split: if_splits)
qed

end
