(* ===== verification/ChannelBodies.thy ===== *)
theory ChannelBodies
  imports MemoryBodies StreamBodies TelemetryBodies CommerceBodies ImmuneBodies CapabilityBodies
    SettlementBodies InteractionBodies KnowledgeBodies WorkflowBodies BridgeBodies
begin

text \<open>
  The bodies of the channels together. Every validator meets the contract \<open>channel_body\<close>, so what
  the contract implies holds of all ten; the codecs built on them invert each other.
\<close>

section \<open>The validators and the codecs\<close>

definition bodyValidators :: "((frame_type \<Rightarrow> bytes \<Rightarrow> body_err + body_map) \<times> body_sentinel) set" where
  "bodyValidators =
    {(ValidateMemoryPayload, ErrMemoryMalformed), (ValidateStreamPayload, ErrStreamMalformed),
     (ValidateTelemetryPayload, ErrTelemetryMalformed), (ValidateCommercePayload, ErrCommerceMalformed),
     (ValidateImmunePayload, ErrImmuneMalformed), (ValidateCapabilityPayload, ErrCapMalformed),
     (ValidateSettlementPayload, ErrSettlementMalformed), (ValidateInteractionPayload, ErrInteractionMalformed),
     (ValidateKnowledgePayload, ErrKnowledgeMalformed), (ValidateWorkflowPayload, ErrWorkflowMalformed)}"

lemma bodyValidators_contract: "(V, s) \<in> bodyValidators \<Longrightarrow> \<exists>ok. channel_body V s ok"
  unfolding bodyValidators_def
  using mem.channel_body_axioms stm.channel_body_axioms tlm.channel_body_axioms com.channel_body_axioms
    imm.channel_body_axioms cap.channel_body_axioms stl.channel_body_axioms itr.channel_body_axioms
    knw.channel_body_axioms wfl.channel_body_axioms
  by blast

lemma cbor_ok_uint_keys:
  assumes "cbor_ok d (GMapC m)" and "keys_ok m"
  shows "cborMap_keys m \<in> lists (range GUint)"
proof -
  obtain xs where m: "m = map (\<lambda>(k, v). (encodeHead 0 k, GUint k, v)) xs" by (rule uint_entries [OF assms])
  have "cborMap_keys m = map (\<lambda>(k, v). GUint k) xs"
    unfolding m cborMap_keys_def by (induction xs) auto
  then show ?thesis by (auto simp: case_prod_unfold)
qed

section \<open>Properties\<close>

text \<open>
  Claim C30 (well-typed bodies). Every validator, on every frame type and payload: what it accepts is a
  canonical encoding of the map it returns, whose keys are all unsigned and whose \<open>frame_kind\<close> is that
  frame type, and the same octets are refused for every other frame type; and every refusal, whichever
  check it comes from, wraps the malformed-request sentinel of the validator's own channel.
\<close>

theorem bodies_well_typed:
  assumes "(V, s) \<in> bodyValidators"
  shows "case V ft p of
      Inl e \<Rightarrow> fst e = s
    | Inr m \<Rightarrow> p = EncodeCanonicalCBOR (GMapC m) \<and> cborMap_get m 0 = Some (GUint (ucast ft))
        \<and> cborMap_keys m \<in> lists (range GUint) \<and> (\<forall>ft'. ft' \<noteq> ft \<longrightarrow> (\<exists>f. V ft' p = Inl (s, f)))"
proof -
  obtain ok where cb: "channel_body V s ok" using bodyValidators_contract [OF assms] ..
  show ?thesis
  proof (cases "V ft p")
    case (Inl e)
    then show ?thesis using channel_body.refuses [OF cb Inl] by simp
  next
    case (Inr m)
    then have a: "cborDecodeTop p = Inr (GMapC m)" "cborMap_get m 0 = Some (GUint (ucast ft))" "keys_ok m"
      by (simp_all add: channel_body.accepts [OF cb])
    have "\<exists>f. V ft' p = Inl (s, f)" if "ft' \<noteq> ft" for ft'
    proof (cases "V ft' p")
      case (Inl e)
      then have "fst e = s" by (rule channel_body.refuses [OF cb])
      then show ?thesis using Inl by (cases e) auto
    next
      case (Inr m')
      then show ?thesis using channel_body.one_frame_type [OF cb \<open>V ft p = Inr m\<close> Inr] that by simp
    qed
    moreover have "cborMap_keys m \<in> lists (range GUint)"
      using a(1,3) by (intro cbor_ok_uint_keys [of cborMaxNestingDepth]) (simp_all add: cborDecodeTop_iff)
    ultimately show ?thesis using a channel_body.canonical [OF cb Inr] Inr by simp
  qed
qed

text \<open>The \<open>Encode*Body\<close> and \<open>Decode*Body\<close> pairs, with what each channel demands of a body.\<close>

definition bodyCodecs :: "(((u64 \<times> goval) list \<Rightarrow> bytes)
    \<times> (frame_type \<Rightarrow> bytes \<Rightarrow> body_err + (u64 \<times> goval) list) \<times> (frame_type \<Rightarrow> body_map \<Rightarrow> bool)) set" where
  "bodyCodecs =
    {(EncodeMemoryBody, DecodeMemoryBody, memory_body_ok),
     (EncodeTelemetryBody, DecodeTelemetryBody, telemetry_body_ok),
     (EncodeCommerceBody, DecodeCommerceBody, commerce_body_ok),
     (EncodeImmuneBody, DecodeImmuneBody, immune_body_ok),
     (EncodeCapabilityBody, DecodeCapabilityBody, capability_body_ok),
     (EncodeSettlementBody, DecodeSettlementBody, settlement_body_ok),
     (EncodeInteractionBody, DecodeInteractionBody, interaction_body_ok),
     (EncodeKnowledgeBody, DecodeKnowledgeBody, knowledge_body_ok),
     (EncodeWorkflowBody, DecodeWorkflowBody, workflow_body_ok)}"

lemmas encode_body_defs = EncodeMemoryBody_def EncodeTelemetryBody_def EncodeCommerceBody_def EncodeImmuneBody_def
  EncodeCapabilityBody_def EncodeSettlementBody_def EncodeInteractionBody_def EncodeKnowledgeBody_def EncodeWorkflowBody_def

lemmas decode_body_defs = DecodeMemoryBody_def DecodeTelemetryBody_def DecodeCommerceBody_def DecodeImmuneBody_def
  DecodeCapabilityBody_def DecodeSettlementBody_def DecodeInteractionBody_def DecodeKnowledgeBody_def DecodeWorkflowBody_def

lemma bodyCodecs_contract:
  assumes "(enc, dec, ok) \<in> bodyCodecs"
  obtains V s where "channel_body V s ok" and "enc = (\<lambda>flds. cborEncode (GMapU flds))"
    and "dec = (\<lambda>ft body. rbind (V ft body) (bodyFields s))"
proof -
  have "\<exists>V s. channel_body V s ok \<and> enc = (\<lambda>flds. cborEncode (GMapU flds))
      \<and> dec = (\<lambda>ft body. rbind (V ft body) (bodyFields s))"
    using assms mem.channel_body_axioms tlm.channel_body_axioms com.channel_body_axioms
      imm.channel_body_axioms cap.channel_body_axioms stl.channel_body_axioms itr.channel_body_axioms
      knw.channel_body_axioms wfl.channel_body_axioms
    unfolding bodyCodecs_def encode_body_defs [abs_def] decode_body_defs [abs_def] by blast
  then show ?thesis using that by blast
qed

text \<open>
  Claim C31 (body round trip). On the nine channels with map bodies, what \<open>Encode*Body\<close> produces from
  fields that carry the frame kind and meet the channel's rules is decoded by \<open>Decode*Body\<close> to the same
  fields, in the form in which the codec gives values back. In the other direction, whatever \<open>Decode*Body\<close>
  returns for a payload has at every key the converted value that the payload carries there, and
  encoding it again gives back the payload exactly when every key of every map nested in the payload
  is unsigned: entries of nested maps with other keys, which validation lets through, are lost.
\<close>

theorem body_roundtrip:
  assumes "(enc, dec, ok) \<in> bodyCodecs"
  shows "(encodable cborMaxNestingDepth (GMapU flds) \<longrightarrow> map_of flds 0 = Some (GUint (ucast ft)) \<longrightarrow> ok ft (wireFields flds) \<longrightarrow>
       dec ft (enc flds) = Inr (sort_key fst (map (\<lambda>(k, v). (k, goForm v)) flds)))
    \<and> (\<forall>p out. dec ft p = Inr out \<longrightarrow>
        (\<exists>m. cborDecodeTop p = Inr (GMapC m) \<and> (\<forall>k. map_of out k = map_option cborToGo (cborMap_get m k))
           \<and> (enc out = p \<longleftrightarrow> uintKeyed (GMapC m))))"
proof -
  obtain V s where cb: "channel_body V s ok" and enc: "enc = (\<lambda>flds. cborEncode (GMapU flds))"
    and dec: "dec = (\<lambda>ft body. rbind (V ft body) (bodyFields s))"
    by (rule bodyCodecs_contract [OF assms(1)])
  have "dec ft (enc flds) = Inr (sort_key fst (map (\<lambda>(k, v). (k, goForm v)) flds))"
    if "encodable cborMaxNestingDepth (GMapU flds)" "map_of flds 0 = Some (GUint (ucast ft))" "ok ft (wireFields flds)"
    using channel_body.encode_validates [OF cb that(1) _ that(3)] that(2) by (simp add: enc dec)
  moreover have "\<exists>m. cborDecodeTop p = Inr (GMapC m) \<and> (\<forall>k. map_of out k = map_option cborToGo (cborMap_get m k))
      \<and> (enc out = p \<longleftrightarrow> uintKeyed (GMapC m))"
    if d: "dec ft p = Inr out" for p out
  proof -
    obtain m where m: "V ft p = Inr m" and out: "bodyFields s m = Inr out" using d by (auto simp: dec)
    then have p: "cborDecodeTop p = Inr (GMapC m)" by (simp add: channel_body.accepts [OF cb])
    have "cborToGo (GMapC m) = GMapU out" using out by (simp add: bodyFields_def del: cborToGo.simps(1) split: goval.splits)
    with p cborToGo_lossless [of "GMapC m"] have "enc out = p \<longleftrightarrow> uintKeyed (GMapC m)" by (auto simp: enc cborDecodeTop_iff)
    moreover obtain out' where "bodyFields s m = Inr out'" and "\<And>k. map_of out' k = map_option cborToGo (cborMap_get m k)"
      using channel_body.fields_exact [OF cb m] by blast
    ultimately show ?thesis using p out by auto
  qed
  ultimately show ?thesis by blast
qed

definition demo_read_fields :: "(u64 \<times> goval) list" where
  "demo_read_fields = [(3, GInt 0), (0, GUint 0x0102), (1, GBytes [7]), (2, GString [0x6d])]"

lemma demo_read_body:
  "encodable cborMaxNestingDepth (GMapU demo_read_fields)"
  "memory_body_ok FrameMemoryReadReq (wireFields demo_read_fields)"
proof -
  show e: "encodable cborMaxNestingDepth (GMapU demo_read_fields)"
    by (simp add: cborMaxNestingDepth_def encodable_numeral demo_read_fields_def)
  have g: "cborMap_get (wireFields demo_read_fields) k = map_option wireForm (map_of demo_read_fields k)" for k
    unfolding wireFields_def by (rule wireForm_fields [OF e])
  have "memorySchemas FrameMemoryReadReq = Some [(2, kText, True), (3, kUint, True)]"
    by (simp add: memorySchemas_def)
  then show "memory_body_ok FrameMemoryReadReq (wireFields demo_read_fields)"
    using wireForm_fields(3) [OF e]
    by (simp add: memory_body_ok_def corr_ok_def schemaOk_def fields_ok_def field_ok_def g wireFields_def [symmetric])
      (simp add: demo_read_fields_def matchesKind_def intForm_def)
qed

lemma demo_read_valid: "ValidateMemoryPayload FrameMemoryReadReq (EncodeMemoryBody demo_read_fields) = Inr (wireFields demo_read_fields)"
  unfolding EncodeMemoryBody_def
  by (rule mem.encode_validates) (simp_all add: demo_read_body, simp add: demo_read_fields_def)

theorem body_roundtrip_witness:
  "DecodeMemoryBody FrameMemoryReadReq (EncodeMemoryBody demo_read_fields)
     = Inr [(0, GUint 0x0102), (1, GBytes [7]), (2, GString [0x6d]), (3, GUint 0)]
   \<and> EncodeMemoryBody [(0, GUint 0x0102), (1, GBytes [7]), (2, GString [0x6d]), (3, GUint 0)] = EncodeMemoryBody demo_read_fields"
proof -
  let ?p = "EncodeMemoryBody demo_read_fields"
  have c: "(EncodeMemoryBody, DecodeMemoryBody, memory_body_ok) \<in> bodyCodecs" by (simp add: bodyCodecs_def)
  have "map_of demo_read_fields 0 = Some (GUint (ucast FrameMemoryReadReq))"
    by (simp add: demo_read_fields_def)
  then have d: "DecodeMemoryBody FrameMemoryReadReq ?p = Inr [(0, GUint 0x0102), (1, GBytes [7]), (2, GString [0x6d]), (3, GUint 0)]"
    using body_roundtrip [OF c, where flds = demo_read_fields and ft = FrameMemoryReadReq]
      demo_read_body by (simp add: demo_read_fields_def intForm_def word_le_nat_alt)
  have "cborDecodeTop ?p = Inr (GMapC (wireFields demo_read_fields))" using demo_read_valid by (simp only: mem.accepts)
  moreover have "uintKeyed (GMapC (wireFields demo_read_fields))"
    using wireForm_uintKeyed [OF demo_read_body(1)] unfolding wireForm.simps wireFields_def .
  ultimately show ?thesis
    using d body_roundtrip [OF c, where flds = demo_read_fields and ft = FrameMemoryReadReq] by fastforce
qed

theorem bodies_well_typed_witness:
  "(\<exists>m. ValidateMemoryPayload FrameMemoryReadReq (EncodeMemoryBody demo_read_fields) = Inr m
     \<and> cborMap_keys m \<in> lists (range GUint)
     \<and> (\<exists>f. ValidateMemoryPayload FrameMemoryDeleteReq (EncodeMemoryBody demo_read_fields) = Inl (ErrMemoryMalformed, f)))
   \<and> (\<exists>e. ValidateCommercePayload FrameCommerceIntentProposeReq [] = Inl e \<and> fst e = ErrCommerceMalformed)"
proof -
  let ?p = "EncodeMemoryBody demo_read_fields" and ?m = "wireFields demo_read_fields"
  note v = demo_read_valid
  have m: "(ValidateMemoryPayload, ErrMemoryMalformed) \<in> bodyValidators" by (simp add: bodyValidators_def)
  have n: "FrameMemoryDeleteReq \<noteq> FrameMemoryReadReq" by simp
  from bodies_well_typed [OF m, where ft = FrameMemoryReadReq and p = ?p] n
  have 1: "cborMap_keys ?m \<in> lists (range GUint) \<and> (\<exists>f. ValidateMemoryPayload FrameMemoryDeleteReq ?p = Inl (ErrMemoryMalformed, f))"
    unfolding v sum.case by blast
  have "(ValidateCommercePayload, ErrCommerceMalformed) \<in> bodyValidators" by (simp add: bodyValidators_def)
  from bodies_well_typed [OF this, where ft = FrameCommerceIntentProposeReq and p = "[]"]
  have 2: "\<exists>e. ValidateCommercePayload FrameCommerceIntentProposeReq [] = Inl e \<and> fst e = ErrCommerceMalformed"
    by (cases "ValidateCommercePayload FrameCommerceIntentProposeReq []") (auto simp: com.accepts cborDecodeTop_iff encodeHead_def split: if_splits)
  from v 1 2 show ?thesis by blast
qed

text \<open>
  Claim C32 (settlement legs). \<open>ValidateCommercePayload\<close> accepts a proposed intent exactly when it is a
  canonical map with the frame kind and a correlation id, whose parties are text strings, whose legs
  each carry a well-formed amount from one of these parties to one of them, and whose other fields
  have their types.
\<close>

theorem commerce_intent_exact:
  "ValidateCommercePayload FrameCommerceIntentProposeReq p = Inr m \<longleftrightarrow>
    cborDecodeTop p = Inr (GMapC m) \<and> cborMap_get m 0 = Some (GUint 0x0108) \<and> keys_ok m \<and> corr_ok m
    \<and> (\<exists>parties legs. cborMap_get m 2 = Some (GArr (map GString parties)) \<and> cborMap_get m 3 = Some (GArr legs)
         \<and> list_all (leg_ok (set parties)) legs)
    \<and> field_ok m (4, kText, False) \<and> field_ok m (5, kMap, False) \<and> field_ok m (6, kText, False)
    \<and> field_ok m (7, kUint, True)"
proof -
  have s: "commerceSchemas FrameCommerceIntentProposeReq = Some
      [(2, kArray, True), (3, kArray, True), (4, kText, False), (5, kMap, False), (6, kText, False), (7, kUint, True)]"
    by (simp add: commerceSchemas_def)
  have arr: "field_ok m (k, kArray, True) \<longleftrightarrow> (\<exists>xs. cborMap_get m k = Some (GArr xs))" for k
    by (auto simp: field_ok_def matchesKind_def split: option.splits goval.splits)
  have n: "FrameCommerceIntentProposeReq \<noteq> FrameCommerceMandateCreateReq"
    "(ucast FrameCommerceIntentProposeReq :: u64) = 0x0108"
    by simp_all
  have "commerce_body_ok FrameCommerceIntentProposeReq m \<and> keys_ok m \<longleftrightarrow> keys_ok m \<and> corr_ok m
      \<and> (\<exists>parties legs. cborMap_get m 2 = Some (GArr (map GString parties)) \<and> cborMap_get m 3 = Some (GArr legs)
         \<and> list_all (leg_ok (set parties)) legs)
      \<and> field_ok m (4, kText, False) \<and> field_ok m (5, kMap, False) \<and> field_ok m (6, kText, False)
      \<and> field_ok m (7, kUint, True)"
    unfolding commerce_body_ok_def schemaOk_def s using n(1)
    by (auto simp: fields_ok_def arr intent_ok_def arrayAt_def)
  then show ?thesis unfolding com.accepts n(2) by blast
qed

text \<open>
  Telemetry reports. \<open>ValidateTelemetryPayload\<close> accepts a report exactly when it is a
  canonical map with the frame kind and a batch number, carries a correlation id and a subscription id
  together or neither, every metric, event and health entry meets its schema, and at least one of the
  three arrays has an entry.
\<close>

theorem telemetry_report_exact:
  "ValidateTelemetryPayload FrameTelemetryReport p = Inr m \<longleftrightarrow>
    cborDecodeTop p = Inr (GMapC m) \<and> cborMap_get m 0 = Some (GUint 0x0100) \<and> keys_ok m
    \<and> (cborMap_get m 1 = None \<and> cborMap_get m 2 = None
       \<or> corr_ok m \<and> (\<exists>sub. cborMap_get m 2 = Some (GBytes sub)))
    \<and> (\<exists>n. cborMap_get m 3 = Some (GUint n))
    \<and> tel_array_ok m 4 metricSchema \<and> tel_array_ok m 5 eventSchema \<and> tel_array_ok m 6 healthSchema
    \<and> (carries m 4 \<or> carries m 5 \<or> carries m 6)"
proof -
  have "IsTelemetryFrame FrameTelemetryReport" "(ucast FrameTelemetryReport :: u64) = 0x0100"
    by (simp_all add: IsTelemetryFrame_def)
  then show ?thesis
    unfolding tlm.accepts telemetry_body_ok_def report_ok_def subscription_ok_def by simp
qed

text \<open>
  Frame type predicates. On each channel the predicate on frame types holds exactly of the
  types that the validator has a schema for, and a request is always one of them.
\<close>

theorem body_frame_types:
  "(IsMemoryFrame ft \<longleftrightarrow> ft \<in> dom memorySchemas) \<and> (IsMemoryRequest ft \<longrightarrow> IsMemoryFrame ft)
   \<and> (IsStreamFrame ft \<longleftrightarrow> ft \<in> dom streamSchemas)
   \<and> (IsCommerceFrame ft \<longleftrightarrow> ft \<in> dom commerceSchemas) \<and> (IsCommerceRequest ft \<longrightarrow> IsCommerceFrame ft)
   \<and> (IsImmuneFrame ft \<longleftrightarrow> ft \<in> dom immuneSchemas) \<and> (IsImmuneRequest ft \<longrightarrow> IsImmuneFrame ft)
   \<and> (IsCapabilityFrame ft \<longleftrightarrow> ft \<in> dom capabilitySchemas) \<and> (IsCapabilityRequest ft \<longrightarrow> IsCapabilityFrame ft)
   \<and> (IsSettlementFrame ft \<longleftrightarrow> ft \<in> dom settlementSchemas) \<and> (IsSettlementRequest ft \<longrightarrow> IsSettlementFrame ft)
   \<and> (IsInteractionFrame ft \<longleftrightarrow> ft \<in> dom interactionSchemas) \<and> (IsInteractionRequest ft \<longrightarrow> IsInteractionFrame ft)
   \<and> (IsKnowledgeFrame ft \<longleftrightarrow> ft \<in> dom knowledgeSchemas) \<and> (IsKnowledgeRequest ft \<longrightarrow> IsKnowledgeFrame ft)
   \<and> (IsWorkflowFrame ft \<longleftrightarrow> ft \<in> dom workflowSchemas) \<and> (IsWorkflowRequest ft \<longrightarrow> IsWorkflowFrame ft)
   \<and> (IsBridgeFrame ft \<longleftrightarrow> ft \<in> dom bridgeFrameKind)"
  by (simp add: memory_frames stream_frames commerce_frames immune_frames capability_frames settlement_frames
    interaction_frames knowledge_frames workflow_frames bridge_frames memory_requests commerce_requests
    immune_requests capability_requests settlement_requests interaction_requests knowledge_requests
    workflow_requests)

end
