(* ===== verification/ProxyCarriage.thy ===== *)
theory ProxyCarriage
  imports KeySchedule BridgeBodies
begin

text \<open>
  The carriage codecs of the proxy: \<^verbatim>\<open>carriage_stream.go\<close>, \<^verbatim>\<open>carriage_grpc.go\<close>,
  \<^verbatim>\<open>carriage_opaque.go\<close> and \<^verbatim>\<open>carriage_http.go\<close> under \<^verbatim>\<open>src/impl/go/proxy\<close>. Each puts a message of a
  foreign protocol into the foreign part of a Bridge payload: stream events behind a StreamControl TLV,
  gRPC messages behind a length prefix, opaque octets with a media type, HTTP messages as a CBOR map.
\<close>

section \<open>Model\<close>

text \<open>What can be wrong with a carried message, one constructor per return of an error.\<close>

datatype carriage_err =
    StreamShort | StreamType | StreamOverrun | StreamLength | StreamVersion | StreamSelector | StreamOrder
  | GRPCShort | GRPCFlag | GRPCLength
  | OpaqueEmpty | OpaqueNUL | OpaqueSyntax | OpaqueOverrun | OpaqueBoth | OpaqueMissing | OpaqueUnknown
  | HttpBadCBOR cbor_err | HttpNotMap | HttpNoKind | HttpKindType | HttpKindMismatch | HttpNoMethod
  | HttpNoTarget | HttpStrayStatus | HttpNoStatus | HttpBadStatus | HttpStrayMethod | HttpStrayTarget
  | HttpUnsupportedKind | HttpHeaders | HttpEntry | HttpEntryName | HttpEntryValue | HttpPseudo | HttpBody
  | CarriageBridge bridge_err

subsection \<open>Streams\<close>

definition TLVStreamControl :: tlv_type where "TLVStreamControl = 0x0011"

abbreviation streamControlData :: byte where "streamControlData \<equiv> 0x00"
abbreviation streamControlResume :: byte where "streamControlResume \<equiv> 0x01"
abbreviation streamControlCancel :: byte where "streamControlCancel \<equiv> 0x02"
abbreviation streamFlagResumable :: byte where "streamFlagResumable \<equiv> 0x01"
abbreviation streamFlagCancelAck :: byte where "streamFlagCancelAck \<equiv> 0x02"
abbreviation streamControlVersion :: byte where "streamControlVersion \<equiv> 0x01"
abbreviation BridgeErrNotResumable :: byte where "BridgeErrNotResumable \<equiv> 6"

record streamControl =
  scControl :: byte
  scFlags :: byte
  scEventID :: u64

definition sc_Resumable :: "streamControl \<Rightarrow> bool" where
  "sc_Resumable s = (scFlags s AND streamFlagResumable \<noteq> 0)"

definition sc_CancelAck :: "streamControl \<Rightarrow> bool" where
  "sc_CancelAck s = (scFlags s AND streamFlagCancelAck \<noteq> 0)"

definition encodeStreamControlValue :: "streamControl \<Rightarrow> bytes" where
  "encodeStreamControlValue sc = [streamControlVersion, scControl sc, scFlags sc] @ put_u64 (scEventID sc)"

definition decodeLeadingStreamControl :: "bytes \<Rightarrow> carriage_err + streamControl \<times> bytes" where
  "decodeLeadingStreamControl buf =
    (if length buf < 4 then Inl StreamShort
     else let typ = get_u16 (gslice 0 2 buf); ln = unat (get_u16 (gslice 2 4 buf)) in
       if typ \<noteq> TLVStreamControl then Inl StreamType
       else if length buf < 4 + ln then Inl StreamOverrun
       else let v = gslice 4 (4 + ln) buf in
         if length v \<noteq> 11 then Inl StreamLength
         else if v ! 0 \<noteq> streamControlVersion then Inl StreamVersion
         else if v ! 1 \<noteq> streamControlData \<and> v ! 1 \<noteq> streamControlResume \<and> v ! 1 \<noteq> streamControlCancel then Inl StreamSelector
         else Inr (\<lparr>scControl = v ! 1, scFlags = v ! 2, scEventID = get_u64 (gslice 3 11 v)\<rparr>, drop (4 + ln) buf))"

definition encodeStreamFrame :: "BridgeEnvelope \<Rightarrow> streamControl \<Rightarrow> bytes \<Rightarrow> bridge_err + bytes" where
  "encodeStreamFrame env sc event =
    EncodeBridgePayload env None
      (tlv_Encode \<lparr>tType = TLVStreamControl, tValue = encodeStreamControlValue sc\<rparr> @ event)"

record streamEventTracker =
  trStarted :: bool
  trLast :: u64

definition newTracker :: streamEventTracker where
  "newTracker = \<lparr>trStarted = False, trLast = 0\<rparr>"

definition tracker_accept :: "streamEventTracker \<Rightarrow> u64 \<Rightarrow> carriage_err + streamEventTracker" where
  "tracker_accept t eid =
    (if trStarted t \<and> eid \<le> trLast t then Inl StreamOrder else Inr (t\<lparr>trStarted := True, trLast := eid\<rparr>))"

subsection \<open>gRPC messages\<close>

definition encodeGRPCLengthPrefixedMessage :: "bool \<Rightarrow> bytes \<Rightarrow> bytes" where
  "encodeGRPCLengthPrefixedMessage compressed msg =
    (if compressed then 1 else 0) # put_u32 (of_nat (length msg)) @ msg"

definition decodeGRPCLengthPrefixedMessage :: "bytes \<Rightarrow> carriage_err + bool \<times> bytes" where
  "decodeGRPCLengthPrefixedMessage buf =
    (if length buf < 5 then Inl GRPCShort
     else let flag = buf ! 0 in
       if flag > 1 then Inl GRPCFlag
       else let ln = get_u32 (gslice 1 5 buf) in
         if of_nat (length buf - 5) \<noteq> ln then Inl GRPCLength
         else Inr (flag = 1, drop 5 buf))"

subsection \<open>Opaque octets\<close>

abbreviation BridgeContentJSON :: byte where "BridgeContentJSON \<equiv> 0x01"
abbreviation BridgeContentCBOR :: byte where "BridgeContentCBOR \<equiv> 0x02"
abbreviation BridgeContentGRPCProto :: byte where "BridgeContentGRPCProto \<equiv> 0x03"

definition opaqueContentTypeTLV :: tlv_type where "opaqueContentTypeTLV = 0x0012"
definition opaqueContentTypeDiscriminator :: byte where "opaqueContentTypeDiscriminator = 0x04"

definition contentTypeToMediaType :: "byte \<Rightarrow> bytes option" where
  "contentTypeToMediaType ct =
    (if ct = BridgeContentJSON then Some (str ''application/json'')
     else if ct = BridgeContentCBOR then Some (str ''application/cbor'')
     else if ct = BridgeContentGRPCProto then Some (str ''application/grpc+proto'')
     else None)"

definition mediaTypeToContentType :: "bytes \<Rightarrow> byte option" where
  "mediaTypeToContentType mediaType =
    (if mediaType = str ''application/json'' then Some BridgeContentJSON
     else if mediaType = str ''application/cbor'' then Some BridgeContentCBOR
     else if mediaType = str ''application/grpc+proto'' then Some BridgeContentGRPCProto
     else None)"

definition isTchar :: "byte \<Rightarrow> bool" where
  "isTchar c \<longleftrightarrow> 0x61 \<le> c \<and> c \<le> 0x7A \<or> 0x41 \<le> c \<and> c \<le> 0x5A \<or> 0x30 \<le> c \<and> c \<le> 0x39
    \<or> c \<in> set [0x21, 0x23, 0x24, 0x25, 0x26, 0x27, 0x2A, 0x2B, 0x2D, 0x2E, 0x5E, 0x5F, 0x60, 0x7C, 0x7E]"

definition isToken :: "bytes \<Rightarrow> bool" where
  "isToken s \<longleftrightarrow> s \<noteq> [] \<and> list_all isTchar s"

text \<open>\<open>strings.IndexByte\<close>.\<close>

fun indexByte :: "bytes \<Rightarrow> byte \<Rightarrow> nat option" where
  "indexByte [] c = None"
| "indexByte (x # xs) c = (if x = c then Some 0 else map_option Suc (indexByte xs c))"

definition validMediaTypeSyntax :: "bytes \<Rightarrow> bool" where
  "validMediaTypeSyntax s =
    (if s = [] then False
     else let head = (case indexByte s 0x3B of Some i \<Rightarrow> take i s | None \<Rightarrow> s) in
       case indexByte head 0x2F of
         None \<Rightarrow> False
       | Some slash \<Rightarrow>
           if slash = 0 \<or> slash = length head - 1 then False
           else isToken (take slash head) \<and> isToken (drop (slash + 1) head))"

definition encodeOpaquePayload :: "BridgeEnvelope \<Rightarrow> bytes \<Rightarrow> bytes \<Rightarrow> carriage_err + bytes" where
  "encodeOpaquePayload env mediaType raw =
    (case mediaTypeToContentType mediaType of
       Some ct \<Rightarrow> map_err CarriageBridge (EncodeBridgePayload (env\<lparr>bContentType := ct\<rparr>) None raw)
     | None \<Rightarrow>
         if mediaType = [] then Inl OpaqueEmpty
         else if indexByte mediaType 0 \<noteq> None then Inl OpaqueNUL
         else if \<not> validMediaTypeSyntax mediaType then Inl OpaqueSyntax
         else
           rbind (map_err CarriageBridge (EncodeBridgePayload (env\<lparr>bContentType := opaqueContentTypeDiscriminator\<rparr>) None [])) (\<lambda>envelopeOnly.
           Inr (envelopeOnly @ tlv_Encode \<lparr>tType = opaqueContentTypeTLV, tValue = mediaType\<rparr> @ raw)))"

definition peekLeadingTLV :: "bytes \<Rightarrow> tlv_type \<Rightarrow> carriage_err + (bytes option \<times> bytes)" where
  "peekLeadingTLV buf want =
    (if length buf < 4 then Inr (None, buf)
     else if get_u16 (gslice 0 2 buf) \<noteq> want then Inr (None, buf)
     else let ln = unat (get_u16 (gslice 2 4 buf)) in
       if length buf < 4 + ln then Inl OpaqueOverrun
       else Inr (Some (gslice 4 (4 + ln) buf), drop (4 + ln) buf))"

definition decodeOpaquePayload :: "BridgeEnvelope \<Rightarrow> bytes \<Rightarrow> carriage_err + bytes \<times> bytes" where
  "decodeOpaquePayload env foreign =
    rbind (peekLeadingTLV foreign opaqueContentTypeTLV) (\<lambda>(tlvValue, rest).
    let isDiscriminator = (bContentType env = opaqueContentTypeDiscriminator) in
    case tlvValue of
      Some mt \<Rightarrow>
        if \<not> isDiscriminator then Inl OpaqueBoth
        else if length mt = 0 then Inl OpaqueEmpty
        else if indexByte mt 0 \<noteq> None then Inl OpaqueNUL
        else if \<not> validMediaTypeSyntax mt then Inl OpaqueSyntax
        else Inr (mt, rest)
    | None \<Rightarrow>
        if isDiscriminator then Inl OpaqueMissing
        else (case contentTypeToMediaType (bContentType env) of
                None \<Rightarrow> Inl OpaqueUnknown
              | Some mt \<Rightarrow> Inr (mt, foreign)))"

subsection \<open>HTTP messages\<close>

text \<open>\<open>http.Header\<close> is a map from names to lists of values, here an association list with distinct names.\<close>

type_synonym http_header = "(bytes \<times> bytes list) list"

type_synonym headerKV = "bytes \<times> bytes"

abbreviation httpKindRequest :: u64 where "httpKindRequest \<equiv> 1"
abbreviation httpKindResponse :: u64 where "httpKindResponse \<equiv> 2"

record httpCarriageObject =
  hoKind :: u64
  hoMethod :: bytes
  hoTarget :: bytes
  hoStatus :: int
  hoHeaders :: "headerKV list"
  hoBody :: bytes

definition lowerASCII :: "byte \<Rightarrow> byte" where
  "lowerASCII c = (if 0x41 \<le> c \<and> c \<le> 0x5A then c + (0x61 - 0x41) else c)"

definition toLowerASCII :: "bytes \<Rightarrow> bytes" where
  "toLowerASCII s = map lowerASCII s"

definition encodeHTTPHeaders :: "http_header \<Rightarrow> headerKV list" where
  "encodeHTTPHeaders h =
    concat (map (\<lambda>k. map (\<lambda>v. (toLowerASCII k, v)) (case map_of h k of None \<Rightarrow> [] | Some vs \<Rightarrow> vs)) (sort (map fst h)))"

definition isPseudoHeader :: "bytes \<Rightarrow> bool" where
  "isPseudoHeader name \<longleftrightarrow> name \<in> set (map str ['':method'', '':scheme'', '':authority'', '':path'', '':status''])"

definition headersToCBOR :: "headerKV list \<Rightarrow> goval list" where
  "headersToCBOR hdrs = map (\<lambda>(n, v). GArr [GString n, GBytes v]) hdrs"

definition httpTail :: "http_header \<Rightarrow> bytes \<Rightarrow> (u64 \<times> goval) list" where
  "httpTail h body =
    (let hdrs = encodeHTTPHeaders h in if length hdrs > 0 then [(8, GArr (headersToCBOR hdrs))] else [])
    @ (if length body > 0 then [(9, GBytes body)] else [])"

definition encodeHTTPCarriageRequest :: "bytes \<Rightarrow> bytes \<Rightarrow> http_header \<Rightarrow> bytes \<Rightarrow> bytes" where
  "encodeHTTPCarriageRequest method target h body =
    EncodeCanonicalCBOR (GMapU ([(1, GUint httpKindRequest), (2, GString method), (3, GString target)] @ httpTail h body))"

definition encodeHTTPCarriageResponse :: "int \<Rightarrow> http_header \<Rightarrow> bytes \<Rightarrow> bytes" where
  "encodeHTTPCarriageResponse status h body =
    EncodeCanonicalCBOR (GMapU ([(1, GUint httpKindResponse), (6, GUint (of_int status))] @ httpTail h body))"

fun decodeHeaderEntries :: "goval list \<Rightarrow> carriage_err + headerKV list" where
  "decodeHeaderEntries [] = Inr []"
| "decodeHeaderEntries (entryRaw # arr) =
    (case entryRaw of
       GArr entry \<Rightarrow>
         if length entry \<noteq> 2 then Inl HttpEntry
         else (case entry ! 0 of
                 GString name \<Rightarrow>
                   (case entry ! 1 of
                      GBytes val \<Rightarrow> rbind (decodeHeaderEntries arr) (\<lambda>out. Inr ((name, val) # out))
                    | _ \<Rightarrow> Inl HttpEntryValue)
               | _ \<Rightarrow> Inl HttpEntryName)
     | _ \<Rightarrow> Inl HttpEntry)"

definition decodeHeaderList :: "goval \<Rightarrow> carriage_err + headerKV list" where
  "decodeHeaderList raw = (case raw of GArr arr \<Rightarrow> decodeHeaderEntries arr | _ \<Rightarrow> Inl HttpHeaders)"

text \<open>The two cases of the \<open>switch kind\<close>, and what follows it for both kinds.\<close>

definition goString :: "goval option \<Rightarrow> bytes option" where
  "goString v = (case v of Some (GString s) \<Rightarrow> Some s | _ \<Rightarrow> None)"

definition decodeHTTPRequest :: "(u64 \<times> goval) list \<Rightarrow> httpCarriageObject \<Rightarrow> carriage_err + httpCarriageObject" where
  "decodeHTTPRequest m obj =
    (case goString (map_of m 2) of
       None \<Rightarrow> Inl HttpNoMethod
     | Some method \<Rightarrow>
         if method = [] then Inl HttpNoMethod
         else (case goString (map_of m 3) of
                 None \<Rightarrow> Inl HttpNoTarget
               | Some target \<Rightarrow>
                   if target = [] then Inl HttpNoTarget
                   else if map_of m 6 \<noteq> None then Inl HttpStrayStatus
                   else Inr (obj\<lparr>hoMethod := method, hoTarget := target\<rparr>)))"

definition decodeHTTPResponse :: "(u64 \<times> goval) list \<Rightarrow> httpCarriageObject \<Rightarrow> carriage_err + httpCarriageObject" where
  "decodeHTTPResponse m obj =
    (case map_of m 6 of
       None \<Rightarrow> Inl HttpNoStatus
     | Some (GUint statusU) \<Rightarrow>
         if statusU < 100 \<or> statusU > 599 then Inl HttpBadStatus
         else if map_of m 2 \<noteq> None then Inl HttpStrayMethod
         else if map_of m 3 \<noteq> None then Inl HttpStrayTarget
         else Inr (obj\<lparr>hoStatus := sint statusU\<rparr>)
     | Some _ \<Rightarrow> Inl HttpBadStatus)"

definition decodeHTTPTail :: "(u64 \<times> goval) list \<Rightarrow> httpCarriageObject \<Rightarrow> carriage_err + httpCarriageObject" where
  "decodeHTTPTail m obj =
    rbind (case map_of m 8 of
             None \<Rightarrow> Inr obj
           | Some hdrsRaw \<Rightarrow>
               rbind (decodeHeaderList hdrsRaw) (\<lambda>hdrs.
               if list_ex (\<lambda>kv. isPseudoHeader (fst kv)) hdrs then Inl HttpPseudo else Inr (obj\<lparr>hoHeaders := hdrs\<rparr>))) (\<lambda>obj.
    case map_of m 9 of
      None \<Rightarrow> Inr obj
    | Some (GBytes body) \<Rightarrow> Inr (obj\<lparr>hoBody := body\<rparr>)
    | Some _ \<Rightarrow> Inl HttpBody)"

definition emptyObject :: "u64 \<Rightarrow> httpCarriageObject" where
  "emptyObject kind = \<lparr>hoKind = kind, hoMethod = [], hoTarget = [], hoStatus = 0, hoHeaders = [], hoBody = []\<rparr>"

definition decodeHTTPCarriageObject :: "bytes \<Rightarrow> u64 \<Rightarrow> carriage_err + httpCarriageObject" where
  "decodeHTTPCarriageObject foreign wantKind =
    (case DecodeCanonicalCBOR foreign of
       Inl e \<Rightarrow> Inl (HttpBadCBOR e)
     | Inr (GMapU m) \<Rightarrow>
         (case map_of m 1 of
            None \<Rightarrow> Inl HttpNoKind
          | Some (GUint kind) \<Rightarrow>
              if kind \<noteq> wantKind then Inl HttpKindMismatch
              else
                rbind (if kind = httpKindRequest then decodeHTTPRequest m (emptyObject kind)
                       else if kind = httpKindResponse then decodeHTTPResponse m (emptyObject kind)
                       else Inl HttpUnsupportedKind) (\<lambda>obj.
                decodeHTTPTail m obj)
          | Some _ \<Rightarrow> Inl HttpKindType)
     | Inr _ \<Rightarrow> Inl HttpNotMap)"

text \<open>
  \<open>textproto.CanonicalMIMEHeaderKey\<close>: a name made of token characters gets its first letter and every
  letter after a dash in upper case and the others in lower case; any other name is left as it is.
\<close>

fun canonicalMIME :: "bool \<Rightarrow> bytes \<Rightarrow> bytes" where
  "canonicalMIME upper [] = []"
| "canonicalMIME upper (c # cs) =
    (let c' = (if upper \<and> 0x61 \<le> c \<and> c \<le> 0x7A then c - 0x20
               else if \<not> upper \<and> 0x41 \<le> c \<and> c \<le> 0x5A then c + 0x20 else c) in
     c' # canonicalMIME (c' = 0x2D) cs)"

definition CanonicalMIMEHeaderKey :: "bytes \<Rightarrow> bytes" where
  "CanonicalMIMEHeaderKey s = (if list_all isTchar s then canonicalMIME True s else s)"

definition header_Add :: "http_header \<Rightarrow> bytes \<Rightarrow> bytes \<Rightarrow> http_header" where
  "header_Add h name value =
    (let key = CanonicalMIMEHeaderKey name in
     AList.update key ((case map_of h key of None \<Rightarrow> [] | Some vs \<Rightarrow> vs) @ [value]) h)"

definition toHTTPHeader :: "headerKV list \<Rightarrow> http_header" where
  "toHTTPHeader hdrs = foldl (\<lambda>h kv. header_Add h (fst kv) (snd kv)) [] hdrs"

section \<open>Stream control and gRPC messages\<close>

lemma length_eq_11: "length v = 11 \<longleftrightarrow> (\<exists>a b c w. v = a # b # c # w \<and> length w = 8)"
  by (auto simp: numeral_eq_Suc length_Suc_conv)

lemma decodeLeadingStreamControl_iff:
  "decodeLeadingStreamControl buf = Inr (sc, event) \<longleftrightarrow>
    scControl sc \<in> {streamControlData, streamControlResume, streamControlCancel}
    \<and> buf = tlv_Encode \<lparr>tType = TLVStreamControl, tValue = encodeStreamControlValue sc\<rparr> @ event"
proof -
  have val: "length v = 11 \<and> v ! 0 = streamControlVersion \<and> v ! 1 \<in> {streamControlData, streamControlResume, streamControlCancel}
        \<and> sc = \<lparr>scControl = v ! 1, scFlags = v ! 2, scEventID = get_u64 (gslice 3 11 v)\<rparr>
      \<longleftrightarrow> scControl sc \<in> {streamControlData, streamControlResume, streamControlCancel} \<and> v = encodeStreamControlValue sc" for v
  proof (cases "length v = 11")
    case True
    then obtain a b c w where "v = a # b # c # w" "length w = 8" by (auto simp: length_eq_11)
    then show ?thesis
      by (cases sc) (auto simp: encodeStreamControlValue_def gslice_def put_get_uN)
  qed (auto simp: encodeStreamControlValue_def)
  have "decodeLeadingStreamControl buf = Inr (sc, event) \<longleftrightarrow>
      (\<exists>v. (length v = 11 \<and> v ! 0 = streamControlVersion \<and> v ! 1 \<in> {streamControlData, streamControlResume, streamControlCancel}
          \<and> sc = \<lparr>scControl = v ! 1, scFlags = v ! 2, scEventID = get_u64 (gslice 3 11 v)\<rparr>)
        \<and> (4 \<le> length buf \<and> get_u16 (gslice 0 2 buf) = TLVStreamControl \<and> 4 + unat (get_u16 (gslice 2 4 buf)) \<le> length buf
          \<and> v = gslice 4 (4 + unat (get_u16 (gslice 2 4 buf))) buf \<and> event = drop (4 + unat (get_u16 (gslice 2 4 buf))) buf))"
    unfolding decodeLeadingStreamControl_def Let_def by (simp only: not_less [symmetric]) (auto split: if_splits)
  then show ?thesis
    unfolding val tlv_front by (auto simp: encodeStreamControlValue_def)
qed

lemma decodeGRPC_iff:
  "decodeGRPCLengthPrefixedMessage buf = Inr (compressed, msg) \<longleftrightarrow> buf = encodeGRPCLengthPrefixedMessage compressed msg"
proof
  assume dec: "decodeGRPCLengthPrefixedMessage buf = Inr (compressed, msg)"
  then have "5 \<le> length buf" by (auto simp: decodeGRPCLengthPrefixedMessage_def split: if_splits)
  then obtain f a b c d w where buf: "buf = f # a # b # c # d # w" by (auto simp: numeral_eq_Suc Suc_le_length_iff)
  have f: "f = 0 \<or> f = 1" if "\<not> 1 < f"
    using that by (auto simp: not_less word_le_nat_alt word_unat_eq_iff)
  show "buf = encodeGRPCLengthPrefixedMessage compressed msg"
    using dec f by (auto simp: decodeGRPCLengthPrefixedMessage_def encodeGRPCLengthPrefixedMessage_def buf Let_def gslice_def
        put_get_uN numeral_eq_Suc split: if_splits)
next
  assume "buf = encodeGRPCLengthPrefixedMessage compressed msg"
  then show "decodeGRPCLengthPrefixedMessage buf = Inr (compressed, msg)"
    by (auto simp: decodeGRPCLengthPrefixedMessage_def encodeGRPCLengthPrefixedMessage_def Let_def gslice_def numeral_eq_Suc)
qed

section \<open>Opaque octets\<close>

definition opaque_like :: "bytes \<Rightarrow> bool" where
  "opaque_like b \<longleftrightarrow> 4 \<le> length b \<and> get_u16 (gslice 0 2 b) = opaqueContentTypeTLV"

lemma peekLeadingTLV_Some:
  "peekLeadingTLV buf want = Inr (Some v, r) \<longleftrightarrow> length v < 2 ^ 16 \<and> buf = tlv_Encode \<lparr>tType = want, tValue = v\<rparr> @ r"
proof -
  have "peekLeadingTLV buf want = Inr (Some v, r) \<longleftrightarrow>
      (4 \<le> length buf \<and> get_u16 (gslice 0 2 buf) = want \<and> 4 + unat (get_u16 (gslice 2 4 buf)) \<le> length buf
        \<and> v = gslice 4 (4 + unat (get_u16 (gslice 2 4 buf))) buf \<and> r = drop (4 + unat (get_u16 (gslice 2 4 buf))) buf)"
    by (auto simp: peekLeadingTLV_def Let_def)
  then show ?thesis by (simp only: tlv_front)
qed

lemma peekLeadingTLV_None:
  "peekLeadingTLV buf opaqueContentTypeTLV = Inr (None, r) \<longleftrightarrow> r = buf \<and> \<not> opaque_like buf"
  by (auto simp: peekLeadingTLV_def opaque_like_def Let_def)

lemma mediaType_inverse: "mediaTypeToContentType mt = Some ct \<Longrightarrow> contentTypeToMediaType ct = Some mt"
  by (auto simp: mediaTypeToContentType_def contentTypeToMediaType_def split: if_splits)

lemma mediaType_not_discriminator: "mediaTypeToContentType mt = Some ct \<Longrightarrow> ct \<noteq> opaqueContentTypeDiscriminator"
  by (auto simp: mediaTypeToContentType_def opaqueContentTypeDiscriminator_def split: if_splits)

lemma decodeOpaquePayload_enumerated:
  assumes "mediaTypeToContentType mt = Some (bContentType env)"
  shows "decodeOpaquePayload env foreign = Inr (mt, raw) \<longleftrightarrow> foreign = raw \<and> \<not> opaque_like raw"
  using mediaType_inverse [OF assms] mediaType_not_discriminator [OF assms]
  by (auto simp: decodeOpaquePayload_def peekLeadingTLV_None Let_def split: option.splits)

lemma decodeOpaquePayload_declared:
  assumes "bContentType env = opaqueContentTypeDiscriminator"
  shows "decodeOpaquePayload env foreign = Inr (mt, raw) \<longleftrightarrow>
    mt \<noteq> [] \<and> indexByte mt 0 = None \<and> validMediaTypeSyntax mt \<and> length mt < 2 ^ 16
    \<and> foreign = tlv_Encode \<lparr>tType = opaqueContentTypeTLV, tValue = mt\<rparr> @ raw"
proof -
  have "decodeOpaquePayload env foreign = Inr (mt, raw) \<longleftrightarrow>
      peekLeadingTLV foreign opaqueContentTypeTLV = Inr (Some mt, raw) \<and> mt \<noteq> [] \<and> indexByte mt 0 = None \<and> validMediaTypeSyntax mt"
    using assms by (cases "peekLeadingTLV foreign opaqueContentTypeTLV")
      (auto simp: decodeOpaquePayload_def Let_def split: option.splits if_splits)
  then show ?thesis by (auto simp only: peekLeadingTLV_Some)
qed

lemma not_label_like_opaque: "\<not> label_like (tlv_Encode \<lparr>tType = opaqueContentTypeTLV, tValue = mt\<rparr> @ raw)"
  by (simp add: label_like_def tlv_Encode_def put_uN_eval gslice_def get_u16_def get_be_def opaqueContentTypeTLV_def TLVSafetyLabel_def)

section \<open>HTTP messages\<close>

lemma decodeHeaderEntries_headersToCBOR: "decodeHeaderEntries (headersToCBOR hdrs) = Inr hdrs"
  by (induction hdrs) (auto simp: headersToCBOR_def)

lemma goForm_headersToCBOR: "map goForm (headersToCBOR hdrs) = headersToCBOR hdrs"
  by (auto simp: headersToCBOR_def)

definition header_size_ok :: "headerKV list \<Rightarrow> bool" where
  "header_size_ok hdrs \<longleftrightarrow> length hdrs < 2 ^ 64 \<and> list_all (\<lambda>(n, v). length n < 2 ^ 64 \<and> length v < 2 ^ 64) hdrs"

lemma encodable_headers: "header_size_ok hdrs \<Longrightarrow> encodable 7 (GArr (headersToCBOR hdrs))"
  by (auto simp: headersToCBOR_def header_size_ok_def encodable_numeral list_all_iff)

lemmas http_decode_defs = decodeHTTPCarriageObject_def decodeHTTPRequest_def decodeHTTPResponse_def decodeHTTPTail_def
  decodeHeaderList_def emptyObject_def goString_def decodeHeaderEntries_headersToCBOR

lemma http_request_roundtrip:
  assumes "method \<noteq> []" "target \<noteq> []" "length method < 2 ^ 64" "length target < 2 ^ 64" "length body < 2 ^ 64"
    and "header_size_ok (encodeHTTPHeaders h)" "\<not> list_ex (\<lambda>kv. isPseudoHeader (fst kv)) (encodeHTTPHeaders h)"
  shows "decodeHTTPCarriageObject (encodeHTTPCarriageRequest method target h body) httpKindRequest =
    Inr \<lparr>hoKind = httpKindRequest, hoMethod = method, hoTarget = target, hoStatus = 0, hoHeaders = encodeHTTPHeaders h, hoBody = body\<rparr>"
proof -
  let ?m = "[(1, GUint httpKindRequest), (2, GString method), (3, GString target)] @ httpTail h body"
  have "encodable 8 (GMapU ?m)"
    using assms encodable_headers by (cases "encodeHTTPHeaders h = []"; cases "body = []") (simp_all add: encodable_numeral httpTail_def)
  moreover have "goForm (GMapU ?m) = GMapU ?m"
    by (cases "encodeHTTPHeaders h = []"; cases "body = []") (simp_all add: httpTail_def goForm_headersToCBOR sort_key_id_if_sorted)
  ultimately have "DecodeCanonicalCBOR (encodeHTTPCarriageRequest method target h body) = Inr (GMapU ?m)"
    using DecodeCanonicalCBOR_Encode [of "GMapU ?m"] by (simp add: encodeHTTPCarriageRequest_def cborMaxNestingDepth_def)
  then show ?thesis using assms
    by (cases "encodeHTTPHeaders h = []"; cases "body = []") (simp_all add: http_decode_defs httpTail_def)
qed

lemma http_response_roundtrip:
  assumes "100 \<le> status" "status \<le> 599" "length body < 2 ^ 64"
    and "header_size_ok (encodeHTTPHeaders h)" "\<not> list_ex (\<lambda>kv. isPseudoHeader (fst kv)) (encodeHTTPHeaders h)"
  shows "decodeHTTPCarriageObject (encodeHTTPCarriageResponse status h body) httpKindResponse =
    Inr \<lparr>hoKind = httpKindResponse, hoMethod = [], hoTarget = [], hoStatus = status, hoHeaders = encodeHTTPHeaders h, hoBody = body\<rparr>"
proof -
  let ?m = "[(1, GUint httpKindResponse), (6, GUint (of_int status))] @ httpTail h body"
  have "encodable 8 (GMapU ?m)"
    using assms encodable_headers by (cases "encodeHTTPHeaders h = []"; cases "body = []") (simp_all add: encodable_numeral httpTail_def)
  moreover have "goForm (GMapU ?m) = GMapU ?m"
    by (cases "encodeHTTPHeaders h = []"; cases "body = []") (simp_all add: httpTail_def goForm_headersToCBOR sort_key_id_if_sorted)
  ultimately have d: "DecodeCanonicalCBOR (encodeHTTPCarriageResponse status h body) = Inr (GMapU ?m)"
    using DecodeCanonicalCBOR_Encode [of "GMapU ?m"] by (simp add: encodeHTTPCarriageResponse_def cborMaxNestingDepth_def)
  have "uint (of_int status :: u64) = status"
    using assms(1,2) by (simp add: unsigned_of_int take_bit_int_eq_self_iff)
  then have "\<not> (of_int status :: u64) < 100" "\<not> 599 < (of_int status :: u64)"
    using assms(1,2) by (simp_all add: word_less_def)
  moreover have "sint (of_int status :: u64) = status"
    using assms(1,2) by (simp add: signed_of_int signed_take_bit_int_eq_self_iff)
  ultimately show ?thesis using assms d
    by (cases "encodeHTTPHeaders h = []"; cases "body = []") (simp_all add: http_decode_defs httpTail_def del: of_int_less_iff)
qed

subsection \<open>Header names\<close>

lemma canonicalMIME_lower: "canonicalMIME u (toLowerASCII xs) = canonicalMIME u xs"
proof (induction xs arbitrary: u)
  case (Cons c cs)
  have "lowerASCII c - 0x20 = c" "0x61 \<le> lowerASCII c" "lowerASCII c \<le> 0x7A" "\<not> 0x61 \<le> c"
      "lowerASCII c = c + 0x20" "\<not> lowerASCII c \<le> 0x5A" if "0x41 \<le> c" "c \<le> 0x5A"
    using that by (auto simp: lowerASCII_def word_le_nat_alt unat_word_ariths)
  moreover have "lowerASCII c = c" if "\<not> (0x41 \<le> c \<and> c \<le> 0x5A)"
    using that by (simp add: lowerASCII_def)
  ultimately have "(if u \<and> 0x61 \<le> lowerASCII c \<and> lowerASCII c \<le> 0x7A then lowerASCII c - 0x20
        else if \<not> u \<and> 0x41 \<le> lowerASCII c \<and> lowerASCII c \<le> 0x5A then lowerASCII c + 0x20 else lowerASCII c)
      = (if u \<and> 0x61 \<le> c \<and> c \<le> 0x7A then c - 0x20
        else if \<not> u \<and> 0x41 \<le> c \<and> c \<le> 0x5A then c + 0x20 else c)"
    by (cases "0x41 \<le> c \<and> c \<le> 0x5A") auto
  then show ?case using Cons.IH by (simp add: toLowerASCII_def Let_def)
qed (simp add: toLowerASCII_def)

lemma isTchar_lower: "isTchar c \<Longrightarrow> isTchar (lowerASCII c)"
  by (auto simp: lowerASCII_def isTchar_def word_le_nat_alt unat_word_ariths)

definition canonical_name :: "bytes \<Rightarrow> bool" where
  "canonical_name k \<longleftrightarrow> list_all isTchar k \<and> CanonicalMIMEHeaderKey k = k"

lemma canonical_lower: "canonical_name k \<Longrightarrow> CanonicalMIMEHeaderKey (toLowerASCII k) = k"
  using canonicalMIME_lower [of True k] isTchar_lower
  by (auto simp: canonical_name_def CanonicalMIMEHeaderKey_def toLowerASCII_def list_all_iff split: if_splits)

definition values_of :: "bytes \<Rightarrow> headerKV list \<Rightarrow> bytes list" where
  "values_of k hdrs = map snd (filter (\<lambda>kv. CanonicalMIMEHeaderKey (fst kv) = k) hdrs)"

lemma toHTTPHeader_lookup: "map_of (toHTTPHeader hdrs) k = (if values_of k hdrs = [] then None else Some (values_of k hdrs))"
proof (induction hdrs rule: rev_induct)
  case (snoc kv hdrs)
  have "toHTTPHeader (hdrs @ [kv]) = header_Add (toHTTPHeader hdrs) (fst kv) (snd kv)" by (simp add: toHTTPHeader_def)
  then show ?case using snoc.IH
    by (auto simp: header_Add_def Let_def update_conv' values_of_def)
qed (simp add: toHTTPHeader_def values_of_def)

lemma values_of_entry: "values_of k (map (\<lambda>v. (n, v)) vs) = (if CanonicalMIMEHeaderKey n = k then vs else [])"
  by (induction vs) (auto simp: values_of_def)

lemma values_of_concat: "values_of k (concat (map f ks)) = concat (map (\<lambda>k'. values_of k (f k')) ks)"
  by (induction ks) (simp_all add: values_of_def)

lemma concat_single: "distinct ks \<Longrightarrow> k \<in> set ks \<Longrightarrow> (\<And>k'. k' \<noteq> k \<Longrightarrow> k' \<in> set ks \<Longrightarrow> f k' = []) \<Longrightarrow> concat (map f ks) = f k"
proof (induction ks)
  case (Cons a ks)
  show ?case
  proof (cases "a = k")
    case True
    have "f k' = []" if "k' \<in> set ks" for k' using that Cons.prems True by (metis distinct.simps(2) list.set_intros(2))
    then have "concat (map f ks) = []" by simp
    with True show ?thesis by simp
  qed (use Cons in auto)
qed simp

text \<open>Names that are canonical, as the server of \<^verbatim>\<open>net/http\<close> produces them, come back with their values in order.\<close>

lemma header_roundtrip:
  assumes "distinct (map fst h)" and "list_all (\<lambda>(k, vs). canonical_name k \<and> vs \<noteq> []) h"
  shows "map_of (toHTTPHeader (encodeHTTPHeaders h)) = map_of h"
proof
  fix k
  let ?f = "\<lambda>k'. map (\<lambda>v. (toLowerASCII k', v)) (case map_of h k' of None \<Rightarrow> [] | Some vs \<Rightarrow> vs)"
  have can: "CanonicalMIMEHeaderKey (toLowerASCII k') = k'" if "k' \<in> fst ` set h" for k'
    using that assms(2) canonical_lower by (auto simp: list_all_iff)
  have f: "values_of k (?f k') = (if k' = k then case map_of h k of None \<Rightarrow> [] | Some vs \<Rightarrow> vs else [])" if "k' \<in> fst ` set h" for k'
    using can [OF that] by (simp add: values_of_entry)
  have v: "values_of k (encodeHTTPHeaders h) = (case map_of h k of None \<Rightarrow> [] | Some vs \<Rightarrow> vs)"
  proof (cases "k \<in> fst ` set h")
    case True
    then have "concat (map (\<lambda>k'. values_of k (?f k')) (sort (map fst h))) = values_of k (?f k)"
      using f assms(1) by (intro concat_single) auto
    then show ?thesis using f [OF True] by (simp add: encodeHTTPHeaders_def values_of_concat)
  next
    case False
    then have n: "map_of h k = None" by (simp add: map_of_eq_None_iff)
    have "values_of k (?f k') = []" if "k' \<in> set (sort (map fst h))" for k'
      using f [of k'] that n by (simp only: set_sort set_map option.case if_cancel)
    then have "concat (map (\<lambda>k'. values_of k (?f k')) (sort (map fst h))) = []" by (simp only: concat_eq_Nil_conv set_map) blast
    then show ?thesis using n by (simp add: encodeHTTPHeaders_def values_of_concat)
  qed
  have "map_of h k \<noteq> Some []" using assms(2) by (auto simp: list_all_iff dest!: map_of_SomeD)
  with v show "map_of (toHTTPHeader (encodeHTTPHeaders h)) k = map_of h k"
    by (auto simp: toHTTPHeader_lookup split: option.splits)
qed

subsection \<open>Payloads\<close>

lemma ValidateBridgePayload_front:
  assumes "length ev < 2 ^ 16"
  shows "ValidateBridgePayload ft (tlv_Encode \<lparr>tType = TLVBridgeEnvelope, tValue = ev\<rparr> @ r) = Inr f \<longleftrightarrow>
    bridgeFrameKind ft = Some (bKind (bEnvelope f)) \<and> decodeEnvelopeValue ev = Inr (bEnvelope f)
    \<and> checkBridgeCorr ft (bEnvelope f) = Inr () \<and> splitSafety r = Inr (bSafety f, bForeign f)"
proof -
  let ?p = "tlv_Encode \<lparr>tType = TLVBridgeEnvelope, tValue = ev\<rparr> @ r"
  from tlv_front [of ?p TLVBridgeEnvelope ev r] assms
  have "4 \<le> length ?p \<and> get_u16 (gslice 0 2 ?p) = TLVBridgeEnvelope \<and> 4 + unat (get_u16 (gslice 2 4 ?p)) \<le> length ?p
      \<and> ev = gslice 4 (4 + unat (get_u16 (gslice 2 4 ?p))) ?p \<and> r = drop (4 + unat (get_u16 (gslice 2 4 ?p))) ?p" by blast
  then show ?thesis unfolding ValidateBridgePayload_iff by metis
qed

lemma splitSafety_whole: "(\<exists>s. splitSafety raw = Inr (s, raw)) \<longleftrightarrow> \<not> label_like raw"
proof -
  have "splitSafety raw \<noteq> Inr (Some s, raw)" for s
    by (auto simp: splitSafety_Some tlv_Encode_def put_uN_eval)
  then show ?thesis by (metis option.exhaust splitSafety_None)
qed

section \<open>Properties\<close>

text \<open>
  Claim C34 (opaque carriage is verbatim). A payload that \<open>encodeOpaquePayload\<close> builds for a media type
  of less than \<open>2^16\<close> octets is decoded by the receiver to the same media type and the same octets,
  unless the media type is one of the three that the envelope enumerates and the octets themselves
  begin like a SafetyLabel or an OpaqueContentType TLV. With a declared media type every octet string
  is carried.
\<close>

theorem opaque_verbatim:
  assumes "bridgeFrameKind ft = Some (bKind env)" and "bCorrelationID env = [] \<longleftrightarrow> ft = FrameBridgeNotify"
    and "length mediaType < 2 ^ 16" and "encodeOpaquePayload env mediaType raw = Inr wire"
  shows "(\<exists>f. DecodeBridgeFrame ft wire = Inr f \<and> decodeOpaquePayload (bEnvelope f) (bForeign f) = Inr (mediaType, raw))
    \<longleftrightarrow> mediaTypeToContentType mediaType = None \<or> \<not> label_like raw \<and> \<not> opaque_like raw"
proof (cases "mediaTypeToContentType mediaType")
  case (Some ct)
  let ?env = "env\<lparr>bContentType := ct\<rparr>"
  have w: "EncodeBridgeFrame \<lparr>bEnvelope = ?env, bSafety = None, bForeign = raw\<rparr> = Inr wire"
    using assms(4) Some by (simp add: encodeOpaquePayload_def EncodeBridgePayload_def)
  then obtain ev where ev: "decodeEnvelopeValue ev = Inr ?env" "length ev < 2 ^ 16"
      and wire: "wire = tlv_Encode \<lparr>tType = TLVBridgeEnvelope, tValue = ev\<rparr> @ raw"
    using encodeEnvelopeValue_size by (auto simp: EncodeBridgeFrame_iff envelope_value)
  have "DecodeBridgeFrame ft wire = Inr f \<and> decodeOpaquePayload (bEnvelope f) (bForeign f) = Inr (mediaType, raw)
      \<longleftrightarrow> bEnvelope f = ?env \<and> splitSafety raw = Inr (bSafety f, bForeign f) \<and> bForeign f = raw \<and> \<not> opaque_like raw" for f
  proof (cases "bEnvelope f = ?env")
    case True
    then show ?thesis
      using assms(1,2) Some ev decodeOpaquePayload_enumerated [of mediaType ?env "bForeign f" raw]
      by (simp add: DecodeBridgeFrame_def wire ValidateBridgePayload_front [OF ev(2)] ev(1) checkBridgeCorr_ok)
  qed (auto simp: DecodeBridgeFrame_def wire ValidateBridgePayload_front [OF ev(2)] ev(1))
  then have "(\<exists>f. DecodeBridgeFrame ft wire = Inr f \<and> decodeOpaquePayload (bEnvelope f) (bForeign f) = Inr (mediaType, raw))
      \<longleftrightarrow> (\<exists>f :: BridgeFrame. bEnvelope f = ?env \<and> splitSafety raw = Inr (bSafety f, bForeign f) \<and> bForeign f = raw \<and> \<not> opaque_like raw)"
    by simp
  also have "\<dots> \<longleftrightarrow> (\<exists>s. splitSafety raw = Inr (s, raw)) \<and> \<not> opaque_like raw"
    by (metis BridgeFrame.select_convs)
  finally show ?thesis using Some by (simp add: splitSafety_whole)
next
  case None
  let ?env = "env\<lparr>bContentType := opaqueContentTypeDiscriminator\<rparr>"
  let ?foreign = "tlv_Encode \<lparr>tType = opaqueContentTypeTLV, tValue = mediaType\<rparr> @ raw"
  have v: "mediaType \<noteq> []" "indexByte mediaType 0 = None" "validMediaTypeSyntax mediaType"
    using assms(4) None by (auto simp: encodeOpaquePayload_def split: if_splits)
  have "EncodeBridgeFrame \<lparr>bEnvelope = ?env, bSafety = None, bForeign = ?foreign\<rparr> = Inr wire"
    using assms(4) None v by (auto simp: encodeOpaquePayload_def EncodeBridgePayload_def EncodeBridgeFrame_iff)
  then have "DecodeBridgeFrame ft wire = Inr \<lparr>bEnvelope = ?env, bSafety = None, bForeign = ?foreign\<rparr>"
    using assms(1,2) not_label_like_opaque by (simp add: DecodeBridgeFrame_def ValidateBridgePayload_encodes bridge_ok_def)
  moreover have "decodeOpaquePayload ?env ?foreign = Inr (mediaType, raw)"
    using v assms(3) by (simp add: decodeOpaquePayload_declared)
  ultimately show ?thesis using None by auto
qed

definition demoEnvelope :: BridgeEnvelope where
  "demoEnvelope = \<lparr>bProtocol = 0x80, bKind = BridgeKindRequest, bContentType = 0, bFlags = 0, bCorrelationID = [1], bMethod = []\<rparr>"

theorem opaque_verbatim_witness:
  "\<exists>wire f. encodeOpaquePayload demoEnvelope (str ''text/plain'') [0x00, 0x13, 0x00, 0x00] = Inr wire
    \<and> DecodeBridgeFrame FrameBridgeRequest wire = Inr f
    \<and> decodeOpaquePayload (bEnvelope f) (bForeign f) = Inr (str ''text/plain'', [0x00, 0x13, 0x00, 0x00])"
proof -
  have mt: "str ''text/plain'' = [0x74, 0x65, 0x78, 0x74, 0x2F, 0x70, 0x6C, 0x61, 0x69, 0x6E]" by (simp add: str_def)
  have n: "mediaTypeToContentType (str ''text/plain'') = None" by (simp add: mediaTypeToContentType_def str_def)
  have v: "indexByte (str ''text/plain'') 0 = None" "validMediaTypeSyntax (str ''text/plain'')" "str ''text/plain'' \<noteq> []"
    by (simp_all add: mt validMediaTypeSyntax_def isToken_def isTchar_def)
  obtain wire where w: "encodeOpaquePayload demoEnvelope (str ''text/plain'') [0x00, 0x13, 0x00, 0x00] = Inr wire"
    using n v by (simp add: encodeOpaquePayload_def EncodeBridgePayload_def EncodeBridgeFrame_def encodeEnvelopeValue_def demoEnvelope_def)
  have k: "bridgeFrameKind FrameBridgeRequest = Some (bKind demoEnvelope)" "bCorrelationID demoEnvelope = [] \<longleftrightarrow> FrameBridgeRequest = FrameBridgeNotify"
      "length (str ''text/plain'') < 2 ^ 16"
    by (simp_all add: bridgeFrameKind_def demoEnvelope_def str_def)
  from opaque_verbatim [OF k w] n w show ?thesis by blast
qed

end
