(* ===== verification/ShippedRegistries.thy ===== *)
theory ShippedRegistries
  imports WireValidator ChannelBodies ProxyCarriage
begin

text \<open>
  The registry files that the repository ships under \<^verbatim>\<open>src/registries\<close>, restricted to the columns
  that the loader of \<open>WireValidator\<close> reads, and what it loads from them.
\<close>

definition channels_csv :: "string list list" where
  "channels_csv =
    [[''channel_id'', ''name''], [''0x0000'', ''Control''], [''0x0001'', ''Memory''], [''0x0002'', ''Capability''], [''0x0003'', ''Identity''],
     [''0x0004'', ''Governance''], [''0x0005'', ''Immune''], [''0x0006'', ''Federation''], [''0x0007'', ''Settlement''],
     [''0x0008'', ''Compliance''], [''0x0009'', ''Sensory''], [''0x000A'', ''Telemetry''], [''0x000B'', ''Audit''], [''0x000C'', ''Stream''],
     [''0x000D'', ''Bridge''], [''0x000E'', ''Commerce''], [''0x000F'', ''Interaction''], [''0x0010'', ''Discovery''], [''0x0011'', ''Workflow''],
     [''0x0012'', ''Knowledge''], [''0x0013'', ''Spatial'']]"

definition frame_types_reserved_csv :: "string list list" where
  "frame_types_reserved_csv =
    [[''frame_type'', ''name''], [''0x0000'', ''(reserved)''], [''0x0001'', ''PING''], [''0x0002'', ''PONG''], [''0x0003'', ''CLOSE''],
     [''0x0004'', ''CLOSE_ACK''], [''0x0005'', ''ERROR''], [''0x0006'', ''KEY_UPDATE''], [''0x0007'', ''KEY_UPDATE_ACK''],
     [''0x0008'', ''PATH_CHALLENGE''], [''0x0009'', ''PATH_RESPONSE''], [''0x000A'', ''FLOW_UPDATE''], [''0x0030-0x0034'', ''(reserved)''],
     [''0x0035-0x0036'', ''(reserved)''], [''0x0060-0x0063'', ''(reserved)''], [''0x0080-0x0080'', ''(reserved)''],
     [''0x0090-0x0090'', ''(reserved)''], [''0x00A0-0x00A3'', ''(reserved)''], [''0x00B0-0x00B4'', ''(reserved)''],
     [''0x00C0-0x00C4'', ''(reserved)''], [''0x0100'', ''CLIENT_HELLO''], [''0x0101'', ''SERVER_HELLO''], [''0x0102'', ''SERVER_AUTH''],
     [''0x0103'', ''CLIENT_AUTH''], [''0x0100-0xFFFF'', ''(channel-specific)'']]"

definition frame_types_channel_csv :: "string list list" where
  "frame_types_channel_csv =
    [[''channel_id'', ''frame_type'', ''name''], [''0x0000'', ''0x0100'', ''CLIENT_HELLO''], [''0x0000'', ''0x0101'', ''SERVER_HELLO''],
     [''0x0000'', ''0x0102'', ''SERVER_AUTH''], [''0x0000'', ''0x0103'', ''CLIENT_AUTH''], [''0x0000'', ''0x0104'', ''MASTER_RATCHET''],
     [''0x0000'', ''0x0105'', ''MASTER_RATCHET_ACK''], [''0x0000'', ''0x0106'', ''REKEM''], [''0x0000'', ''0x0107'', ''REKEM_ACK''],
     [''0x0001'', ''0x0035'', ''MEMORY_EVICT''], [''0x0001'', ''0x0036'', ''MEMORY_REVIVE''], [''0x0001'', ''0x0100'', ''MEMORY_CREATE_REQ''],
     [''0x0001'', ''0x0101'', ''MEMORY_CREATE_RESULT''], [''0x0001'', ''0x0102'', ''MEMORY_READ_REQ''],
     [''0x0001'', ''0x0103'', ''MEMORY_READ_RESULT''], [''0x0001'', ''0x0104'', ''MEMORY_UPDATE_REQ''],
     [''0x0001'', ''0x0105'', ''MEMORY_UPDATE_RESULT''], [''0x0001'', ''0x0106'', ''MEMORY_DELETE_REQ''],
     [''0x0001'', ''0x0107'', ''MEMORY_DELETE_RESULT''], [''0x0001'', ''0x0108'', ''MEMORY_RETRIEVE_REQ''],
     [''0x0001'', ''0x0109'', ''MEMORY_RETRIEVE_RESULT''], [''0x0001'', ''0x010A'', ''MEMORY_RETRIEVE_STREAM_DATA''],
     [''0x0001'', ''0x010B'', ''MEMORY_RETRIEVE_STREAM_END''], [''0x0001'', ''0x010C'', ''MEMORY_STATUS_REQ''],
     [''0x0001'', ''0x010D'', ''MEMORY_STATUS_RESULT''], [''0x0001'', ''0x010E'', ''MEMORY_ERROR''], [''0x0002'', ''0x0060'', ''CAP_TOKEN_PRESENT''],
     [''0x0002'', ''0x0061'', ''CAP_TOKEN_ACCEPT''], [''0x0002'', ''0x0062'', ''CAP_TOKEN_CHALLENGE''],
     [''0x0002'', ''0x0063'', ''CAP_TOKEN_PROOF''], [''0x0002'', ''0x0100'', ''CAP_ISSUE_REQ''], [''0x0002'', ''0x0101'', ''CAP_ISSUE_RESULT''],
     [''0x0002'', ''0x0102'', ''CAP_DELEGATE_REQ''], [''0x0002'', ''0x0103'', ''CAP_DELEGATE_RESULT''], [''0x0002'', ''0x0104'', ''CAP_REVOKE_REQ''],
     [''0x0002'', ''0x0105'', ''CAP_REVOKE_RESULT''], [''0x0002'', ''0x0106'', ''CAP_LOOKUP_REQ''], [''0x0002'', ''0x0107'', ''CAP_LOOKUP_RESULT''],
     [''0x0002'', ''0x0108'', ''CAP_ERROR''], [''0x0005'', ''0x00C0'', ''IMMUNE_GOSSIP_ADVERTISE''], [''0x0005'', ''0x00C1'', ''IMMUNE_GOSSIP_ACK''],
     [''0x0005'', ''0x00C2'', ''IMMUNE_GOSSIP_PULL_REQ''], [''0x0005'', ''0x00C3'', ''IMMUNE_GOSSIP_PULL_RESULT''],
     [''0x0005'', ''0x00C4'', ''IMMUNE_GOSSIP_RETRACT''], [''0x0005'', ''0x0100'', ''IMMUNE_REPORT_REQ''],
     [''0x0005'', ''0x0101'', ''IMMUNE_REPORT_RESULT''], [''0x0005'', ''0x0102'', ''IMMUNE_ERROR''],
     [''0x0007'', ''0x00A0'', ''SETTLE_BATCH_COMMIT_REQ''], [''0x0007'', ''0x00A1'', ''SETTLE_BATCH_COMMIT_RESULT''],
     [''0x0007'', ''0x0100'', ''SETTLE_INTENT_REQ''], [''0x0007'', ''0x0101'', ''SETTLE_INTENT_RESULT''], [''0x0007'', ''0x0102'', ''RECEIPT_REQ''],
     [''0x0007'', ''0x0103'', ''RECEIPT_RESULT''], [''0x0007'', ''0x0104'', ''SETTLE_ERROR''], [''0x000A'', ''0x0100'', ''TELEMETRY_REPORT''],
     [''0x000A'', ''0x0101'', ''TELEMETRY_SUBSCRIBE''], [''0x000A'', ''0x0102'', ''TELEMETRY_SUB_ACK''],
     [''0x000A'', ''0x0103'', ''TELEMETRY_UNSUBSCRIBE''], [''0x000A'', ''0x0104'', ''TELEMETRY_CREDIT''],
     [''0x000A'', ''0x0105'', ''TELEMETRY_ERROR''], [''0x000C'', ''0x0100'', ''STREAM_OPEN''], [''0x000C'', ''0x0101'', ''STREAM_DATA''],
     [''0x000C'', ''0x0102'', ''STREAM_CLOSE''], [''0x000C'', ''0x0103'', ''STREAM_RESET''], [''0x000C'', ''0x0104'', ''STREAM_WINDOW_UPDATE''],
     [''0x000D'', ''0x0100'', ''BRIDGE_REQUEST''], [''0x000D'', ''0x0101'', ''BRIDGE_RESPONSE''], [''0x000D'', ''0x0102'', ''BRIDGE_ERROR''],
     [''0x000D'', ''0x0103'', ''BRIDGE_NOTIFY''], [''0x000D'', ''0x0104'', ''BRIDGE_STREAM_DATA''], [''0x000D'', ''0x0105'', ''BRIDGE_STREAM_END''],
     [''0x000E'', ''0x0100'', ''COMMERCE_MANDATE_CREATE_REQ''], [''0x000E'', ''0x0101'', ''COMMERCE_MANDATE_CREATE_RESULT''],
     [''0x000E'', ''0x0102'', ''COMMERCE_MANDATE_READ_REQ''], [''0x000E'', ''0x0103'', ''COMMERCE_MANDATE_READ_RESULT''],
     [''0x000E'', ''0x0104'', ''COMMERCE_MANDATE_REVOKE_REQ''], [''0x000E'', ''0x0105'', ''COMMERCE_MANDATE_REVOKE_RESULT''],
     [''0x000E'', ''0x0106'', ''COMMERCE_MANDATE_STATUS_REQ''], [''0x000E'', ''0x0107'', ''COMMERCE_MANDATE_STATUS_RESULT''],
     [''0x000E'', ''0x0108'', ''COMMERCE_INTENT_PROPOSE_REQ''], [''0x000E'', ''0x0109'', ''COMMERCE_INTENT_PROPOSE_RESULT''],
     [''0x000E'', ''0x010A'', ''COMMERCE_INTENT_RESPOND_REQ''], [''0x000E'', ''0x010B'', ''COMMERCE_INTENT_RESPOND_RESULT''],
     [''0x000E'', ''0x010C'', ''COMMERCE_INTENT_STATUS_REQ''], [''0x000E'', ''0x010D'', ''COMMERCE_INTENT_STATUS_RESULT''],
     [''0x000E'', ''0x010E'', ''COMMERCE_ERROR''], [''0x000F'', ''0x0100'', ''INTERACT_EVENT''], [''0x000F'', ''0x0101'', ''INTERACT_EVENT_ACK''],
     [''0x000F'', ''0x0102'', ''INTERACT_PROMPT_REQ''], [''0x000F'', ''0x0103'', ''INTERACT_PROMPT_RESULT''],
     [''0x000F'', ''0x0104'', ''INTERACT_APPROVAL_REQ''], [''0x000F'', ''0x0105'', ''INTERACT_APPROVAL_RESULT''],
     [''0x000F'', ''0x0106'', ''INTERACT_CANCEL''], [''0x000F'', ''0x0107'', ''INTERACT_ERROR''], [''0x0011'', ''0x0100'', ''WORKFLOW_SUBMIT_REQ''],
     [''0x0011'', ''0x0101'', ''WORKFLOW_SUBMIT_RESULT''], [''0x0011'', ''0x0102'', ''WORKFLOW_STATUS_REQ''],
     [''0x0011'', ''0x0103'', ''WORKFLOW_STATUS_RESULT''], [''0x0011'', ''0x0104'', ''WORKFLOW_CANCEL_REQ''],
     [''0x0011'', ''0x0105'', ''WORKFLOW_CANCEL_RESULT''], [''0x0011'', ''0x0106'', ''WORKFLOW_STEP_EVENT''],
     [''0x0011'', ''0x0107'', ''WORKFLOW_COMPLETE''], [''0x0011'', ''0x0108'', ''WORKFLOW_ERROR''],
     [''0x0012'', ''0x0100'', ''KNOWLEDGE_QUERY_REQ''], [''0x0012'', ''0x0101'', ''KNOWLEDGE_QUERY_RESULT''],
     [''0x0012'', ''0x0102'', ''KNOWLEDGE_QUERY_STREAM_DATA''], [''0x0012'', ''0x0103'', ''KNOWLEDGE_QUERY_STREAM_END''],
     [''0x0012'', ''0x0104'', ''KNOWLEDGE_SUBSCRIBE_REQ''], [''0x0012'', ''0x0105'', ''KNOWLEDGE_SUBSCRIBE_ACK''],
     [''0x0012'', ''0x0106'', ''KNOWLEDGE_UPDATE''], [''0x0012'', ''0x0107'', ''KNOWLEDGE_CREDIT''],
     [''0x0012'', ''0x0108'', ''KNOWLEDGE_UNSUBSCRIBE''], [''0x0012'', ''0x0109'', ''KNOWLEDGE_ERROR'']]"

definition tlv_tags_csv :: "string list list" where
  "tlv_tags_csv =
    [[''tag'', ''name''], [''0x01'', ''ProfileOffer''], [''0x02'', ''ProfileSelect''], [''0x03'', ''KEMOffer''], [''0x04'', ''KEMSelect''],
     [''0x05'', ''SigOffer''], [''0x06'', ''SigSelect''], [''0x07'', ''KEMShare''], [''0x08'', ''KEMCiphertext''], [''0x09'', ''IdentityKey''],
     [''0x0A'', ''CertVerify''], [''0x0B'', ''Finished''], [''0x0C'', ''AEADOffer''], [''0x0D'', ''AEADSelect''], [''0x10'', ''(reserved)''],
     [''0x12'', ''OpaqueContentType''], [''0x13'', ''(reserved)''], [''0x14'', ''(reserved)''], [''0x15'', ''(reserved)''],
     [''0x16'', ''(reserved)''], [''0x17'', ''KeyUpdateMarker''], [''0x18'', ''ProtectionMode''], [''0x19'', ''RatchetGeneration''],
     [''0x8000-0xFFFF'', ''(reserved)'']]"

definition error_codes_csv :: "string list list" where
  "error_codes_csv =
    [[''code'', ''name''], [''0'', ''(reserved)''], [''1'', ''unexpected_message''], [''2'', ''decrypt_failed''], [''3'', ''replay_detected''],
     [''4'', ''unknown_channel''], [''5'', ''unknown_critical_tlv''], [''6'', ''handshake_timeout''], [''7'', ''downgrade_detected''],
     [''8'', ''close_incomplete''], [''9'', ''key_update_out_of_order''], [''10'', ''flow_control_error''], [''0x000B-0x00FF'', ''(reserved)'']]"

definition shippedFiles :: "string \<Rightarrow> csv_file" where
  "shippedFiles name =
    (if name = ''channels.csv'' then CsvRecords channels_csv False
     else if name = ''frame_types_reserved.csv'' then CsvRecords frame_types_reserved_csv False
     else if name = ''frame_types_channel.csv'' then CsvRecords frame_types_channel_csv False
     else if name = ''tlv_tags.csv'' then CsvRecords tlv_tags_csv False
     else if name = ''error_codes.csv'' then CsvRecords error_codes_csv False
     else CsvMissing)"

definition csv_rows :: "string list list \<Rightarrow> csv_row list" where
  "csv_rows recs = map (\<lambda>rec. rev (zip (hd recs) rec)) (tl recs)"

lemma code_points:
  "parseCodePoint ''0'' = Some 0" "parseCodePoint ''0x0000'' = Some 0x0000" "parseCodePoint ''0x0001'' = Some 0x0001"
  "parseCodePoint ''0x0002'' = Some 0x0002" "parseCodePoint ''0x0003'' = Some 0x0003" "parseCodePoint ''0x0004'' = Some 0x0004"
  "parseCodePoint ''0x0005'' = Some 0x0005" "parseCodePoint ''0x0006'' = Some 0x0006" "parseCodePoint ''0x0007'' = Some 0x0007"
  "parseCodePoint ''0x0008'' = Some 0x0008" "parseCodePoint ''0x0009'' = Some 0x0009" "parseCodePoint ''0x000A'' = Some 0x000A"
  "parseCodePoint ''0x000B'' = Some 0x000B" "parseCodePoint ''0x000B-0x00FF'' = None" "parseCodePoint ''0x000C'' = Some 0x000C"
  "parseCodePoint ''0x000D'' = Some 0x000D" "parseCodePoint ''0x000E'' = Some 0x000E" "parseCodePoint ''0x000F'' = Some 0x000F"
  "parseCodePoint ''0x0010'' = Some 0x0010" "parseCodePoint ''0x0011'' = Some 0x0011" "parseCodePoint ''0x0012'' = Some 0x0012"
  "parseCodePoint ''0x0013'' = Some 0x0013" "parseCodePoint ''0x0030-0x0034'' = None" "parseCodePoint ''0x0035'' = Some 0x0035"
  "parseCodePoint ''0x0035-0x0036'' = None" "parseCodePoint ''0x0036'' = Some 0x0036" "parseCodePoint ''0x0060'' = Some 0x0060"
  "parseCodePoint ''0x0060-0x0063'' = None" "parseCodePoint ''0x0061'' = Some 0x0061" "parseCodePoint ''0x0062'' = Some 0x0062"
  "parseCodePoint ''0x0063'' = Some 0x0063" "parseCodePoint ''0x0080-0x0080'' = None" "parseCodePoint ''0x0090-0x0090'' = None"
  "parseCodePoint ''0x00A0'' = Some 0x00A0" "parseCodePoint ''0x00A0-0x00A3'' = None" "parseCodePoint ''0x00A1'' = Some 0x00A1"
  "parseCodePoint ''0x00B0-0x00B4'' = None" "parseCodePoint ''0x00C0'' = Some 0x00C0" "parseCodePoint ''0x00C0-0x00C4'' = None"
  "parseCodePoint ''0x00C1'' = Some 0x00C1" "parseCodePoint ''0x00C2'' = Some 0x00C2" "parseCodePoint ''0x00C3'' = Some 0x00C3"
  "parseCodePoint ''0x00C4'' = Some 0x00C4" "parseCodePoint ''0x01'' = Some 0x01" "parseCodePoint ''0x0100'' = Some 0x0100"
  "parseCodePoint ''0x0100-0xFFFF'' = None" "parseCodePoint ''0x0101'' = Some 0x0101" "parseCodePoint ''0x0102'' = Some 0x0102"
  "parseCodePoint ''0x0103'' = Some 0x0103" "parseCodePoint ''0x0104'' = Some 0x0104" "parseCodePoint ''0x0105'' = Some 0x0105"
  "parseCodePoint ''0x0106'' = Some 0x0106" "parseCodePoint ''0x0107'' = Some 0x0107" "parseCodePoint ''0x0108'' = Some 0x0108"
  "parseCodePoint ''0x0109'' = Some 0x0109" "parseCodePoint ''0x010A'' = Some 0x010A" "parseCodePoint ''0x010B'' = Some 0x010B"
  "parseCodePoint ''0x010C'' = Some 0x010C" "parseCodePoint ''0x010D'' = Some 0x010D" "parseCodePoint ''0x010E'' = Some 0x010E"
  "parseCodePoint ''0x02'' = Some 0x02" "parseCodePoint ''0x03'' = Some 0x03" "parseCodePoint ''0x04'' = Some 0x04"
  "parseCodePoint ''0x05'' = Some 0x05" "parseCodePoint ''0x06'' = Some 0x06" "parseCodePoint ''0x07'' = Some 0x07"
  "parseCodePoint ''0x08'' = Some 0x08" "parseCodePoint ''0x09'' = Some 0x09" "parseCodePoint ''0x0A'' = Some 0x0A"
  "parseCodePoint ''0x0B'' = Some 0x0B" "parseCodePoint ''0x0C'' = Some 0x0C" "parseCodePoint ''0x0D'' = Some 0x0D"
  "parseCodePoint ''0x10'' = Some 0x10" "parseCodePoint ''0x12'' = Some 0x12" "parseCodePoint ''0x13'' = Some 0x13"
  "parseCodePoint ''0x14'' = Some 0x14" "parseCodePoint ''0x15'' = Some 0x15" "parseCodePoint ''0x16'' = Some 0x16"
  "parseCodePoint ''0x17'' = Some 0x17" "parseCodePoint ''0x18'' = Some 0x18" "parseCodePoint ''0x19'' = Some 0x19"
  "parseCodePoint ''0x8000-0xFFFF'' = None" "parseCodePoint ''1'' = Some 1" "parseCodePoint ''10'' = Some 10"
  "parseCodePoint ''2'' = Some 2" "parseCodePoint ''3'' = Some 3" "parseCodePoint ''4'' = Some 4"
  "parseCodePoint ''5'' = Some 5" "parseCodePoint ''6'' = Some 6" "parseCodePoint ''7'' = Some 7"
  "parseCodePoint ''8'' = Some 8" "parseCodePoint ''9'' = Some 9"
  by (simp_all add: parseCodePoint_def trimSpace_def isSpace_def ParseUint0_def parsePrefix_def lower_def Let_def)



definition shipped_pairs :: "(nat \<times> nat) list" where
  "shipped_pairs =
    [(0x0, 0x100), (0x0, 0x101), (0x0, 0x102), (0x0, 0x103), (0x0, 0x104), (0x0, 0x105), (0x0, 0x106), (0x0, 0x107), (0x1, 0x35), (0x1, 0x36),
     (0x1, 0x100), (0x1, 0x101), (0x1, 0x102), (0x1, 0x103), (0x1, 0x104), (0x1, 0x105), (0x1, 0x106), (0x1, 0x107), (0x1, 0x108), (0x1, 0x109),
     (0x1, 0x10a), (0x1, 0x10b), (0x1, 0x10c), (0x1, 0x10d), (0x1, 0x10e), (0x2, 0x60), (0x2, 0x61), (0x2, 0x62), (0x2, 0x63), (0x2, 0x100), (0x2, 0x101),
     (0x2, 0x102), (0x2, 0x103), (0x2, 0x104), (0x2, 0x105), (0x2, 0x106), (0x2, 0x107), (0x2, 0x108), (0x5, 0xc0), (0x5, 0xc1), (0x5, 0xc2), (0x5, 0xc3),
     (0x5, 0xc4), (0x5, 0x100), (0x5, 0x101), (0x5, 0x102), (0x7, 0xa0), (0x7, 0xa1), (0x7, 0x100), (0x7, 0x101), (0x7, 0x102), (0x7, 0x103),
     (0x7, 0x104), (0xa, 0x100), (0xa, 0x101), (0xa, 0x102), (0xa, 0x103), (0xa, 0x104), (0xa, 0x105), (0xc, 0x100), (0xc, 0x101), (0xc, 0x102),
     (0xc, 0x103), (0xc, 0x104), (0xd, 0x100), (0xd, 0x101), (0xd, 0x102), (0xd, 0x103), (0xd, 0x104), (0xd, 0x105), (0xe, 0x100), (0xe, 0x101),
     (0xe, 0x102), (0xe, 0x103), (0xe, 0x104), (0xe, 0x105), (0xe, 0x106), (0xe, 0x107), (0xe, 0x108), (0xe, 0x109), (0xe, 0x10a), (0xe, 0x10b),
     (0xe, 0x10c), (0xe, 0x10d), (0xe, 0x10e), (0xf, 0x100), (0xf, 0x101), (0xf, 0x102), (0xf, 0x103), (0xf, 0x104), (0xf, 0x105), (0xf, 0x106),
     (0xf, 0x107), (0x11, 0x100), (0x11, 0x101), (0x11, 0x102), (0x11, 0x103), (0x11, 0x104), (0x11, 0x105), (0x11, 0x106), (0x11, 0x107), (0x11, 0x108),
     (0x12, 0x100), (0x12, 0x101), (0x12, 0x102), (0x12, 0x103), (0x12, 0x104), (0x12, 0x105), (0x12, 0x106), (0x12, 0x107), (0x12, 0x108), (0x12, 0x109)]"

definition shipped_tags :: "nat list" where
  "shipped_tags = [0x1, 0x2, 0x3, 0x4, 0x5, 0x6, 0x7, 0x8, 0x9, 0xa, 0xb, 0xc, 0xd, 0x12, 0x17, 0x18, 0x19]"

text \<open>The code points in the files, column by column.\<close>

lemmas csv_simps = csv_rows_def col_def real_name_def code_points

lemma parsed_channels:
  "map (\<lambda>r. parseCodePoint (col r ''channel_id'')) (csv_rows channels_csv) = map Some [0..<20]"
  "list_all (\<lambda>r. col r ''name'' \<noteq> '''') (csv_rows channels_csv)"
  by (simp_all add: csv_simps channels_csv_def upt_rec)

lemma parsed_pairs:
  "map (\<lambda>r. (parseCodePoint (col r ''channel_id''), parseCodePoint (col r ''frame_type''))) (csv_rows frame_types_channel_csv)
    = map (\<lambda>(c, t). (Some c, Some t)) shipped_pairs"
  "list_all (\<lambda>r. col r ''name'' \<noteq> '''') (csv_rows frame_types_channel_csv)"
  by (simp_all add: csv_simps frame_types_channel_csv_def shipped_pairs_def)

lemma parsed_system:
  "map (\<lambda>r. parseCodePoint (col r ''frame_type'')) (filter real_name (csv_rows frame_types_reserved_csv))
    = map Some [1..<11] @ map Some [0x0100..<0x0104] @ [None]"
  by (simp add: csv_simps frame_types_reserved_csv_def upt_rec)

lemma parsed_tags:
  "map (\<lambda>r. parseCodePoint (col r ''tag'')) (filter real_name (csv_rows tlv_tags_csv)) = map Some shipped_tags"
  by (simp add: csv_simps tlv_tags_csv_def shipped_tags_def)

lemma parsed_codes:
  "map (\<lambda>r. parseCodePoint (col r ''code'')) (filter real_name (csv_rows error_codes_csv)) = map Some [1..<11]"
  by (simp add: csv_simps error_codes_csv_def upt_rec)


section \<open>What they load to\<close>

lemma parsed_set: "{h i | i row. row \<in> set rows \<and> g row = Some i} = h ` {i. Some i \<in> set (map g rows)}"
  by (auto simp: image_iff) metis+

lemma parsed_pair_set:
  "{(h i, k j) | i j row. row \<in> set rows \<and> f row = Some i \<and> g row = Some j}
    = (\<lambda>(i, j). (h i, k j)) ` {(i, j). (Some i, Some j) \<in> set (map (\<lambda>r. (f r, g r)) rows)}"
  by (force simp: image_iff)

lemma dom_nonempty: "dom (map_of m) = f ` S \<Longrightarrow> S \<noteq> {} \<Longrightarrow> m \<noteq> []"
  by auto

lemma parsed_real_set:
  "{h i | i row. row \<in> set rows \<and> g row = Some i \<and> P i \<and> real_name row} = h ` {i. Some i \<in> set (map g (filter real_name rows)) \<and> P i}"
  by (auto simp: image_iff) metis+

lemma readCSVRows_records: "recs \<noteq> [] \<Longrightarrow> readCSVRows (CsvRecords recs False) = Inr (csv_rows recs)"
  by (cases recs) (simp_all add: readCSVRows_def csv_rows_def)

lemma shipped_rows:
  "readCSVRows (shippedFiles ''channels.csv'') = Inr (csv_rows channels_csv)"
  "readCSVRows (shippedFiles ''frame_types_reserved.csv'') = Inr (csv_rows frame_types_reserved_csv)"
  "readCSVRows (shippedFiles ''frame_types_channel.csv'') = Inr (csv_rows frame_types_channel_csv)"
  "readCSVRows (shippedFiles ''tlv_tags.csv'') = Inr (csv_rows tlv_tags_csv)"
  "readCSVRows (shippedFiles ''error_codes.csv'') = Inr (csv_rows error_codes_csv)"
  unfolding shippedFiles_def
  by (simp_all add: readCSVRows_records channels_csv_def frame_types_reserved_csv_def frame_types_channel_csv_def tlv_tags_csv_def error_codes_csv_def)

lemma map_Some_parse:
  assumes "map g rows = map Some vs" "list_all Q rows" "r \<in> set rows"
  shows "\<exists>v \<in> set vs. g r = Some v \<and> Q r"
proof -
  from assms(1,3) have "g r \<in> Some ` set vs" by (metis image_eqI list.set_map)
  then show ?thesis using assms(2,3) by (auto simp: list_all_iff)
qed

lemma shipped_loadChannels:
  obtains m where "loadChannels [] (csv_rows channels_csv) = Inr m" "dom (map_of m) = of_nat ` {..<20}"
proof -
  have "\<exists>i \<le> 0xFFFF. parseCodePoint (col row ''channel_id'') = Some i \<and> col row ''name'' \<noteq> ''''" if "row \<in> set (csv_rows channels_csv)" for row
    using map_Some_parse [OF parsed_channels that] by auto
  with loadChannels_ok obtain m where m: "loadChannels [] (csv_rows channels_csv) = Inr m" by blast
  have "dom (map_of m) = of_nat ` {i. Some i \<in> set (map (\<lambda>r. parseCodePoint (col r ''channel_id'')) (csv_rows channels_csv))}"
    using loadChannels_Inr [OF m] unfolding parsed_set by simp
  also have "\<dots> = of_nat ` {..<20}" unfolding parsed_channels by auto
  finally show ?thesis using m that by blast
qed

lemma shipped_loadChanFrames:
  obtains m where "loadChanFrames [] (csv_rows frame_types_channel_csv) = Inr m"
    "dom (map_of m) = (\<lambda>(c, t). (of_nat c, of_nat t)) ` set shipped_pairs"
proof -
  let ?g = "\<lambda>r. (parseCodePoint (col r ''channel_id''), parseCodePoint (col r ''frame_type''))"
  have small: "\<forall>(c, t) \<in> set shipped_pairs. c \<le> 0xFFFF \<and> t \<le> 0xFFFF" by (simp add: shipped_pairs_def)
  have row: "\<exists>(c, t) \<in> set shipped_pairs. ?g r = (Some c, Some t)" if "r \<in> set (csv_rows frame_types_channel_csv)" for r
  proof -
    have "?g r \<in> set (map ?g (csv_rows frame_types_channel_csv))" using that by simp
    then show ?thesis unfolding parsed_pairs(1) by auto
  qed
  have "\<exists>i \<le> 0xFFFF. \<exists>ft \<le> 0xFFFF. parseCodePoint (col r ''channel_id'') = Some i \<and> parseCodePoint (col r ''frame_type'') = Some ft \<and> col r ''name'' \<noteq> ''''"
    if "r \<in> set (csv_rows frame_types_channel_csv)" for r
    using row [OF that] small parsed_pairs(2) that by (auto simp: list_all_iff)
  with loadChanFrames_ok obtain m where m: "loadChanFrames [] (csv_rows frame_types_channel_csv) = Inr m" by blast
  have "dom (map_of m) = (\<lambda>(c, t). (of_nat c, of_nat t)) ` {(c, t). (Some c, Some t) \<in> set (map ?g (csv_rows frame_types_channel_csv))}"
    using loadChanFrames_Inr [OF m] unfolding parsed_pair_set by simp
  also have "{(c, t). (Some c, Some t) \<in> set (map ?g (csv_rows frame_types_channel_csv))} = set shipped_pairs"
    unfolding parsed_pairs(1) by auto
  finally have "dom (map_of m) = (\<lambda>(c, t). (of_nat c, of_nat t)) ` set shipped_pairs" .
  then show ?thesis using m that by blast
qed

text \<open>The shipped files load, and these are the sets of code points.\<close>

lemma shipped_Load:
  obtains reg where "Load shippedFiles = Inr reg" "dom (map_of (regChannels reg)) = of_nat ` {..<20}"
    "dom (map_of (systemFrames reg)) = of_nat ` {1..<11}" "dom (map_of (chanFrames reg)) = (\<lambda>(c, t). (of_nat c, of_nat t)) ` set shipped_pairs"
    "dom (map_of (tlvTags reg)) = of_nat ` set shipped_tags" "dom (map_of (errorCodes reg)) = of_nat ` {1..<11}"
proof -
  obtain mc where mc: "loadChannels [] (csv_rows channels_csv) = Inr mc" "dom (map_of mc) = of_nat ` {..<20}" by (rule shipped_loadChannels)
  obtain mf where mf: "loadChanFrames [] (csv_rows frame_types_channel_csv) = Inr mf"
    "dom (map_of mf) = (\<lambda>(c, t). (of_nat c, of_nat t)) ` set shipped_pairs" by (rule shipped_loadChanFrames)
  define ms where "ms = loadSystemFrames_loop [] (csv_rows frame_types_reserved_csv)"
  define mt where "mt = (loadAssigned ''tag'' 0xFFFF [] (csv_rows tlv_tags_csv) :: (u16 \<times> string) list)"
  define me where "me = (loadAssigned ''code'' 0xFF [] (csv_rows error_codes_csv) :: (byte \<times> string) list)"
  have "dom (map_of ms) = of_nat ` {i. Some i \<in> set (map (\<lambda>r. parseCodePoint (col r ''frame_type'')) (filter real_name (csv_rows frame_types_reserved_csv))) \<and> (0 < i \<and> i \<le> unat SystemFrameMax)}"
    unfolding ms_def loadSystemFrames_dom parsed_real_set [symmetric] by auto
  also have "\<dots> = of_nat ` {1..<11}" unfolding parsed_system by (auto simp: SystemFrameMax_def)
  finally have ms: "dom (map_of ms) = of_nat ` {1..<11}" .
  have "\<forall>t \<in> set shipped_tags. t \<le> 0xFFFF" by (simp add: shipped_tags_def)
  moreover have "dom (map_of mt) = of_nat ` {i. Some i \<in> set (map (\<lambda>r. parseCodePoint (col r ''tag'')) (filter real_name (csv_rows tlv_tags_csv))) \<and> i \<le> 0xFFFF}"
    unfolding mt_def loadAssigned_dom parsed_real_set [symmetric] by auto
  ultimately have mt: "dom (map_of mt) = of_nat ` set shipped_tags" unfolding parsed_tags by auto
  have "dom (map_of me) = of_nat ` {i. Some i \<in> set (map (\<lambda>r. parseCodePoint (col r ''code'')) (filter real_name (csv_rows error_codes_csv))) \<and> i \<le> 0xFF}"
    unfolding me_def loadAssigned_dom parsed_real_set [symmetric] by auto
  also have "\<dots> = of_nat ` {1..<11}" unfolding parsed_codes by auto
  finally have me: "dom (map_of me) = of_nat ` {1..<11}" .
  have "{..<20 :: nat} \<noteq> {}" "{1..<11 :: nat} \<noteq> {}" "set shipped_pairs \<noteq> {}" "set shipped_tags \<noteq> {}"
    by (auto simp: lessThan_empty_iff shipped_pairs_def shipped_tags_def)
  note ne = dom_nonempty [OF mc(2) this(1)] dom_nonempty [OF ms this(2)] dom_nonempty [OF mf(2) this(3)]
    dom_nonempty [OF mt this(4)] dom_nonempty [OF me this(2)]
  let ?reg = "\<lparr>regChannels = mc, systemFrames = ms, chanFrames = mf, tlvTags = mt, errorCodes = me\<rparr>"
  have "loadSystemFrames (csv_rows frame_types_reserved_csv) = Inr ms" "loadTLVTags (csv_rows tlv_tags_csv) = Inr mt"
    "loadErrorCodes (csv_rows error_codes_csv) = Inr me"
    using ne unfolding loadSystemFrames_def loadTLVTags_def loadErrorCodes_def Let_def ms_def mt_def me_def by simp_all
  then have "Load shippedFiles = Inr ?reg"
    using ne mc(1) mf(1) by (simp add: Load_def shipped_rows)
  then show ?thesis using mc(2) ms mf(2) mt me by (intro that [of ?reg]) simp_all
qed


lemma core_channels: "(of_nat ` {..<20} :: u16 set) = {c. \<not> channel_Reserved c}"
proof -
  have "c \<in> of_nat ` {..<20}" if "c < 0x0014" for c :: u16
  proof -
    from that have "unat c < 20" by (simp add: word_less_nat_alt)
    then show ?thesis by (intro image_eqI [of _ _ "unat c"]) simp_all
  qed
  moreover have "of_nat n < (0x0014 :: u16)" if "n < 20" for n
    using that by (simp add: word_less_nat_alt unat_of_nat_small)
  ultimately show ?thesis by (auto simp: channel_Reserved_def not_le)
qed


text \<open>The frame types of the session layer on the Control channel.\<close>

definition control_types :: "frame_type list" where
  "control_types = [FrameClientHello, FrameServerHello, FrameServerAuth, FrameClientAuth, FrameMasterRatchet,
     FrameMasterRatchetAck, FrameReKEM, FrameReKEMAck]"

definition system_types :: "frame_type list" where
  "system_types = [FramePing, FramePong, FrameClose, FrameCloseAck, FrameError, FrameKeyUpdate, FrameKeyUpdateAck,
     FramePathChallenge, FramePathResponse, FrameFlowUpdate]"








lemma shipped_registered:
  assumes "dom (map_of (regChannels reg)) = of_nat ` {..<20}" "dom (map_of (systemFrames reg)) = of_nat ` {1..<11}"
    "dom (map_of (chanFrames reg)) = (\<lambda>(c, t). (of_nat c, of_nat t)) ` set shipped_pairs"
  shows "ft \<in> set system_types \<Longrightarrow> registered reg ch ft \<longleftrightarrow> \<not> channel_Reserved ch"
    and "ft \<in> set control_types \<Longrightarrow> registered reg ChanControl ft"
proof -
  have s: "of_nat n \<in> (of_nat ` {1..<11} :: u16 set)" if "1 \<le> n" "n < 11" for n using that by simp
  have ten: "1 \<in> (of_nat ` {1..<11} :: u16 set)" "2 \<in> (of_nat ` {1..<11} :: u16 set)" "3 \<in> (of_nat ` {1..<11} :: u16 set)"
    "4 \<in> (of_nat ` {1..<11} :: u16 set)" "5 \<in> (of_nat ` {1..<11} :: u16 set)" "6 \<in> (of_nat ` {1..<11} :: u16 set)"
    "7 \<in> (of_nat ` {1..<11} :: u16 set)" "8 \<in> (of_nat ` {1..<11} :: u16 set)" "9 \<in> (of_nat ` {1..<11} :: u16 set)"
    "10 \<in> (of_nat ` {1..<11} :: u16 set)"
    using s [of 1] s [of 2] s [of 3] s [of 4] s [of 5] s [of 6] s [of 7] s [of 8] s [of 9] s [of 10] by simp_all
  show "registered reg ch ft \<longleftrightarrow> \<not> channel_Reserved ch" if "ft \<in> set system_types"
    using that ten unfolding registered_def assms core_channels by (auto simp: system_types_def frame_type_defs SystemFrameMax_def)
  have c: "ChanControl \<in> of_nat ` {..<20}" unfolding core_channels by (simp add: ChanControl_def channel_Reserved_def)
  have "list_all (\<lambda>ft. (0 :: u16, ft) \<in> (\<lambda>(c, t). (of_nat c, of_nat t)) ` set shipped_pairs) control_types"
    by (simp add: control_types_def frame_type_defs shipped_pairs_def)
  moreover have "list_all (\<lambda>ft. \<not> ft \<le> SystemFrameMax \<and> ft \<noteq> 0) control_types"
    by (simp add: control_types_def frame_type_defs SystemFrameMax_def)
  ultimately show "registered reg ChanControl ft" if "ft \<in> set control_types"
    using that c unfolding registered_def assms by (simp add: list_all_iff ChanControl_def)
qed



theorem Load_exact_witness:
  "\<exists>reg. Load shippedFiles = Inr reg \<and> regChannels reg \<noteq> [] \<and> errorCodes reg \<noteq> []"
proof -
  obtain reg where l: "Load shippedFiles = Inr reg" by (rule shipped_Load)
  have "regChannels reg \<noteq> [] \<and> errorCodes reg \<noteq> []" using Load_exact [OF l] by (elim exE conjE) (rule conjI)
  with l show ?thesis by blast
qed



lemma shipped_Load_registered:
  assumes "Load shippedFiles = Inr reg"
  shows "ft \<in> set system_types \<Longrightarrow> registered reg ch ft \<longleftrightarrow> \<not> channel_Reserved ch"
    and "ft \<in> set control_types \<Longrightarrow> registered reg ChanControl ft"
proof -
  obtain reg' where r: "Load shippedFiles = Inr reg'" "dom (map_of (regChannels reg')) = of_nat ` {..<20}"
    "dom (map_of (systemFrames reg')) = of_nat ` {1..<11}" "dom (map_of (chanFrames reg')) = (\<lambda>(c, t). (of_nat c, of_nat t)) ` set shipped_pairs"
    by (rule shipped_Load)
  from r(1) assms have "reg' = reg" by simp
  with shipped_registered [OF r(2-4)] show "ft \<in> set system_types \<Longrightarrow> registered reg ch ft \<longleftrightarrow> \<not> channel_Reserved ch"
    "ft \<in> set control_types \<Longrightarrow> registered reg ChanControl ft" by simp_all
qed

end
