(* ===== verification/KeyFormat.thy ===== *)
theory KeyFormat
  imports Cbor KeySchedule
begin

text \<open>
  The versioned key-storage format of \<^verbatim>\<open>src/impl/go/keyformat\<close>: its own deterministic CBOR reader and
  writer (\<^verbatim>\<open>cbor.go\<close>), the record codec with its registry of algorithms (\<^verbatim>\<open>keyformat.go\<close>) and the typed
  accessors (\<^verbatim>\<open>typed.go\<close>). The reader is shown to accept exactly the octets of the writer, and \<open>Decode\<close> is
  characterised exactly; the characterisation shows that the version and the role are compared only
  after they have been narrowed to their Go types.
\<close>

section \<open>Model\<close>

datatype kf_err = KfTruncated | KfTrailing | KfNotShortest | KfIndefinite | KfWrongKeyOrder
  | KfMajorType | KfAdditionalInfo | KfMapEntries | KfUnknownKey
  | ErrUnknownFormatVersion | ErrNoAcceptedGenerations | ErrGenerationNotAccepted | ErrUnknownAlgorithm
  | ErrComponentCount | ErrComponentSize | ErrRoleMismatch | ErrGroupNotSupported

subsection \<open>CBOR\<close>

definition encodeUint :: "byte \<Rightarrow> u64 \<Rightarrow> bytes" where
  "encodeUint major v =
    (let mb = push_bit 5 major in
     if v < 24 then [mb OR ucast v]
     else if v \<le> 0xff then [mb OR 24, ucast v]
     else if v \<le> 0xffff then (mb OR 25) # put_u16 (ucast v)
     else if v \<le> 0xffffffff then (mb OR 26) # put_u32 (ucast v)
     else (mb OR 27) # put_u64 v)"

definition encodeBytesItem :: "bytes \<Rightarrow> bytes" where
  "encodeBytesItem b = encodeUint 2 (of_nat (length b)) @ b"

definition encodeTextItem :: "bytes \<Rightarrow> bytes" where
  "encodeTextItem s = encodeUint 3 (of_nat (length s)) @ s"

text \<open>A \<open>cborReader\<close> is represented by the octets from its position on.\<close>

definition readHead :: "byte \<Rightarrow> bytes \<Rightarrow> kf_err + u64 \<times> bytes" where
  "readHead wantMajor d =
    (case d of
       [] \<Rightarrow> Inl KfTruncated
     | ib # r \<Rightarrow>
         let ai = ib AND 0x1f in
         if drop_bit 5 ib \<noteq> wantMajor then Inl KfMajorType
         else if ai < 24 then Inr (ucast ai, r)
         else if ai = 24 then
           if length r < 1 then Inl KfTruncated
           else let v = ucast (r ! 0) in if v < 24 then Inl KfNotShortest else Inr (v, drop 1 r)
         else if ai = 25 then
           if length r < 2 then Inl KfTruncated
           else let v = ucast (get_u16 (take 2 r)) in if v \<le> 0xff then Inl KfNotShortest else Inr (v, drop 2 r)
         else if ai = 26 then
           if length r < 4 then Inl KfTruncated
           else let v = ucast (get_u32 (take 4 r)) in if v \<le> 0xffff then Inl KfNotShortest else Inr (v, drop 4 r)
         else if ai = 27 then
           if length r < 8 then Inl KfTruncated
           else let v = get_u64 (take 8 r) in if v \<le> 0xffffffff then Inl KfNotShortest else Inr (v, drop 8 r)
         else if ai = 31 then Inl KfIndefinite
         else Inl KfAdditionalInfo)"

definition readUint :: "bytes \<Rightarrow> kf_err + u64 \<times> bytes" where
  "readUint = readHead 0"

definition readBytes :: "bytes \<Rightarrow> kf_err + bytes \<times> bytes" where
  "readBytes d = rbind (readHead 2 d) (\<lambda>(n, r).
    if unat n > length r then Inl KfTruncated else Inr (take (unat n) r, drop (unat n) r))"

definition readText :: "bytes \<Rightarrow> kf_err + bytes \<times> bytes" where
  "readText d = rbind (readHead 3 d) (\<lambda>(n, r).
    if unat n > length r then Inl KfTruncated else Inr (take (unat n) r, drop (unat n) r))"

definition readArrayLen :: "bytes \<Rightarrow> kf_err + u64 \<times> bytes" where
  "readArrayLen = readHead 4"

definition readMapLen :: "bytes \<Rightarrow> kf_err + u64 \<times> bytes" where
  "readMapLen = readHead 5"

subsection \<open>Records\<close>

definition CurrentFormatVersion :: u16 where "CurrentFormatVersion = 1"

definition RoleKEMPublic :: byte where "RoleKEMPublic = 1"
definition RoleKEMPrivate :: byte where "RoleKEMPrivate = 2"
definition RoleSigPublic :: byte where "RoleSigPublic = 3"
definition RoleSigPrivate :: byte where "RoleSigPrivate = 4"

lemmas role_defs = RoleKEMPublic_def RoleKEMPrivate_def RoleSigPublic_def RoleSigPrivate_def

record KeyRecord =
  krFormatVersion :: u16
  krGeneration :: bytes
  krRole :: byte
  krAlgorithm :: u64
  krComponents :: "bytes list"

text \<open>The current generation, and the sizes of the components of a role and an algorithm under it.\<close>

definition currentGeneration :: bytes where "currentGeneration = str ALPN"

definition registry :: "bytes \<Rightarrow> (byte \<Rightarrow> (u64 \<Rightarrow> nat list option) option) option" where
  "registry = map_of [(currentGeneration, map_of
    [(RoleKEMPrivate, map_of [(ucast KEMX25519MLKEM768, [64, 32])]),
     (RoleKEMPublic, map_of [(ucast KEMX25519MLKEM768, [1184, 32])]),
     (RoleSigPrivate, map_of [(ucast SigEd25519, [64]), (ucast SigMLDSA44, [2560]), (ucast SigMLDSA65, [4032]), (ucast SigMLDSA87, [4896])]),
     (RoleSigPublic, map_of [(ucast SigEd25519, [32]), (ucast SigMLDSA44, [1312]), (ucast SigMLDSA65, [1952]), (ucast SigMLDSA87, [2592])])])]"

definition refusedKEMGroup :: "KeyRecord \<Rightarrow> bool" where
  "refusedKEMGroup rec =
    ((krRole rec = RoleKEMPrivate \<or> krRole rec = RoleKEMPublic) \<and> krAlgorithm rec = ucast KEMSecP384r1MLKEM1024)"

fun checkSizes :: "bytes list \<Rightarrow> nat list \<Rightarrow> kf_err + unit" where
  "checkSizes (c # cs) (want # sizes) = (if length c \<noteq> want then Inl ErrComponentSize else checkSizes cs sizes)"
| "checkSizes cs sizes = Inr ()"

definition validateAgainstRegistry :: "KeyRecord \<Rightarrow> kf_err + unit" where
  "validateAgainstRegistry rec =
    (if refusedKEMGroup rec then Inl ErrGroupNotSupported
     else case registry (krGeneration rec) of
       None \<Rightarrow> Inl ErrUnknownAlgorithm
     | Some genReg \<Rightarrow>
       (case genReg (krRole rec) of
          None \<Rightarrow> Inl ErrUnknownAlgorithm
        | Some roleReg \<Rightarrow>
          (case roleReg (krAlgorithm rec) of
             None \<Rightarrow> Inl ErrUnknownAlgorithm
           | Some sizes \<Rightarrow>
               if length (krComponents rec) \<noteq> length sizes then Inl ErrComponentCount
               else checkSizes (krComponents rec) sizes)))"

definition marshalRecord :: "KeyRecord \<Rightarrow> bytes" where
  "marshalRecord rec =
    encodeUint 5 5
    @ encodeUint 0 1 @ encodeUint 0 (ucast (krFormatVersion rec))
    @ encodeUint 0 2 @ encodeTextItem (krGeneration rec)
    @ encodeUint 0 3 @ encodeUint 0 (ucast (krRole rec))
    @ encodeUint 0 4 @ encodeUint 0 (krAlgorithm rec)
    @ encodeUint 0 5 @ encodeUint 4 (of_nat (length (krComponents rec)))
    @ concat (map encodeBytesItem (krComponents rec))"

primrec readComponents :: "nat \<Rightarrow> bytes \<Rightarrow> kf_err + bytes list \<times> bytes" where
  "readComponents 0 d = Inr ([], d)"
| "readComponents (Suc j) d =
    rbind (readBytes d) (\<lambda>(b, d). rbind (readComponents j d) (\<lambda>(bs, d). Inr (b # bs, d)))"

text \<open>The \<open>switch key\<close> of \<open>unmarshalRecord\<close>, and its loop over the entries that are left.\<close>

definition readField :: "u64 \<Rightarrow> KeyRecord \<Rightarrow> bytes \<Rightarrow> kf_err + KeyRecord \<times> bytes" where
  "readField key rec d =
    (if key = 1 then rbind (readUint d) (\<lambda>(v, d). Inr (rec\<lparr>krFormatVersion := ucast v\<rparr>, d))
     else if key = 2 then rbind (readText d) (\<lambda>(s, d). Inr (rec\<lparr>krGeneration := s\<rparr>, d))
     else if key = 3 then rbind (readUint d) (\<lambda>(v, d). Inr (rec\<lparr>krRole := ucast v\<rparr>, d))
     else if key = 4 then rbind (readUint d) (\<lambda>(v, d). Inr (rec\<lparr>krAlgorithm := v\<rparr>, d))
     else if key = 5 then
       rbind (readArrayLen d) (\<lambda>(alen, d).
       if unat alen > length d then Inl KfTruncated
       else rbind (readComponents (unat alen) d) (\<lambda>(comps, d). Inr (rec\<lparr>krComponents := comps\<rparr>, d)))
     else Inl KfUnknownKey)"

primrec unmarshalEntries :: "nat \<Rightarrow> u64 option \<Rightarrow> u64 set \<Rightarrow> KeyRecord \<Rightarrow> bytes \<Rightarrow> kf_err + KeyRecord \<times> bytes" where
  "unmarshalEntries 0 lastKey seen rec d = Inr (rec, d)"
| "unmarshalEntries (Suc i) lastKey seen rec d =
    rbind (readUint d) (\<lambda>(key, d).
    if lastKey \<noteq> None \<and> key \<le> the lastKey then Inl KfWrongKeyOrder
    else if key \<in> seen then Inl KfWrongKeyOrder
    else rbind (readField key rec d) (\<lambda>(rec, d). unmarshalEntries i (Some key) (insert key seen) rec d))"

definition zeroRecord :: KeyRecord where
  "zeroRecord = \<lparr>krFormatVersion = 0, krGeneration = [], krRole = 0, krAlgorithm = 0, krComponents = []\<rparr>"

definition unmarshalRecord :: "bytes \<Rightarrow> kf_err + KeyRecord" where
  "unmarshalRecord data =
    rbind (readMapLen data) (\<lambda>(n, d).
    if n \<noteq> 5 then Inl KfMapEntries
    else rbind (unmarshalEntries (unat n) None {} zeroRecord d) (\<lambda>(rec, d).
      if d \<noteq> [] then Inl KfTrailing else Inr rec))"

definition kf_Encode :: "KeyRecord \<Rightarrow> kf_err + bytes" where
  "kf_Encode rec =
    (if krFormatVersion rec \<noteq> CurrentFormatVersion then Inl ErrUnknownFormatVersion
     else if krGeneration rec \<noteq> currentGeneration then Inl ErrGenerationNotAccepted
     else rbind (validateAgainstRegistry rec) (\<lambda>_. Inr (marshalRecord rec)))"

definition kf_Decode :: "bytes \<Rightarrow> bytes list \<Rightarrow> kf_err + KeyRecord" where
  "kf_Decode data acceptedGenerations =
    (if length acceptedGenerations = 0 then Inl ErrNoAcceptedGenerations
     else rbind (unmarshalRecord data) (\<lambda>rec.
       if krFormatVersion rec \<noteq> CurrentFormatVersion then Inl ErrUnknownFormatVersion
       else if \<not> krGeneration rec \<in> set acceptedGenerations then Inl ErrGenerationNotAccepted
       else if refusedKEMGroup rec then Inl ErrGroupNotSupported
       else if krGeneration rec = currentGeneration then rbind (validateAgainstRegistry rec) (\<lambda>_. Inr rec)
       else Inr rec))"

subsection \<open>Typed accessors\<close>

definition keyRecord :: "byte \<Rightarrow> u64 \<Rightarrow> bytes list \<Rightarrow> KeyRecord" where
  "keyRecord role alg comps = \<lparr>krFormatVersion = CurrentFormatVersion, krGeneration = currentGeneration,
    krRole = role, krAlgorithm = alg, krComponents = comps\<rparr>"

definition EncodeKEMPrivate :: "kem_id \<Rightarrow> bytes \<Rightarrow> bytes \<Rightarrow> kf_err + bytes" where
  "EncodeKEMPrivate kem mlkemSeed classicalPriv = kf_Encode (keyRecord RoleKEMPrivate (ucast kem) [mlkemSeed, classicalPriv])"

definition EncodeKEMPublic :: "kem_id \<Rightarrow> bytes \<Rightarrow> bytes \<Rightarrow> kf_err + bytes" where
  "EncodeKEMPublic kem mlkemEncap classicalPub = kf_Encode (keyRecord RoleKEMPublic (ucast kem) [mlkemEncap, classicalPub])"

definition EncodeSigPrivate :: "sig_id \<Rightarrow> bytes \<Rightarrow> kf_err + bytes" where
  "EncodeSigPrivate alg raw = kf_Encode (keyRecord RoleSigPrivate (ucast alg) [raw])"

definition EncodeSigPublic :: "sig_id \<Rightarrow> bytes \<Rightarrow> kf_err + bytes" where
  "EncodeSigPublic alg raw = kf_Encode (keyRecord RoleSigPublic (ucast alg) [raw])"

text \<open>\<open>DecodeKEMPrivate\<close> and \<open>DecodeKEMPublic\<close> differ in the role, as do the signature accessors.\<close>

definition decodeKEM :: "byte \<Rightarrow> bytes \<Rightarrow> bytes list \<Rightarrow> kf_err + kem_id \<times> bytes \<times> bytes" where
  "decodeKEM role data accepted =
    rbind (kf_Decode data accepted) (\<lambda>rec.
    if krRole rec \<noteq> role then Inl ErrRoleMismatch
    else if length (krComponents rec) \<noteq> 2 then Inl ErrComponentCount
    else Inr (ucast (krAlgorithm rec), krComponents rec ! 0, krComponents rec ! 1))"

definition DecodeKEMPrivate :: "bytes \<Rightarrow> bytes list \<Rightarrow> kf_err + kem_id \<times> bytes \<times> bytes" where
  "DecodeKEMPrivate = decodeKEM RoleKEMPrivate"

definition DecodeKEMPublic :: "bytes \<Rightarrow> bytes list \<Rightarrow> kf_err + kem_id \<times> bytes \<times> bytes" where
  "DecodeKEMPublic = decodeKEM RoleKEMPublic"

definition decodeSig :: "byte \<Rightarrow> bytes \<Rightarrow> bytes list \<Rightarrow> kf_err + sig_id \<times> bytes" where
  "decodeSig role data accepted =
    rbind (kf_Decode data accepted) (\<lambda>rec.
    if krRole rec \<noteq> role then Inl ErrRoleMismatch
    else if length (krComponents rec) \<noteq> 1 then Inl ErrComponentCount
    else Inr (ucast (krAlgorithm rec), krComponents rec ! 0))"

definition DecodeSigPrivate :: "bytes \<Rightarrow> bytes list \<Rightarrow> kf_err + sig_id \<times> bytes" where
  "DecodeSigPrivate = decodeSig RoleSigPrivate"

definition DecodeSigPublic :: "bytes \<Rightarrow> bytes list \<Rightarrow> kf_err + sig_id \<times> bytes" where
  "DecodeSigPublic = decodeSig RoleSigPublic"

section \<open>The reader and the writer\<close>

lemma put_be_ucast:
  assumes "8 * n \<le> LENGTH('b)"
  shows "put_be n (ucast (w :: 'a::len word) :: 'b::len word) = put_be n w"
  using assms
proof (induction n)
  case (Suc n)
  have "(ucast (drop_bit (8 * n) (ucast w :: 'b word)) :: byte) = ucast (drop_bit (8 * n) w)"
    using Suc.prems by (intro bit_word_eqI) (auto simp: bit_simps)
  then show ?case using Suc by simp
qed simp

lemma get_be_ucast:
  assumes "8 * length bs \<le> LENGTH('a)" and "LENGTH('a) \<le> 64"
  shows "(ucast (get_be bs :: 'a::len word) :: u64) = get_be bs"
proof -
  let ?n = "length bs"
  have "put_be ?n (ucast (get_be bs :: 'a word) :: u64) = bs"
    using assms by (simp add: put_be_ucast put_be_get_be)
  moreover have "unat (ucast (get_be bs :: 'a word) :: u64) < 2 ^ (8 * ?n)"
    using assms get_be_bound [of bs, where 'a = 'a] 
    by (simp add: unsigned_ucast_eq le_less_trans [OF take_bit_nat_less_eq_self])
  ultimately show ?thesis using get_put_be_small [of "ucast (get_be bs :: 'a word) :: u64" ?n] by simp
qed

lemma u64_le_less:
  "(v :: u64) \<le> 0xff \<longleftrightarrow> v < 2 ^ 8" "v \<le> 0xffff \<longleftrightarrow> v < 2 ^ 16" "v \<le> 0xffffffff \<longleftrightarrow> v < 2 ^ 32"
  by (auto simp: word_le_nat_alt word_less_nat_alt)

lemma encodeUint_eq: "encodeUint major v = encodeHead major v"
  by (simp add: encodeUint_def encodeHead_def Let_def u64_le_less put_u16_def put_u32_def put_u64_def put_be_ucast)

lemma readHead_decodeArg:
  "readHead m d = Inr (v, r) \<longleftrightarrow>
    d \<noteq> [] \<and> drop_bit 5 (d ! 0) = m \<and> (\<exists>n. decodeArg (d ! 0 AND 0x1f) d = Inr (v, n) \<and> r = drop n d)"
proof (cases d)
  case (Cons ib rr)
  let ?d = "ib # rr" and ?ai = "ib AND 0x1f"
  have w1: "(get_be (gslice 1 2 ?d) :: u64) = ucast (rr ! 0)" if "\<not> length rr < 1"
    using that by (cases rr) (simp_all add: gslice_def get_be_def)
  have w2: "(get_be (gslice 1 3 ?d) :: u64) = ucast (get_u16 (take 2 rr))" if "\<not> length rr < 2"
    using that get_be_ucast [of "take 2 rr", where 'a = 16] by (simp add: gslice_def get_u16_def)
  have w4: "(get_be (gslice 1 5 ?d) :: u64) = ucast (get_u32 (take 4 rr))" if "\<not> length rr < 4"
    using that get_be_ucast [of "take 4 rr", where 'a = 32] by (simp add: gslice_def get_u32_def)
  have w8: "(get_be (gslice 1 9 ?d) :: u64) = get_u64 (take 8 rr)"
    by (simp add: gslice_def get_u64_def)
  consider "?ai < 24" | "?ai = 24" | "?ai = 25" | "?ai = 26" | "?ai = 27"
    | "\<not> ?ai < 24" "?ai \<noteq> 24" "?ai \<noteq> 25" "?ai \<noteq> 26" "?ai \<noteq> 27" by blast
  then show ?thesis unfolding Cons
  proof cases
    case 1
    then show "readHead m ?d = Inr (v, r) \<longleftrightarrow> ?d \<noteq> [] \<and> drop_bit 5 (?d ! 0) = m
        \<and> (\<exists>n. decodeArg (?d ! 0 AND 0x1f) ?d = Inr (v, n) \<and> r = drop n ?d)"
      by (cases "drop_bit 5 ib = m") (auto simp: readHead_def decodeArg_def Let_def)
  next
    case 2
    then show "readHead m ?d = Inr (v, r) \<longleftrightarrow> ?d \<noteq> [] \<and> drop_bit 5 (?d ! 0) = m
        \<and> (\<exists>n. decodeArg (?d ! 0 AND 0x1f) ?d = Inr (v, n) \<and> r = drop n ?d)"
      using w1 by (cases "drop_bit 5 ib = m"; cases "length rr < 1") (auto simp: readHead_def decodeArg_def Let_def)
  next
    case 3
    then show "readHead m ?d = Inr (v, r) \<longleftrightarrow> ?d \<noteq> [] \<and> drop_bit 5 (?d ! 0) = m
        \<and> (\<exists>n. decodeArg (?d ! 0 AND 0x1f) ?d = Inr (v, n) \<and> r = drop n ?d)"
      using w2 by (cases "drop_bit 5 ib = m"; cases "length rr < 2") (auto simp: readHead_def decodeArg_def Let_def u64_le_less)
  next
    case 4
    then show "readHead m ?d = Inr (v, r) \<longleftrightarrow> ?d \<noteq> [] \<and> drop_bit 5 (?d ! 0) = m
        \<and> (\<exists>n. decodeArg (?d ! 0 AND 0x1f) ?d = Inr (v, n) \<and> r = drop n ?d)"
      using w4 by (cases "drop_bit 5 ib = m"; cases "length rr < 4") (auto simp: readHead_def decodeArg_def Let_def u64_le_less)
  next
    case 5
    then show "readHead m ?d = Inr (v, r) \<longleftrightarrow> ?d \<noteq> [] \<and> drop_bit 5 (?d ! 0) = m
        \<and> (\<exists>n. decodeArg (?d ! 0 AND 0x1f) ?d = Inr (v, n) \<and> r = drop n ?d)"
      using w8 by (cases "drop_bit 5 ib = m"; cases "length rr < 8") (auto simp: readHead_def decodeArg_def Let_def u64_le_less)
  next
    case 6
    then show "readHead m ?d = Inr (v, r) \<longleftrightarrow> ?d \<noteq> [] \<and> drop_bit 5 (?d ! 0) = m
        \<and> (\<exists>n. decodeArg (?d ! 0 AND 0x1f) ?d = Inr (v, n) \<and> r = drop n ?d)"
      by (cases "drop_bit 5 ib = m") (simp_all add: readHead_def decodeArg_def Let_def)
  qed
qed (simp add: readHead_def)

lemma readHead_exact: "m < 8 \<Longrightarrow> readHead m d = Inr (v, r) \<longleftrightarrow> d = encodeHead m v @ r"
proof
  assume "readHead m d = Inr (v, r)"
  then obtain n where d: "d \<noteq> []" "drop_bit 5 (d ! 0) = m" "decodeArg (d ! 0 AND 0x1f) d = Inr (v, n)" "r = drop n d"
    by (auto simp: readHead_decodeArg)
  have "d = encodeHead m v @ drop n d" using decodeArg_sound [OF d(3,1)] unfolding d(2) by (rule conjunct1)
  then show "d = encodeHead m v @ r" by (simp only: d(4))
next
  assume m: "m < 8" and d: "d = encodeHead m v @ r"
  have "encodeHead m v \<noteq> []" using length_encodeHead [of m v] by auto
  then show "readHead m d = Inr (v, r)"
    using decodeArg_encodeHead [OF m, of v r] by (auto simp: readHead_decodeArg d)
qed

lemma readUint_exact: "readUint d = Inr (v, r) \<longleftrightarrow> d = encodeUint 0 v @ r"
  by (simp add: readUint_def readHead_exact encodeUint_eq)

lemma length_prefixed:
  "(\<exists>n r'. d = encodeUint m n @ r' \<and> \<not> length r' < unat n \<and> b = take (unat n) r' \<and> r = drop (unat n) r')
   \<longleftrightarrow> length b < 2 ^ 64 \<and> d = encodeUint m (of_nat (length b)) @ b @ r"
  (is "?L \<longleftrightarrow> ?R")
proof
  assume ?L
  then obtain n r' where d: "d = encodeUint m n @ r'" "\<not> length r' < unat n" "b = take (unat n) r'" "r = drop (unat n) r'"
    by blast
  then have "length b = unat n" by simp
  then show ?R using d unat_less [of n] by simp
next
  assume R: ?R
  then have "unat (of_nat (length b) :: u64) = length b" by (simp add: unat_of_nat_small)
  then show ?L using R by (intro exI [of _ "of_nat (length b)"] exI [of _ "b @ r"]) simp
qed

lemma readBytes_exact: "readBytes d = Inr (b, r) \<longleftrightarrow> length b < 2 ^ 64 \<and> d = encodeBytesItem b @ r"
  unfolding encodeBytesItem_def append_assoc length_prefixed [symmetric]
  by (auto simp: readBytes_def readHead_exact encodeUint_eq)

lemma readText_exact: "readText d = Inr (b, r) \<longleftrightarrow> length b < 2 ^ 64 \<and> d = encodeTextItem b @ r"
  unfolding encodeTextItem_def append_assoc length_prefixed [symmetric]
  by (auto simp: readText_def readHead_exact encodeUint_eq)

lemma readComponents_exact:
  "readComponents n d = Inr (cs, r) \<longleftrightarrow>
    length cs = n \<and> list_all (\<lambda>c. length c < 2 ^ 64) cs \<and> d = concat (map encodeBytesItem cs) @ r"
proof (induction n arbitrary: d cs)
  case (Suc n)
  show ?case
  proof (cases cs)
    case (Cons c cs')
    have "readComponents (Suc n) d = Inr (cs, r) \<longleftrightarrow> (\<exists>d'. readBytes d = Inr (c, d') \<and> readComponents n d' = Inr (cs', r))"
      by (auto simp: Cons)
    then show ?thesis by (auto simp: Cons Suc readBytes_exact)
  qed auto
qed auto

lemma length_components: "length cs \<le> length (concat (map encodeBytesItem cs))"
proof (induction cs)
  case (Cons c cs)
  have "1 \<le> length (encodeUint 2 (of_nat (length c)))"
    using length_encodeHead [of 2 "of_nat (length c)"] by (simp add: encodeUint_eq Suc_le_eq)
  then show ?case using Cons by (simp add: encodeBytesItem_def)
qed simp

lemma readArray_exact:
  "(\<exists>alen d'. readArrayLen d = Inr (alen, d') \<and> \<not> length d' < unat alen \<and> readComponents (unat alen) d' = Inr (cs, r))
   \<longleftrightarrow> length cs < 2 ^ 64 \<and> list_all (\<lambda>c. length c < 2 ^ 64) cs
     \<and> d = encodeUint 4 (of_nat (length cs)) @ concat (map encodeBytesItem cs) @ r" (is "?L \<longleftrightarrow> ?R")
proof
  assume ?L
  then obtain alen where a: "length cs = unat alen" "list_all (\<lambda>c. length c < 2 ^ 64) cs"
    "d = encodeUint 4 alen @ concat (map encodeBytesItem cs) @ r"
    by (auto simp: readArrayLen_def readHead_exact readComponents_exact encodeUint_eq)
  then show ?R using unat_less [of alen] by simp
next
  assume R: ?R
  then have u: "unat (of_nat (length cs) :: u64) = length cs" by (simp add: unat_of_nat_small)
  let ?d = "concat (map encodeBytesItem cs) @ r"
  have "\<not> length ?d < length cs" using length_components [of cs] by (simp add: not_less)
  then show ?L
    using R u by (intro exI [of _ "of_nat (length cs)"] exI [of _ ?d])
      (simp add: readArrayLen_def readHead_exact readComponents_exact encodeUint_eq)
qed

section \<open>Records on the wire\<close>

text \<open>The octets of a record whose version and role are given at the width they have on the wire.\<close>

definition recordOctets :: "u64 \<Rightarrow> bytes \<Rightarrow> u64 \<Rightarrow> u64 \<Rightarrow> bytes list \<Rightarrow> bytes" where
  "recordOctets ver gen role alg comps =
    encodeUint 5 5
    @ encodeUint 0 1 @ encodeUint 0 ver
    @ encodeUint 0 2 @ encodeTextItem gen
    @ encodeUint 0 3 @ encodeUint 0 role
    @ encodeUint 0 4 @ encodeUint 0 alg
    @ encodeUint 0 5 @ encodeUint 4 (of_nat (length comps)) @ concat (map encodeBytesItem comps)"

lemma marshalRecord_octets:
  "marshalRecord rec = recordOctets (ucast (krFormatVersion rec)) (krGeneration rec) (ucast (krRole rec)) (krAlgorithm rec) (krComponents rec)"
  by (simp add: marshalRecord_def recordOctets_def)

lemma readField_key: "readField key rec d = Inr x \<Longrightarrow> key \<in> {1, 2, 3, 4, 5}"
  by (auto simp: readField_def split: if_splits)

lemma unmarshalEntries_bound:
  "unmarshalEntries i (Some l) seen rec d = Inr x \<Longrightarrow> 0 < i \<Longrightarrow> unat l + i \<le> 5"
proof (induction i arbitrary: l seen rec d)
  case (Suc i)
  then obtain key d' rec' d'' where k: "l < key" "readField key rec d' = Inr (rec', d'')"
    and u: "unmarshalEntries i (Some key) (insert key seen) rec' d'' = Inr x"
    by (auto simp: not_le split: if_splits)
  have "unat l < unat key" using k(1) by (simp add: word_less_nat_alt)
  moreover have "unat key \<le> 5" using readField_key [OF k(2)] by auto
  moreover have "unat key + i \<le> 5" if "0 < i" using Suc.IH [OF u that] .
  ultimately show ?case by (cases "i = 0") auto
qed simp

lemma unmarshalEntries_step:
  assumes "unat l + Suc i = 5" and "\<forall>k \<in> seen. k \<le> l"
  shows "unmarshalEntries (Suc i) (Some l) seen rec d = Inr x \<longleftrightarrow>
    (\<exists>d' rec' d''. readUint d = Inr (l + 1, d') \<and> readField (l + 1) rec d' = Inr (rec', d'')
      \<and> unmarshalEntries i (Some (l + 1)) (insert (l + 1) seen) rec' d'' = Inr x)" (is "?L \<longleftrightarrow> ?R")
proof
  assume ?L
  then obtain key d' rec' d'' where k: "l < key" "readUint d = Inr (key, d')" "readField key rec d' = Inr (rec', d'')"
    and u: "unmarshalEntries i (Some key) (insert key seen) rec' d'' = Inr x"
    by (auto simp: not_le split: if_splits)
  have "unat l < unat key" using k(1) by (simp add: word_less_nat_alt)
  moreover have "unat key \<le> 5" using readField_key [OF k(3)] by auto
  moreover have "unat key + i \<le> 5" if "0 < i" using unmarshalEntries_bound [OF u that] .
  ultimately have "unat key = unat l + 1" using assms(1) by (cases "i = 0") auto
  moreover have "unat (l + 1) = unat l + 1" using assms(1) by (simp add: unat_word_ariths)
  ultimately have "key = l + 1" by (simp add: word_unat_eq_iff)
  then show ?R using k u by blast
next
  assume R: ?R
  have "unat (l + 1) = unat l + 1" using assms(1) by (simp add: unat_word_ariths)
  then have "l < l + 1" by (simp add: word_less_nat_alt)
  then have "\<not> l + 1 \<le> l" "l + 1 \<notin> seen" using assms(2) by (auto simp: not_le)
  then show ?L using R by auto
qed

lemma unmarshalEntries_first:
  "unmarshalEntries 5 None {} rec d = Inr x \<longleftrightarrow>
    (\<exists>d' rec' d''. readUint d = Inr (1, d') \<and> readField 1 rec d' = Inr (rec', d'')
      \<and> unmarshalEntries 4 (Some 1) {1} rec' d'' = Inr x)" (is "?L \<longleftrightarrow> ?R")
proof
  have 5: "(5 :: nat) = Suc 4" by simp
  {
    assume ?L
    then obtain key d' rec' d'' where k: "readUint d = Inr (key, d')" "readField key rec d' = Inr (rec', d'')"
      and u: "unmarshalEntries 4 (Some key) {key} rec' d'' = Inr x"
      unfolding 5 by (auto simp del: Suc_numeral)
    have "unat key + 4 \<le> 5" using unmarshalEntries_bound [OF u] by simp
    moreover have "key \<in> {1, 2, 3, 4, 5}" by (rule readField_key [OF k(2)])
    ultimately have "key = 1" by auto
    then show ?R using k u by blast
  next
    assume ?R
    then show ?L unfolding 5 by (auto simp del: Suc_numeral)
  }
qed

lemma unmarshalEntries_all:
  "unmarshalEntries 5 None {} rec d = Inr (rec', r) \<longleftrightarrow>
    (\<exists>d1 r1 e1 d2 r2 e2 d3 r3 e3 d4 r4 e4 d5.
      readUint d = Inr (1, d1) \<and> readField 1 rec d1 = Inr (r1, e1) \<and>
      readUint e1 = Inr (2, d2) \<and> readField 2 r1 d2 = Inr (r2, e2) \<and>
      readUint e2 = Inr (3, d3) \<and> readField 3 r2 d3 = Inr (r3, e3) \<and>
      readUint e3 = Inr (4, d4) \<and> readField 4 r3 d4 = Inr (r4, e4) \<and>
      readUint e4 = Inr (5, d5) \<and> readField 5 r4 d5 = Inr (rec', r))"
proof -
  have n: "(4 :: nat) = Suc 3" "(3 :: nat) = Suc 2" by simp_all
  have s4: "unmarshalEntries 4 (Some 1) {1} r1 e1 = Inr x \<longleftrightarrow> (\<exists>d' rec' d''. readUint e1 = Inr (2, d')
      \<and> readField 2 r1 d' = Inr (rec', d'') \<and> unmarshalEntries 3 (Some 2) {2, 1} rec' d'' = Inr x)" for r1 e1 x
    using unmarshalEntries_step [of 1 3 "{1}" r1 e1 x] by (simp del: unmarshalEntries.simps flip: n(1))
  have s3: "unmarshalEntries 3 (Some 2) {2, 1} r1 e1 = Inr x \<longleftrightarrow> (\<exists>d' rec' d''. readUint e1 = Inr (3, d')
      \<and> readField 3 r1 d' = Inr (rec', d'') \<and> unmarshalEntries 2 (Some 3) {3, 2, 1} rec' d'' = Inr x)" for r1 e1 x
    using unmarshalEntries_step [of 2 2 "{2, 1}" r1 e1 x] by (simp del: unmarshalEntries.simps flip: n(2))
  have s2: "unmarshalEntries 2 (Some 3) {3, 2, 1} r1 e1 = Inr x \<longleftrightarrow> (\<exists>d' rec' d''. readUint e1 = Inr (4, d')
      \<and> readField 4 r1 d' = Inr (rec', d'') \<and> unmarshalEntries 1 (Some 4) {4, 3, 2, 1} rec' d'' = Inr x)" for r1 e1 x
    using unmarshalEntries_step [of 3 "Suc 0" "{3, 2, 1}" r1 e1 x]
    by (simp del: unmarshalEntries.simps flip: numeral_2_eq_2)
  have s1: "unmarshalEntries 1 (Some 4) {4, 3, 2, 1} r1 e1 = Inr x \<longleftrightarrow> (\<exists>d'. readUint e1 = Inr (5, d')
      \<and> readField 5 r1 d' = Inr x)" for r1 e1 x
    using unmarshalEntries_step [of 4 0 "{4, 3, 2, 1}" r1 e1 x] by (cases x) auto
  show ?thesis unfolding unmarshalEntries_first s4 s3 s2 s1 by blast
qed

lemma unmarshalRecord_exact:
  "unmarshalRecord data = Inr rec \<longleftrightarrow>
    (\<exists>ver role. krFormatVersion rec = ucast ver \<and> krRole rec = ucast role
      \<and> length (krGeneration rec) < 2 ^ 64 \<and> length (krComponents rec) < 2 ^ 64
      \<and> list_all (\<lambda>c. length c < 2 ^ 64) (krComponents rec)
      \<and> data = recordOctets ver (krGeneration rec) role (krAlgorithm rec) (krComponents rec))"
proof -
  have f: "readField 1 r d = Inr (r', e) \<longleftrightarrow> (\<exists>v. d = encodeUint 0 v @ e \<and> r' = r\<lparr>krFormatVersion := ucast v\<rparr>)"
    "readField 2 r d = Inr (r', e) \<longleftrightarrow> (\<exists>s. length s < 2 ^ 64 \<and> d = encodeTextItem s @ e \<and> r' = r\<lparr>krGeneration := s\<rparr>)"
    "readField 3 r d = Inr (r', e) \<longleftrightarrow> (\<exists>v. d = encodeUint 0 v @ e \<and> r' = r\<lparr>krRole := ucast v\<rparr>)"
    "readField 4 r d = Inr (r', e) \<longleftrightarrow> (\<exists>v. d = encodeUint 0 v @ e \<and> r' = r\<lparr>krAlgorithm := v\<rparr>)" for r d r' e
    by (auto simp: readField_def readUint_exact readText_exact)
  have f5: "readField 5 r d = Inr (r', e) \<longleftrightarrow> (\<exists>cs. length cs < 2 ^ 64 \<and> list_all (\<lambda>c. length c < 2 ^ 64) cs
      \<and> d = encodeUint 4 (of_nat (length cs)) @ concat (map encodeBytesItem cs) @ e \<and> r' = r\<lparr>krComponents := cs\<rparr>)" for r d r' e
  proof -
    have "readField 5 r d = Inr (r', e) \<longleftrightarrow> (\<exists>cs. (\<exists>alen d'. readArrayLen d = Inr (alen, d') \<and> \<not> length d' < unat alen
        \<and> readComponents (unat alen) d' = Inr (cs, e)) \<and> r' = r\<lparr>krComponents := cs\<rparr>)"
      by (auto simp: readField_def split: if_splits)
    then show ?thesis unfolding readArray_exact by blast
  qed
  have "unmarshalRecord data = Inr rec \<longleftrightarrow> (\<exists>d. data = encodeUint 5 5 @ d \<and> unmarshalEntries 5 None {} zeroRecord d = Inr (rec, []))"
    by (auto simp: unmarshalRecord_def readMapLen_def readHead_exact encodeUint_eq split: if_splits)
  also have "\<dots> \<longleftrightarrow> (\<exists>ver gen role alg comps. data = recordOctets ver gen role alg comps
      \<and> rec = zeroRecord\<lparr>krFormatVersion := ucast ver, krGeneration := gen, krRole := ucast role, krAlgorithm := alg, krComponents := comps\<rparr>
      \<and> length gen < 2 ^ 64 \<and> length comps < 2 ^ 64 \<and> list_all (\<lambda>c. length c < 2 ^ 64) comps)"
    unfolding unmarshalEntries_all readUint_exact f f5 recordOctets_def append_Nil2
    by (rule iffI; elim exE conjE; hypsubst; intro exI conjI; (rule refl | assumption))
  also have "\<dots> \<longleftrightarrow> (\<exists>ver role. krFormatVersion rec = ucast ver \<and> krRole rec = ucast role
      \<and> length (krGeneration rec) < 2 ^ 64 \<and> length (krComponents rec) < 2 ^ 64
      \<and> list_all (\<lambda>c. length c < 2 ^ 64) (krComponents rec)
      \<and> data = recordOctets ver (krGeneration rec) role (krAlgorithm rec) (krComponents rec))"
    by (cases rec) (auto simp: zeroRecord_def)
  finally show ?thesis .
qed

section \<open>Registered records\<close>

definition key_registered :: "KeyRecord \<Rightarrow> bool" where
  "key_registered rec = (\<not> refusedKEMGroup rec \<and> (\<exists>genReg roleReg.
    registry (krGeneration rec) = Some genReg \<and> genReg (krRole rec) = Some roleReg
    \<and> roleReg (krAlgorithm rec) = Some (map length (krComponents rec))))"

lemma checkSizes_ok: "length cs = length sizes \<Longrightarrow> checkSizes cs sizes = Inr u \<longleftrightarrow> map length cs = sizes"
  by (induction cs sizes rule: checkSizes.induct) (auto split: if_splits)

lemma validateAgainstRegistry_ok: "validateAgainstRegistry rec = Inr u \<longleftrightarrow> key_registered rec"
  by (auto simp: validateAgainstRegistry_def key_registered_def checkSizes_ok split: option.splits)

lemma registered_sizes:
  assumes "key_registered rec"
  shows "krGeneration rec = currentGeneration" and "length (krComponents rec) \<le> 2"
    and "list_all (\<lambda>c. length c \<le> 4896) (krComponents rec)"
proof -
  obtain genReg roleReg where r: "registry (krGeneration rec) = Some genReg" "genReg (krRole rec) = Some roleReg"
    "roleReg (krAlgorithm rec) = Some (map length (krComponents rec))"
    using assms by (auto simp: key_registered_def)
  then show "krGeneration rec = currentGeneration" by (auto simp: registry_def split: if_splits)
  have "map length (krComponents rec) \<in> {[64, 32], [1184, 32], [64], [2560], [4032], [4896], [32], [1312], [1952], [2592]}"
    using r by (auto simp: registry_def split: if_splits)
  then have l: "length (map length (krComponents rec)) \<le> 2" "\<forall>n \<in> set (map length (krComponents rec)). n \<le> 4896"
    by auto
  show "length (krComponents rec) \<le> 2" using l(1) by simp
  show "list_all (\<lambda>c. length c \<le> 4896) (krComponents rec)" using l(2) by (simp add: list_all_iff)
qed

text \<open>What \<open>Decode\<close> demands of a record beyond its form on the wire.\<close>

definition key_admissible :: "bytes list \<Rightarrow> KeyRecord \<Rightarrow> bool" where
  "key_admissible accepted rec = (krFormatVersion rec = CurrentFormatVersion \<and> krGeneration rec \<in> set accepted
    \<and> \<not> refusedKEMGroup rec \<and> (krGeneration rec = currentGeneration \<longrightarrow> key_registered rec))"

lemma kf_Decode_iff: "kf_Decode data accepted = Inr rec \<longleftrightarrow> unmarshalRecord data = Inr rec \<and> key_admissible accepted rec"
proof (cases "unmarshalRecord data")
  case (Inr x)
  have "kf_Decode data accepted = Inr rec \<longleftrightarrow> key_admissible accepted x \<and> x = rec"
    by (cases "accepted = []"; cases "krFormatVersion x = CurrentFormatVersion"; cases "krGeneration x \<in> set accepted";
        cases "refusedKEMGroup x"; cases "krGeneration x = currentGeneration")
      (simp_all add: kf_Decode_def Inr key_admissible_def validateAgainstRegistry_ok)
  then show ?thesis using Inr by auto
qed (simp add: kf_Decode_def)

lemma kf_Encode_iff:
  "kf_Encode rec = Inr data \<longleftrightarrow> krFormatVersion rec = CurrentFormatVersion \<and> key_registered rec \<and> data = marshalRecord rec"
  by (cases "krFormatVersion rec = CurrentFormatVersion"; cases "krGeneration rec = currentGeneration")
    (auto simp: kf_Encode_def validateAgainstRegistry_ok dest: registered_sizes(1))

lemma length_currentGeneration: "length currentGeneration = 8"
  by (simp add: currentGeneration_def ALPN_def str_def)

lemma kf_Decode_Encode:
  assumes "kf_Encode rec = Inr data" and "currentGeneration \<in> set accepted"
  shows "kf_Decode data accepted = Inr rec"
proof -
  have e: "krFormatVersion rec = CurrentFormatVersion" "key_registered rec" "data = marshalRecord rec"
    using assms(1) by (auto simp: kf_Encode_iff)
  have "list_all (\<lambda>c. length c < 2 ^ 64) (krComponents rec)" "length (krComponents rec) < 2 ^ 64"
    using registered_sizes(2,3) [OF e(2)] by (auto simp: list_all_iff)
  moreover have "(ucast (ucast (krFormatVersion rec) :: u64) :: u16) = krFormatVersion rec"
    "(ucast (ucast (krRole rec) :: u64) :: byte) = krRole rec"
    by (simp_all add: ucast_up_ucast_id is_up)
  ultimately have "unmarshalRecord data = Inr rec"
    unfolding unmarshalRecord_exact e(3) marshalRecord_octets
    using registered_sizes(1) [OF e(2)] length_currentGeneration
    by (intro exI [of _ "ucast (krFormatVersion rec)"] exI [of _ "ucast (krRole rec)"]) simp
  moreover have "key_admissible accepted rec"
    using e assms(2) registered_sizes(1) [OF e(2)] by (auto simp: key_admissible_def key_registered_def)
  ultimately show ?thesis by (simp add: kf_Decode_iff)
qed

section \<open>Properties\<close>

text \<open>
  Claim C35 (stored keys). \<open>Decode\<close> returns a record exactly when the octets are the canonical
  five-entry map of its fields, with a version and a role that narrow to those of the record, the
  version is the current one, the generation is accepted by the caller, the record is not for the
  refused KEM group, and under the current generation its algorithm is registered for its role with
  components of the registered sizes; and what \<open>Encode\<close> produces is decoded to the same record by every
  caller that accepts the current generation.
\<close>

theorem keyformat_exact:
  "(kf_Decode data accepted = Inr rec \<longleftrightarrow> key_admissible accepted rec
     \<and> length (krGeneration rec) < 2 ^ 64 \<and> length (krComponents rec) < 2 ^ 64
     \<and> list_all (\<lambda>c. length c < 2 ^ 64) (krComponents rec)
     \<and> (\<exists>ver role. krFormatVersion rec = ucast ver \<and> krRole rec = ucast role
         \<and> data = recordOctets ver (krGeneration rec) role (krAlgorithm rec) (krComponents rec)))
   \<and> (kf_Encode rec = Inr data \<and> currentGeneration \<in> set accepted \<longrightarrow> kf_Decode data accepted = Inr rec)"
  using kf_Decode_Encode by (auto simp: kf_Decode_iff unmarshalRecord_exact)

definition demo_sig_record :: KeyRecord where
  "demo_sig_record = keyRecord RoleSigPublic (ucast SigEd25519) [replicate 32 7]"

theorem keyformat_exact_witness:
  "\<exists>data. kf_Encode demo_sig_record = Inr data \<and> kf_Decode data [currentGeneration] = Inr demo_sig_record"
proof -
  have "key_registered demo_sig_record"
    by (simp add: key_registered_def refusedKEMGroup_def registry_def demo_sig_record_def keyRecord_def role_defs suite_defs)
  then have "kf_Encode demo_sig_record = Inr (marshalRecord demo_sig_record)"
    by (simp add: kf_Encode_iff) (simp add: demo_sig_record_def keyRecord_def)
  then show ?thesis
    using keyformat_exact [of "marshalRecord demo_sig_record" "[currentGeneration]" demo_sig_record] by simp
qed

text \<open>
  The narrowing is visible: a record with version \<open>2^16 + 1\<close> on the wire is accepted as version 1, so
  the accepted octets are not unique, and under a generation other than the current one an algorithm
  beyond 16 bits is returned as the KEM group that \<open>Decode\<close> refuses.
\<close>

lemma kf_Decode_narrows_version:
  assumes "key_admissible accepted rec" and "length (krGeneration rec) < 2 ^ 64"
    and "length (krComponents rec) < 2 ^ 64" and "list_all (\<lambda>c. length c < 2 ^ 64) (krComponents rec)"
  shows "kf_Decode (recordOctets 0x10001 (krGeneration rec) (ucast (krRole rec)) (krAlgorithm rec) (krComponents rec)) accepted = Inr rec"
proof -
  have v: "krFormatVersion rec = (ucast (0x10001 :: u64) :: u16)"
    using assms(1) by (simp add: key_admissible_def CurrentFormatVersion_def)
  have r: "krRole rec = (ucast (ucast (krRole rec) :: u64) :: byte)"
    by (simp add: ucast_up_ucast_id is_up)
  show ?thesis unfolding kf_Decode_iff unmarshalRecord_exact using assms v r by blast
qed

lemma DecodeKEMPrivate_refused_group:
  "DecodeKEMPrivate (recordOctets 1 [0x78] 2 0x111ed [[], []]) [[0x78]] = Inr (KEMSecP384r1MLKEM1024, [], [])"
proof -
  let ?rec = "\<lparr>krFormatVersion = 1, krGeneration = [0x78], krRole = 2, krAlgorithm = 0x111ed, krComponents = [[], []]\<rparr>"
  have ne: "[0x78] \<noteq> currentGeneration"
  proof
    assume "[0x78] = currentGeneration"
    then have "length [0x78 :: byte] = 8" using length_currentGeneration by (simp only:)
    then show False by simp
  qed
  have "key_admissible [[0x78]] ?rec"
    using ne by (simp add: key_admissible_def CurrentFormatVersion_def refusedKEMGroup_def suite_defs)
  moreover have "unmarshalRecord (recordOctets 1 [0x78] 2 0x111ed [[], []]) = Inr ?rec"
    unfolding unmarshalRecord_exact KeyRecord.simps
    by (intro exI [of _ 1] exI [of _ 2] conjI refl) simp_all
  ultimately have "kf_Decode (recordOctets 1 [0x78] 2 0x111ed [[], []]) [[0x78]] = Inr ?rec"
    by (simp only: kf_Decode_iff)
  then show ?thesis by (simp add: DecodeKEMPrivate_def decodeKEM_def role_defs suite_defs)
qed

end
