(* ===== verification/ProxyEngine.thy ===== *)
theory ProxyEngine
  imports ProxyCarriage Session
begin

text \<open>
  The proxy over a session: \<^verbatim>\<open>proxy.go\<close>, \<^verbatim>\<open>stream.go\<close>, \<^verbatim>\<open>grpc.go\<close>, \<^verbatim>\<open>websocket.go\<close> and \<^verbatim>\<open>opaque.go\<close> under
  \<^verbatim>\<open>src/impl/go/proxy\<close>. The maps of waiting calls point to channels in a store, since a caller holds its
  channel after the map entry is gone. Every operation hands at most one message to \<open>Conn.Send\<close>, so an
  operation returns the message, and where the result of the send matters, what follows is a function
  of it. The handlers of the application, the HTTP backend and the texts of error messages are
  arguments.
\<close>

section \<open>State\<close>

type_synonym message = "channel_id \<times> frame_type \<times> bytes"

abbreviation BridgeProtoMCP :: u16 where "BridgeProtoMCP \<equiv> 0x0001"
abbreviation BridgeProtoA2A :: u16 where "BridgeProtoA2A \<equiv> 0x0002"
abbreviation BridgeProtoHTTP2 :: u16 where "BridgeProtoHTTP2 \<equiv> 0x0003"
abbreviation BridgeProtoWebSocket :: u16 where "BridgeProtoWebSocket \<equiv> 0x0004"
definition grpcProtocolID :: u16 where "grpcProtocolID = 0x05"

abbreviation BridgeErrEnvelopeMalformed :: byte where "BridgeErrEnvelopeMalformed \<equiv> 1"
abbreviation BridgeErrProtocolUnsupported :: byte where "BridgeErrProtocolUnsupported \<equiv> 2"
abbreviation BridgeErrMethodUnsupported :: byte where "BridgeErrMethodUnsupported \<equiv> 3"
abbreviation BridgeErrNotDelivered :: byte where "BridgeErrNotDelivered \<equiv> 4"

record pendingReply =
  prType :: frame_type
  prEnv :: BridgeEnvelope
  prForeign :: bytes

record streamChunk =
  ckType :: frame_type
  ckControl :: streamControl
  ckEvent :: bytes
  ckErr :: "carriage_err option"

type_synonym chan_ref = nat

text \<open>
  The maps \<open>pending\<close>, \<open>streamPending\<close> and \<open>streamCancel\<close>, keyed by correlation id, the channels and flags
  they point to, and the next unused reference.
\<close>

record proxy =
  pxPending :: "bytes \<rightharpoonup> chan_ref"
  pxStreamPending :: "bytes \<rightharpoonup> chan_ref"
  pxStreamCancel :: "bytes \<rightharpoonup> chan_ref"
  pxReplies :: "chan_ref \<Rightarrow> pendingReply list"
  pxChunks :: "chan_ref \<Rightarrow> streamChunk list"
  pxFlags :: "chan_ref \<Rightarrow> bool"
  pxNext :: chan_ref

definition proxy_init :: proxy where
  "proxy_init = \<lparr>pxPending = Map.empty, pxStreamPending = Map.empty, pxStreamCancel = Map.empty,
     pxReplies = (\<lambda>_. []), pxChunks = (\<lambda>_. []), pxFlags = (\<lambda>_. False), pxNext = 0\<rparr>"

definition replyCap :: nat where "replyCap = 1"
definition dataCap :: nat where "dataCap = 32"

text \<open>The requests that reach the HTTP backend, and how it can fail.\<close>

record http_request =
  rqMethod :: bytes
  rqPath :: bytes
  rqRawQuery :: bytes
  rqHeader :: http_header
  rqBody :: bytes

datatype http_fault = BadRequest bytes | DoFailed bytes | BodyFailed bytes

text \<open>Why a request is answered with an error; \<open>errText\<close> of the configuration is its text.\<close>

datatype refusal = NoHTTPBackend | NoGRPCBackend | NoWebSocketBackend | NoOpaqueBackend
  | ProtocolNotCarried u16 | CannotResume | Malformed carriage_err | RoutingKeyDisagrees
  | HandlerFailed bytes | BackendFailed http_fault

record proxy_cfg =
  Backend :: "(http_request \<Rightarrow> http_fault + int \<times> http_header \<times> bytes) option"
  url_Parse :: "bytes \<Rightarrow> (bytes \<times> bytes) option"
  GRPCHandler :: "(bytes \<Rightarrow> bytes \<Rightarrow> bytes + bytes) option"
  WebSocketHandler :: "(bytes \<Rightarrow> bytes + bytes list) option"
  OpaqueProtocolID :: u16
  OpaqueHandler :: "(bytes \<Rightarrow> bytes \<Rightarrow> bytes + bytes \<times> bytes) option"
  errText :: "refusal \<Rightarrow> bytes"

datatype proxy_err = ErrNoConn | ErrOpaqueProtocolIDUnset | CarriageFault carriage_err
  | PeerReported BridgeTransportError | MalformedBridgeError bridge_err | CarryFailed sdk_err
  | CtxDone | EventCount nat

section \<open>Replies\<close>

text \<open>
  \<open>deliverReply\<close>: the waiter leaves the map and gets the reply. \<open>None\<close> is a send on a full channel, which
  would block the receive loop.
\<close>

definition deliverReply :: "frame_type \<Rightarrow> bytes \<Rightarrow> proxy \<Rightarrow> proxy option" where
  "deliverReply ft payload p =
    (case DecodeBridgeFrame ft payload of
       Inl _ \<Rightarrow> Some p
     | Inr frame \<Rightarrow>
         let key = bCorrelationID (bEnvelope frame) in
         (case pxPending p key of
            None \<Rightarrow> Some p
          | Some waiter \<Rightarrow>
              if length (pxReplies p waiter) < replyCap then
                Some (p\<lparr>pxPending := (pxPending p)(key := None),
                  pxReplies := (pxReplies p)(waiter := pxReplies p waiter
                    @ [\<lparr>prType = ft, prEnv = bEnvelope frame, prForeign = bForeign frame\<rparr>])\<rparr>)
              else None))"

definition decodeTransportErrorReply :: "bytes \<Rightarrow> proxy_err" where
  "decodeTransportErrorReply foreign =
    (case DecodeBridgeTransportError foreign of Inl e \<Rightarrow> MalformedBridgeError e | Inr te \<Rightarrow> PeerReported te)"

definition replyEnvelope :: "u16 \<Rightarrow> byte \<Rightarrow> byte \<Rightarrow> bytes \<Rightarrow> BridgeEnvelope" where
  "replyEnvelope protocol kind contentType corrID =
    \<lparr>bProtocol = protocol, bKind = kind, bContentType = contentType, bFlags = 0, bCorrelationID = corrID, bMethod = []\<rparr>"

definition sendBridgeError :: "u16 \<Rightarrow> bytes \<Rightarrow> byte \<Rightarrow> bytes \<Rightarrow> bridge_err + message" where
  "sendBridgeError protocol corrID code msg =
    (let msg = (if length msg > 255 then take 255 msg else msg) in
     rbind (EncodeBridgeTransportError \<lparr>bCode = code, bMessage = msg\<rparr>) (\<lambda>foreign.
     rbind (EncodeBridgePayload (replyEnvelope protocol BridgeKindError BridgeContentCBOR corrID) None foreign) (\<lambda>wire.
     Inr (ChanBridge, FrameBridgeError, wire))))"

text \<open>Registering a waiter for a reply, and the closure \<open>cleanup\<close> of the calls.\<close>

definition registerReply :: "bytes \<Rightarrow> proxy \<Rightarrow> proxy \<times> chan_ref" where
  "registerReply key p =
    (let ref = pxNext p in
     (p\<lparr>pxPending := (pxPending p)(key \<mapsto> ref), pxReplies := (pxReplies p)(ref := []), pxNext := ref + 1\<rparr>, ref))"

definition cleanupReply :: "bytes \<Rightarrow> proxy \<Rightarrow> proxy" where
  "cleanupReply key p = p\<lparr>pxPending := (pxPending p)(key := None)\<rparr>"

section \<open>Streams\<close>

datatype streamCarriageClass = grpcStreamClass | websocketStreamClass

definition streamContentType :: "streamCarriageClass \<Rightarrow> byte" where
  "streamContentType class = (if class = grpcStreamClass then BridgeContentGRPCProto else BridgeContentCBOR)"

subsection \<open>The consumer\<close>

definition openRegister :: "bytes \<Rightarrow> proxy \<Rightarrow> proxy \<times> chan_ref \<times> chan_ref" where
  "openRegister key p =
    (let errCh = pxNext p; dataCh = pxNext p + 1 in
     (p\<lparr>pxPending := (pxPending p)(key \<mapsto> errCh), pxReplies := (pxReplies p)(errCh := []),
        pxStreamPending := (pxStreamPending p)(key \<mapsto> dataCh), pxChunks := (pxChunks p)(dataCh := []),
        pxNext := dataCh + 1\<rparr>, errCh, dataCh))"

definition cleanupStream :: "bytes \<Rightarrow> proxy \<Rightarrow> proxy" where
  "cleanupStream key p =
    p\<lparr>pxPending := (pxPending p)(key := None), pxStreamPending := (pxStreamPending p)(key := None)\<rparr>"

text \<open>\<open>openConsumerStream\<close> up to its send; when the send fails, \<open>cleanupStream\<close> follows.\<close>

definition openConsumerStream ::
  "u16 \<Rightarrow> byte \<Rightarrow> bytes \<Rightarrow> bytes \<Rightarrow> bytes \<Rightarrow> proxy \<Rightarrow> proxy \<times> chan_ref \<times> chan_ref \<times> (bridge_err + message)" where
  "openConsumerStream protocol contentType method event corrID p =
    (case openRegister corrID p of
       (p, errCh, dataCh) \<Rightarrow>
         let env = \<lparr>bProtocol = protocol, bKind = BridgeKindRequest, bContentType = contentType, bFlags = 0,
                    bCorrelationID = corrID, bMethod = method\<rparr> in
         (p, errCh, dataCh,
          rbind (EncodeBridgePayload env None event) (\<lambda>payload. Inr (ChanBridge, FrameBridgeRequest, payload))))"

text \<open>One round of the loop of \<open>collectStream\<close> on a chunk: the loop goes on, or the call returns.\<close>

record collect =
  coTracker :: streamEventTracker
  coEvents :: "bytes list"

definition newCollect :: collect where
  "newCollect = \<lparr>coTracker = newTracker, coEvents = []\<rparr>"

definition collectChunk :: "collect \<Rightarrow> streamChunk \<Rightarrow> collect + (proxy_err + bytes list)" where
  "collectChunk c chunk =
    (case ckErr chunk of
       Some e \<Rightarrow> Inr (Inl (CarriageFault e))
     | None \<Rightarrow>
         (case tracker_accept (coTracker c) (scEventID (ckControl chunk)) of
            Inl e \<Rightarrow> Inr (Inl (CarriageFault e))
          | Inr t \<Rightarrow>
              if ckType chunk = FrameBridgeStreamEnd then Inr (Inr (coEvents c))
              else Inl \<lparr>coTracker = t, coEvents = coEvents c @ [ckEvent chunk]\<rparr>))"

definition decodeStreamOpenErrorReply :: "pendingReply \<Rightarrow> proxy_err" where
  "decodeStreamOpenErrorReply reply = decodeTransportErrorReply (prForeign reply)"

text \<open>What \<open>CallGRPCUnary\<close> makes of the events; \<open>CallWebSocketMessage\<close> returns them as they are.\<close>

definition grpcUnaryResult :: "proxy_err + bytes list \<Rightarrow> proxy_err + bytes" where
  "grpcUnaryResult r =
    rbind r (\<lambda>events.
    if length events \<noteq> 1 then Inl (EventCount (length events))
    else rbind (map_err CarriageFault (decodeGRPCLengthPrefixedMessage (events ! 0))) (\<lambda>(_, msg). Inr msg))"

definition CallGRPCUnary :: "bytes \<Rightarrow> bytes \<Rightarrow> bytes \<Rightarrow> proxy \<Rightarrow> proxy \<times> chan_ref \<times> chan_ref \<times> (bridge_err + message)" where
  "CallGRPCUnary method req corrID p =
    openConsumerStream grpcProtocolID BridgeContentGRPCProto method (encodeGRPCLengthPrefixedMessage False req) corrID p"

definition CallWebSocketMessage :: "bytes \<Rightarrow> bytes \<Rightarrow> proxy \<Rightarrow> proxy \<times> chan_ref \<times> chan_ref \<times> (bridge_err + message)" where
  "CallWebSocketMessage msg corrID p =
    openConsumerStream BridgeProtoWebSocket (streamContentType websocketStreamClass) [] msg corrID p"

subsection \<open>Frames of a stream in the receive loop\<close>

definition noControl :: streamControl where
  "noControl = \<lparr>scControl = 0, scFlags = 0, scEventID = 0\<rparr>"

definition handleInboundStreamFrame :: "frame_type \<Rightarrow> bytes \<Rightarrow> proxy \<Rightarrow> proxy" where
  "handleInboundStreamFrame ft payload p =
    (case DecodeBridgeFrame ft payload of
       Inl _ \<Rightarrow> p
     | Inr frame \<Rightarrow>
         let key = bCorrelationID (bEnvelope frame); sc = decodeLeadingStreamControl (bForeign frame) in
         (case pxStreamPending p key of
            Some waiter \<Rightarrow>
              let chunk = (case sc of
                  Inl e \<Rightarrow> \<lparr>ckType = ft, ckControl = noControl, ckEvent = [], ckErr = Some e\<rparr>
                | Inr (c, event) \<Rightarrow> \<lparr>ckType = ft, ckControl = c, ckEvent = event, ckErr = None\<rparr>) in
              if length (pxChunks p waiter) < dataCap
              then p\<lparr>pxChunks := (pxChunks p)(waiter := pxChunks p waiter @ [chunk])\<rparr>
              else p
          | None \<Rightarrow>
              (case (pxStreamCancel p key, sc) of
                 (Some flag, Inr (c, event)) \<Rightarrow>
                   if ft = FrameBridgeStreamEnd \<and> scControl c = streamControlCancel
                   then p\<lparr>pxFlags := (pxFlags p)(flag := True)\<rparr>
                   else p
               | _ \<Rightarrow> p)))"
subsection \<open>The producer\<close>

text \<open>
  Goroutines of the proxy. \<open>handleInboundStreamRequest\<close> runs in three stages, since the receive loop can
  set its cancel flag in between: up to the registration of the flag, the handler (\<open>TaskHandle\<close>), and
  one emission at a time (\<open>TaskEmit\<close>, with the events that are left and the next event id). A stage
  yields the message that it sends, if any, and what remains as a function of the success of the send.
\<close>

datatype ptask =
    TaskRequest bytes
  | TaskNotify bytes
  | TaskJSONRPC BridgeFrame
  | TaskHandle BridgeFrame streamCarriageClass chan_ref
  | TaskEmit u16 bytes streamCarriageClass chan_ref "bytes list" u64

type_synonym stage = "(bridge_err + message) option \<times> (bool \<Rightarrow> proxy \<times> ptask option)"

definition replyAndEnd :: "bridge_err + message \<Rightarrow> proxy \<Rightarrow> stage" where
  "replyAndEnd m p = (Some m, \<lambda>_. (p, None))"

definition registerCancel :: "bytes \<Rightarrow> proxy \<Rightarrow> proxy \<times> chan_ref" where
  "registerCancel key p =
    (let ref = pxNext p in
     (p\<lparr>pxStreamCancel := (pxStreamCancel p)(key \<mapsto> ref), pxFlags := (pxFlags p)(ref := False), pxNext := ref + 1\<rparr>, ref))"

definition unregisterCancel :: "bytes \<Rightarrow> proxy \<Rightarrow> proxy" where
  "unregisterCancel key p = p\<lparr>pxStreamCancel := (pxStreamCancel p)(key := None)\<rparr>"

definition handleInboundStreamRequest :: "proxy_cfg \<Rightarrow> BridgeFrame \<Rightarrow> streamCarriageClass \<Rightarrow> proxy \<Rightarrow> stage" where
  "handleInboundStreamRequest cfg frame class p =
    (let protocol = bProtocol (bEnvelope frame); corrID = bCorrelationID (bEnvelope frame) in
     if (case decodeLeadingStreamControl (bForeign frame) of Inl _ \<Rightarrow> False | Inr (sc, _) \<Rightarrow> scControl sc = streamControlResume)
     then replyAndEnd (sendBridgeError protocol corrID BridgeErrNotResumable (errText cfg CannotResume)) p
     else case registerCancel corrID p of (p, flag) \<Rightarrow> (None, \<lambda>_. (p, Some (TaskHandle frame class flag))))"

text \<open>The call of the handler: the code and the reason of a refusal, or the events.\<close>

definition streamEvents :: "proxy_cfg \<Rightarrow> BridgeFrame \<Rightarrow> streamCarriageClass \<Rightarrow> byte \<times> refusal + bytes list" where
  "streamEvents cfg frame class =
    (case class of
       grpcStreamClass \<Rightarrow>
         (case GRPCHandler cfg of
            None \<Rightarrow> Inl (BridgeErrMethodUnsupported, NoGRPCBackend)
          | Some handler \<Rightarrow>
              (case decodeGRPCLengthPrefixedMessage (bForeign frame) of
                 Inl e \<Rightarrow> Inl (BridgeErrEnvelopeMalformed, Malformed e)
               | Inr (_, reqMsg) \<Rightarrow>
                   (case handler (bMethod (bEnvelope frame)) reqMsg of
                      Inl err \<Rightarrow> Inl (BridgeErrNotDelivered, HandlerFailed err)
                    | Inr resp \<Rightarrow> Inr [encodeGRPCLengthPrefixedMessage False resp])))
     | websocketStreamClass \<Rightarrow>
         (case WebSocketHandler cfg of
            None \<Rightarrow> Inl (BridgeErrMethodUnsupported, NoWebSocketBackend)
          | Some handler \<Rightarrow>
              (case handler (bForeign frame) of
                 Inl err \<Rightarrow> Inl (BridgeErrNotDelivered, HandlerFailed err)
               | Inr resp \<Rightarrow> Inr resp)))"

definition runStreamHandler :: "proxy_cfg \<Rightarrow> BridgeFrame \<Rightarrow> streamCarriageClass \<Rightarrow> chan_ref \<Rightarrow> proxy \<Rightarrow> stage" where
  "runStreamHandler cfg frame class flag p =
    (let protocol = bProtocol (bEnvelope frame); corrID = bCorrelationID (bEnvelope frame) in
     case streamEvents cfg frame class of
       Inl (code, why) \<Rightarrow> replyAndEnd (sendBridgeError protocol corrID code (errText cfg why)) (unregisterCancel corrID p)
     | Inr events \<Rightarrow> (None, \<lambda>_. (p, Some (TaskEmit protocol corrID class flag events 1))))"

definition streamDataMessage :: "u16 \<Rightarrow> bytes \<Rightarrow> streamCarriageClass \<Rightarrow> u64 \<Rightarrow> bytes \<Rightarrow> bridge_err + message" where
  "streamDataMessage protocol corrID class eventID ev =
    rbind (encodeStreamFrame (replyEnvelope protocol BridgeKindStreamData (streamContentType class) corrID)
        \<lparr>scControl = streamControlData, scFlags = 0, scEventID = eventID\<rparr> ev) (\<lambda>payload.
    Inr (ChanBridge, FrameBridgeStreamData, payload))"

definition streamEndMessage :: "u16 \<Rightarrow> bytes \<Rightarrow> streamCarriageClass \<Rightarrow> u64 \<Rightarrow> bool \<Rightarrow> bridge_err + message" where
  "streamEndMessage protocol corrID class eventID cancelled =
    rbind (encodeStreamFrame ((replyEnvelope protocol BridgeKindStreamEnd (streamContentType class) corrID)\<lparr>bFlags := BridgeFlagFinal\<rparr>)
        \<lparr>scControl = streamControlData, scFlags = (if cancelled then 0 OR streamFlagCancelAck else 0), scEventID = eventID\<rparr> []) (\<lambda>payload.
    Inr (ChanBridge, FrameBridgeStreamEnd, payload))"

definition emitStream :: "u16 \<Rightarrow> bytes \<Rightarrow> streamCarriageClass \<Rightarrow> chan_ref \<Rightarrow> bytes list \<Rightarrow> u64 \<Rightarrow> proxy \<Rightarrow> stage" where
  "emitStream protocol corrID class flag events eventID p =
    (if events = [] \<or> pxFlags p flag then
       replyAndEnd (streamEndMessage protocol corrID class eventID (pxFlags p flag)) (unregisterCancel corrID p)
     else
       (Some (streamDataMessage protocol corrID class eventID (hd events)),
        \<lambda>ok. if ok then (p, Some (TaskEmit protocol corrID class flag (tl events) (eventID + 1)))
             else (unregisterCancel corrID p, None)))"

section \<open>Opaque requests\<close>

definition CallOpaque :: "proxy_cfg \<Rightarrow> bytes \<Rightarrow> bytes \<Rightarrow> bytes \<Rightarrow> proxy \<Rightarrow> proxy_err + proxy \<times> chan_ref \<times> message" where
  "CallOpaque cfg mediaType raw corrID p =
    (if OpaqueProtocolID cfg = 0 then Inl ErrOpaqueProtocolIDUnset
     else
       let env = replyEnvelope (OpaqueProtocolID cfg) BridgeKindRequest 0 corrID in
       rbind (map_err CarriageFault (encodeOpaquePayload env mediaType raw)) (\<lambda>wire.
       case registerReply corrID p of (p, replyCh) \<Rightarrow> Inr (p, replyCh, (ChanBridge, FrameBridgeRequest, wire))))"

definition decodeOpaqueReply :: "pendingReply \<Rightarrow> proxy_err + bytes \<times> bytes" where
  "decodeOpaqueReply reply =
    (if prType reply = FrameBridgeError then Inl (decodeTransportErrorReply (prForeign reply))
     else map_err CarriageFault (decodeOpaquePayload (prEnv reply) (prForeign reply)))"

definition handleInboundOpaqueRequest :: "proxy_cfg \<Rightarrow> BridgeFrame \<Rightarrow> bridge_err + message" where
  "handleInboundOpaqueRequest cfg frame =
    (let protocol = bProtocol (bEnvelope frame); corrID = bCorrelationID (bEnvelope frame);
         refuse = (\<lambda>code why. sendBridgeError protocol corrID code (errText cfg why)) in
     case OpaqueHandler cfg of
       None \<Rightarrow> refuse BridgeErrMethodUnsupported NoOpaqueBackend
     | Some handler \<Rightarrow>
         (case decodeOpaquePayload (bEnvelope frame) (bForeign frame) of
            Inl e \<Rightarrow> refuse BridgeErrEnvelopeMalformed (Malformed e)
          | Inr (mediaType, raw) \<Rightarrow>
              (case handler mediaType raw of
                 Inl err \<Rightarrow> refuse BridgeErrNotDelivered (HandlerFailed err)
               | Inr (replyMediaType, resp) \<Rightarrow>
                   (case encodeOpaquePayload (replyEnvelope protocol BridgeKindResponse 0 corrID) replyMediaType resp of
                      Inl (CarriageBridge e) \<Rightarrow> Inl e
                    | Inl e \<Rightarrow> refuse BridgeErrNotDelivered (Malformed e)
                    | Inr wire \<Rightarrow> Inr (ChanBridge, FrameBridgeResponse, wire)))))"

section \<open>HTTP requests\<close>

definition targetOf :: "http_request \<Rightarrow> bytes" where
  "targetOf r = rqPath r @ (if rqRawQuery r \<noteq> [] then [0x3F] @ rqRawQuery r else [])"

text \<open>\<open>ServeHTTP\<close> up to its send: the waiter is registered before the payload is built.\<close>

definition ServeHTTP :: "http_request \<Rightarrow> bytes \<Rightarrow> proxy \<Rightarrow> proxy \<times> chan_ref \<times> (bridge_err + message)" where
  "ServeHTTP r corrID p =
    (case registerReply corrID p of
       (p, replyCh) \<Rightarrow>
         let target = targetOf r;
             env = \<lparr>bProtocol = BridgeProtoHTTP2, bKind = BridgeKindRequest, bContentType = BridgeContentCBOR, bFlags = 0,
                    bCorrelationID = corrID, bMethod = rqMethod r @ [0x20] @ target\<rparr>;
             obj = encodeHTTPCarriageRequest (rqMethod r) target (rqHeader r) (rqBody r) in
         (p, replyCh, rbind (EncodeBridgePayload env None obj) (\<lambda>wire. Inr (ChanBridge, FrameBridgeRequest, wire))))"

text \<open>What \<open>ServeHTTP\<close> writes for a reply: status, header and body, or the error behind the status 502.\<close>

definition writeReply :: "pendingReply \<Rightarrow> proxy_err + int \<times> http_header \<times> bytes" where
  "writeReply reply =
    (if prType reply = FrameBridgeError then Inl (decodeTransportErrorReply (prForeign reply))
     else rbind (map_err CarriageFault (decodeHTTPCarriageObject (prForeign reply) httpKindResponse)) (\<lambda>obj.
       Inr (hoStatus obj, toHTTPHeader (hoHeaders obj), hoBody obj)))"

definition backendRequest :: "proxy_cfg \<Rightarrow> httpCarriageObject \<Rightarrow> http_request" where
  "backendRequest cfg obj =
    (let (path, query) = (case url_Parse cfg (hoTarget obj) of Some u \<Rightarrow> u | None \<Rightarrow> (hoTarget obj, [])) in
     \<lparr>rqMethod = hoMethod obj, rqPath = path, rqRawQuery = query, rqHeader = toHTTPHeader (hoHeaders obj), rqBody = hoBody obj\<rparr>)"

definition backendErrorCode :: "http_fault \<Rightarrow> byte" where
  "backendErrorCode e = (case e of BadRequest _ \<Rightarrow> BridgeErrEnvelopeMalformed | _ \<Rightarrow> BridgeErrNotDelivered)"

definition handleInboundHTTPRequest :: "proxy_cfg \<Rightarrow> BridgeFrame \<Rightarrow> bridge_err + message" where
  "handleInboundHTTPRequest cfg frame =
    (let corrID = bCorrelationID (bEnvelope frame); method = bMethod (bEnvelope frame);
         refuse = (\<lambda>code why. sendBridgeError BridgeProtoHTTP2 corrID code (errText cfg why)) in
     case Backend cfg of
       None \<Rightarrow> refuse BridgeErrMethodUnsupported NoHTTPBackend
     | Some backend \<Rightarrow>
         (case decodeHTTPCarriageObject (bForeign frame) httpKindRequest of
            Inl e \<Rightarrow> refuse BridgeErrEnvelopeMalformed (Malformed e)
          | Inr obj \<Rightarrow>
              if length method > 0 \<and> method \<noteq> hoMethod obj @ [0x20] @ hoTarget obj
              then refuse BridgeErrEnvelopeMalformed RoutingKeyDisagrees
              else (case backend (backendRequest cfg obj) of
                      Inl e \<Rightarrow> refuse (backendErrorCode e) (BackendFailed e)
                    | Inr (status, hdr, body) \<Rightarrow>
                        rbind (EncodeBridgePayload (replyEnvelope BridgeProtoHTTP2 BridgeKindResponse BridgeContentCBOR corrID) None
                          (encodeHTTPCarriageResponse status hdr body)) (\<lambda>wire.
                        Inr (ChanBridge, FrameBridgeResponse, wire)))))"

section \<open>Dispatch\<close>

definition handleInboundBridgeRequest :: "proxy_cfg \<Rightarrow> bytes \<Rightarrow> proxy \<Rightarrow> stage" where
  "handleInboundBridgeRequest cfg payload p =
    (case DecodeBridgeFrame FrameBridgeRequest payload of
       Inl _ \<Rightarrow> (None, \<lambda>_. (p, None))
     | Inr frame \<Rightarrow>
         let protocol = bProtocol (bEnvelope frame) in
         if protocol = BridgeProtoHTTP2 then replyAndEnd (handleInboundHTTPRequest cfg frame) p
         else if protocol = BridgeProtoMCP \<or> protocol = BridgeProtoA2A then (None, \<lambda>_. (p, Some (TaskJSONRPC frame)))
         else if protocol = BridgeProtoWebSocket then handleInboundStreamRequest cfg frame websocketStreamClass p
         else if protocol = grpcProtocolID then handleInboundStreamRequest cfg frame grpcStreamClass p
         else if OpaqueProtocolID cfg \<noteq> 0 \<and> protocol = OpaqueProtocolID cfg then replyAndEnd (handleInboundOpaqueRequest cfg frame) p
         else replyAndEnd (sendBridgeError protocol (bCorrelationID (bEnvelope frame)) BridgeErrProtocolUnsupported
                (errText cfg (ProtocolNotCarried protocol))) p)"

text \<open>One round of \<open>Run\<close> on a received message: the new state and the goroutines started.\<close>

definition runDispatch :: "message \<Rightarrow> proxy \<Rightarrow> (proxy \<times> ptask list) option" where
  "runDispatch m p =
    (case m of (ch, ft, payload) \<Rightarrow>
       if ch \<noteq> ChanBridge then Some (p, [])
       else if ft = FrameBridgeRequest then Some (p, [TaskRequest payload])
       else if ft = FrameBridgeResponse \<or> ft = FrameBridgeError then map_option (\<lambda>p. (p, [])) (deliverReply ft payload p)
       else if ft = FrameBridgeNotify then Some (p, [TaskNotify payload])
       else if ft = FrameBridgeStreamData \<or> ft = FrameBridgeStreamEnd then Some (handleInboundStreamFrame ft payload p, [])
       else Some (p, []))"

section \<open>Messages and their keys\<close>

lemma decode_corr:
  assumes "DecodeBridgeFrame ft wire = Inr f"
  shows "length (bCorrelationID (bEnvelope f)) \<le> 255" "ft \<noteq> FrameBridgeNotify \<Longrightarrow> bCorrelationID (bEnvelope f) \<noteq> []"
  using assms
  by (auto simp: DecodeBridgeFrame_def ValidateBridgePayload_encodes EncodeBridgeFrame_def encodeEnvelopeValue_def bridge_ok_def
      split: if_splits)

lemma decode_envelope:
  assumes "EncodeBridgePayload env None foreign = Inr wire" and "DecodeBridgeFrame ft wire = Inr f"
  shows "bEnvelope f = env"
proof -
  from assms(1) obtain ev where ev: "encodeEnvelopeValue env = Inr ev"
      and wire: "wire = tlv_Encode \<lparr>tType = TLVBridgeEnvelope, tValue = ev\<rparr> @ foreign"
    by (auto simp: EncodeBridgePayload_def EncodeBridgeFrame_iff)
  from ev have "decodeEnvelopeValue ev = Inr env" by (simp add: envelope_value)
  with assms(2) show ?thesis
    by (simp add: DecodeBridgeFrame_def wire ValidateBridgePayload_front [OF encodeEnvelopeValue_size [OF ev]])
qed

lemma decode_payload:
  assumes "EncodeBridgePayload env None foreign = Inr wire" and "bridgeFrameKind ft = Some (bKind env)"
    and "bCorrelationID env \<noteq> []" and "ft \<noteq> FrameBridgeNotify" and "\<not> label_like foreign"
  shows "DecodeBridgeFrame ft wire = Inr \<lparr>bEnvelope = env, bSafety = None, bForeign = foreign\<rparr>"
  using assms by (simp add: DecodeBridgeFrame_def ValidateBridgePayload_encodes EncodeBridgePayload_def bridge_ok_def)

lemma encode_payload:
  assumes "length (bCorrelationID env) \<le> 255" and "length (bMethod env) \<le> 255"
  obtains wire where "EncodeBridgePayload env None foreign = Inr wire"
  using assms by (auto simp: EncodeBridgePayload_def EncodeBridgeFrame_def encodeEnvelopeValue_def)

lemma not_label_like: "a \<noteq> 0 \<Longrightarrow> \<not> label_like (a # xs)"
proof
  assume a: "a \<noteq> 0" "label_like (a # xs)"
  then obtain b ys where xs: "xs = b # ys" by (cases xs) (auto simp: label_like_def)
  with a have "get_u16 [a, b] = TLVSafetyLabel" by (simp add: label_like_def gslice_def)
  then have "put_u16 TLVSafetyLabel = [a, b]" using put_get_uN(1) [of "[a, b]"] by simp
  with a(1) show False by (simp add: put_uN_eval TLVSafetyLabel_def)
qed

lemma not_label_like_stream: "\<not> label_like (tlv_Encode \<lparr>tType = TLVStreamControl, tValue = v\<rparr> @ event)"
  by (simp add: label_like_def tlv_Encode_def put_uN_eval gslice_def get_u16_def get_be_def TLVStreamControl_def TLVSafetyLabel_def)

lemma EncodeCanonicalCBOR_map: "EncodeCanonicalCBOR (GMapU m) = encodeHead 5 (of_nat (length m)) @ concat (map (\<lambda>(ke, k, v). ke @ cborEncode v) (newCBORMapU m))"
  by (simp add: EncodeCanonicalCBOR_def)

lemma not_label_like_map: "\<not> label_like (EncodeCanonicalCBOR (GMapU m))"
proof -
  have "bit (160 OR ucast n :: byte) 7" for n :: u64 by (simp add: bit_or_iff)
  then have "160 OR ucast n \<noteq> (0 :: byte)" for n :: u64 by (metis bit_0_eq bot_apply bot_bool_def)
  then have "\<exists>a xs. encodeHead 5 n = a # xs \<and> a \<noteq> 0" for n
    by (auto simp: encodeHead_def)
  then obtain a xs where "encodeHead 5 (of_nat (length m)) = a # xs" "a \<noteq> 0" by blast
  then show ?thesis using not_label_like by (simp add: EncodeCanonicalCBOR_map)
qed

section \<open>What a request is answered with\<close>

text \<open>
  The specification of the egress side: the messages that answer a decoded request when nothing is
  cancelled and every send succeeds, as one function of the request.
\<close>

definition msg_list :: "bridge_err + message \<Rightarrow> message list" where
  "msg_list r = (case r of Inl _ \<Rightarrow> [] | Inr m \<Rightarrow> [m])"

fun streamMessages :: "u16 \<Rightarrow> bytes \<Rightarrow> streamCarriageClass \<Rightarrow> u64 \<Rightarrow> bytes list \<Rightarrow> message list" where
  "streamMessages protocol corrID class eid [] = msg_list (streamEndMessage protocol corrID class eid False)"
| "streamMessages protocol corrID class eid (ev # evs) =
    msg_list (streamDataMessage protocol corrID class eid ev) @ streamMessages protocol corrID class (eid + 1) evs"

definition handlerMessages :: "proxy_cfg \<Rightarrow> BridgeFrame \<Rightarrow> streamCarriageClass \<Rightarrow> message list" where
  "handlerMessages cfg frame class =
    (let protocol = bProtocol (bEnvelope frame); corrID = bCorrelationID (bEnvelope frame) in
     case streamEvents cfg frame class of
       Inl (code, why) \<Rightarrow> msg_list (sendBridgeError protocol corrID code (errText cfg why))
     | Inr events \<Rightarrow> streamMessages protocol corrID class 1 events)"

definition resumes :: "BridgeFrame \<Rightarrow> bool" where
  "resumes frame = (case decodeLeadingStreamControl (bForeign frame) of Inl _ \<Rightarrow> False | Inr (sc, _) \<Rightarrow> scControl sc = streamControlResume)"

definition serveStream :: "proxy_cfg \<Rightarrow> BridgeFrame \<Rightarrow> streamCarriageClass \<Rightarrow> message list" where
  "serveStream cfg frame class =
    (if resumes frame
     then msg_list (sendBridgeError (bProtocol (bEnvelope frame)) (bCorrelationID (bEnvelope frame)) BridgeErrNotResumable (errText cfg CannotResume))
     else handlerMessages cfg frame class)"

definition serve :: "proxy_cfg \<Rightarrow> BridgeFrame \<Rightarrow> message list" where
  "serve cfg frame =
    (let protocol = bProtocol (bEnvelope frame) in
     if protocol = BridgeProtoHTTP2 then msg_list (handleInboundHTTPRequest cfg frame)
     else if protocol = BridgeProtoMCP \<or> protocol = BridgeProtoA2A then []
     else if protocol = BridgeProtoWebSocket then serveStream cfg frame websocketStreamClass
     else if protocol = grpcProtocolID then serveStream cfg frame grpcStreamClass
     else if OpaqueProtocolID cfg \<noteq> 0 \<and> protocol = OpaqueProtocolID cfg then msg_list (handleInboundOpaqueRequest cfg frame)
     else msg_list (sendBridgeError protocol (bCorrelationID (bEnvelope frame)) BridgeErrProtocolUnsupported
            (errText cfg (ProtocolNotCarried protocol))))"

text \<open>A round of a goroutine, what it still has to send, and the request it belongs to.\<close>

fun proxyTask :: "proxy_cfg \<Rightarrow> ptask \<Rightarrow> proxy \<Rightarrow> stage option" where
  "proxyTask cfg (TaskRequest payload) p = Some (handleInboundBridgeRequest cfg payload p)"
| "proxyTask cfg (TaskHandle frame class flag) p = Some (runStreamHandler cfg frame class flag p)"
| "proxyTask cfg (TaskEmit protocol corrID class flag events eid) p = Some (emitStream protocol corrID class flag events eid p)"
| "proxyTask cfg _ p = None"

fun remaining :: "proxy_cfg \<Rightarrow> ptask \<Rightarrow> message list" where
  "remaining cfg (TaskRequest payload) = (case DecodeBridgeFrame FrameBridgeRequest payload of Inl _ \<Rightarrow> [] | Inr frame \<Rightarrow> serve cfg frame)"
| "remaining cfg (TaskHandle frame class flag) = handlerMessages cfg frame class"
| "remaining cfg (TaskEmit protocol corrID class flag events eid) = streamMessages protocol corrID class eid events"
| "remaining cfg _ = []"

definition decodedKey :: "frame_type \<Rightarrow> bytes \<Rightarrow> bytes option" where
  "decodedKey ft payload = (case DecodeBridgeFrame ft payload of Inl _ \<Rightarrow> None | Inr f \<Rightarrow> Some (bCorrelationID (bEnvelope f)))"

fun taskKey :: "ptask \<Rightarrow> bytes option" where
  "taskKey (TaskRequest payload) = decodedKey FrameBridgeRequest payload"
| "taskKey (TaskNotify payload) = None"
| "taskKey (TaskJSONRPC frame) = Some (bCorrelationID (bEnvelope frame))"
| "taskKey (TaskHandle frame class flag) = Some (bCorrelationID (bEnvelope frame))"
| "taskKey (TaskEmit protocol corrID class flag events eid) = Some corrID"

definition key_ok :: "bytes \<Rightarrow> bool" where
  "key_ok k \<longleftrightarrow> k \<noteq> [] \<and> length k \<le> 255"

lemma decodedKey_ok: "decodedKey ft payload = Some k \<Longrightarrow> ft \<noteq> FrameBridgeNotify \<Longrightarrow> key_ok k"
  using decode_corr by (auto simp: decodedKey_def key_ok_def split: sum.splits)

subsection \<open>No goroutine panics\<close>

lemma sendBridgeError_ok:
  assumes "key_ok k" and "code \<noteq> 0"
  obtains wire where "sendBridgeError protocol k code msg = Inr (ChanBridge, FrameBridgeError, wire)"
    and "DecodeBridgeFrame FrameBridgeError wire = Inr \<lparr>bEnvelope = replyEnvelope protocol BridgeKindError BridgeContentCBOR k,
      bSafety = None, bForeign = [code, of_nat (length (take 255 msg))] @ take 255 msg\<rparr>"
proof -
  let ?env = "replyEnvelope protocol BridgeKindError BridgeContentCBOR k"
  let ?foreign = "[code, of_nat (length (take 255 msg))] @ take 255 msg"
  obtain wire where w: "EncodeBridgePayload ?env None ?foreign = Inr wire"
    using encode_payload [of ?env ?foreign] assms(1) by (auto simp: replyEnvelope_def key_ok_def)
  moreover have "(if 255 < length msg then take 255 msg else msg) = take 255 msg" by simp
  ultimately have "sendBridgeError protocol k code msg = Inr (ChanBridge, FrameBridgeError, wire)"
    by (simp add: sendBridgeError_def EncodeBridgeTransportError_def Let_def)
  moreover have "DecodeBridgeFrame FrameBridgeError wire = Inr \<lparr>bEnvelope = ?env, bSafety = None, bForeign = ?foreign\<rparr>"
    using w assms by (intro decode_payload) (auto simp: replyEnvelope_def bridgeFrameKind_def key_ok_def not_label_like)
  ultimately show ?thesis by (rule that)
qed

abbreviation dataControl :: "u64 \<Rightarrow> streamControl" where
  "dataControl eid \<equiv> \<lparr>scControl = streamControlData, scFlags = 0, scEventID = eid\<rparr>"

lemma encodeStreamFrame_ok:
  assumes "key_ok (bCorrelationID env)" and "bMethod env = []" and "bridgeFrameKind ft = Some (bKind env)" and "ft \<noteq> FrameBridgeNotify"
  obtains wire f where "encodeStreamFrame env sc ev = Inr wire" and "DecodeBridgeFrame ft wire = Inr f"
    and "bEnvelope f = env" and "bForeign f = tlv_Encode \<lparr>tType = TLVStreamControl, tValue = encodeStreamControlValue sc\<rparr> @ ev"
proof -
  let ?foreign = "tlv_Encode \<lparr>tType = TLVStreamControl, tValue = encodeStreamControlValue sc\<rparr> @ ev"
  obtain wire where w: "EncodeBridgePayload env None ?foreign = Inr wire"
    using encode_payload [of env ?foreign] assms(1,2) by (auto simp: key_ok_def)
  moreover have "DecodeBridgeFrame ft wire = Inr \<lparr>bEnvelope = env, bSafety = None, bForeign = ?foreign\<rparr>"
    using w assms by (intro decode_payload) (auto simp: key_ok_def not_label_like_stream)
  ultimately show ?thesis using that by (simp add: encodeStreamFrame_def)
qed

lemma streamDataMessage_ok:
  assumes "key_ok k"
  obtains wire f where "streamDataMessage protocol k class eid ev = Inr (ChanBridge, FrameBridgeStreamData, wire)"
    and "DecodeBridgeFrame FrameBridgeStreamData wire = Inr f" and "bCorrelationID (bEnvelope f) = k"
    and "decodeLeadingStreamControl (bForeign f) = Inr (dataControl eid, ev)"
proof -
  let ?env = "replyEnvelope protocol BridgeKindStreamData (streamContentType class) k"
  obtain wire f where "encodeStreamFrame ?env (dataControl eid) ev = Inr wire" "DecodeBridgeFrame FrameBridgeStreamData wire = Inr f"
      "bEnvelope f = ?env" "bForeign f = tlv_Encode \<lparr>tType = TLVStreamControl, tValue = encodeStreamControlValue (dataControl eid)\<rparr> @ ev"
    by (rule encodeStreamFrame_ok [of ?env FrameBridgeStreamData "dataControl eid" ev]) (auto simp: assms replyEnvelope_def bridgeFrameKind_def)
  then show ?thesis using that by (simp add: streamDataMessage_def decodeLeadingStreamControl_iff replyEnvelope_def)
qed

lemma streamEndMessage_ok:
  assumes "key_ok k"
  obtains wire f where "streamEndMessage protocol k class eid False = Inr (ChanBridge, FrameBridgeStreamEnd, wire)"
    and "DecodeBridgeFrame FrameBridgeStreamEnd wire = Inr f" and "bCorrelationID (bEnvelope f) = k"
    and "decodeLeadingStreamControl (bForeign f) = Inr (dataControl eid, [])"
proof -
  let ?env = "(replyEnvelope protocol BridgeKindStreamEnd (streamContentType class) k)\<lparr>bFlags := BridgeFlagFinal\<rparr>"
  obtain wire f where "encodeStreamFrame ?env (dataControl eid) [] = Inr wire" "DecodeBridgeFrame FrameBridgeStreamEnd wire = Inr f"
      "bEnvelope f = ?env" "bForeign f = tlv_Encode \<lparr>tType = TLVStreamControl, tValue = encodeStreamControlValue (dataControl eid)\<rparr> @ []"
    by (rule encodeStreamFrame_ok [of ?env FrameBridgeStreamEnd "dataControl eid" "[]"]) (auto simp: assms replyEnvelope_def bridgeFrameKind_def)
  then show ?thesis using that by (simp add: streamEndMessage_def decodeLeadingStreamControl_iff replyEnvelope_def)
qed

text \<open>What an answer looks like: a reply frame that carries the key of the request or is refused by every receiver.\<close>

definition answers :: "bytes \<Rightarrow> message \<Rightarrow> bool" where
  "answers k m \<longleftrightarrow> (case m of (ch, ft, wire) \<Rightarrow> ch = ChanBridge
    \<and> (ft \<in> {FrameBridgeResponse, FrameBridgeError} \<and> decodedKey ft wire \<in> {None, Some k}
       \<or> ft \<in> {FrameBridgeStreamData, FrameBridgeStreamEnd}
         \<and> (\<exists>f eid ev. DecodeBridgeFrame ft wire = Inr f \<and> bCorrelationID (bEnvelope f) = k
              \<and> decodeLeadingStreamControl (bForeign f) = Inr (dataControl eid, ev))))"

lemma sendBridgeError_answers:
  assumes "key_ok k" and "code \<noteq> 0"
  shows "\<exists>m. sendBridgeError protocol k code msg = Inr m \<and> answers k m"
  by (rule sendBridgeError_ok [OF assms, of protocol msg]) (auto simp: answers_def decodedKey_def replyEnvelope_def)

lemma streamDataMessage_answers:
  assumes "key_ok k"
  shows "\<exists>m. streamDataMessage protocol k class eid ev = Inr m \<and> answers k m"
  by (rule streamDataMessage_ok [OF assms, of protocol "class" eid ev]) (auto simp: answers_def)

lemma streamEndMessage_answers:
  assumes "key_ok k"
  shows "\<exists>m. streamEndMessage protocol k class eid False = Inr m \<and> answers k m"
  by (rule streamEndMessage_ok [OF assms, of protocol "class" eid]) (auto simp: answers_def)

lemma payload_answers:
  assumes "EncodeBridgePayload env None foreign = Inr wire" and "bCorrelationID env = k"
  shows "answers k (ChanBridge, FrameBridgeResponse, wire)"
  using decode_envelope [OF assms(1), of FrameBridgeResponse] assms(2)
  by (auto simp: answers_def decodedKey_def split: sum.splits)

lemma handleInboundHTTPRequest_answers:
  assumes "key_ok (bCorrelationID (bEnvelope frame))"
  shows "\<exists>m. handleInboundHTTPRequest cfg frame = Inr m \<and> answers (bCorrelationID (bEnvelope frame)) m"
proof -
  let ?k = "bCorrelationID (bEnvelope frame)"
  note err = sendBridgeError_answers [OF assms]
  have code: "backendErrorCode e \<noteq> 0" for e by (simp add: backendErrorCode_def split: http_fault.splits)
  have resp: "\<exists>m. rbind (EncodeBridgePayload (replyEnvelope BridgeProtoHTTP2 BridgeKindResponse BridgeContentCBOR ?k) None foreign) (\<lambda>wire.
      Inr (ChanBridge, FrameBridgeResponse, wire)) = Inr m \<and> answers ?k m" for foreign
  proof -
    obtain wire where w: "EncodeBridgePayload (replyEnvelope BridgeProtoHTTP2 BridgeKindResponse BridgeContentCBOR ?k) None foreign = Inr wire"
      using assms by (auto intro: encode_payload [of "replyEnvelope BridgeProtoHTTP2 BridgeKindResponse BridgeContentCBOR ?k" foreign]
          simp: key_ok_def replyEnvelope_def)
    then show ?thesis using payload_answers [OF w, of ?k] by (auto simp: replyEnvelope_def)
  qed
  show ?thesis
    unfolding handleInboundHTTPRequest_def Let_def
    using err code resp by (auto split: option.splits sum.splits)
qed

lemma encodeOpaquePayload_cases:
  assumes "key_ok (bCorrelationID env)" and "bMethod env = []"
  shows "(\<exists>wire foreign ct. encodeOpaquePayload env mt raw = Inr wire \<and> EncodeBridgePayload (env\<lparr>bContentType := ct\<rparr>) None foreign = Inr wire)
    \<or> encodeOpaquePayload env mt raw \<in> {Inl OpaqueEmpty, Inl OpaqueNUL, Inl OpaqueSyntax}"
proof -
  have enc: "\<exists>wire. EncodeBridgePayload (env\<lparr>bContentType := ct\<rparr>) None foreign = Inr wire" for ct foreign
    using assms by (auto intro: encode_payload [of "env\<lparr>bContentType := ct\<rparr>" foreign] simp: key_ok_def)
  have split: "EncodeBridgePayload e None foreign = Inr (w @ foreign)" if "EncodeBridgePayload e None [] = Inr w" for e w foreign
    using that by (auto simp: EncodeBridgePayload_def EncodeBridgeFrame_iff)
  show ?thesis
  proof (cases "mediaTypeToContentType mt")
    case (Some ct)
    from enc [of ct raw] obtain wire where "EncodeBridgePayload (env\<lparr>bContentType := ct\<rparr>) None raw = Inr wire" ..
    moreover from this Some have "encodeOpaquePayload env mt raw = Inr wire" by (simp add: encodeOpaquePayload_def)
    ultimately show ?thesis by blast
  next
    case None
    let ?ct = opaqueContentTypeDiscriminator
    from enc [of ?ct "[]"] obtain w where w: "EncodeBridgePayload (env\<lparr>bContentType := ?ct\<rparr>) None [] = Inr w" ..
    show ?thesis
    proof (cases "mt = [] \<or> indexByte mt 0 \<noteq> None \<or> \<not> validMediaTypeSyntax mt")
      case True
      then show ?thesis using None by (auto simp: encodeOpaquePayload_def)
    next
      case False
      then have "encodeOpaquePayload env mt raw = Inr (w @ tlv_Encode \<lparr>tType = opaqueContentTypeTLV, tValue = mt\<rparr> @ raw)"
        using None w by (simp add: encodeOpaquePayload_def)
      with split [OF w] show ?thesis by blast
    qed
  qed
qed

lemma handleInboundOpaqueRequest_answers:
  assumes "key_ok (bCorrelationID (bEnvelope frame))"
  shows "\<exists>m. handleInboundOpaqueRequest cfg frame = Inr m \<and> answers (bCorrelationID (bEnvelope frame)) m"
proof -
  let ?k = "bCorrelationID (bEnvelope frame)" and ?pr = "bProtocol (bEnvelope frame)"
  let ?env = "replyEnvelope ?pr BridgeKindResponse 0 ?k"
  note err = sendBridgeError_answers [OF assms, of _ ?pr]
  have c: "(\<exists>wire. encodeOpaquePayload ?env mt raw = Inr wire \<and> answers ?k (ChanBridge, FrameBridgeResponse, wire))
      \<or> encodeOpaquePayload ?env mt raw \<in> {Inl OpaqueEmpty, Inl OpaqueNUL, Inl OpaqueSyntax}" for mt raw
    using encodeOpaquePayload_cases [of ?env mt raw] payload_answers [of "?env\<lparr>bContentType := _\<rparr>"] assms
    by (auto simp: replyEnvelope_def)
  show ?thesis
  proof (cases "OpaqueHandler cfg")
    case (Some h)
    show ?thesis
    proof (cases "decodeOpaquePayload (bEnvelope frame) (bForeign frame)")
      case (Inr x)
      then obtain mt raw where x: "x = (mt, raw)" by (cases x)
      show ?thesis
      proof (cases "h mt raw")
        case Inr': (Inr y)
        then obtain mt' resp where y: "y = (mt', resp)" by (cases y)
        from c [of mt' resp] show ?thesis using Some Inr Inr' x y err
          by (auto simp: handleInboundOpaqueRequest_def Let_def)
      qed (use Some Inr x err in \<open>auto simp: handleInboundOpaqueRequest_def Let_def\<close>)
    qed (use Some err in \<open>auto simp: handleInboundOpaqueRequest_def Let_def\<close>)
  qed (use err in \<open>auto simp: handleInboundOpaqueRequest_def Let_def\<close>)
qed

lemma streamMessages_answers: "key_ok k \<Longrightarrow> list_all (answers k) (streamMessages protocol k class eid evs)"
proof (induction evs arbitrary: eid)
  case Nil
  then show ?case using streamEndMessage_answers [OF Nil, of protocol "class" eid] by (auto simp: msg_list_def)
next
  case (Cons ev evs)
  then show ?case using streamDataMessage_answers [OF Cons.prems, of protocol "class" eid ev] by (auto simp: msg_list_def)
qed

lemma streamEvents_code: "streamEvents cfg frame class = Inl (code, why) \<Longrightarrow> code \<noteq> 0"
  by (auto simp: streamEvents_def split: streamCarriageClass.splits option.splits sum.splits)

lemma handlerMessages_answers:
  assumes "key_ok (bCorrelationID (bEnvelope frame))"
  shows "list_all (answers (bCorrelationID (bEnvelope frame))) (handlerMessages cfg frame class)"
proof (cases "streamEvents cfg frame class")
  case (Inl e)
  obtain code why where e: "e = (code, why)" by (cases e)
  with Inl streamEvents_code have "code \<noteq> 0" by blast
  from sendBridgeError_answers [OF assms this] obtain m where
    "sendBridgeError (bProtocol (bEnvelope frame)) (bCorrelationID (bEnvelope frame)) code (errText cfg why) = Inr m"
    "answers (bCorrelationID (bEnvelope frame)) m" by blast
  with Inl e show ?thesis by (simp add: handlerMessages_def msg_list_def Let_def)
next
  case (Inr evs)
  then show ?thesis using streamMessages_answers [OF assms] by (simp add: handlerMessages_def Let_def)
qed

text \<open>What a goroutine may change: its own cancel flag, never the waiters.\<close>

definition egress_eq :: "proxy \<Rightarrow> proxy \<Rightarrow> bool" where
  "egress_eq p p' \<longleftrightarrow> pxPending p' = pxPending p \<and> pxStreamPending p' = pxStreamPending p \<and> pxReplies p' = pxReplies p
    \<and> pxChunks p' = pxChunks p \<and> ((\<forall>r. \<not> pxFlags p r) \<longrightarrow> (\<forall>r. \<not> pxFlags p' r)) \<and> pxNext p \<le> pxNext p'"

lemma egress_eq_intros: "egress_eq p p" "egress_eq p (unregisterCancel k p)" "egress_eq p (fst (registerCancel k p))"
  by (simp_all add: egress_eq_def unregisterCancel_def registerCancel_def Let_def)

definition remaining_opt :: "proxy_cfg \<Rightarrow> ptask option \<Rightarrow> message list" where
  "remaining_opt cfg t = (case t of None \<Rightarrow> [] | Some t \<Rightarrow> remaining cfg t)"

lemma remaining_opt_simps [simp]: "remaining_opt cfg None = []" "remaining_opt cfg (Some t) = remaining cfg t"
  by (simp_all add: remaining_opt_def)

text \<open>
  A round of a goroutine refines the specification: it sends nothing and keeps what remains, or it
  sends the first of what remains.
\<close>

definition stage_ok :: "proxy_cfg \<Rightarrow> ptask \<Rightarrow> proxy \<Rightarrow> stage \<Rightarrow> bool" where
  "stage_ok cfg t p st \<longleftrightarrow> (case st of (out, next) \<Rightarrow>
     (\<forall>ok. egress_eq p (fst (next ok)) \<and> (\<forall>t'. snd (next ok) = Some t' \<longrightarrow> taskKey t' = taskKey t))
     \<and> (case out of
          None \<Rightarrow> remaining cfg t = remaining_opt cfg (snd (next True))
        | Some (Inl _) \<Rightarrow> False
        | Some (Inr m) \<Rightarrow> remaining cfg t = m # remaining_opt cfg (snd (next True)) \<and> snd (next False) = None))"

lemma replyAndEnd_ok:
  assumes "r = Inr m" and "remaining cfg t = [m]" and "egress_eq p p'"
  shows "stage_ok cfg t p (replyAndEnd r p')"
  using assms by (simp add: stage_ok_def replyAndEnd_def)

lemma emitStream_ok:
  assumes "key_ok k" and "\<forall>r. \<not> pxFlags p r"
  shows "stage_ok cfg (TaskEmit protocol k class flag events eid) p (emitStream protocol k class flag events eid p)"
proof (cases events)
  case Nil
  from streamEndMessage_answers [OF assms(1)] obtain m where "streamEndMessage protocol k class eid False = Inr m" by blast
  then show ?thesis using Nil assms(2)
    by (auto simp: emitStream_def msg_list_def intro!: replyAndEnd_ok [where m = m] egress_eq_intros)
next
  case (Cons ev evs)
  from streamDataMessage_answers [OF assms(1)] obtain m where "streamDataMessage protocol k class eid ev = Inr m" by blast
  then show ?thesis using Cons assms(2) by (simp add: emitStream_def stage_ok_def msg_list_def egress_eq_intros)
qed

lemma runStreamHandler_ok:
  assumes "key_ok (bCorrelationID (bEnvelope frame))"
  shows "stage_ok cfg (TaskHandle frame class flag) p (runStreamHandler cfg frame class flag p)"
proof (cases "streamEvents cfg frame class")
  case (Inl e)
  obtain code why where e: "e = (code, why)" by (cases e)
  with Inl streamEvents_code have "code \<noteq> 0" by blast
  from sendBridgeError_answers [OF assms this] obtain m where
    "sendBridgeError (bProtocol (bEnvelope frame)) (bCorrelationID (bEnvelope frame)) code (errText cfg why) = Inr m" by blast
  with Inl e show ?thesis
    by (auto simp: runStreamHandler_def handlerMessages_def msg_list_def Let_def intro!: replyAndEnd_ok [where m = m] egress_eq_intros)
next
  case (Inr evs)
  then show ?thesis by (simp add: runStreamHandler_def handlerMessages_def Let_def stage_ok_def egress_eq_intros)
qed

lemma handleInboundStreamRequest_ok:
  assumes "key_ok (bCorrelationID (bEnvelope frame))" and "taskKey t = Some (bCorrelationID (bEnvelope frame))"
    and "remaining cfg t = serveStream cfg frame class"
  shows "stage_ok cfg t p (handleInboundStreamRequest cfg frame class p)"
proof (cases "resumes frame")
  case True
  let ?k = "bCorrelationID (bEnvelope frame)"
  have "BridgeErrNotResumable \<noteq> 0" by simp
  from sendBridgeError_answers [OF assms(1) this] obtain m where
    "sendBridgeError (bProtocol (bEnvelope frame)) ?k BridgeErrNotResumable (errText cfg CannotResume) = Inr m" by blast
  then show ?thesis using True assms(3)
    by (auto simp: handleInboundStreamRequest_def resumes_def serveStream_def msg_list_def Let_def intro!: replyAndEnd_ok [where m = m] egress_eq_intros)
next
  case False
  then have "handleInboundStreamRequest cfg frame class p =
      (None, \<lambda>_. (fst (registerCancel (bCorrelationID (bEnvelope frame)) p), Some (TaskHandle frame class (pxNext p))))"
    by (simp add: handleInboundStreamRequest_def resumes_def registerCancel_def Let_def)
  then show ?thesis using False assms(2,3) by (simp add: stage_ok_def serveStream_def egress_eq_intros)
qed

lemma handleInboundBridgeRequest_ok: "stage_ok cfg (TaskRequest payload) p (handleInboundBridgeRequest cfg payload p)"
proof (cases "DecodeBridgeFrame FrameBridgeRequest payload")
  case (Inl e)
  then show ?thesis by (simp add: handleInboundBridgeRequest_def stage_ok_def egress_eq_intros)
next
  case (Inr frame)
  let ?k = "bCorrelationID (bEnvelope frame)" and ?pr = "bProtocol (bEnvelope frame)"
  have k: "key_ok ?k" using decode_corr [OF Inr] by (simp add: key_ok_def)
  have t: "taskKey (TaskRequest payload) = Some ?k" "remaining cfg (TaskRequest payload) = serve cfg frame"
    using Inr by (simp_all add: decodedKey_def)
  have reply: "stage_ok cfg (TaskRequest payload) p (replyAndEnd r p)" if "\<exists>m. r = Inr m \<and> answers ?k m" "serve cfg frame = msg_list r" for r
    using that t(2) by (auto simp: msg_list_def intro!: replyAndEnd_ok egress_eq_intros)
  note stream = handleInboundStreamRequest_ok [OF k t(1)]
  note d = handleInboundBridgeRequest_def [of cfg payload p]
  consider "?pr = BridgeProtoHTTP2" | "?pr = BridgeProtoMCP \<or> ?pr = BridgeProtoA2A" | "?pr = BridgeProtoWebSocket" | "?pr = grpcProtocolID"
    | "?pr \<notin> {BridgeProtoHTTP2, BridgeProtoMCP, BridgeProtoA2A, BridgeProtoWebSocket, grpcProtocolID}" by blast
  then show ?thesis
  proof cases
    case 1
    then show ?thesis using reply [OF handleInboundHTTPRequest_answers [OF k]] by (simp add: d Inr serve_def)
  next
    case 2
    then show ?thesis using t(1) by (auto simp: d Inr serve_def stage_ok_def egress_eq_intros)
  next
    case 3
    then show ?thesis using stream [of cfg websocketStreamClass] t(2) by (simp add: d Inr serve_def)
  next
    case 4
    then show ?thesis using stream [of cfg grpcStreamClass] t(2) by (simp add: d Inr serve_def grpcProtocolID_def)
  next
    case 5
    show ?thesis
    proof (cases "OpaqueProtocolID cfg \<noteq> 0 \<and> ?pr = OpaqueProtocolID cfg")
      case True
      then show ?thesis using 5 reply [OF handleInboundOpaqueRequest_answers [OF k]] by (simp add: d Inr serve_def Let_def)
    next
      case False
      let ?r = "sendBridgeError ?pr ?k BridgeErrProtocolUnsupported (errText cfg (ProtocolNotCarried ?pr))"
      have "\<exists>m. ?r = Inr m \<and> answers ?k m" by (rule sendBridgeError_answers [OF k]) simp
      moreover have "serve cfg frame = msg_list ?r" using 5 False by (auto simp: serve_def Let_def)
      moreover have "handleInboundBridgeRequest cfg payload p = replyAndEnd ?r p" using 5 False by (auto simp: d Inr Let_def)
      ultimately show ?thesis using reply [of ?r] by simp
    qed
  qed
qed

lemma proxyTask_ok:
  assumes "proxyTask cfg t p = Some st" and "\<forall>k. taskKey t = Some k \<longrightarrow> key_ok k" and "\<forall>r. \<not> pxFlags p r"
  shows "stage_ok cfg t p st"
  using assms handleInboundBridgeRequest_ok runStreamHandler_ok emitStream_ok by (cases t) auto

lemma serve_answers:
  assumes "key_ok (bCorrelationID (bEnvelope frame))"
  shows "list_all (answers (bCorrelationID (bEnvelope frame))) (serve cfg frame)"
proof -
  let ?k = "bCorrelationID (bEnvelope frame)"
  have one: "list_all (answers ?k) (msg_list r)" if "\<exists>m. r = Inr m \<and> answers ?k m" for r
    using that by (auto simp: msg_list_def)
  have err: "list_all (answers ?k) (msg_list (sendBridgeError pr ?k code tx))" if "code \<noteq> 0" for pr code tx
    using sendBridgeError_answers [OF assms that] by (intro one) blast
  have stream: "list_all (answers ?k) (serveStream cfg frame class)" for "class"
    using handlerMessages_answers [OF assms] err by (simp add: serveStream_def)
  show ?thesis
    using stream err one [OF handleInboundHTTPRequest_answers [OF assms]] one [OF handleInboundOpaqueRequest_answers [OF assms]]
    by (simp add: serve_def Let_def)
qed

section \<open>Limits\<close>

text \<open>
  A request whose method and target have more than 254 octets together does not fit into the method field of
  the envelope: \<open>ServeHTTP\<close> panics in \<open>EncodeBridgePayload\<close>, after it has registered its waiter, which stays.
\<close>

lemma ServeHTTP_long_target:
  assumes "254 < length (rqMethod r) + length (targetOf r)" and "length k \<le> 255"
  shows "\<exists>p' replyCh. ServeHTTP r k p = (p', replyCh, Inl PanicFieldTooLong) \<and> pxPending p' k = Some replyCh"
  using assms
  by (auto simp: ServeHTTP_def registerReply_def EncodeBridgePayload_def EncodeBridgeFrame_def encodeEnvelopeValue_def Let_def)

text \<open>
  A stream chunk that finds 32 chunks in the buffer of its consumer is dropped, and the consumer does not
  notice: the event id of the next chunk need only be larger than the last one that was accepted.
\<close>

lemma stream_chunk_lost:
  assumes "DecodeBridgeFrame ft payload = Inr frame" and "pxStreamPending p (bCorrelationID (bEnvelope frame)) = Some w"
    and "length (pxChunks p w) = dataCap"
  shows "handleInboundStreamFrame ft payload p = p"
    and "ckErr chunk = None \<Longrightarrow> trLast (coTracker c) < scEventID (ckControl chunk) \<Longrightarrow> ckType chunk = FrameBridgeStreamEnd
      \<Longrightarrow> collectChunk c chunk = Inr (Inr (coEvents c))"
  using assms by (simp_all add: handleInboundStreamFrame_def collectChunk_def tracker_accept_def Let_def not_le)

end
