(* ===== verification/ProxySystem.thy ===== *)
theory ProxySystem
  imports ProxyEngine Duplex
begin

text \<open>
  Two proxies over an established session. The state of the session is the world of theory Duplex, so
  every message passes through \<open>Send\<close>, the record layer and the receive loop of \<^verbatim>\<open>sdk/conn.go\<close>; on top of it
  run the receive loop \<open>Run\<close> of each proxy, the goroutines it starts and any number of concurrent calls.
  The theorems say what the caller of a proxied operation gets.
\<close>

section \<open>Model\<close>

text \<open>
  How a call ends: a reply frame, the result of \<open>collectStream\<close>, an error of the send, or the end of its
  context.
\<close>

datatype outcome = GotReply pendingReply | GotStream "proxy_err + bytes list" | SendFailed | Abandoned

record call =
  caReq :: message
  caReply :: chan_ref
  caData :: "chan_ref option"
  caCollect :: collect
  caResult :: "outcome option"

text \<open>The operations that a proxy offers, up to their send.\<close>

datatype operation = OpGRPC bytes bytes | OpWebSocket bytes | OpOpaque bytes bytes | OpHTTP http_request

definition openCall :: "proxy_cfg \<Rightarrow> operation \<Rightarrow> bytes \<Rightarrow> proxy \<Rightarrow> (proxy \<times> call) option" where
  "openCall cfg oper k p =
    (let streamCall = (\<lambda>(p, errCh, dataCh, m). case m of
           Inl _ \<Rightarrow> None
         | Inr m \<Rightarrow> Some (p, \<lparr>caReq = m, caReply = errCh, caData = Some dataCh, caCollect = newCollect, caResult = None\<rparr>));
         replyCall = (\<lambda>p replyCh m. Some (p, \<lparr>caReq = m, caReply = replyCh, caData = None, caCollect = newCollect, caResult = None\<rparr>)) in
     case oper of
       OpGRPC method req \<Rightarrow> streamCall (CallGRPCUnary method req k p)
     | OpWebSocket msg \<Rightarrow> streamCall (CallWebSocketMessage msg k p)
     | OpOpaque mediaType raw \<Rightarrow>
         (case CallOpaque cfg mediaType raw k p of Inl _ \<Rightarrow> None | Inr (p, replyCh, m) \<Rightarrow> replyCall p replyCh m)
     | OpHTTP r \<Rightarrow> (case ServeHTTP r k p of (p, replyCh, Inl _) \<Rightarrow> None | (p, replyCh, Inr m) \<Rightarrow> replyCall p replyCh m))"

definition closeCall :: "bytes \<Rightarrow> call \<Rightarrow> proxy \<Rightarrow> proxy" where
  "closeCall k ca p = (if caData ca = None then cleanupReply k p else cleanupStream k p)"

record psys =
  net :: world
  prox :: "side \<Rightarrow> proxy"
  gor :: "side \<Rightarrow> ptask multiset"
  calls :: "side \<Rightarrow> bytes \<rightharpoonup> call"
  seen :: "side \<Rightarrow> nat"

definition psys_start :: "conn \<Rightarrow> conn \<Rightarrow> psys" where
  "psys_start a b = \<lparr>net = start a b, prox = (\<lambda>_. proxy_init), gor = (\<lambda>_. {#}), calls = (\<lambda>_. Map.empty), seen = (\<lambda>_. 0)\<rparr>"

text \<open>\<open>Conn.Send\<close> of one side, with the record of what was sent.\<close>

definition bridgeSend :: "world \<Rightarrow> side \<Rightarrow> message \<Rightarrow> world \<times> bool" where
  "bridgeSend w s m =
    (case m of (ch, ft, pt) \<Rightarrow>
       case Send (endpoint w s) ch ft pt WriteOk of
         (c, out, r) \<Rightarrow>
           ((emit w s c out)\<lparr>sent := (sent w)(s := sent w s @ (if r = Inr () then [(ch, ft, pt)] else []))\<rparr>, r = Inr ()))"

definition on_bridge :: "message \<Rightarrow> bool" where
  "on_bridge m \<longleftrightarrow> fst m = ChanBridge"

definition opt_mset :: "'a option \<Rightarrow> 'a multiset" where
  "opt_mset x = (case x of None \<Rightarrow> {#} | Some a \<Rightarrow> {#a#})"

text \<open>
  The steps: anything that the session does apart from sends on the Bridge channel, which belongs to the
  proxy; a new call with a correlation id that its side has not used; a round of \<open>Run\<close>; a round of a
  goroutine, without or with a send; and the three ways in which a waiting call goes on.
\<close>

inductive pstep :: "(side \<Rightarrow> proxy_cfg) \<Rightarrow> crypto_ops \<Rightarrow> psys \<Rightarrow> psys \<Rightarrow> bool" for cfg ops where
  psNet:
    "step ops (net y) w \<Longrightarrow> (\<And>s. filter on_bridge (sent w s) = filter on_bridge (sent (net y) s)) \<Longrightarrow>
     pstep cfg ops y (y\<lparr>net := w\<rparr>)"
| psCall:
    "k \<notin> dom (calls y s) \<Longrightarrow> length k = 16 \<Longrightarrow> openCall (cfg s) oper k (prox y s) = Some (p, ca) \<Longrightarrow>
     bridgeSend (net y) s (caReq ca) = (w, ok) \<Longrightarrow>
     pstep cfg ops y (y\<lparr>net := w, prox := (prox y)(s := if ok then p else closeCall k ca p),
       calls := (calls y)(s := (calls y s)(k \<mapsto> if ok then ca else ca\<lparr>caResult := Some SendFailed\<rparr>))\<rparr>)"
| psRun:
    "seen y s < length (got (net y) s) \<Longrightarrow> runDispatch (got (net y) s ! seen y s) (prox y s) = Some (p, ts) \<Longrightarrow>
     pstep cfg ops y (y\<lparr>prox := (prox y)(s := p), gor := (gor y)(s := gor y s + mset ts), seen := (seen y)(s := seen y s + 1)\<rparr>)"
| psTask:
    "gor y s = add_mset t ts \<Longrightarrow> proxyTask (cfg s) t (prox y s) = Some (None, next) \<Longrightarrow> next True = (p, t') \<Longrightarrow>
     pstep cfg ops y (y\<lparr>prox := (prox y)(s := p), gor := (gor y)(s := ts + opt_mset t')\<rparr>)"
| psTaskSend:
    "gor y s = add_mset t ts \<Longrightarrow> proxyTask (cfg s) t (prox y s) = Some (Some (Inr m), next) \<Longrightarrow>
     bridgeSend (net y) s m = (w, ok) \<Longrightarrow> next ok = (p, t') \<Longrightarrow>
     pstep cfg ops y (y\<lparr>net := w, prox := (prox y)(s := p), gor := (gor y)(s := ts + opt_mset t')\<rparr>)"
| psChunk:
    "calls y s k = Some ca \<Longrightarrow> caResult ca = None \<Longrightarrow> caData ca = Some d \<Longrightarrow> pxChunks (prox y s) d = chunk # rest \<Longrightarrow>
     collectChunk (caCollect ca) chunk = Inl c \<Longrightarrow>
     pstep cfg ops y (y\<lparr>prox := (prox y)(s := (prox y s)\<lparr>pxChunks := (pxChunks (prox y s))(d := rest)\<rparr>),
       calls := (calls y)(s := (calls y s)(k \<mapsto> ca\<lparr>caCollect := c\<rparr>))\<rparr>)"
| psStreamDone:
    "calls y s k = Some ca \<Longrightarrow> caResult ca = None \<Longrightarrow> caData ca = Some d \<Longrightarrow> pxChunks (prox y s) d = chunk # rest \<Longrightarrow>
     collectChunk (caCollect ca) chunk = Inr r \<Longrightarrow>
     pstep cfg ops y (y\<lparr>prox := (prox y)(s := closeCall k ca ((prox y s)\<lparr>pxChunks := (pxChunks (prox y s))(d := rest)\<rparr>)),
       calls := (calls y)(s := (calls y s)(k \<mapsto> ca\<lparr>caResult := Some (GotStream r)\<rparr>))\<rparr>)"
| psReply:
    "calls y s k = Some ca \<Longrightarrow> caResult ca = None \<Longrightarrow> pxReplies (prox y s) (caReply ca) = reply # rest \<Longrightarrow>
     r = (if caData ca = None then GotReply reply else GotStream (Inl (decodeStreamOpenErrorReply reply))) \<Longrightarrow>
     q = (prox y s)\<lparr>pxReplies := (pxReplies (prox y s))(caReply ca := rest)\<rparr> \<Longrightarrow>
     pstep cfg ops y (y\<lparr>prox := (prox y)(s := if caData ca = None then q else closeCall k ca q),
       calls := (calls y)(s := (calls y s)(k \<mapsto> ca\<lparr>caResult := Some r\<rparr>))\<rparr>)"
| psAbandon:
    "calls y s k = Some ca \<Longrightarrow> caResult ca = None \<Longrightarrow>
     pstep cfg ops y (y\<lparr>prox := (prox y)(s := closeCall k ca (prox y s)),
       calls := (calls y)(s := (calls y s)(k \<mapsto> ca\<lparr>caResult := Some Abandoned\<rparr>))\<rparr>)"

section \<open>Messages in flight\<close>

definition msgKey :: "message \<Rightarrow> bytes option" where
  "msgKey m = (case m of (ch, ft, wire) \<Rightarrow>
     if ch = ChanBridge \<and> ft \<in> {FrameBridgeResponse, FrameBridgeError, FrameBridgeStreamData, FrameBridgeStreamEnd}
     then decodedKey ft wire else None)"

definition replies :: "bytes \<Rightarrow> message list \<Rightarrow> message list" where
  "replies k ms = filter (\<lambda>m. msgKey m = Some k) ms"

definition is_request :: "message \<Rightarrow> bool" where
  "is_request m \<longleftrightarrow> fst m = ChanBridge \<and> fst (snd m) = FrameBridgeRequest"

definition requestTasks :: "message list \<Rightarrow> ptask list" where
  "requestTasks ms = map (\<lambda>m. TaskRequest (snd (snd m))) (filter is_request ms)"

lemma replies_append [simp]: "replies k (xs @ ys) = replies k xs @ replies k ys"
  by (simp add: replies_def)

lemma requestTasks_append [simp]: "requestTasks (xs @ ys) = requestTasks xs @ requestTasks ys"
  by (simp add: requestTasks_def)

lemma replies_Nil [simp]: "replies k [] = []" by (simp add: replies_def)
lemma requestTasks_Nil [simp]: "requestTasks [] = []" by (simp add: requestTasks_def)

lemma off_bridge:
  assumes "list_all (\<lambda>m. \<not> on_bridge m) ms"
  shows "replies k ms = []" "requestTasks ms = []"
  using assms by (auto simp: replies_def requestTasks_def msgKey_def is_request_def on_bridge_def list_all_iff filter_empty_conv)

lemma request_no_reply: "is_request m \<Longrightarrow> replies k [m] = []"
  by (auto simp: replies_def msgKey_def is_request_def split: prod.splits)

lemma answers_key:
  assumes "answers k m"
  shows "msgKey m \<in> {None, Some k}" "requestTasks [m] = []"
  using assms by (auto simp: answers_def msgKey_def requestTasks_def is_request_def decodedKey_def split: prod.splits)

lemma answers_replies: "answers k m \<Longrightarrow> k' \<noteq> k \<Longrightarrow> replies k' [m] = []"
  using answers_key(1) [of k m] by (auto simp: replies_def)

subsection \<open>What the session does to the record of messages\<close>

lemma step_sent:
  assumes "step ops w w'"
  shows "\<exists>xs. sent w' s = sent w s @ xs" "prefix (got w s) (got w' s)"
  using assms by (cases; auto simp: emit_def)+

lemma step_quiet:
  assumes "step ops w w'" and "\<And>s. filter on_bridge (sent w' s) = filter on_bridge (sent w s)"
  obtains xs where "sent w' s = sent w s @ xs" and "list_all (\<lambda>m. \<not> on_bridge m) xs"
proof -
  from step_sent(1) [OF assms(1)] obtain xs where xs: "sent w' s = sent w s @ xs" by blast
  with assms(2) [of s] have "filter on_bridge xs = []" by simp
  with xs that show ?thesis by (auto simp: filter_empty_conv list_all_iff)
qed

lemma bridgeSend_step:
  assumes "bridgeSend w s m = (w', ok)" and "fst m = ChanBridge" and "fst (snd m) \<noteq> FrameKeyUpdate" and "fst (snd m) \<noteq> FrameKeyUpdateAck"
  shows "step ops w w'" "sent w' = (sent w)(s := sent w s @ (if ok then [m] else []))" "got w' = got w"
proof -
  obtain ch ft pt where m: "m = (ch, ft, pt)" by (cases m)
  obtain c out r where r: "Send (endpoint w s) ch ft pt WriteOk = (c, out, r)" by (cases "Send (endpoint w s) ch ft pt WriteOk")
  have "app_record ch ft" using assms(2-4) m by (simp add: app_record_def ChanBridge_def ChanControl_def)
  from stepSend [OF this r] assms(1) m r show "step ops w w'" by (auto simp: bridgeSend_def)
  from assms(1) m r show "sent w' = (sent w)(s := sent w s @ (if ok then [m] else []))" "got w' = got w"
    by (auto simp: bridgeSend_def emit_def)
qed

section \<open>Calls\<close>

lemma request_key:
  assumes "EncodeBridgePayload env None foreign = Inr wire"
  shows "decodedKey FrameBridgeRequest wire \<in> {None, Some (bCorrelationID env)}"
  using decode_envelope [OF assms, of FrameBridgeRequest] by (auto simp: decodedKey_def split: sum.splits)

lemma openConsumerStream_Inr:
  assumes "openConsumerStream protocol ct method event k p = (p', errCh, dataCh, Inr m)"
  shows "p' = fst (openRegister k p)" "errCh = pxNext p" "dataCh = pxNext p + 1" "is_request m"
    "decodedKey FrameBridgeRequest (snd (snd m)) \<in> {None, Some k}"
proof -
  from assms show "p' = fst (openRegister k p)" "errCh = pxNext p" "dataCh = pxNext p + 1" "is_request m"
    by (auto simp: openConsumerStream_def openRegister_def Let_def is_request_def)
  let ?env = "\<lparr>bProtocol = protocol, bKind = BridgeKindRequest, bContentType = ct, bFlags = 0, bCorrelationID = k, bMethod = method\<rparr>"
  from assms have "EncodeBridgePayload ?env None event = Inr (snd (snd m))"
    by (auto simp: openConsumerStream_def openRegister_def Let_def)
  from request_key [OF this] show "decodedKey FrameBridgeRequest (snd (snd m)) \<in> {None, Some k}" by simp
qed

lemma CallOpaque_Inr:
  assumes "CallOpaque cfg mediaType raw k p = Inr (p', replyCh, m)" and "length k = 16"
  shows "p' = fst (registerReply k p)" "replyCh = pxNext p" "is_request m" "decodedKey FrameBridgeRequest (snd (snd m)) \<in> {None, Some k}"
proof -
  let ?env = "replyEnvelope (OpaqueProtocolID cfg) BridgeKindRequest 0 k"
  from assms(1) show "p' = fst (registerReply k p)" "replyCh = pxNext p" "is_request m"
    by (auto simp: CallOpaque_def registerReply_def Let_def is_request_def split: if_splits)
  from assms(1) have "encodeOpaquePayload ?env mediaType raw = Inr (snd (snd m))"
    by (auto simp: CallOpaque_def registerReply_def Let_def split: if_splits)
  moreover have "key_ok (bCorrelationID ?env)" "bMethod ?env = []" using assms(2) by (auto simp: key_ok_def replyEnvelope_def)
  ultimately obtain ct foreign where "EncodeBridgePayload (?env\<lparr>bContentType := ct\<rparr>) None foreign = Inr (snd (snd m))"
    using encodeOpaquePayload_cases [of ?env mediaType raw] by auto
  from request_key [OF this] show "decodedKey FrameBridgeRequest (snd (snd m)) \<in> {None, Some k}" by (simp add: replyEnvelope_def)
qed

lemma ServeHTTP_Inr:
  assumes "ServeHTTP r k p = (p', replyCh, Inr m)"
  shows "p' = fst (registerReply k p)" "replyCh = pxNext p" "is_request m" "decodedKey FrameBridgeRequest (snd (snd m)) \<in> {None, Some k}"
proof -
  from assms show "p' = fst (registerReply k p)" "replyCh = pxNext p" "is_request m"
    by (auto simp: ServeHTTP_def registerReply_def Let_def is_request_def)
  let ?env = "\<lparr>bProtocol = BridgeProtoHTTP2, bKind = BridgeKindRequest, bContentType = BridgeContentCBOR, bFlags = 0,
                    bCorrelationID = k, bMethod = rqMethod r @ [0x20] @ targetOf r\<rparr>"
  from assms have "EncodeBridgePayload ?env None (encodeHTTPCarriageRequest (rqMethod r) (targetOf r) (rqHeader r) (rqBody r)) = Inr (snd (snd m))"
    by (auto simp: ServeHTTP_def registerReply_def Let_def)
  from request_key [OF this] show "decodedKey FrameBridgeRequest (snd (snd m)) \<in> {None, Some k}" by simp
qed

lemma openCall_Some:
  assumes "openCall cfg oper k p = Some (p', ca)" and "length k = 16"
  shows "is_request (caReq ca)" "decodedKey FrameBridgeRequest (snd (snd (caReq ca))) \<in> {None, Some k}"
    "caReply ca = pxNext p" "caResult ca = None" "caCollect ca = newCollect"
    "caData ca = None \<and> p' = fst (registerReply k p) \<or> caData ca = Some (pxNext p + 1) \<and> p' = fst (openRegister k p)"
proof -
  have "is_request (caReq ca) \<and> decodedKey FrameBridgeRequest (snd (snd (caReq ca))) \<in> {None, Some k}
      \<and> caReply ca = pxNext p \<and> caResult ca = None \<and> caCollect ca = newCollect
      \<and> (caData ca = None \<and> p' = fst (registerReply k p) \<or> caData ca = Some (pxNext p + 1) \<and> p' = fst (openRegister k p))"
  proof (cases oper)
    case (OpGRPC meth rq)
    with assms(1) obtain errCh dataCh m where "CallGRPCUnary meth rq k p = (p', errCh, dataCh, Inr m)"
        "ca = \<lparr>caReq = m, caReply = errCh, caData = Some dataCh, caCollect = newCollect, caResult = None\<rparr>"
      by (auto simp: openCall_def Let_def split: prod.splits sum.splits)
    with openConsumerStream_Inr show ?thesis by (auto simp: CallGRPCUnary_def)
  next
    case (OpWebSocket msg)
    with assms(1) obtain errCh dataCh m where "CallWebSocketMessage msg k p = (p', errCh, dataCh, Inr m)"
        "ca = \<lparr>caReq = m, caReply = errCh, caData = Some dataCh, caCollect = newCollect, caResult = None\<rparr>"
      by (auto simp: openCall_def Let_def split: prod.splits sum.splits)
    with openConsumerStream_Inr show ?thesis by (auto simp: CallWebSocketMessage_def)
  next
    case (OpOpaque mediaType raw)
    with assms(1) obtain replyCh m where "CallOpaque cfg mediaType raw k p = Inr (p', replyCh, m)"
        "ca = \<lparr>caReq = m, caReply = replyCh, caData = None, caCollect = newCollect, caResult = None\<rparr>"
      by (auto simp: openCall_def Let_def split: prod.splits sum.splits)
    with CallOpaque_Inr assms(2) show ?thesis by auto
  next
    case (OpHTTP r)
    with assms(1) obtain replyCh m where "ServeHTTP r k p = (p', replyCh, Inr m)"
        "ca = \<lparr>caReq = m, caReply = replyCh, caData = None, caCollect = newCollect, caResult = None\<rparr>"
      by (auto simp: openCall_def Let_def split: prod.splits sum.splits)
    with ServeHTTP_Inr show ?thesis by auto
  qed
  then show "is_request (caReq ca)" "decodedKey FrameBridgeRequest (snd (snd (caReq ca))) \<in> {None, Some k}"
    "caReply ca = pxNext p" "caResult ca = None" "caCollect ca = newCollect"
    "caData ca = None \<and> p' = fst (registerReply k p) \<or> caData ca = Some (pxNext p + 1) \<and> p' = fst (openRegister k p)"
    by blast+
qed

section \<open>The egress side follows the specification\<close>

definition answer :: "proxy_cfg \<Rightarrow> message \<Rightarrow> message list" where
  "answer cfg m = remaining cfg (TaskRequest (snd (snd m)))"

text \<open>
  The work of a side: its goroutines and the requests that it has not yet dispatched. For every key there
  is at most one piece of work, and what was sent for the key together with what that work will send is
  a prefix of the answer to the request.
\<close>

definition egressWork :: "psys \<Rightarrow> side \<Rightarrow> ptask multiset" where
  "egressWork y u = gor y u + mset (requestTasks (drop (seen y u) (sent (net y) (\<not> u))))"

definition workFor :: "psys \<Rightarrow> side \<Rightarrow> bytes \<Rightarrow> ptask multiset" where
  "workFor y u k = filter_mset (\<lambda>t. taskKey t = Some k) (egressWork y u)"

definition reqOf :: "psys \<Rightarrow> side \<Rightarrow> bytes \<Rightarrow> message option" where
  "reqOf y s k = map_option caReq (calls y s k)"

definition servedBy :: "proxy_cfg \<Rightarrow> bytes \<Rightarrow> message option \<Rightarrow> message list \<Rightarrow> ptask multiset \<Rightarrow> bool" where
  "servedBy cfg k req rs ts \<longleftrightarrow> (case req of
      None \<Rightarrow> ts = {#} \<and> rs = []
    | Some m \<Rightarrow> \<exists>t. ts = opt_mset t \<and> prefix (rs @ replies k (remaining_opt cfg t)) (replies k (answer cfg m)))"

definition wellsent :: "message \<Rightarrow> bool" where
  "wellsent m \<longleftrightarrow> (on_bridge m \<longrightarrow> is_request m \<or> (\<exists>k. answers k m))"

definition task_ok :: "ptask \<Rightarrow> bool" where
  "task_ok t \<longleftrightarrow> (\<forall>k. taskKey t = Some k \<longrightarrow> key_ok k)"

definition invW :: "(side \<Rightarrow> proxy_cfg) \<Rightarrow> psys \<Rightarrow> bool" where
  "invW cfg y \<longleftrightarrow>
    (\<forall>s k. servedBy (cfg (\<not> s)) k (reqOf y s k) (replies k (sent (net y) (\<not> s))) (workFor y (\<not> s) k))
    \<and> (\<forall>u. \<forall>t \<in># gor y u. task_ok t)
    \<and> (\<forall>s r. \<not> pxFlags (prox y s) r)
    \<and> (\<forall>u. list_all wellsent (sent (net y) u))
    \<and> (\<forall>s. seen y s \<le> length (got (net y) s))"

definition fifo :: "world \<Rightarrow> bool" where
  "fifo w \<longleftrightarrow> (\<forall>s. prefix (got w s) (sent w (\<not> s)))"

lemma invWD:
  assumes "invW cfg y"
  shows "servedBy (cfg (\<not> s)) k (reqOf y s k) (replies k (sent (net y) (\<not> s))) (workFor y (\<not> s) k)"
    "t \<in># gor y u \<Longrightarrow> task_ok t" "\<not> pxFlags (prox y s) r" "list_all wellsent (sent (net y) u)" "seen y s \<le> length (got (net y) s)"
  using assms by (auto simp: invW_def)

lemma invWI:
  assumes "\<And>s k. servedBy (cfg (\<not> s)) k (reqOf y s k) (replies k (sent (net y) (\<not> s))) (workFor y (\<not> s) k)"
    and "\<And>u t. t \<in># gor y u \<Longrightarrow> task_ok t" and "\<And>s r. \<not> pxFlags (prox y s) r"
    and "\<And>u. list_all wellsent (sent (net y) u)" and "\<And>s. seen y s \<le> length (got (net y) s)"
  shows "invW cfg y"
  using assms by (auto simp: invW_def)

lemma task_ok_request: "task_ok (TaskRequest payload)"
  by (auto simp: task_ok_def intro: decodedKey_ok)

lemma seen_le_sent:
  assumes "invW cfg y" and "fifo (net y)"
  shows "seen y s \<le> length (sent (net y) (\<not> s))"
  using invWD(5) [OF assms(1), of s] assms(2) by (auto simp: fifo_def dest: prefix_length_le [of "got (net y) s"] intro: order_trans)

subsection \<open>Steps of the session\<close>

lemma invW_net:
  assumes i: "invW cfg y" and f: "fifo (net y)" and st: "step ops (net y) w"
    and q: "\<And>s. filter on_bridge (sent w s) = filter on_bridge (sent (net y) s)"
  shows "invW cfg (y\<lparr>net := w\<rparr>)"
proof (rule invWI)
  fix s k
  from step_quiet [OF st q, of "\<not> s"] obtain xs where xs: "sent w (\<not> s) = sent (net y) (\<not> s) @ xs" "list_all (\<lambda>m. \<not> on_bridge m) xs" .
  from step_quiet [OF st q, of s] obtain ys where ys: "sent w s = sent (net y) s @ ys" "list_all (\<lambda>m. \<not> on_bridge m) ys" .
  from ys(2) have d: "list_all (\<lambda>m. \<not> on_bridge m) (drop n ys)" for n by (auto simp: list_all_iff dest: in_set_dropD)
  have "workFor (y\<lparr>net := w\<rparr>) (\<not> s) k = workFor y (\<not> s) k"
    using ys off_bridge(2) [OF d] by (simp add: workFor_def egressWork_def)
  then show "servedBy (cfg (\<not> s)) k (reqOf (y\<lparr>net := w\<rparr>) s k) (replies k (sent (net (y\<lparr>net := w\<rparr>)) (\<not> s))) (workFor (y\<lparr>net := w\<rparr>) (\<not> s) k)"
    using invWD(1) [OF i, of s k] off_bridge(1) [OF xs(2)] by (simp add: xs(1) reqOf_def)
next
  fix u
  from step_quiet [OF st q, of u] obtain xs where xs: "sent w u = sent (net y) u @ xs" "list_all (\<lambda>m. \<not> on_bridge m) xs" .
  then show "list_all wellsent (sent (net (y\<lparr>net := w\<rparr>)) u)" using invWD(4) [OF i, of u] by (auto simp: list_all_iff wellsent_def)
next
  fix s
  show "seen (y\<lparr>net := w\<rparr>) s \<le> length (got (net (y\<lparr>net := w\<rparr>)) s)"
    using invWD(5) [OF i, of s] step_sent(2) [OF st, of s] by (auto dest: prefix_length_le)
qed (use invWD [OF i] in auto)

subsection \<open>A new call\<close>

lemma invW_call:
  assumes i: "invW cfg y" and f: "fifo (net y)" and k: "k \<notin> dom (calls y s)" "length k = 16"
    and o: "openCall (cfg s) oper k (prox y s) = Some (p, ca)" and b: "bridgeSend (net y) s (caReq ca) = (w, ok)"
    and y': "y' = y\<lparr>net := w, prox := (prox y)(s := if ok then p else closeCall k ca p),
       calls := (calls y)(s := (calls y s)(k \<mapsto> if ok then ca else ca\<lparr>caResult := Some SendFailed\<rparr>))\<rparr>"
  shows "invW cfg y'"
proof (rule invWI)
  note c = openCall_Some [OF o k(2)]
  have b': "sent w = (sent (net y))(s := sent (net y) s @ (if ok then [caReq ca] else []))" "got w = got (net y)"
    using bridgeSend_step [OF b] c(1) by (auto simp: is_request_def FrameKeyUpdate_def FrameKeyUpdateAck_def)
  have flags: "pxFlags (if ok then p else closeCall k ca p) = pxFlags (prox y s)"
    using c(6) by (auto simp: registerReply_def openRegister_def closeCall_def cleanupReply_def cleanupStream_def Let_def)
  have req: "requestTasks [caReq ca] = [TaskRequest (snd (snd (caReq ca)))]" using c(1) by (simp add: requestTasks_def)
  fix s' k'
  show "servedBy (cfg (\<not> s')) k' (reqOf y' s' k') (replies k' (sent (net y') (\<not> s'))) (workFor y' (\<not> s') k')"
  proof (cases "s' = s")
    case True
    have r: "replies k' (sent (net y') (\<not> s)) = replies k' (sent (net y) (\<not> s))" by (simp add: y' b')
    let ?new = "filter_mset (\<lambda>t. taskKey t = Some k') (if ok then {#TaskRequest (snd (snd (caReq ca)))#} else {#})"
    have w: "workFor y' (\<not> s) k' = workFor y (\<not> s) k' + ?new"
      using req seen_le_sent [OF i f, of "\<not> s"] by (auto simp: workFor_def egressWork_def y' b')
    show ?thesis
    proof (cases "k' = k")
      case True
      have old: "workFor y (\<not> s) k = {#}" "replies k (sent (net y) (\<not> s)) = []"
        using invWD(1) [OF i, of s k] k(1) by (auto simp: servedBy_def reqOf_def domIff)
      have q: "reqOf y' s k = Some (caReq ca)" by (simp add: reqOf_def y')
      have "\<exists>t. ?new = opt_mset t \<and> prefix (replies k (remaining_opt (cfg (\<not> s)) t)) (replies k (answer (cfg (\<not> s)) (caReq ca)))"
      proof (cases "ok \<and> decodedKey FrameBridgeRequest (snd (snd (caReq ca))) = Some k")
        case True
        then show ?thesis using \<open>k' = k\<close>
          by (intro exI [of _ "Some (TaskRequest (snd (snd (caReq ca))))"]) (simp add: opt_mset_def answer_def)
      next
        case False
        then show ?thesis using \<open>k' = k\<close> by (intro exI [of _ None]) (auto simp: opt_mset_def)
      qed
      then show ?thesis using \<open>s' = s\<close> \<open>k' = k\<close> r w old q by (simp add: servedBy_def)
    next
      case False
      then have "?new = {#}" using c(2) by auto
      with w have "workFor y' (\<not> s) k' = workFor y (\<not> s) k'" by (simp only: add_0_right)
      moreover have "reqOf y' s k' = reqOf y s k'" using False by (simp add: reqOf_def y')
      ultimately show ?thesis using invWD(1) [OF i, of s k'] \<open>s' = s\<close> r by simp
    qed
  next
    case False
    then have s': "s' = (\<not> s)" by auto
    have "workFor y' s k' = workFor y s k'" by (simp add: workFor_def egressWork_def y' b')
    moreover have "reqOf y' (\<not> s) k' = reqOf y (\<not> s) k'" by (simp add: reqOf_def y')
    moreover have "replies k' (sent (net y') s) = replies k' (sent (net y) s)"
      using request_no_reply [OF c(1)] by (simp add: y' b')
    ultimately show ?thesis using invWD(1) [OF i, of "\<not> s" k'] s' by simp
  qed
next
  note c = openCall_Some [OF o k(2)]
  have b': "sent w = (sent (net y))(s := sent (net y) s @ (if ok then [caReq ca] else []))" "got w = got (net y)"
    using bridgeSend_step [OF b] c(1) by (auto simp: is_request_def FrameKeyUpdate_def FrameKeyUpdateAck_def)
  show "list_all wellsent (sent (net y') u)" for u using invWD(4) [OF i, of u] c(1) by (auto simp: y' b' wellsent_def)
  show "seen y' s' \<le> length (got (net y') s')" for s' using invWD(5) [OF i, of s'] by (simp add: y' b')
  have flags: "pxFlags (if ok then p else closeCall k ca p) = pxFlags (prox y s)"
    using c(6) by (auto simp: registerReply_def openRegister_def closeCall_def cleanupReply_def cleanupStream_def Let_def)
  then show "\<not> pxFlags (prox y' s') r" for s' r using invWD(3) [OF i] by (simp add: y')
qed (use invWD(2) [OF i] in \<open>auto simp: y'\<close>)

subsection \<open>A round of the receive loop\<close>

lemma runDispatch_tasks:
  assumes "runDispatch m p = Some (p', ts)"
  shows "filter_mset (\<lambda>t. taskKey t = Some k) (mset ts) = filter_mset (\<lambda>t. taskKey t = Some k) (mset (requestTasks [m]))"
    and "t \<in> set ts \<Longrightarrow> task_ok t"
  using assms task_ok_request by (auto simp: runDispatch_def requestTasks_def is_request_def task_ok_def split: prod.splits if_splits)

lemma runDispatch_flags:
  assumes "runDispatch m p = Some (p', ts)" and "wellsent m"
  shows "pxFlags p' = pxFlags p"
proof -
  obtain ch ft payload where m: "m = (ch, ft, payload)" by (cases m)
  have d: "pxFlags q = pxFlags p" if "deliverReply ft payload p = Some q" for q
    using that by (auto simp: deliverReply_def Let_def split: sum.splits option.splits if_splits)
  have h: "pxFlags (handleInboundStreamFrame ft payload p) = pxFlags p"
    if "ch = ChanBridge" "ft = FrameBridgeStreamData \<or> ft = FrameBridgeStreamEnd"
  proof -
    from assms(2) that obtain k where "answers k m" by (auto simp: wellsent_def on_bridge_def is_request_def m)
    with that m obtain f eid ev where "DecodeBridgeFrame ft payload = Inr f"
      "decodeLeadingStreamControl (bForeign f) = Inr (dataControl eid, ev)" by (auto simp: answers_def)
    then show ?thesis by (simp add: handleInboundStreamFrame_def Let_def split: option.splits)
  qed
  from assms(1) d h m show ?thesis by (auto simp: runDispatch_def split: if_splits)
qed

lemma next_message:
  assumes "fifo (net y)" and "seen y s < length (got (net y) s)"
  shows "got (net y) s ! seen y s = sent (net y) (\<not> s) ! seen y s" "seen y s < length (sent (net y) (\<not> s))"
  using assms by (auto simp: fifo_def prefix_def nth_append dest!: spec [of _ s])

lemma invW_run:
  assumes i: "invW cfg y" and f: "fifo (net y)" and n: "seen y s < length (got (net y) s)"
    and d: "runDispatch (got (net y) s ! seen y s) (prox y s) = Some (p, ts)"
    and y': "y' = y\<lparr>prox := (prox y)(s := p), gor := (gor y)(s := gor y s + mset ts), seen := (seen y)(s := seen y s + 1)\<rparr>"
  shows "invW cfg y'"
proof (rule invWI)
  let ?m = "got (net y) s ! seen y s"
  have drop: "drop (seen y s) (sent (net y) (\<not> s)) = ?m # drop (Suc (seen y s)) (sent (net y) (\<not> s))"
    using next_message [OF f n] by (simp add: Cons_nth_drop_Suc)
  then have "requestTasks (drop (seen y s) (sent (net y) (\<not> s))) = requestTasks [?m] @ requestTasks (drop (Suc (seen y s)) (sent (net y) (\<not> s)))"
    by (metis append_Cons append_Nil requestTasks_append)
  then have "workFor y' s k = workFor y s k" for k
    using runDispatch_tasks(1) [OF d, of k] by (simp add: workFor_def egressWork_def y')
  moreover have "workFor y' (\<not> s) k = workFor y (\<not> s) k" for k by (simp add: workFor_def egressWork_def y')
  ultimately have "workFor y' u k = workFor y u k" for u k by (cases "u = s") auto
  then show "servedBy (cfg (\<not> s')) k (reqOf y' s' k) (replies k (sent (net y') (\<not> s'))) (workFor y' (\<not> s') k)" for s' k
    using invWD(1) [OF i, of s' k] by (simp add: y' reqOf_def)
  show "task_ok t" if "t \<in># gor y' u" for u t
    using that runDispatch_tasks(2) [OF d] invWD(2) [OF i] by (auto simp: y' split: if_splits)
  have "wellsent ?m" using invWD(4) [OF i, of "\<not> s"] next_message [OF f n] by (auto simp: list_all_iff)
  then show "\<not> pxFlags (prox y' s') r" for s' r
    using runDispatch_flags [OF d] invWD(3) [OF i] by (simp add: y')
  show "seen y' s' \<le> length (got (net y') s')" for s' using n invWD(5) [OF i, of s'] by (auto simp: y')
qed (use invWD [OF i] in \<open>auto simp: y'\<close>)

subsection \<open>A round of a goroutine\<close>

lemma opt_mset_add: "add_mset t ts = opt_mset x \<longleftrightarrow> ts = {#} \<and> x = Some t"
  by (auto simp: opt_mset_def split: option.splits)

lemma filter_opt_mset: "filter_mset P (opt_mset x) = (case x of None \<Rightarrow> {#} | Some t \<Rightarrow> if P t then {#t#} else {#})"
  by (auto simp: opt_mset_def split: option.splits)

text \<open>The work for the key of a goroutine that has made a round, and for every other key.\<close>

lemma servedBy_task:
  assumes "servedBy cfg k req rs (filter_mset (\<lambda>t. taskKey t = Some k) (add_mset t ts))"
    and "\<And>t'. x = Some t' \<Longrightarrow> taskKey t' = taskKey t"
    and "taskKey t = Some k \<Longrightarrow> prefix (out @ replies k (remaining_opt cfg x)) (replies k (remaining cfg t))"
    and "taskKey t \<noteq> Some k \<Longrightarrow> out = []"
  shows "servedBy cfg k req (rs @ out) (filter_mset (\<lambda>t. taskKey t = Some k) (ts + opt_mset x))"
proof (cases "taskKey t = Some k")
  case False
  have "filter_mset (\<lambda>t. taskKey t = Some k) (opt_mset x) = {#}" using False assms(2) by (auto simp: filter_opt_mset split: option.splits)
  then have eq: "filter_mset (\<lambda>t. taskKey t = Some k) (ts + opt_mset x) = filter_mset (\<lambda>t. taskKey t = Some k) (add_mset t ts)"
    using False by (simp only: filter_union_mset add_0_right filter_mset_add_mset if_False)
  show ?thesis unfolding eq using assms(1,4) False by simp
next
  case True
  let ?F = "filter_mset (\<lambda>t. taskKey t = Some k)"
  from assms(1) True obtain m where m: "req = Some m" "?F ts = {#}" "prefix (rs @ replies k (remaining cfg t)) (replies k (answer cfg m))"
    by (auto simp: servedBy_def opt_mset_add split: option.splits)
  have "?F (ts + opt_mset x) = opt_mset x"
    using m(2) True assms(2) by (auto simp: filter_opt_mset opt_mset_def split: option.splits)
  moreover have "prefix (rs @ out @ replies k (remaining_opt cfg x)) (replies k (answer cfg m))"
    using assms(3) [OF True] m(3) by (meson same_prefix_prefix prefix_order.trans)
  ultimately show ?thesis using m(1) by (auto simp: servedBy_def)
qed

lemma invW_goroutine:
  assumes i: "invW cfg y" and f: "fifo (net y)" and g: "gor y u = add_mset t ts"
    and sent: "sent w = (sent (net y))(u := sent (net y) u @ out)" and got: "got w = got (net y)"
    and p: "egress_eq (prox y u) p" and x: "\<And>t'. x = Some t' \<Longrightarrow> taskKey t' = taskKey t"
    and out: "out = [] \<or> (\<exists>k m. taskKey t = Some k \<and> out = [m] \<and> answers k m)"
    and rem: "\<And>k. prefix (replies k out @ replies k (remaining_opt (cfg u) x)) (replies k (remaining (cfg u) t))"
    and y': "y' = y\<lparr>net := w, prox := (prox y)(u := p), gor := (gor y)(u := ts + opt_mset x)\<rparr>"
  shows "invW cfg y'"
proof (rule invWI)
  fix s k
  have r: "requestTasks out = []" using out answers_key(2) by auto
  have keep: "requestTasks (drop n out) = []" for n using out r by (cases n) auto
  have kout: "replies k out = []" if "taskKey t \<noteq> Some k" using that out answers_replies by fastforce
  show "servedBy (cfg (\<not> s)) k (reqOf y' s k) (replies k (sent (net y') (\<not> s))) (workFor y' (\<not> s) k)"
  proof (cases "s = u")
    case True
    have "workFor y' (\<not> u) k = workFor y (\<not> u) k" by (simp add: workFor_def egressWork_def y' sent keep)
    then show ?thesis using invWD(1) [OF i, of u k] True by (simp add: y' sent reqOf_def)
  next
    case False
    then have s: "s = (\<not> u)" by auto
    let ?R = "mset (requestTasks (drop (seen y u) (sent (net y) (\<not> u))))"
    have old: "workFor y u k = filter_mset (\<lambda>t. taskKey t = Some k) (add_mset t (ts + ?R))" by (simp add: workFor_def egressWork_def g)
    have new: "workFor y' u k = filter_mset (\<lambda>t. taskKey t = Some k) ((ts + ?R) + opt_mset x)" by (simp add: workFor_def egressWork_def y' sent ac_simps)
    from servedBy_task [OF invWD(1) [OF i, of "\<not> u" k, unfolded not_not old] x, where out = "replies k out"] rem [of k] kout
    show ?thesis unfolding s not_not new by (simp add: y' sent reqOf_def)
  qed
next
  show "task_ok t'" if "t' \<in># gor y' u'" for u' t'
  proof (cases "t' \<in># gor y u'")
    case False
    with that have "x = Some t'" using g by (auto simp: y' opt_mset_def split: if_splits option.splits)
    with x invWD(2) [OF i, of t u] g show ?thesis by (simp add: task_ok_def)
  qed (rule invWD(2) [OF i])
  show "\<not> pxFlags (prox y' s) r" for s r
    using p invWD(3) [OF i] by (auto simp: y' egress_eq_def)
  show "list_all wellsent (sent (net y') u')" for u'
    using out invWD(4) [OF i, of u'] by (auto simp: y' sent wellsent_def)
  show "seen y' s \<le> length (got (net y') s)" for s using invWD(5) [OF i, of s] by (simp add: y' got)
qed

lemma remaining_answers: "taskKey t = Some k \<Longrightarrow> key_ok k \<Longrightarrow> list_all (answers k) (remaining cfg t)"
  using serve_answers handlerMessages_answers streamMessages_answers
  by (cases t) (auto simp: decodedKey_def split: sum.splits)

lemma remaining_unkeyed: "taskKey t = None \<Longrightarrow> remaining cfg t = []"
  by (cases t) (auto simp: decodedKey_def split: sum.splits)

lemma answers_types: "answers k m \<Longrightarrow> fst m = ChanBridge \<and> fst (snd m) \<noteq> FrameKeyUpdate \<and> fst (snd m) \<noteq> FrameKeyUpdateAck"
  by (auto simp: answers_def FrameKeyUpdate_def FrameKeyUpdateAck_def)

text \<open>Steps of a waiting call change neither the requests nor the messages.\<close>

lemma invW_local:
  assumes "invW cfg y" and "net y' = net y" and "gor y' = gor y" and "seen y' = seen y" and "\<And>s k. reqOf y' s k = reqOf y s k"
    and "\<And>s. pxFlags (prox y' s) = pxFlags (prox y s)"
  shows "invW cfg y'"
  using invWD [OF assms(1)] assms(2-6) by (intro invWI) (auto simp: workFor_def egressWork_def)

lemma closeCall_flags [simp]: "pxFlags (closeCall k ca p) = pxFlags p"
  by (simp add: closeCall_def cleanupReply_def cleanupStream_def)

lemma sent_message:
  assumes i: "invW cfg y" and g: "t \<in># gor y s" and t: "proxyTask (cfg s) t (prox y s) = Some (Some (Inr m), next)"
  obtains k where "stage_ok (cfg s) t (prox y s) (Some (Inr m), next)" and "taskKey t = Some k" and "answers k m"
proof -
  have ok: "task_ok t" using invWD(2) [OF i g] .
  have st: "stage_ok (cfg s) t (prox y s) (Some (Inr m), next)"
    by (rule proxyTask_ok [OF t]) (use ok invWD(3) [OF i] in \<open>auto simp: task_ok_def\<close>)
  then have r: "remaining (cfg s) t = m # remaining_opt (cfg s) (snd (next True))" by (simp add: stage_ok_def)
  then obtain k where k: "taskKey t = Some k" using remaining_unkeyed by (cases "taskKey t") auto
  with remaining_answers [OF k, of "cfg s"] ok r have "answers k m" by (simp add: task_ok_def)
  with st k that show ?thesis by blast
qed

lemma invW_pstep:
  assumes "pstep cfg ops y y'" and i: "invW cfg y" and f: "fifo (net y)"
  shows "invW cfg y'"
  using assms(1)
proof cases
  case (psNet w)
  then show ?thesis using invW_net [OF i f] by simp
next
  case (psCall k s oper p ca w ok)
  then show ?thesis using invW_call [OF i f] by blast
next
  case (psRun s p ts)
  then show ?thesis using invW_run [OF i f] by blast
next
  case (psTask s t ts "next" p t')
  have "t \<in># gor y s" using psTask(2) by simp
  then have "stage_ok (cfg s) t (prox y s) (None, next)"
    by (intro proxyTask_ok [OF psTask(3)]) (use invWD(2,3) [OF i] in \<open>auto simp: task_ok_def\<close>)
  then have "egress_eq (prox y s) p" "\<And>x. t' = Some x \<Longrightarrow> taskKey x = taskKey t" "remaining (cfg s) t = remaining_opt (cfg s) t'"
    using psTask(4) by (auto simp: stage_ok_def dest: spec [of _ True])
  then show ?thesis
    by (intro invW_goroutine [OF i f psTask(2), where w = "net y" and out = "[]" and x = t' and p = p]) (auto simp: psTask(1))
next
  case (psTaskSend s t ts m "next" w ok p t')
  have "t \<in># gor y s" using psTaskSend(2) by simp
  from sent_message [OF i this psTaskSend(3)] obtain k where st: "stage_ok (cfg s) t (prox y s) (Some (Inr m), next)"
    and k: "taskKey t = Some k" "answers k m" by blast
  note b = bridgeSend_step [OF psTaskSend(4)] answers_types [OF k(2)]
  have x: "egress_eq (prox y s) p" "\<And>x. t' = Some x \<Longrightarrow> taskKey x = taskKey t"
      "remaining (cfg s) t = m # remaining_opt (cfg s) (snd (next True))" "snd (next False) = None"
    using st psTaskSend(5) by (auto simp: stage_ok_def dest: spec [of _ ok])
  have rem: "prefix (replies k' (if ok then [m] else []) @ replies k' (remaining_opt (cfg s) t')) (replies k' (remaining (cfg s) t))" for k'
    using x(3,4) psTaskSend(5) by (cases ok) (auto simp: replies_def)
  have out: "(if ok then [m] else []) = [] \<or> (\<exists>k m'. taskKey t = Some k \<and> (if ok then [m] else []) = [m'] \<and> answers k m')"
    using k by metis
  show ?thesis
    by (rule invW_goroutine [OF i f psTaskSend(2), where w = w and out = "if ok then [m] else []" and x = t' and p = p])
      (fact out | use b x(1,2) rem psTaskSend(1) in simp)+
next
  case (psChunk s k ca d chunk rest c)
  then show ?thesis by (intro invW_local [OF i]) (auto simp: reqOf_def)
next
  case (psStreamDone s k ca d chunk rest r)
  then show ?thesis by (intro invW_local [OF i]) (auto simp: reqOf_def)
next
  case (psReply s k ca reply rest r q)
  then show ?thesis by (intro invW_local [OF i]) (auto simp: reqOf_def)
next
  case (psAbandon s k ca)
  then show ?thesis by (intro invW_local [OF i]) (auto simp: reqOf_def)
qed

lemma pstep_net:
  assumes "pstep cfg ops y y'" and "invW cfg y"
  shows "(step ops)\<^sup>*\<^sup>* (net y) (net y')"
  using assms(1)
proof cases
  case (psCall k s oper p ca w ok)
  then have "is_request (caReq ca)" using openCall_Some(1) by blast
  then show ?thesis using bridgeSend_step(1) [OF psCall(5)] psCall(1)
    by (auto simp: is_request_def FrameKeyUpdate_def FrameKeyUpdateAck_def)
next
  case (psTaskSend s t ts m "next" w ok p t')
  have "t \<in># gor y s" using psTaskSend(2) by simp
  from sent_message [OF assms(2) this psTaskSend(3)] obtain k where "answers k m" by blast
  from bridgeSend_step(1) [OF psTaskSend(4)] answers_types [OF this] psTaskSend(1) show ?thesis by auto
qed auto

lemma invW_start: "invW cfg (psys_start a b)"
  by (rule invWI) (auto simp: psys_start_def start_def servedBy_def reqOf_def workFor_def egressWork_def proxy_init_def)

lemma psys_reachable:
  assumes "paired a b" "paired b a" "(pstep cfg ops)\<^sup>*\<^sup>* (psys_start a b) y"
  shows "invW cfg y \<and> fifo (net y) \<and> (step ops)\<^sup>*\<^sup>* (start a b) (net y)"
  using assms(3)
proof (induction rule: rtranclp_induct)
  case base
  then show ?case using invW_start by (auto simp: psys_start_def start_def fifo_def)
next
  case (step y z)
  then have i: "invW cfg z" "(Duplex.step ops)\<^sup>*\<^sup>* (start a b) (net z)"
    using invW_pstep pstep_net [OF step.hyps(2)] by (auto intro: rtranclp_trans)
  with inv_reachable [OF assms(1,2) i(2)] inv_fifo show ?case by (auto simp: fifo_def)
qed

section \<open>The ingress side follows what it has dispatched\<close>

definition is_rr :: "message \<Rightarrow> bool" where
  "is_rr m \<longleftrightarrow> fst (snd m) \<in> {FrameBridgeResponse, FrameBridgeError}"

definition is_stream :: "message \<Rightarrow> bool" where
  "is_stream m \<longleftrightarrow> fst (snd m) \<in> {FrameBridgeStreamData, FrameBridgeStreamEnd}"

definition reply_of :: "message \<Rightarrow> pendingReply \<Rightarrow> bool" where
  "reply_of m r \<longleftrightarrow> (case m of (ch, ft, wire) \<Rightarrow>
     \<exists>f. DecodeBridgeFrame ft wire = Inr f \<and> r = \<lparr>prType = ft, prEnv = bEnvelope f, prForeign = bForeign f\<rparr>)"

definition chunkOf :: "message \<Rightarrow> streamChunk" where
  "chunkOf m = (case m of (ch, ft, wire) \<Rightarrow>
     (case DecodeBridgeFrame ft wire of
        Inl _ \<Rightarrow> \<lparr>ckType = ft, ckControl = noControl, ckEvent = [], ckErr = None\<rparr>
      | Inr f \<Rightarrow>
          (case decodeLeadingStreamControl (bForeign f) of
             Inl e \<Rightarrow> \<lparr>ckType = ft, ckControl = noControl, ckEvent = [], ckErr = Some e\<rparr>
           | Inr (c, event) \<Rightarrow> \<lparr>ckType = ft, ckControl = c, ckEvent = event, ckErr = None\<rparr>)))"

definition chunksOf :: "bytes \<Rightarrow> message list \<Rightarrow> streamChunk list" where
  "chunksOf k ms = map chunkOf (filter is_stream (replies k ms))"

lemma chunksOf_append [simp]: "chunksOf k (xs @ ys) = chunksOf k xs @ chunksOf k ys"
  by (simp add: chunksOf_def)

lemma rr_no_chunk: "is_rr m \<Longrightarrow> chunksOf k [m] = []"
  by (auto simp: chunksOf_def replies_def is_rr_def is_stream_def)

lemma no_reply_no_chunk: "replies k [m] = [] \<Longrightarrow> chunksOf k [m] = []"
  by (simp add: chunksOf_def)

abbreviation cid :: "streamChunk \<Rightarrow> u64" where
  "cid c \<equiv> scEventID (ckControl c)"

definition collected :: "streamChunk list \<Rightarrow> collect" where
  "collected xs = \<lparr>coTracker = (if xs = [] then newTracker else \<lparr>trStarted = True, trLast = cid (last xs)\<rparr>), coEvents = map ckEvent xs\<rparr>"

definition refs_ok :: "proxy \<Rightarrow> (bytes \<rightharpoonup> call) \<Rightarrow> bool" where
  "refs_ok p cs \<longleftrightarrow>
    (\<forall>k ca. cs k = Some ca \<longrightarrow> caReply ca < pxNext p \<and> (\<forall>d. caData ca = Some d \<longrightarrow> d < pxNext p))
    \<and> (\<forall>k k' ca ca'. cs k = Some ca \<longrightarrow> cs k' = Some ca' \<longrightarrow> k \<noteq> k' \<longrightarrow>
         caReply ca \<noteq> caReply ca' \<and> (\<forall>d. caData ca = Some d \<longrightarrow> caData ca' \<noteq> Some d))
    \<and> (\<forall>k r. pxPending p k = Some r \<longrightarrow> (\<exists>ca. cs k = Some ca \<and> caReply ca = r))
    \<and> (\<forall>k d. pxStreamPending p k = Some d \<longrightarrow> (\<exists>ca. cs k = Some ca \<and> caData ca = Some d))"

definition reply_inv :: "proxy \<Rightarrow> bytes \<Rightarrow> call \<Rightarrow> message list \<Rightarrow> bool" where
  "reply_inv p k ca D \<longleftrightarrow>
    (pxPending p k \<noteq> None \<longrightarrow> pxReplies p (caReply ca) = [])
    \<and> (pxReplies p (caReply ca) = [] \<or> (\<exists>m r. m \<in> set (replies k D) \<and> is_rr m \<and> reply_of m r \<and> pxReplies p (caReply ca) = [r]))"

definition stream_inv :: "proxy \<Rightarrow> bytes \<Rightarrow> call \<Rightarrow> message list \<Rightarrow> bool" where
  "stream_inv p k ca D \<longleftrightarrow> (\<forall>d. caData ca = Some d \<longrightarrow> caResult ca = None \<longrightarrow>
     pxStreamPending p k = Some d
     \<and> (\<exists>consumed. subseq (consumed @ pxChunks p d) (chunksOf k D)
          \<and> (length (chunksOf k D) \<le> dataCap \<longrightarrow> consumed @ pxChunks p d = chunksOf k D)
          \<and> caCollect ca = collected consumed \<and> (\<forall>c \<in> set consumed. ckType c \<noteq> FrameBridgeStreamEnd)))"

definition complete :: "streamChunk list \<Rightarrow> bytes list \<Rightarrow> bool" where
  "complete cks evs \<longleftrightarrow> (\<exists>consumed e. evs = map ckEvent consumed \<and> (\<forall>c \<in> set consumed. ckType c \<noteq> FrameBridgeStreamEnd)
     \<and> ckType e = FrameBridgeStreamEnd \<and> subseq (consumed @ [e]) cks
     \<and> (length cks \<le> dataCap \<longrightarrow> prefix (consumed @ [e]) cks))"

definition result_inv :: "bytes \<Rightarrow> call \<Rightarrow> message list \<Rightarrow> bool" where
  "result_inv k ca D \<longleftrightarrow>
    (\<forall>r. caResult ca = Some (GotReply r) \<longrightarrow> (\<exists>m \<in> set (replies k D). is_rr m \<and> reply_of m r))
    \<and> (\<forall>evs. caResult ca = Some (GotStream (Inr evs)) \<longrightarrow> complete (chunksOf k D) evs)
    \<and> (\<forall>e. caResult ca = Some (GotStream (Inl e)) \<longrightarrow>
         (\<exists>m \<in> set (replies k D). \<exists>r. is_rr m \<and> reply_of m r \<and> e = decodeStreamOpenErrorReply r))"

definition invP :: "proxy \<Rightarrow> (bytes \<rightharpoonup> call) \<Rightarrow> message list \<Rightarrow> bool" where
  "invP p cs D \<longleftrightarrow> refs_ok p cs \<and> (\<forall>k ca. cs k = Some ca \<longrightarrow> reply_inv p k ca D \<and> stream_inv p k ca D \<and> result_inv k ca D)"

lemma complete_append:
  assumes "complete cks evs"
  shows "complete (cks @ cks') evs"
proof -
  from assms obtain consumed e where "evs = map ckEvent consumed" "\<forall>c \<in> set consumed. ckType c \<noteq> FrameBridgeStreamEnd"
      "ckType e = FrameBridgeStreamEnd" "subseq (consumed @ [e]) cks" "length cks \<le> dataCap \<longrightarrow> prefix (consumed @ [e]) cks"
    by (auto simp: complete_def)
  then show ?thesis unfolding complete_def
    by (intro exI [of _ consumed] exI [of _ e]) (auto intro: list_emb_prefix prefix_prefix)
qed

lemma reply_inv_more: "reply_inv p k ca D \<Longrightarrow> reply_inv p k ca (D @ E)"
  by (auto simp: reply_inv_def)

lemma result_inv_more: "result_inv k ca D \<Longrightarrow> result_inv k ca (D @ E)"
  unfolding result_inv_def replies_append set_append chunksOf_append using complete_append by blast

lemma stream_inv_more: "stream_inv p k ca D \<Longrightarrow> chunksOf k E = [] \<Longrightarrow> stream_inv p k ca (D @ E)"
  by (simp add: stream_inv_def)

lemma refs_okD:
  assumes "refs_ok p cs"
  shows "cs k = Some ca \<Longrightarrow> caReply ca < pxNext p" "cs k = Some ca \<Longrightarrow> caData ca = Some d \<Longrightarrow> d < pxNext p"
    "cs k = Some ca \<Longrightarrow> cs k' = Some ca' \<Longrightarrow> k \<noteq> k' \<Longrightarrow> caReply ca \<noteq> caReply ca'"
    "cs k = Some ca \<Longrightarrow> cs k' = Some ca' \<Longrightarrow> k \<noteq> k' \<Longrightarrow> caData ca = Some d \<Longrightarrow> caData ca' \<noteq> Some d"
    "pxPending p k = Some r \<Longrightarrow> \<exists>ca. cs k = Some ca \<and> caReply ca = r"
    "pxStreamPending p k = Some d \<Longrightarrow> \<exists>ca. cs k = Some ca \<and> caData ca = Some d"
  using assms unfolding refs_ok_def by blast+

lemma invPD:
  assumes "invP p cs D"
  shows "refs_ok p cs" "cs k = Some ca \<Longrightarrow> reply_inv p k ca D" "cs k = Some ca \<Longrightarrow> stream_inv p k ca D" "cs k = Some ca \<Longrightarrow> result_inv k ca D"
  using assms unfolding invP_def by blast+

lemma invPI:
  assumes "refs_ok p cs" "\<And>k ca. cs k = Some ca \<Longrightarrow> reply_inv p k ca D \<and> stream_inv p k ca D \<and> result_inv k ca D"
  shows "invP p cs D"
  using assms unfolding invP_def by blast

subsection \<open>Dispatching\<close>


lemma msgKey_decoded:
  assumes "DecodeBridgeFrame ft payload = Inr f" and "ft \<in> {FrameBridgeResponse, FrameBridgeError, FrameBridgeStreamData, FrameBridgeStreamEnd}"
  shows "msgKey (ChanBridge, ft, payload) = Some (bCorrelationID (bEnvelope f))"
  using assms by (simp add: msgKey_def decodedKey_def)

lemma invP_no_chunk:
  assumes "invP p cs D" and "\<And>k. chunksOf k [m] = []"
  shows "invP p cs (D @ [m])"
  using invPD [OF assms(1)] assms(2) by (intro invPI) (simp_all add: reply_inv_more result_inv_more stream_inv_more)

lemmas invP_same = invP_no_chunk [OF _ no_reply_no_chunk]
lemmas invP_rr = invP_no_chunk [OF _ rr_no_chunk]

lemma invP_deliverReply:
  assumes i: "invP p cs D" and d: "deliverReply ft payload p = Some q" and ft: "ft \<in> {FrameBridgeResponse, FrameBridgeError}"
  shows "invP q cs (D @ [(ChanBridge, ft, payload)])"
proof (cases "DecodeBridgeFrame ft payload")
  case (Inl e)
  with d i ft show ?thesis by (simp add: deliverReply_def invP_rr is_rr_def)
next
  case (Inr f)
  let ?k = "bCorrelationID (bEnvelope f)" and ?m = "(ChanBridge, ft, payload)"
  let ?r = "\<lparr>prType = ft, prEnv = bEnvelope f, prForeign = bForeign f\<rparr>"
  have rr: "is_rr ?m" using ft by (auto simp: is_rr_def)
  note i' = invP_rr [OF i rr]
  show ?thesis
  proof (cases "pxPending p ?k")
    case None
    with Inr d i' show ?thesis by (simp add: deliverReply_def Let_def)
  next
    case (Some w)
    with refs_okD(5) [OF invPD(1) [OF i]] obtain ca where ca: "cs ?k = Some ca" "caReply ca = w" by blast
    with invPD(2) [OF i ca(1)] Some have e: "pxReplies p w = []" by (auto simp: reply_inv_def)
    have q: "q = p\<lparr>pxPending := (pxPending p)(?k := None), pxReplies := (pxReplies p)(w := [?r])\<rparr>"
      using d Inr Some e by (simp add: deliverReply_def Let_def replyCap_def)
    have mem: "?m \<in> set (replies ?k (D @ [?m]))" using msgKey_decoded [OF Inr] ft by (auto simp: replies_def)
    have ro: "reply_of ?m ?r" using Inr by (simp add: reply_of_def)
    show ?thesis
    proof (rule invPI)
      show "refs_ok q cs" using invPD(1) [OF i] by (auto simp: refs_ok_def q)
      fix k ca' assume k: "cs k = Some ca'"
      have "reply_inv q k ca' (D @ [?m])"
      proof (cases "k = ?k")
        case True
        then have "ca' = ca" using k ca by simp
        then show ?thesis using mem rr ro ca(2) True unfolding reply_inv_def q by auto
      next
        case False
        then have "caReply ca' \<noteq> w" using refs_okD(3) [OF invPD(1) [OF i] k ca(1)] ca(2) by simp
        then show ?thesis using invPD(2) [OF i' k] False by (simp add: reply_inv_def q)
      qed
      moreover have "stream_inv q k ca' (D @ [?m])" using invPD(3) [OF i' k] by (simp add: stream_inv_def q)
      ultimately show "reply_inv q k ca' (D @ [?m]) \<and> stream_inv q k ca' (D @ [?m]) \<and> result_inv k ca' (D @ [?m])"
        using invPD(4) [OF i' k] by blast
    qed
  qed
qed

lemma invP_stream:
  assumes i: "invP p cs D" and ft: "ft \<in> {FrameBridgeStreamData, FrameBridgeStreamEnd}"
  shows "invP (handleInboundStreamFrame ft payload p) cs (D @ [(ChanBridge, ft, payload)])"
proof (cases "DecodeBridgeFrame ft payload")
  case (Inl e)
  have "replies k [(ChanBridge, ft, payload)] = []" for k using Inl by (simp add: replies_def msgKey_def decodedKey_def)
  with i Inl show ?thesis by (simp add: handleInboundStreamFrame_def invP_same)
next
  case (Inr f)
  let ?k = "bCorrelationID (bEnvelope f)" and ?m = "(ChanBridge, ft, payload)"
  let ?q = "handleInboundStreamFrame ft payload p"
  have key: "msgKey ?m = Some ?k" using msgKey_decoded [OF Inr] ft by auto
  have st: "is_stream ?m" using ft by (auto simp: is_stream_def)
  have ch: "chunksOf k [?m] = (if k = ?k then [chunkOf ?m] else [])" for k
    using key st by (simp add: chunksOf_def replies_def)
  show ?thesis
  proof (cases "pxStreamPending p ?k")
    case None
    then have q: "pxPending ?q = pxPending p" "pxStreamPending ?q = pxStreamPending p" "pxReplies ?q = pxReplies p" "pxChunks ?q = pxChunks p" "pxNext ?q = pxNext p"
      by (simp_all add: handleInboundStreamFrame_def Inr Let_def split: option.splits sum.splits)
    show ?thesis
    proof (rule invPI)
      show "refs_ok ?q cs" using invPD(1) [OF i] by (simp add: refs_ok_def q)
      fix k ca assume k: "cs k = Some ca"
      have "stream_inv ?q k ca (D @ [?m])"
        using invPD(3) [OF i k] None ch [of k] by (auto simp: stream_inv_def q split: if_splits)
      then show "reply_inv ?q k ca (D @ [?m]) \<and> stream_inv ?q k ca (D @ [?m]) \<and> result_inv k ca (D @ [?m])"
        using reply_inv_more [OF invPD(2) [OF i k], of "[?m]"] result_inv_more [OF invPD(4) [OF i k]] by (simp add: reply_inv_def q)
    qed
  next
    case (Some d)
    with refs_okD(6) [OF invPD(1) [OF i]] obtain ca where ca: "cs ?k = Some ca" "caData ca = Some d" by blast
    have q: "?q = (if length (pxChunks p d) < dataCap then p\<lparr>pxChunks := (pxChunks p)(d := pxChunks p d @ [chunkOf ?m])\<rparr> else p)"
      by (simp add: handleInboundStreamFrame_def Inr Some Let_def chunkOf_def split: sum.splits)
    show ?thesis
    proof (rule invPI)
      show "refs_ok ?q cs" using invPD(1) [OF i] by (simp add: refs_ok_def q)
      fix k ca' assume k: "cs k = Some ca'"
      have "stream_inv ?q k ca' (D @ [?m])"
      proof (cases "k = ?k")
        case False
        then have "caData ca' \<noteq> Some d" using refs_okD(4) [OF invPD(1) [OF i] ca(1) k _ ca(2)] by simp
        then show ?thesis using invPD(3) [OF i k] ch [of k] False by (auto simp: stream_inv_def q)
      next
        case True
        then have c: "ca' = ca" using k ca by simp
        have "\<exists>consumed. subseq (consumed @ pxChunks ?q d) (chunksOf ?k D @ [chunkOf ?m])
            \<and> (length (chunksOf ?k D @ [chunkOf ?m]) \<le> dataCap \<longrightarrow> consumed @ pxChunks ?q d = chunksOf ?k D @ [chunkOf ?m])
            \<and> caCollect ca = collected consumed \<and> (\<forall>c \<in> set consumed. ckType c \<noteq> FrameBridgeStreamEnd)" if none: "caResult ca = None"
        proof -
          from invPD(3) [OF i ca(1)] ca(2) none obtain consumed where s: "subseq (consumed @ pxChunks p d) (chunksOf ?k D)"
              "length (chunksOf ?k D) \<le> dataCap \<longrightarrow> consumed @ pxChunks p d = chunksOf ?k D" "caCollect ca = collected consumed"
              "\<forall>c \<in> set consumed. ckType c \<noteq> FrameBridgeStreamEnd" unfolding stream_inv_def by blast
          show ?thesis
          proof (cases "length (pxChunks p d) < dataCap")
            case True
            have "subseq ((consumed @ pxChunks p d) @ [chunkOf ?m]) (chunksOf ?k D @ [chunkOf ?m])"
              using s(1) by (simp only: subseq_append)
            with s True show ?thesis by (intro exI [of _ consumed]) (auto simp: q)
          next
            case False
            have "length (pxChunks p d) \<le> length (chunksOf ?k D)" using list_emb_length [OF s(1)] by simp
            with s False show ?thesis by (intro exI [of _ consumed]) (auto simp: q intro: list_emb_prefix)
          qed
        qed
        then show ?thesis using c True Some ca(2) ch [of ?k] by (auto simp: stream_inv_def q)
      qed
      moreover have "reply_inv ?q k ca' (D @ [?m])"
        using reply_inv_more [OF invPD(2) [OF i k], of "[?m]"] by (simp add: reply_inv_def q)
      ultimately show "reply_inv ?q k ca' (D @ [?m]) \<and> stream_inv ?q k ca' (D @ [?m]) \<and> result_inv k ca' (D @ [?m])"
        using result_inv_more [OF invPD(4) [OF i k]] by blast
    qed
  qed
qed

lemma invP_runDispatch:
  assumes i: "invP p cs D" and d: "runDispatch m p = Some (q, ts)"
  shows "invP q cs (D @ [m])"
proof -
  obtain ch ft payload where m: "m = (ch, ft, payload)" by (cases m)
  consider "ch = ChanBridge" "ft \<in> {FrameBridgeResponse, FrameBridgeError}" | "ch = ChanBridge" "ft \<in> {FrameBridgeStreamData, FrameBridgeStreamEnd}"
    | "ch \<noteq> ChanBridge \<or> ft \<notin> {FrameBridgeResponse, FrameBridgeError, FrameBridgeStreamData, FrameBridgeStreamEnd}" by blast
  then show ?thesis
  proof cases
    case 1
    with d m have "deliverReply ft payload p = Some q" by (auto simp: runDispatch_def)
    then show ?thesis using invP_deliverReply [OF i _ 1(2)] 1(1) m by blast
  next
    case 2
    with d m have "q = handleInboundStreamFrame ft payload p" by (auto simp: runDispatch_def)
    then show ?thesis using invP_stream [OF i 2(2)] 2(1) m by blast
  next
    case 3
    then have "replies k [m] = []" for k by (auto simp: replies_def msgKey_def m)
    moreover have "q = p" using d 3 m by (auto simp: runDispatch_def split: if_splits)
    ultimately show ?thesis using invP_same [OF i] by blast
  qed
qed

subsection \<open>Calls and goroutines\<close>

lemma invP_egress: "egress_eq p p' \<Longrightarrow> invP p cs D \<Longrightarrow> invP p' cs D"
  by (auto simp: invP_def refs_ok_def reply_inv_def stream_inv_def egress_eq_def intro: less_le_trans)

lemma reply_inv_cong:
  "pxPending q k = pxPending p k \<Longrightarrow> pxReplies q (caReply ca) = pxReplies p (caReply ca) \<Longrightarrow> reply_inv q k ca D = reply_inv p k ca D"
  by (simp add: reply_inv_def)

lemma stream_inv_cong:
  assumes "pxStreamPending q k = pxStreamPending p k" and "\<And>d. caData ca = Some d \<Longrightarrow> pxChunks q d = pxChunks p d"
  shows "stream_inv q k ca D = stream_inv p k ca D"
  using assms unfolding stream_inv_def by simp

lemma invP_register:
  assumes i: "invP p cs D" and k: "cs k = None" "replies k D = []" and ca: "caReply ca = pxNext p" "caCollect ca = newCollect"
    and res: "caResult ca \<in> {None, Some SendFailed}"
    and p: "caData ca = None \<and> p' = fst (registerReply k p) \<or> caData ca = Some (pxNext p + 1) \<and> p' = fst (openRegister k p)"
    and q: "q = (if caResult ca = None then p' else closeCall k ca p')"
  shows "invP q (cs(k \<mapsto> ca)) D"
proof (rule invPI)
  note r = refs_okD [OF invPD(1) [OF i]]
  have old: "caReply ca' \<noteq> pxNext p" "caData ca' \<noteq> Some (pxNext p + 1)" if "cs k' = Some ca'" for k' ca'
    using r(1) [OF that] r(2) [OF that] by auto
  have nx: "pxNext p < pxNext q \<and> (\<forall>d. caData ca = Some d \<longrightarrow> d < pxNext q)"
    using p by (auto simp: q registerReply_def openRegister_def closeCall_def cleanupReply_def cleanupStream_def Let_def)
  have same: "pxPending q k' = pxPending p k'" "pxStreamPending q k' = pxStreamPending p k'" if "k' \<noteq> k" for k'
    using p that by (auto simp: q registerReply_def openRegister_def closeCall_def cleanupReply_def cleanupStream_def Let_def)
  have store: "pxReplies q = (pxReplies p)(pxNext p := [])" "\<And>d. d \<noteq> pxNext p + 1 \<Longrightarrow> pxChunks q d = pxChunks p d"
    using p by (auto simp: q registerReply_def openRegister_def closeCall_def cleanupReply_def cleanupStream_def Let_def)
  have mine: "pxPending q k \<in> {None, Some (pxNext p)}" "pxStreamPending q k \<in> {None, caData ca}"
      "caResult ca = None \<Longrightarrow> caData ca = Some d \<Longrightarrow> pxStreamPending q k = Some d \<and> pxChunks q d = []" for d
  proof -
    have "pxStreamPending p k = None" using k(1) r(6) [of k] by (cases "pxStreamPending p k") auto
    then show "pxPending q k \<in> {None, Some (pxNext p)}" "pxStreamPending q k \<in> {None, caData ca}"
      "caResult ca = None \<Longrightarrow> caData ca = Some d \<Longrightarrow> pxStreamPending q k = Some d \<and> pxChunks q d = []"
      using p by (auto simp: q registerReply_def openRegister_def closeCall_def cleanupReply_def cleanupStream_def Let_def)
  qed
  show "refs_ok q (cs(k \<mapsto> ca))"
    unfolding refs_ok_def
  proof (intro conjI allI impI)
    fix k' ca' assume c: "(cs(k \<mapsto> ca)) k' = Some ca'"
    show "caReply ca' < pxNext q" using c nx ca(1) r(1) [of k' ca'] by (cases "k' = k") auto
    show "d < pxNext q" if "caData ca' = Some d" for d using c that nx r(2) [of k' ca' d] by (cases "k' = k") auto
  next
    fix k1 k2 ca1 ca2 assume c: "(cs(k \<mapsto> ca)) k1 = Some ca1" "(cs(k \<mapsto> ca)) k2 = Some ca2" "k1 \<noteq> k2"
    have pd: "caData ca = None \<or> caData ca = Some (pxNext p + 1)" using p by blast
    show "caReply ca1 \<noteq> caReply ca2"
      using c old(1) [of k1 ca1] old(1) [of k2 ca2] ca(1) r(3) [of k1 ca1 k2 ca2] by (cases "k1 = k"; cases "k2 = k") auto
    show "caData ca2 \<noteq> Some d" if "caData ca1 = Some d" for d
      using c that pd old(2) [of k1 ca1] old(2) [of k2 ca2] r(4) [of k1 ca1 k2 ca2 d] by (cases "k1 = k"; cases "k2 = k") auto
  next
    fix k' w assume "pxPending q k' = Some w"
    then show "\<exists>ca'. (cs(k \<mapsto> ca)) k' = Some ca' \<and> caReply ca' = w"
      using mine(1) same(1) [of k'] r(5) [of k' w] ca(1) by (cases "k' = k") auto
  next
    fix k' d assume "pxStreamPending q k' = Some d"
    then show "\<exists>ca'. (cs(k \<mapsto> ca)) k' = Some ca' \<and> caData ca' = Some d"
      using mine(2) same(2) [of k'] r(6) [of k' d] by (cases "k' = k") auto
  qed
  fix k' ca' assume c: "(cs(k \<mapsto> ca)) k' = Some ca'"
  show "reply_inv q k' ca' D \<and> stream_inv q k' ca' D \<and> result_inv k' ca' D"
  proof (cases "k' = k")
    case True
    with c have "ca' = ca" by simp
    moreover have "chunksOf k D = []" using k(2) by (simp add: chunksOf_def)
    ultimately show ?thesis using True mine(3) store(1) ca res
      by (auto simp: reply_inv_def stream_inv_def result_inv_def collected_def newCollect_def)
  next
    case False
    with c have c': "cs k' = Some ca'" by simp
    have "reply_inv q k' ca' D = reply_inv p k' ca' D"
      using same(1) [OF False] store(1) old(1) [OF c'] by (intro reply_inv_cong) simp_all
    moreover have "stream_inv q k' ca' D = stream_inv p k' ca' D"
      using same(2) [OF False] store(2) old(2) [OF c'] by (intro stream_inv_cong) auto
    ultimately show ?thesis using invPD(2-4) [OF i c'] by simp
  qed
qed

text \<open>A call that goes on or ends: everything else keeps its invariant.\<close>

lemma invP_update:
  assumes i: "invP p cs D" and c: "cs k = Some ca" and same: "caReply ca' = caReply ca" "caData ca' = caData ca"
    and q: "pxNext q = pxNext p" "\<And>k'. k' \<noteq> k \<Longrightarrow> pxPending q k' = pxPending p k' \<and> pxStreamPending q k' = pxStreamPending p k'"
      "pxPending q k \<in> {None, pxPending p k}" "pxStreamPending q k \<in> {None, pxStreamPending p k}"
    and st: "\<And>r. r \<noteq> caReply ca \<Longrightarrow> pxReplies q r = pxReplies p r" "\<And>d. caData ca \<noteq> Some d \<Longrightarrow> pxChunks q d = pxChunks p d"
    and new: "reply_inv q k ca' D" "stream_inv q k ca' D" "result_inv k ca' D"
  shows "invP q (cs(k \<mapsto> ca')) D"
proof (rule invPI)
  note r = refs_okD [OF invPD(1) [OF i]]
  have orig: thesis if "(cs(k \<mapsto> ca')) k1 = Some ca1"
      and "\<And>oc. cs k1 = Some oc \<Longrightarrow> caReply oc = caReply ca1 \<Longrightarrow> caData oc = caData ca1 \<Longrightarrow> thesis" for k1 ca1 thesis
    using that c same by (cases "k1 = k") auto
  show "refs_ok q (cs(k \<mapsto> ca'))"
    unfolding refs_ok_def
  proof (intro conjI allI impI)
    fix k1 ca1 assume "(cs(k \<mapsto> ca')) k1 = Some ca1"
    then obtain oc where oc: "cs k1 = Some oc" "caReply oc = caReply ca1" "caData oc = caData ca1" by (rule orig)
    show "caReply ca1 < pxNext q" using r(1) [OF oc(1)] oc(2) q(1) by simp
    show "d < pxNext q" if "caData ca1 = Some d" for d using r(2) [OF oc(1), of d] that oc(3) q(1) by simp
  next
    fix k1 k2 ca1 ca2 assume c1: "(cs(k \<mapsto> ca')) k1 = Some ca1" "(cs(k \<mapsto> ca')) k2 = Some ca2" "k1 \<noteq> k2"
    obtain oc where oc: "cs k1 = Some oc" "caReply oc = caReply ca1" "caData oc = caData ca1" by (rule orig [OF c1(1)])
    obtain od where od: "cs k2 = Some od" "caReply od = caReply ca2" "caData od = caData ca2" by (rule orig [OF c1(2)])
    show "caReply ca1 \<noteq> caReply ca2" using r(3) [OF oc(1) od(1) c1(3)] oc(2) od(2) by simp
    show "caData ca2 \<noteq> Some d" if "caData ca1 = Some d" for d using r(4) [OF oc(1) od(1) c1(3), of d] that oc(3) od(3) by simp
  next
    fix k' w assume "pxPending q k' = Some w"
    then show "\<exists>ca1. (cs(k \<mapsto> ca')) k' = Some ca1 \<and> caReply ca1 = w"
      using q(2) [of k'] q(3) r(5) [of k' w] c same by (cases "k' = k") auto
  next
    fix k' d assume "pxStreamPending q k' = Some d"
    then show "\<exists>ca1. (cs(k \<mapsto> ca')) k' = Some ca1 \<and> caData ca1 = Some d"
      using q(2) [of k'] q(4) r(6) [of k' d] c same by (cases "k' = k") auto
  qed
  fix k1 ca1 assume c1: "(cs(k \<mapsto> ca')) k1 = Some ca1"
  show "reply_inv q k1 ca1 D \<and> stream_inv q k1 ca1 D \<and> result_inv k1 ca1 D"
  proof (cases "k1 = k")
    case True
    with c1 new show ?thesis by simp
  next
    case False
    with c1 have c': "cs k1 = Some ca1" by simp
    have ne: "caReply ca1 \<noteq> caReply ca" "\<And>d. caData ca1 = Some d \<Longrightarrow> caData ca \<noteq> Some d"
      using r(3) [OF c' c False] r(4) [OF c' c False] by auto
    have "reply_inv q k1 ca1 D = reply_inv p k1 ca1 D" using q(2) [OF False] st(1) [OF ne(1)] by (intro reply_inv_cong) simp_all
    moreover have "stream_inv q k1 ca1 D = stream_inv p k1 ca1 D" using q(2) [OF False] st(2) ne(2) by (intro stream_inv_cong) auto
    ultimately show ?thesis using invPD(2-4) [OF i c'] by simp
  qed
qed

subsection \<open>The chunks of an answer\<close>

definition good_chunks :: "streamChunk list \<Rightarrow> bool" where
  "good_chunks cks \<longleftrightarrow> (\<forall>c \<in> set cks. ckErr c = None) \<and> sorted_wrt (<) (map cid cks)"

lemma collectChunk_good:
  assumes "good_chunks (consumed @ [c])"
  shows "collectChunk (collected consumed) c =
    (if ckType c = FrameBridgeStreamEnd then Inr (Inr (map ckEvent consumed)) else Inl (collected (consumed @ [c])))"
proof (cases "consumed = []")
  case True
  then show ?thesis using assms by (simp add: collectChunk_def collected_def tracker_accept_def newTracker_def good_chunks_def)
next
  case False
  then have "cid (last consumed) < cid c" using assms by (simp add: good_chunks_def sorted_wrt_append)
  then show ?thesis using False assms
    by (simp add: collectChunk_def collected_def tracker_accept_def good_chunks_def)
qed

lemma sorted_wrt_subseq: "subseq xs ys \<Longrightarrow> sorted_wrt P ys \<Longrightarrow> sorted_wrt P xs"
  by (induction rule: list_emb.induct) (auto dest: list_emb_set)

lemma good_subseq: "subseq xs ys \<Longrightarrow> good_chunks ys \<Longrightarrow> good_chunks xs"
  unfolding good_chunks_def using sorted_wrt_subseq [OF subseq_map] by (auto dest: list_emb_set)

lemma good_prefix: "prefix xs ys \<Longrightarrow> good_chunks ys \<Longrightarrow> good_chunks xs"
  by (auto simp: good_chunks_def prefix_def sorted_wrt_append)

fun dataChunks :: "u64 \<Rightarrow> bytes list \<Rightarrow> streamChunk list" where
  "dataChunks eid [] = []"
| "dataChunks eid (ev # evs) = \<lparr>ckType = FrameBridgeStreamData, ckControl = dataControl eid, ckEvent = ev, ckErr = None\<rparr> # dataChunks (eid + 1) evs"

definition endChunk :: "u64 \<Rightarrow> streamChunk" where
  "endChunk eid = \<lparr>ckType = FrameBridgeStreamEnd, ckControl = dataControl eid, ckEvent = [], ckErr = None\<rparr>"

definition allChunks :: "bytes list \<Rightarrow> streamChunk list" where
  "allChunks evs = dataChunks 1 evs @ [endChunk (1 + of_nat (length evs))]"

lemma dataChunks_simps [simp]: "length (dataChunks eid evs) = length evs" "map ckEvent (dataChunks eid evs) = evs"
    "c \<in> set (dataChunks eid evs) \<Longrightarrow> ckType c = FrameBridgeStreamData \<and> ckErr c = None"
  by (induction evs arbitrary: eid) auto

lemma cid_dataChunks: "map cid (dataChunks eid evs) = map (\<lambda>i. eid + of_nat i) [0..<length evs]"
proof (induction evs arbitrary: eid)
  case (Cons ev evs)
  then show ?case
    by (simp add: upt_conv_Cons map_Suc_upt [symmetric] comp_def add.assoc del: upt_Suc)
qed simp

lemma good_allChunks:
  assumes "length evs < 2 ^ 64 - 1"
  shows "good_chunks (allChunks evs)"
proof -
  have "map cid (allChunks evs) = map (\<lambda>i. 1 + of_nat i) [0..<Suc (length evs)]"
    by (simp add: allChunks_def cid_dataChunks endChunk_def)
  moreover have "(1 + of_nat i :: u64) < 1 + of_nat j" if "i < j" "j < Suc (length evs)" for i j
  proof -
    have "(1 + of_nat n :: u64) = of_nat (Suc n)" for n by simp
    moreover have "unat (of_nat (Suc n) :: u64) = Suc n" if "n < Suc (length evs)" for n
      using that assms by (simp only: unat_of_nat take_bit_nat_eq_self_iff) simp
    ultimately show ?thesis using that by (simp only: word_less_nat_alt)
  qed
  ultimately have "sorted_wrt (<) (map cid (allChunks evs))"
    by (simp add: sorted_wrt_iff_nth_less del: upt_Suc)
  then show ?thesis by (auto simp: good_chunks_def allChunks_def endChunk_def)
qed

lemma chunks_streamMessages:
  assumes "key_ok k"
  shows "chunksOf k (streamMessages protocol k class eid evs) = dataChunks eid evs @ [endChunk (eid + of_nat (length evs))]"
    "filter is_rr (replies k (streamMessages protocol k class eid evs)) = []"
proof -
  have "chunksOf k (streamMessages protocol k class eid evs) = dataChunks eid evs @ [endChunk (eid + of_nat (length evs))]
      \<and> filter is_rr (replies k (streamMessages protocol k class eid evs)) = []"
  proof (induction evs arbitrary: eid)
    case Nil
    obtain wire f where "streamEndMessage protocol k class eid False = Inr (ChanBridge, FrameBridgeStreamEnd, wire)"
      "DecodeBridgeFrame FrameBridgeStreamEnd wire = Inr f" "bCorrelationID (bEnvelope f) = k"
      "decodeLeadingStreamControl (bForeign f) = Inr (dataControl eid, [])" by (rule streamEndMessage_ok [OF assms])
    then show ?case
      by (simp add: msg_list_def chunksOf_def replies_def msgKey_def decodedKey_def is_stream_def is_rr_def chunkOf_def endChunk_def)
  next
    case (Cons ev evs)
    obtain wire f where "streamDataMessage protocol k class eid ev = Inr (ChanBridge, FrameBridgeStreamData, wire)"
      "DecodeBridgeFrame FrameBridgeStreamData wire = Inr f" "bCorrelationID (bEnvelope f) = k"
      "decodeLeadingStreamControl (bForeign f) = Inr (dataControl eid, ev)" by (rule streamDataMessage_ok [OF assms])
    then have "chunksOf k (msg_list (streamDataMessage protocol k class eid ev)) =
        [\<lparr>ckType = FrameBridgeStreamData, ckControl = dataControl eid, ckEvent = ev, ckErr = None\<rparr>]"
        "filter is_rr (replies k (msg_list (streamDataMessage protocol k class eid ev))) = []"
      by (simp_all add: msg_list_def chunksOf_def replies_def msgKey_def decodedKey_def is_stream_def is_rr_def chunkOf_def)
    then show ?case using Cons.IH [of "eid + 1"] by (simp add: add.assoc)
  qed
  then show "chunksOf k (streamMessages protocol k class eid evs) = dataChunks eid evs @ [endChunk (eid + of_nat (length evs))]"
    "filter is_rr (replies k (streamMessages protocol k class eid evs)) = []" by blast+
qed

lemma chunksOf_Nil [simp]: "chunksOf k [] = []"
  by (simp add: chunksOf_def)

lemma sendBridgeError_rr: "sendBridgeError protocol k code msg = Inr m \<Longrightarrow> is_rr m"
  by (auto simp: sendBridgeError_def is_rr_def Let_def)

lemma handleInboundHTTPRequest_rr: "handleInboundHTTPRequest cfg frame = Inr m \<Longrightarrow> is_rr m"
  by (auto simp: handleInboundHTTPRequest_def is_rr_def Let_def sendBridgeError_def split: option.splits sum.splits if_splits)

lemma handleInboundOpaqueRequest_rr: "handleInboundOpaqueRequest cfg frame = Inr m \<Longrightarrow> is_rr m"
  by (auto simp: handleInboundOpaqueRequest_def is_rr_def Let_def sendBridgeError_def
      split: option.splits sum.splits prod.splits carriage_err.splits)

lemma msg_list_chunks: "(\<And>m. r = Inr m \<Longrightarrow> is_rr m) \<Longrightarrow> chunksOf k (msg_list r) = []"
  using rr_no_chunk by (cases r) (simp_all add: msg_list_def)

definition streamClass :: "u16 \<Rightarrow> streamCarriageClass option" where
  "streamClass protocol = (if protocol = BridgeProtoWebSocket then Some websocketStreamClass
     else if protocol = grpcProtocolID then Some grpcStreamClass else None)"

text \<open>Chunks come only from the events of a stream handler, and then nothing else answers the request.\<close>

lemma serve_chunks:
  assumes "key_ok (bCorrelationID (bEnvelope frame))"
  shows "chunksOf (bCorrelationID (bEnvelope frame)) (serve cfg frame) = []
    \<or> (\<exists>class evs. streamClass (bProtocol (bEnvelope frame)) = Some class \<and> \<not> resumes frame \<and> streamEvents cfg frame class = Inr evs
         \<and> chunksOf (bCorrelationID (bEnvelope frame)) (serve cfg frame) = allChunks evs)"
proof -
  let ?k = "bCorrelationID (bEnvelope frame)" and ?pr = "bProtocol (bEnvelope frame)"
  note none = msg_list_chunks [OF sendBridgeError_rr] msg_list_chunks [OF handleInboundHTTPRequest_rr] msg_list_chunks [OF handleInboundOpaqueRequest_rr]
  have stream: "chunksOf ?k (serveStream cfg frame class) = [] \<or>
      \<not> resumes frame \<and> (\<exists>evs. streamEvents cfg frame class = Inr evs \<and> chunksOf ?k (serveStream cfg frame class) = allChunks evs)" for "class"
  proof (cases "resumes frame")
    case False
    then show ?thesis
    proof (cases "streamEvents cfg frame class")
      case (Inr evs)
      then show ?thesis using False chunks_streamMessages(1) [OF assms] by (simp add: serveStream_def handlerMessages_def Let_def allChunks_def)
    qed (auto simp: serveStream_def handlerMessages_def Let_def none split: prod.splits)
  qed (simp add: serveStream_def none)
  show ?thesis
  proof (cases "?pr = BridgeProtoWebSocket \<or> ?pr = grpcProtocolID")
    case True
    then obtain "class" where c: "streamClass ?pr = Some class" "serve cfg frame = serveStream cfg frame class"
      by (auto simp: streamClass_def serve_def grpcProtocolID_def)
    with stream [of "class"] show ?thesis by auto
  next
    case False
    then have "chunksOf ?k (serve cfg frame) = []" by (simp add: serve_def Let_def none)
    then show ?thesis ..
  qed
qed

text \<open>The event ids of a stream are 64-bit words: a handler returns fewer events than there are ids.\<close>

definition modest :: "proxy_cfg \<Rightarrow> bool" where
  "modest cfg \<longleftrightarrow> (\<forall>h msg evs. WebSocketHandler cfg = Some h \<longrightarrow> h msg = Inr evs \<longrightarrow> length evs < 2 ^ 64 - 1)"

lemma modest_events: "modest cfg \<Longrightarrow> streamEvents cfg frame class = Inr evs \<Longrightarrow> length evs < 2 ^ 64 - 1"
  by (cases "class") (auto simp: modest_def streamEvents_def split: option.splits sum.splits prod.splits)

lemma answer_chunks:
  assumes "modest cfg"
  shows "good_chunks (chunksOf k (answer cfg m))"
proof -
  have nil: "good_chunks []" by (simp add: good_chunks_def)
  show ?thesis
  proof (cases "DecodeBridgeFrame FrameBridgeRequest (snd (snd m))")
    case (Inr frame)
    let ?k = "bCorrelationID (bEnvelope frame)"
    have k: "key_ok ?k" using decode_corr [OF Inr] by (simp add: key_ok_def)
    show ?thesis
    proof (cases "k = ?k")
      case True
      from serve_chunks [OF k, of cfg] show ?thesis
        using nil good_allChunks modest_events [OF assms] True Inr by (auto simp: answer_def)
    next
      case False
      then have "replies k (serve cfg frame) = []"
        using serve_answers [OF k, of cfg] answers_key(1) [of ?k] unfolding replies_def list_all_iff filter_empty_conv by fastforce
      then show ?thesis using Inr nil by (simp add: answer_def chunksOf_def)
    qed
  qed (simp add: answer_def nil chunksOf_def)
qed

section \<open>Every step keeps the invariants\<close>

definition dispatched :: "psys \<Rightarrow> side \<Rightarrow> message list" where
  "dispatched y s = take (seen y s) (sent (net y) (\<not> s))"

definition invC :: "psys \<Rightarrow> bool" where
  "invC y \<longleftrightarrow> (\<forall>s. invP (prox y s) (calls y s) (dispatched y s))"

lemma invCI: "(\<And>s. invP (prox y s) (calls y s) (dispatched y s)) \<Longrightarrow> invC y"
  by (simp add: invC_def)

lemma dispatched_good:
  assumes "invW cfg y" and "modest (cfg (\<not> s))" and "calls y s k = Some ca"
  shows "good_chunks (chunksOf k (dispatched y s))"
proof -
  let ?u = "\<not> s"
  from invWD(1) [OF assms(1), of s k] assms(3) have "prefix (replies k (sent (net y) ?u)) (replies k (answer (cfg ?u) (caReq ca)))"
    by (auto simp: servedBy_def reqOf_def dest: append_prefixD)
  then have "prefix (chunksOf k (sent (net y) ?u)) (chunksOf k (answer (cfg ?u) (caReq ca)))"
    by (auto simp: chunksOf_def prefix_def)
  moreover have "prefix (chunksOf k (dispatched y s)) (chunksOf k (sent (net y) ?u))"
    by (metis append_take_drop_id chunksOf_append dispatched_def prefixI)
  ultimately show ?thesis using good_prefix answer_chunks [OF assms(2)] by blast
qed

lemma dispatched_append:
  assumes "seen y s \<le> length (sent (net y) (\<not> s))" and "seen y' s = seen y s" and "sent (net y') (\<not> s) = sent (net y) (\<not> s) @ xs"
  shows "dispatched y' s = dispatched y s"
  using assms by (simp add: dispatched_def)

lemma invC_call:
  assumes i: "invW cfg y" and f: "fifo (net y)" and c: "invC y" and k: "k \<notin> dom (calls y s)" "length k = 16"
    and o: "openCall (cfg s) oper k (prox y s) = Some (p, ca)" and b: "bridgeSend (net y) s (caReq ca) = (w, ok)"
    and y': "y' = y\<lparr>net := w, prox := (prox y)(s := if ok then p else closeCall k ca p),
       calls := (calls y)(s := (calls y s)(k \<mapsto> if ok then ca else ca\<lparr>caResult := Some SendFailed\<rparr>))\<rparr>"
  shows "invC y'"
proof (rule invCI)
  fix s'
  note oc = openCall_Some [OF o k(2)]
  have w: "sent w = (sent (net y))(s := sent (net y) s @ (if ok then [caReq ca] else []))"
    using bridgeSend_step(2) [OF b] oc(1) by (auto simp: is_request_def FrameKeyUpdate_def FrameKeyUpdateAck_def)
  have d: "dispatched y' s' = dispatched y s'" for s'
    using seen_le_sent [OF i f, of s'] by (auto simp: dispatched_def y' w)
  have old: "invP (prox y s') (calls y s') (dispatched y s')" for s' using c by (simp add: invC_def)
  show "invP (prox y' s') (calls y' s') (dispatched y' s')"
  proof (cases "s' = s")
    case False
    then show ?thesis using old [of s'] d by (simp add: y')
  next
    case True
    let ?ca = "if ok then ca else ca\<lparr>caResult := Some SendFailed\<rparr>"
    have n: "calls y s k = None" using k(1) by (simp add: domIff)
    then have "replies k (sent (net y) (\<not> s)) = []" using invWD(1) [OF i, of s k] by (simp add: servedBy_def reqOf_def)
    then have "replies k (dispatched y s) = []"
      by (auto simp: replies_def filter_empty_conv dispatched_def dest: in_set_takeD)
    then have "invP (if caResult ?ca = None then p else closeCall k ?ca p) ((calls y s)(k \<mapsto> ?ca)) (dispatched y s)"
      using oc by (intro invP_register [OF old n]) auto
    then show ?thesis using True d oc(4) by (auto simp: y' closeCall_def)
  qed
qed

lemma invC_local:
  assumes c: "invC y" and k: "calls y s k = Some ca" and p: "invP p ((calls y s)(k \<mapsto> ca')) (dispatched y s)"
  shows "invC (y\<lparr>prox := (prox y)(s := p), calls := (calls y)(s := (calls y s)(k \<mapsto> ca'))\<rparr>)"
proof (rule invCI)
  fix s'
  let ?y = "y\<lparr>prox := (prox y)(s := p), calls := (calls y)(s := (calls y s)(k \<mapsto> ca'))\<rparr>"
  show "invP (prox ?y s') (calls ?y s') (dispatched ?y s')"
    using p spec [OF c [unfolded invC_def], of s'] by (cases "s' = s") (auto simp: dispatched_def)
qed

text \<open>What ends a waiting call keeps the reply channel empty or as it was.\<close>

lemma reply_inv_close:
  assumes "reply_inv p k ca D" and "pxPending q k \<in> {None, pxPending p k}" and "pxReplies q (caReply ca) = pxReplies p (caReply ca)"
    and "caReply ca' = caReply ca"
  shows "reply_inv q k ca' D"
  using assms by (auto simp: reply_inv_def)

lemma closeCall_simps [simp]:
  "pxPending (closeCall k ca p) = (pxPending p)(k := None)" "pxReplies (closeCall k ca p) = pxReplies p"
  "pxChunks (closeCall k ca p) = pxChunks p" "pxNext (closeCall k ca p) = pxNext p"
  "k' \<noteq> k \<Longrightarrow> pxStreamPending (closeCall k ca p) k' = pxStreamPending p k'" "pxStreamPending (closeCall k ca p) k \<in> {None, pxStreamPending p k}"
  by (auto simp: closeCall_def cleanupReply_def cleanupStream_def)

lemma stream_inv_done: "caResult ca \<noteq> None \<Longrightarrow> stream_inv p k ca D"
  by (auto simp: stream_inv_def)

lemma stream_invD:
  assumes "stream_inv p k ca D" and "caData ca = Some d" and "caResult ca = None"
  obtains consumed where "pxStreamPending p k = Some d" and "subseq (consumed @ pxChunks p d) (chunksOf k D)"
    and "length (chunksOf k D) \<le> dataCap \<longrightarrow> consumed @ pxChunks p d = chunksOf k D"
    and "caCollect ca = collected consumed" and "\<forall>c \<in> set consumed. ckType c \<noteq> FrameBridgeStreamEnd"
  using assms unfolding stream_inv_def by (elim allE [of _ d]) auto

lemma subseq_front:
  assumes "subseq (xs @ x # ys) zs"
  shows "subseq (xs @ [x]) zs"
proof -
  have "subseq (xs @ [x]) ((xs @ [x]) @ ys)" by (rule list_emb_prefix) simp
  with assms show ?thesis by (auto intro: subseq_order.trans)
qed

lemma invP_chunk:
  assumes i: "invP p cs D" and k: "cs k = Some ca" "caResult ca = None" "caData ca = Some d" "pxChunks p d = chunk # rest"
    and g: "good_chunks (chunksOf k D)" and q: "q = p\<lparr>pxChunks := (pxChunks p)(d := rest)\<rparr>"
  shows "collectChunk (caCollect ca) chunk = Inl c \<Longrightarrow> invP q (cs(k \<mapsto> ca\<lparr>caCollect := c\<rparr>)) D"
    "collectChunk (caCollect ca) chunk = Inr r \<Longrightarrow> invP (closeCall k ca q) (cs(k \<mapsto> ca\<lparr>caResult := Some (GotStream r)\<rparr>)) D"
proof -
  obtain consumed where p: "pxStreamPending p k = Some d"
    and s: "subseq (consumed @ chunk # rest) (chunksOf k D)" "length (chunksOf k D) \<le> dataCap \<longrightarrow> consumed @ chunk # rest = chunksOf k D"
      "caCollect ca = collected consumed" "\<forall>c \<in> set consumed. ckType c \<noteq> FrameBridgeStreamEnd"
    by (rule stream_invD [OF invPD(3) [OF i k(1)] k(3,2)]) (simp add: k(4))
  note s' = subseq_front [OF s(1)]
  note col = collectChunk_good [OF good_subseq [OF s' g]]
  have reply: "reply_inv q k ca' D" if "caReply ca' = caReply ca" for ca'
    using invPD(2) [OF i k(1)] that by (simp add: reply_inv_def q)
  show "invP q (cs(k \<mapsto> ca\<lparr>caCollect := c\<rparr>)) D" if "collectChunk (caCollect ca) chunk = Inl c"
  proof (rule invP_update [OF i k(1)])
    from that col s(3) have c: "c = collected (consumed @ [chunk])" "ckType chunk \<noteq> FrameBridgeStreamEnd"
      by (auto split: if_splits)
    show "stream_inv q k (ca\<lparr>caCollect := c\<rparr>) D"
      using s(1,2,4) c p k(3) unfolding stream_inv_def q by (auto intro!: exI [of _ "consumed @ [chunk]"])
    show "result_inv k (ca\<lparr>caCollect := c\<rparr>) D" using invPD(4) [OF i k(1)] by (simp add: result_inv_def)
  qed (use reply k(3) in \<open>auto simp: q\<close>)
  show "invP (closeCall k ca q) (cs(k \<mapsto> ca\<lparr>caResult := Some (GotStream r)\<rparr>)) D" if "collectChunk (caCollect ca) chunk = Inr r"
  proof (rule invP_update [OF i k(1)])
    from that col s(3) have r: "r = Inr (map ckEvent consumed)" "ckType chunk = FrameBridgeStreamEnd"
      by (auto split: if_splits)
    have "prefix (consumed @ [chunk]) (chunksOf k D)" if "length (chunksOf k D) \<le> dataCap"
      using s(2) that by (metis append_Cons append_Nil append_assoc prefixI)
    then have "complete (chunksOf k D) (map ckEvent consumed)"
      unfolding complete_def using s(4) s' r(2) by blast
    then show "result_inv k (ca\<lparr>caResult := Some (GotStream r)\<rparr>) D" by (simp add: result_inv_def r)
    show "reply_inv (closeCall k ca q) k (ca\<lparr>caResult := Some (GotStream r)\<rparr>) D"
      by (rule reply_inv_close [OF reply [of ca]]) auto
    show "pxStreamPending (closeCall k ca q) k \<in> {None, pxStreamPending p k}" using closeCall_simps(6) [of k ca q] by (simp add: q)
  qed (use k(3) in \<open>auto simp: q stream_inv_done\<close>)
qed

lemma invP_reply:
  assumes i: "invP p cs D" and k: "cs k = Some ca" "caResult ca = None" "pxReplies p (caReply ca) = reply # rest"
    and r: "r = (if caData ca = None then GotReply reply else GotStream (Inl (decodeStreamOpenErrorReply reply)))"
    and q: "q = p\<lparr>pxReplies := (pxReplies p)(caReply ca := rest)\<rparr>"
  shows "invP (if caData ca = None then q else closeCall k ca q) (cs(k \<mapsto> ca\<lparr>caResult := Some r\<rparr>)) D"
proof -
  from invPD(2) [OF i k(1)] k(3) obtain m where m: "m \<in> set (replies k D)" "is_rr m" "reply_of m reply" "rest = []" "pxPending p k = None"
    unfolding reply_inv_def by auto
  let ?q = "if caData ca = None then q else closeCall k ca q"
  show ?thesis
  proof (rule invP_update [OF i k(1)])
    show "reply_inv ?q k (ca\<lparr>caResult := Some r\<rparr>) D" using m(4,5) by (simp add: reply_inv_def q)
    show "result_inv k (ca\<lparr>caResult := Some r\<rparr>) D" using m(1-3) unfolding result_inv_def r by auto
    show "pxStreamPending ?q k \<in> {None, pxStreamPending p k}" using closeCall_simps(6) [of k ca q] by (simp add: q)
  qed (use k(2) m(5) in \<open>auto simp: q stream_inv_done\<close>)
qed

lemma invP_abandon:
  assumes i: "invP p cs D" and k: "cs k = Some ca"
  shows "invP (closeCall k ca p) (cs(k \<mapsto> ca\<lparr>caResult := Some Abandoned\<rparr>)) D"
proof (rule invP_update [OF i k])
  show "reply_inv (closeCall k ca p) k (ca\<lparr>caResult := Some Abandoned\<rparr>) D"
    by (rule reply_inv_close [OF invPD(2) [OF i k]]) auto
  show "pxStreamPending (closeCall k ca p) k \<in> {None, pxStreamPending p k}" by (rule closeCall_simps)
qed (auto simp: stream_inv_done result_inv_def)

lemma invC_pstep:
  assumes st: "pstep cfg ops y y'" and i: "invW cfg y" and f: "fifo (net y)" and c: "invC y" and mod: "\<And>u. modest (cfg u)"
  shows "invC y'"
  using st
proof cases
  case (psNet w)
  have "dispatched y' s = dispatched y s" for s
    using step_sent(1) [OF psNet(2), of "\<not> s"] seen_le_sent [OF i f, of s] psNet(1) by (auto simp: dispatched_def)
  then show ?thesis using c psNet(1) by (simp add: invC_def)
next
  case (psCall k s oper p ca w ok)
  then show ?thesis using invC_call [OF i f c] by blast
next
  case (psRun s p ts)
  note m = next_message [OF f psRun(2)]
  have "invP (prox y' s') (calls y' s') (dispatched y' s')" for s'
  proof (cases "s' = s")
    case True
    have "invP p (calls y s) (dispatched y s @ [got (net y) s ! seen y s])"
      using invP_runDispatch [OF _ psRun(3)] c by (simp add: invC_def)
    then show ?thesis using True m psRun(1) by (simp add: dispatched_def take_Suc_conv_app_nth)
  next
    case False
    then show ?thesis using spec [OF c [unfolded invC_def], of s'] psRun(1) by (auto simp: dispatched_def)
  qed
  then show ?thesis by (rule invCI)
next
  case (psTask s t ts "next" p t')
  have "t \<in># gor y s" using psTask(2) by simp
  then have "stage_ok (cfg s) t (prox y s) (None, next)"
    by (intro proxyTask_ok [OF psTask(3)]) (use invWD(2,3) [OF i] in \<open>auto simp: task_ok_def\<close>)
  then have "egress_eq (prox y s) p" using psTask(4) by (auto simp: stage_ok_def dest: spec [of _ True])
  then have "invP (prox y' s') (calls y' s') (dispatched y' s')" for s'
    using spec [OF c [unfolded invC_def], of s'] psTask(1) invP_egress by (cases "s' = s") (auto simp: dispatched_def)
  then show ?thesis by (rule invCI)
next
  case (psTaskSend s t ts m "next" w ok p t')
  have "t \<in># gor y s" using psTaskSend(2) by simp
  from sent_message [OF i this psTaskSend(3)] obtain k where so: "stage_ok (cfg s) t (prox y s) (Some (Inr m), next)" "answers k m" by blast
  have w: "sent w = (sent (net y))(s := sent (net y) s @ (if ok then [m] else []))"
    using bridgeSend_step(2) [OF psTaskSend(4)] answers_types [OF so(2)] by blast
  have "egress_eq (prox y s) p" using so(1) psTaskSend(5) by (auto simp: stage_ok_def dest: spec [of _ ok])
  moreover have "dispatched y' s' = dispatched y s'" for s'
    using seen_le_sent [OF i f, of s'] psTaskSend(1) w by (auto simp: dispatched_def)
  ultimately have "invP (prox y' s') (calls y' s') (dispatched y' s')" for s'
    using spec [OF c [unfolded invC_def], of s'] psTaskSend(1) invP_egress by (cases "s' = s") auto
  then show ?thesis by (rule invCI)
next
  case (psChunk s k ca d chunk rest co)
  have "invP (prox y s) (calls y s) (dispatched y s)" using c by (simp add: invC_def)
  from invP_chunk(1) [OF this psChunk(2-5) dispatched_good [OF i mod psChunk(2)] refl psChunk(6)]
  show ?thesis unfolding psChunk(1) by (rule invC_local [OF c psChunk(2)])
next
  case (psStreamDone s k ca d chunk rest r)
  have "invP (prox y s) (calls y s) (dispatched y s)" using c by (simp add: invC_def)
  from invP_chunk(2) [OF this psStreamDone(2-5) dispatched_good [OF i mod psStreamDone(2)] refl psStreamDone(6)]
  show ?thesis unfolding psStreamDone(1) by (rule invC_local [OF c psStreamDone(2)])
next
  case (psReply s k ca reply rest r q)
  have "invP (prox y s) (calls y s) (dispatched y s)" using c by (simp add: invC_def)
  from invP_reply [OF this psReply(2-6)] show ?thesis unfolding psReply(1) by (rule invC_local [OF c psReply(2)])
next
  case (psAbandon s k ca)
  have "invP (prox y s) (calls y s) (dispatched y s)" using c by (simp add: invC_def)
  from invP_abandon [OF this psAbandon(2)] show ?thesis unfolding psAbandon(1) by (rule invC_local [OF c psAbandon(2)])
qed

lemma invC_start: "invC (psys_start a b)"
  by (simp add: invC_def psys_start_def invP_def refs_ok_def proxy_init_def)

lemma psys_invariants:
  assumes "paired a b" "paired b a" "\<And>u. modest (cfg u)" "(pstep cfg ops)\<^sup>*\<^sup>* (psys_start a b) y"
  shows "invC y \<and> invW cfg y \<and> fifo (net y)"
  using assms(4)
proof (induction rule: rtranclp_induct)
  case base
  then show ?case using invC_start psys_reachable [OF assms(1,2) rtranclp.rtrancl_refl] by blast
next
  case (step y z)
  then show ?case using invC_pstep [OF step.hyps(2) _ _ _ assms(3)] psys_reachable [OF assms(1,2) rtranclp.rtrancl_into_rtrancl [OF step.hyps]] by blast
qed

section \<open>What a caller gets\<close>

lemma dispatched_replies: "prefix (replies k (dispatched y s)) (replies k (sent (net y) (\<not> s)))"
  by (metis append_take_drop_id dispatched_def prefixI replies_append)

lemma replies_answered:
  assumes "invW cfg y" and "calls y s k = Some ca"
  shows "prefix (replies k (dispatched y s)) (replies k (answer (cfg (\<not> s)) (caReq ca)))"
proof -
  from invWD(1) [OF assms(1), of s k] assms(2)
  have "prefix (replies k (sent (net y) (\<not> s))) (replies k (answer (cfg (\<not> s)) (caReq ca)))"
    by (auto simp: servedBy_def reqOf_def dest: append_prefixD)
  with dispatched_replies show ?thesis by (rule prefix_order.trans)
qed

lemma complete_allChunks:
  assumes "complete cks evs" and "prefix cks (allChunks es)"
  shows "subseq evs es" "length es < dataCap \<Longrightarrow> evs = es"
proof -
  from assms(1) obtain consumed e where c: "evs = map ckEvent consumed" "\<forall>c \<in> set consumed. ckType c \<noteq> FrameBridgeStreamEnd"
      "ckType e = FrameBridgeStreamEnd" "subseq (consumed @ [e]) cks" "length cks \<le> dataCap \<longrightarrow> prefix (consumed @ [e]) cks"
    by (auto simp: complete_def)
  let ?D = "dataChunks 1 es" and ?e = "endChunk (1 + of_nat (length es))"
  have notD: "e \<notin> set ?D" using c(3) dataChunks_simps(3) [of e 1 es] by auto
  have whole: "xs = ?D @ [?e]" if "prefix xs (?D @ [?e])" "e \<in> set xs" for xs
    using that notD set_mono_prefix [of xs ?D] by (auto simp: prefix_snoc)
  have "e \<in> set cks" using c(4) by (auto dest: list_emb_set)
  with whole assms(2) have cks: "cks = ?D @ [?e]" by (simp add: allChunks_def)
  let ?F = "filter (\<lambda>c. ckType c \<noteq> FrameBridgeStreamEnd)"
  have "?F ?D = ?D" by (rule filter_True) (auto dest: dataChunks_simps(3))
  then have "?F cks = ?D" by (simp add: cks endChunk_def)
  moreover have "?F (consumed @ [e]) = consumed" using c(2,3) by (simp add: filter_id_conv)
  ultimately have "subseq consumed ?D" using subseq_filter [OF c(4)] by metis
  from subseq_map [OF this, of ckEvent] show "subseq evs es" by (simp add: c(1))
  assume "length es < dataCap"
  then have "length cks \<le> dataCap" by (simp add: cks)
  with c(5) cks have "prefix (consumed @ [e]) (?D @ [?e])" by simp
  then have "consumed = ?D" using whole [of "consumed @ [e]"] by simp
  then show "evs = es" by (simp add: c(1))
qed

lemma complete_nonempty: "complete cks evs \<Longrightarrow> cks \<noteq> []"
  by (auto simp: complete_def)

text \<open>A finished stream call: the handler ran on the decoded request and produced the events.\<close>

lemma stream_call:
  assumes i: "invW cfg y" "invC y" and c: "calls y s k = Some ca" "caResult ca = Some (GotStream (Inr evs))"
    and r: "DecodeBridgeFrame FrameBridgeRequest (snd (snd (caReq ca))) = Inr frame" "bCorrelationID (bEnvelope frame) = k"
  obtains "class" es where "streamClass (bProtocol (bEnvelope frame)) = Some class" and "streamEvents (cfg (\<not> s)) frame class = Inr es"
    and "subseq evs es" and "length es < dataCap \<Longrightarrow> evs = es"
proof -
  have "invP (prox y s) (calls y s) (dispatched y s)" using i(2) by (simp add: invC_def)
  from invPD(4) [OF this c(1)] c(2) have comp: "complete (chunksOf k (dispatched y s)) evs" by (simp add: result_inv_def)
  have p: "prefix (chunksOf k (dispatched y s)) (chunksOf k (serve (cfg (\<not> s)) frame))"
    using replies_answered [OF i(1) c(1)] r(1) by (auto simp: answer_def chunksOf_def prefix_def)
  have "key_ok k" using decode_corr [OF r(1)] r(2) by (simp add: key_ok_def)
  with serve_chunks [of frame "cfg (\<not> s)"] r(2) complete_nonempty [OF comp] p obtain "class" es where
    s: "streamClass (bProtocol (bEnvelope frame)) = Some class" "streamEvents (cfg (\<not> s)) frame class = Inr es"
      "chunksOf k (serve (cfg (\<not> s)) frame) = allChunks es" by auto
  with p complete_allChunks [OF comp, of es] that show ?thesis by metis
qed

section \<open>Calls complete\<close>

text \<open>A session with nothing in flight, and the next sequence number of a side on the Bridge channel.\<close>

definition idle :: "world \<Rightarrow> bool" where
  "idle w \<longleftrightarrow> (\<forall>s. live (endpoint w s) \<and> stream w s = [] \<and> recvDS (endpoint w (\<not> s)) = sendDS (endpoint w s))"

definition seqB :: "world \<Rightarrow> side \<Rightarrow> u64" where
  "seqB w s = ekSeq (sendView (endpoint w s) ChanBridge)"

lemma seq_bound: "unat (x :: u64) + n < 2 ^ 64 - 1 \<Longrightarrow> x \<noteq> - 1"
  by (auto simp: unsigned_minus_1_eq_mask mask_eq_exp_minus_1)

lemma relay_message:
  assumes i: "idle w" and m: "fst m = ChanBridge" "fst (snd m) \<noteq> FrameKeyUpdate" "fst (snd m) \<noteq> FrameKeyUpdateAck"
    and fits: "record_fits (snd (snd m))" and sq: "seqB w s \<noteq> - 1"
  obtains w1 w2 where "bridgeSend w s m = (w1, True)" and "step ops w1 w2" and "idle w2"
    and "sent w2 = sent w1" and "got w1 = got w" and "got w2 = (got w)(\<not> s := got w (\<not> s) @ [m])"
    and "seqB w2 s = seqB w s + 1" and "seqB w2 (\<not> s) = seqB w (\<not> s)"
proof -
  obtain ch ft pt where p: "m = (ch, ft, pt)" by (cases m)
  let ?a = "endpoint w s" and ?b = "endpoint w (\<not> s)"
  have l: "live ?a" "live ?b" "stream w s = []" "recvDS ?b = sendDS ?a" "recvDS ?a = sendDS ?b" "stream w (\<not> s) = []"
    using i spec [OF i [unfolded idle_def], of "\<not> s"] by (auto simp: idle_def)
  have app: "app_record ch ft" using m p by (simp add: app_record_def ChanBridge_def ChanControl_def)
  let ?out = "marshal (dsFrame (sendDS ?a) (ch, ft, pt))"
  have S: "Send ?a ch ft pt WriteOk = (bumpSend ?a ch, ?out, Inr ())"
    using Send_live [OF l(1)] fits sq m p by (simp add: seqB_def)
  let ?w1 = "(emit w s (bumpSend ?a ch) ?out)\<lparr>sent := (sent w)(s := sent w s @ [(ch, ft, pt)])\<rparr>"
  have "dsValid (recvDS ?b) (ch, ft, pt)" using app fits p by (simp add: app_record_def)
  moreover have "recvFrame ops ?b (dsFrame (recvDS ?b) (ch, ft, pt)) = (bumpRecv ?b ch, [], Some (actDeliver ch ft pt))"
    by (rule recv_app [OF l(2) _ app]) (use fits p in simp)
  ultimately have "recvOne ops ?b (marshal (dsFrame (recvDS ?b) (ch, ft, pt)) @ []) = (bumpRecv ?b ch, [], [], Some (actDeliver ch ft pt))"
    by (rule recvOne_frame)
  then have r: "recvOne ops (endpoint ?w1 (\<not> s)) (stream ?w1 (\<not> \<not> s)) = (bumpRecv ?b ch, [], [], Some (actDeliver ch ft pt))"
    using l(3,4) by (simp add: emit_def)
  have ne: "stream ?w1 (\<not> \<not> s) \<noteq> []" by (simp add: emit_def)
  let ?w2 = "?w1\<lparr>endpoint := (endpoint ?w1)(\<not> s := bumpRecv ?b ch), stream := (stream ?w1)(\<not> \<not> s := []),
       tasks := (tasks ?w1)(\<not> s := tasks ?w1 (\<not> s) + mset []), got := (got ?w1)(\<not> s := got ?w1 (\<not> s) @ delivered (Some (actDeliver ch ft pt))),
       fault := (fault ?w1)(\<not> s := (fault ?w1 (\<not> s) \<or> faulty (Some (actDeliver ch ft pt))))\<rparr>"
  show ?thesis
  proof (rule that [of ?w1 ?w2])
    show "bridgeSend w s m = (?w1, True)" using p S by (simp add: bridgeSend_def)
    show "step ops ?w1 ?w2" by (rule stepRecv [OF ne r])
    have "live (endpoint ?w2 u) \<and> stream ?w2 u = [] \<and> recvDS (endpoint ?w2 (\<not> u)) = sendDS (endpoint ?w2 u)" for u
      using l by (cases "u = s") (auto simp: emit_def)
    then show "idle ?w2" by (simp add: idle_def)
    show "got ?w2 = (got w)(\<not> s := got w (\<not> s) @ [m])" by (simp add: emit_def p)
    show "seqB ?w2 s = seqB w s + 1" using m p by (simp add: seqB_def emit_def bumpSend_def sendView_simps)
    show "seqB ?w2 (\<not> s) = seqB w (\<not> s)" using sendDS_keep(1) [of ?b ch] by (simp add: seqB_def emit_def sendDS_def)
  qed (simp_all add: emit_def)
qed

definition ready :: "psys \<Rightarrow> bool" where
  "ready y \<longleftrightarrow> idle (net y) \<and> (\<forall>u. seen y u = length (got (net y) u))"

text \<open>A message that has just been sent in a ready state is delivered and dispatched.\<close>

lemma deliver_message:
  assumes r: "ready y" and "step": "step ops w1 w2" and w: "idle w2" "sent w2 = sent w1" "got w1 = got (net y)"
      "got w2 = (got (net y))(\<not> s := got (net y) (\<not> s) @ [m])"
    and d: "runDispatch m (prox z (\<not> s)) = Some (q, ts)" and z: "net z = w1" "seen z = seen y"
  obtains z' where "(pstep cfg ops)\<^sup>*\<^sup>* z z'" and "ready z'" and "net z' = w2" and "calls z' = calls z"
    and "prox z' = (prox z)(\<not> s := q)" and "gor z' = (gor z)(\<not> s := gor z (\<not> s) + mset ts)"
proof -
  let ?z = "z\<lparr>net := w2\<rparr>" and ?u = "\<not> s"
  have "pstep cfg ops z ?z" by (rule psNet) (use "step" w(2) z(1) in simp_all)
  have sn: "seen z v = length (got (net y) v)" for v using r z(2) by (simp add: ready_def)
  have "got (net ?z) ?u ! seen ?z ?u = m" "seen ?z ?u < length (got (net ?z) ?u)" using sn w(4) by simp_all
  with d psRun [of ?z ?u q ts cfg ops]
  have run: "pstep cfg ops ?z (?z\<lparr>prox := (prox ?z)(?u := q), gor := (gor ?z)(?u := gor ?z ?u + mset ts), seen := (seen ?z)(?u := seen ?z ?u + 1)\<rparr>)"
    by simp
  show ?thesis
  proof (rule that)
    show "(pstep cfg ops)\<^sup>*\<^sup>* z (?z\<lparr>prox := (prox ?z)(?u := q), gor := (gor ?z)(?u := gor ?z ?u + mset ts), seen := (seen ?z)(?u := seen ?z ?u + 1)\<rparr>)"
      using \<open>pstep cfg ops z ?z\<close> run by (meson converse_rtranclp_into_rtranclp rtranclp.rtrancl_refl)
    show "ready (?z\<lparr>prox := (prox ?z)(?u := q), gor := (gor ?z)(?u := gor ?z ?u + mset ts), seen := (seen ?z)(?u := seen ?z ?u + 1)\<rparr>)"
      using w sn by (simp add: ready_def)
  qed simp_all
qed

definition plain :: "message \<Rightarrow> bool" where
  "plain m \<longleftrightarrow> fst m = ChanBridge \<and> fst (snd m) \<noteq> FrameKeyUpdate \<and> fst (snd m) \<noteq> FrameKeyUpdateAck \<and> record_fits (snd (snd m))"

lemma task_message:
  assumes r: "ready y" and g: "gor y u = add_mset t G" "proxyTask (cfg u) t (prox y u) = Some (Some (Inr m), next)" "next True = (p, t')"
    and m: "plain m" "seqB (net y) u \<noteq> - 1" and d: "runDispatch m (prox y (\<not> u)) = Some (q, ts)"
  obtains y' where "(pstep cfg ops)\<^sup>*\<^sup>* y y'" and "ready y'" and "calls y' = calls y"
    and "prox y' = (prox y)(u := p, \<not> u := q)" and "gor y' = (gor y)(u := G + opt_mset t', \<not> u := gor y (\<not> u) + mset ts)"
    and "seqB (net y') u = seqB (net y) u + 1" and "seqB (net y') (\<not> u) = seqB (net y) (\<not> u)"
proof -
  from r have "idle (net y)" by (simp add: ready_def)
  from relay_message [OF this _ _ _ _ m(2), of m ops] m(1) obtain w1 w2 where
    s: "bridgeSend (net y) u m = (w1, True)" "step ops w1 w2"
    and w: "idle w2" "sent w2 = sent w1" "got w1 = got (net y)" "got w2 = (got (net y))(\<not> u := got (net y) (\<not> u) @ [m])"
      "seqB w2 u = seqB (net y) u + 1" "seqB w2 (\<not> u) = seqB (net y) (\<not> u)" by (metis plain_def)
  let ?z = "y\<lparr>net := w1, prox := (prox y)(u := p), gor := (gor y)(u := G + opt_mset t')\<rparr>"
  have "pstep cfg ops y ?z" by (rule psTaskSend [where cfg = cfg, OF g(1,2) s(1) g(3)])
  moreover obtain z' where z: "(pstep cfg ops)\<^sup>*\<^sup>* ?z z'" "ready z'" "net z' = w2" "calls z' = calls ?z"
    "prox z' = (prox ?z)(\<not> u := q)" "gor z' = (gor ?z)(\<not> u := gor ?z (\<not> u) + mset ts)"
    by (rule deliver_message [OF r s(2) w(1-4), of ?z q ts cfg]) (use d in simp_all)
  ultimately show ?thesis
    by (intro that [of z']) (simp_all add: w(5,6) converse_rtranclp_into_rtranclp)
qed

lemma call_message:
  assumes r: "ready y" and o: "openCall (cfg s) oper k (prox y s) = Some (p, ca)" "k \<notin> dom (calls y s)" "length k = 16"
    and m: "plain (caReq ca)" "seqB (net y) s \<noteq> - 1"
  obtains y' where "(pstep cfg ops)\<^sup>*\<^sup>* y y'" and "ready y'" and "calls y' = (calls y)(s := (calls y s)(k \<mapsto> ca))"
    and "prox y' = (prox y)(s := p)" and "gor y' = (gor y)(\<not> s := add_mset (TaskRequest (snd (snd (caReq ca)))) (gor y (\<not> s)))"
    and "seqB (net y') (\<not> s) = seqB (net y) (\<not> s)"
proof -
  from r have "idle (net y)" by (simp add: ready_def)
  from relay_message [OF this _ _ _ _ m(2), of "caReq ca" ops] m(1) obtain w1 w2 where
    s: "bridgeSend (net y) s (caReq ca) = (w1, True)" "step ops w1 w2"
    and w: "idle w2" "sent w2 = sent w1" "got w1 = got (net y)" "got w2 = (got (net y))(\<not> s := got (net y) (\<not> s) @ [caReq ca])"
      "seqB w2 (\<not> s) = seqB (net y) (\<not> s)" by (metis plain_def)
  let ?z = "y\<lparr>net := w1, prox := (prox y)(s := p), calls := (calls y)(s := (calls y s)(k \<mapsto> ca))\<rparr>"
  have "pstep cfg ops y ?z" using psCall [where cfg = cfg, OF o(2,3,1) s(1)] by simp
  moreover have d: "runDispatch (caReq ca) (prox ?z (\<not> s)) = Some (prox ?z (\<not> s), [TaskRequest (snd (snd (caReq ca)))])"
    using openCall_Some(1) [OF o(1,3)] by (auto simp: runDispatch_def is_request_def split: prod.splits)
  obtain z' where z: "(pstep cfg ops)\<^sup>*\<^sup>* ?z z'" "ready z'" "net z' = w2" "calls z' = calls ?z"
    "prox z' = (prox ?z)(\<not> s := prox ?z (\<not> s))" "gor z' = (gor ?z)(\<not> s := gor ?z (\<not> s) + mset [TaskRequest (snd (snd (caReq ca)))])"
    by (rule deliver_message [OF r s(2) w(1-4) d, of cfg]) simp_all
  ultimately show ?thesis
    by (intro that [of z']) (auto simp: w(5) fun_eq_iff intro: converse_rtranclp_into_rtranclp)
qed

lemma task_local:
  assumes g: "gor y u = add_mset t G" "proxyTask (cfg u) t (prox y u) = Some (None, next)" "next True = (p, Some t')"
  shows "pstep cfg ops y (y\<lparr>prox := (prox y)(u := p), gor := (gor y)(u := add_mset t' G)\<rparr>)"
  using psTask [where cfg = cfg, OF g] by (simp add: opt_mset_def)

lemma dispatch_chunk:
  assumes "ft = FrameBridgeStreamData \<or> ft = FrameBridgeStreamEnd" "DecodeBridgeFrame ft wire = Inr f" "bCorrelationID (bEnvelope f) = k"
    and "pxStreamPending p k = Some d" "length (pxChunks p d) < dataCap"
  shows "runDispatch (ChanBridge, ft, wire) p = Some (p\<lparr>pxChunks := (pxChunks p)(d := pxChunks p d @ [chunkOf (ChanBridge, ft, wire)])\<rparr>, [])"
  using assms by (auto simp: runDispatch_def handleInboundStreamFrame_def Let_def chunkOf_def split: sum.splits prod.splits)

text \<open>
  The last leg of a stream call: the egress goroutine is about to emit \<open>es\<close>, and the consumer has taken
  the chunks \<open>cs\<close>. The consumer takes every event as it arrives, so its buffer never fills.
\<close>

lemma stream_emitted:
  assumes "ready y" and "gor y (\<not> s) = add_mset (TaskEmit protocol k class flag es eid) G" and "\<not> pxFlags (prox y (\<not> s)) flag"
    and "key_ok k" and "calls y s k = Some ca" and "caResult ca = None" and "caData ca = Some d"
    and "pxStreamPending (prox y s) k = Some d" and "pxChunks (prox y s) d = []" and "caCollect ca = collected cs"
    and "good_chunks (cs @ dataChunks eid es @ [endChunk (eid + of_nat (length es))])"
    and "\<forall>m \<in> set (streamMessages protocol k class eid es). record_fits (snd (snd m))"
    and "unat (seqB (net y) (\<not> s)) + length es < 2 ^ 64 - 1"
  shows "\<exists>y' ca'. (pstep cfg ops)\<^sup>*\<^sup>* y y' \<and> calls y' s k = Some ca' \<and> caReq ca' = caReq ca
    \<and> caResult ca' = Some (GotStream (Inr (map ckEvent cs @ es)))"
  using assms
proof (induction es arbitrary: y ca cs eid)
  case Nil
  let ?u = "\<not> s"
  obtain wire f where m: "streamEndMessage protocol k class eid False = Inr (ChanBridge, FrameBridgeStreamEnd, wire)"
      "DecodeBridgeFrame FrameBridgeStreamEnd wire = Inr f" "bCorrelationID (bEnvelope f) = k"
      "decodeLeadingStreamControl (bForeign f) = Inr (dataControl eid, [])" by (rule streamEndMessage_ok [OF Nil.prems(4)])
  let ?m = "(ChanBridge, FrameBridgeStreamEnd, wire)"
  have ck: "chunkOf ?m = endChunk eid" using m by (simp add: chunkOf_def endChunk_def)
  have pt: "proxyTask (cfg ?u) (TaskEmit protocol k class flag [] eid) (prox y ?u) = Some (Some (Inr ?m), \<lambda>_. (unregisterCancel k (prox y ?u), None))"
    using Nil.prems(3) m(1) by (simp add: emitStream_def replyAndEnd_def)
  have pl: "plain ?m" using Nil.prems(12) m(1) by (simp add: plain_def msg_list_def frame_type_defs)
  have rd: "runDispatch ?m (prox y (\<not> ?u)) = Some ((prox y s)\<lparr>pxChunks := (pxChunks (prox y s))(d := [endChunk eid])\<rparr>, [])"
    using dispatch_chunk [OF _ m(2,3) Nil.prems(8)] Nil.prems(9) ck by (simp add: dataCap_def)
  have "seqB (net y) ?u \<noteq> - 1" by (rule seq_bound [OF Nil.prems(13)])
  from task_message [where cfg = cfg and ops = ops, OF Nil.prems(1,2) pt refl pl this rd] obtain y1 where
    y1: "(pstep cfg ops)\<^sup>*\<^sup>* y y1" "calls y1 = calls y"
      and p: "prox y1 = (prox y)(?u := unregisterCancel k (prox y ?u), \<not> ?u := (prox y s)\<lparr>pxChunks := (pxChunks (prox y s))(d := [endChunk eid])\<rparr>)" by blast
  have co: "collectChunk (caCollect ca) (endChunk eid) = Inr (Inr (map ckEvent cs))"
    using collectChunk_good [of cs "endChunk eid"] Nil.prems(10,11) by (simp add: endChunk_def)
  have c: "calls y1 s k = Some ca" "pxChunks (prox y1 s) d = [endChunk eid]" using y1(2) p Nil.prems(5) by simp_all
  from psStreamDone [where cfg = cfg and ops = ops, OF c(1) Nil.prems(6,7) c(2) co] obtain y2 where
    "pstep cfg ops y1 y2" "calls y2 s k = Some (ca\<lparr>caResult := Some (GotStream (Inr (map ckEvent cs)))\<rparr>)" by simp
  with y1(1) show ?case by (intro exI [of _ y2]) (auto intro: rtranclp.rtrancl_into_rtrancl)
next
  case (Cons ev es)
  let ?u = "\<not> s"
  obtain wire f where m: "streamDataMessage protocol k class eid ev = Inr (ChanBridge, FrameBridgeStreamData, wire)"
      "DecodeBridgeFrame FrameBridgeStreamData wire = Inr f" "bCorrelationID (bEnvelope f) = k"
      "decodeLeadingStreamControl (bForeign f) = Inr (dataControl eid, ev)" by (rule streamDataMessage_ok [OF Cons.prems(4)])
  let ?m = "(ChanBridge, FrameBridgeStreamData, wire)"
  let ?c = "\<lparr>ckType = FrameBridgeStreamData, ckControl = dataControl eid, ckEvent = ev, ckErr = None\<rparr>"
  have ck: "chunkOf ?m = ?c" using m by (simp add: chunkOf_def)
  let ?next = "\<lambda>ok. if ok then (prox y ?u, Some (TaskEmit protocol k class flag es (eid + 1))) else (unregisterCancel k (prox y ?u), None)"
  have pt: "proxyTask (cfg ?u) (TaskEmit protocol k class flag (ev # es) eid) (prox y ?u) = Some (Some (Inr ?m), ?next)"
    using Cons.prems(3) m(1) by (simp add: emitStream_def fun_eq_iff)
  have nx: "?next True = (prox y ?u, Some (TaskEmit protocol k class flag es (eid + 1)))" by simp
  have pl: "plain ?m" using Cons.prems(12) m(1) by (simp add: plain_def msg_list_def frame_type_defs)
  have rd: "runDispatch ?m (prox y (\<not> ?u)) = Some ((prox y s)\<lparr>pxChunks := (pxChunks (prox y s))(d := [?c])\<rparr>, [])"
    using dispatch_chunk [OF _ m(2,3) Cons.prems(8)] Cons.prems(9) ck by (simp add: dataCap_def)
  have "seqB (net y) ?u \<noteq> - 1" by (rule seq_bound [OF Cons.prems(13)])
  from task_message [where cfg = cfg and ops = ops, OF Cons.prems(1,2) pt nx pl this rd] obtain y1 where
    y1: "(pstep cfg ops)\<^sup>*\<^sup>* y y1" "ready y1" "calls y1 = calls y"
      "prox y1 = (prox y)(?u := prox y ?u, \<not> ?u := (prox y s)\<lparr>pxChunks := (pxChunks (prox y s))(d := [?c])\<rparr>)"
      and g: "gor y1 = (gor y)(?u := G + opt_mset (Some (TaskEmit protocol k class flag es (eid + 1))), \<not> ?u := gor y (\<not> ?u) + mset [])"
      and sq: "seqB (net y1) ?u = seqB (net y) ?u + 1" by blast
  have co: "collectChunk (caCollect ca) ?c = Inl (collected (cs @ [?c]))"
    using collectChunk_good [of cs ?c] good_prefix [OF _ Cons.prems(11), of "cs @ [?c]"] Cons.prems(10) by simp
  let ?y2 = "y1\<lparr>prox := (prox y1)(s := (prox y1 s)\<lparr>pxChunks := (pxChunks (prox y1 s))(d := [])\<rparr>),
       calls := (calls y1)(s := (calls y1 s)(k \<mapsto> ca\<lparr>caCollect := collected (cs @ [?c])\<rparr>))\<rparr>"
  have "pstep cfg ops y1 ?y2"
    by (rule psChunk [where cfg = cfg, OF _ Cons.prems(6,7) _ co]) (use y1 Cons.prems(5) in simp_all)
  with y1(1) have r: "(pstep cfg ops)\<^sup>*\<^sup>* y ?y2" by (rule rtranclp.rtrancl_into_rtrancl)
  have "\<exists>y' ca'. (pstep cfg ops)\<^sup>*\<^sup>* ?y2 y' \<and> calls y' s k = Some ca' \<and> caReq ca' = caReq (ca\<lparr>caCollect := collected (cs @ [?c])\<rparr>)
    \<and> caResult ca' = Some (GotStream (Inr (map ckEvent (cs @ [?c]) @ es)))"
  proof (rule Cons.IH)
    show "unat (seqB (net ?y2) ?u) + length es < 2 ^ 64 - 1"
      using Cons.prems(13) sq unat_Suc [of "seqB (net y) ?u" "unat (seqB (net y) ?u)"] by simp
    show "good_chunks ((cs @ [?c]) @ dataChunks (eid + 1) es @ [endChunk (eid + 1 + of_nat (length es))])"
      using Cons.prems(11) by (simp add: add.assoc)
    show "\<forall>m \<in> set (streamMessages protocol k class (eid + 1) es). record_fits (snd (snd m))" using Cons.prems(12) by simp
    show "ready ?y2" using y1(2) by (simp add: ready_def)
  qed (use y1 g Cons.prems in \<open>simp_all add: opt_mset_def\<close>)
  with r show ?case by (auto intro: rtranclp_trans)
qed


lemma stream_completes:
  assumes r: "ready y" and o: "openCall (cfg s) oper k (prox y s) = Some (p, ca)" "k \<notin> dom (calls y s)" "length k = 16" "caData ca \<noteq> None"
    and m: "record_fits (snd (snd (caReq ca)))" "seqB (net y) s \<noteq> - 1"
    and d: "DecodeBridgeFrame FrameBridgeRequest (snd (snd (caReq ca))) = Inr frame" "bCorrelationID (bEnvelope frame) = k"
      "streamClass (bProtocol (bEnvelope frame)) = Some class" "\<not> resumes frame"
    and h: "streamEvents (cfg (\<not> s)) frame class = Inr es" "length es < 2 ^ 64 - 1"
      "\<forall>m \<in> set (streamMessages (bProtocol (bEnvelope frame)) k class 1 es). record_fits (snd (snd m))"
      "unat (seqB (net y) (\<not> s)) + length es < 2 ^ 64 - 1"
  shows "\<exists>y' ca'. (pstep cfg ops)\<^sup>*\<^sup>* y y' \<and> calls y' s k = Some ca' \<and> caReq ca' = caReq ca \<and> caResult ca' = Some (GotStream (Inr es))"
proof -
  let ?u = "\<not> s" and ?pr = "bProtocol (bEnvelope frame)"
  note oc = openCall_Some [OF o(1,3)]
  have pl: "plain (caReq ca)" using oc(1) m(1) by (simp add: plain_def is_request_def frame_type_defs)
  from call_message [where cfg = cfg and ops = ops, OF r o(1-3) pl m(2)] obtain y1 where
    y1: "(pstep cfg ops)\<^sup>*\<^sup>* y y1" "ready y1" "calls y1 = (calls y)(s := (calls y s)(k \<mapsto> ca))" "prox y1 = (prox y)(s := p)"
      "gor y1 = (gor y)(?u := add_mset (TaskRequest (snd (snd (caReq ca)))) (gor y ?u))" "seqB (net y1) ?u = seqB (net y) ?u" by blast
  obtain q flag where q: "registerCancel k (prox y ?u) = (q, flag)" by (cases "registerCancel k (prox y ?u)")
  let ?y2 = "y1\<lparr>prox := (prox y1)(?u := q), gor := (gor y1)(?u := add_mset (TaskHandle frame class flag) (gor y ?u))\<rparr>"
  have s2: "pstep cfg ops y1 ?y2"
  proof (rule task_local)
    show "gor y1 ?u = add_mset (TaskRequest (snd (snd (caReq ca)))) (gor y ?u)" by (simp add: y1)
    show "proxyTask (cfg ?u) (TaskRequest (snd (snd (caReq ca)))) (prox y1 ?u) = Some (None, \<lambda>_. (q, Some (TaskHandle frame class flag)))"
      using d q by (auto simp: y1 handleInboundBridgeRequest_def handleInboundStreamRequest_def Let_def streamClass_def resumes_def grpcProtocolID_def
          split: if_splits)
  qed simp
  let ?y3 = "?y2\<lparr>prox := (prox ?y2)(?u := q), gor := (gor ?y2)(?u := add_mset (TaskEmit ?pr k class flag es 1) (gor y ?u))\<rparr>"
  have s3: "pstep cfg ops ?y2 ?y3"
  proof (rule task_local)
    show "proxyTask (cfg ?u) (TaskHandle frame class flag) (prox ?y2 ?u) = Some (None, \<lambda>_. (q, Some (TaskEmit ?pr k class flag es 1)))"
      using h(1) d(2) by (simp add: runStreamHandler_def Let_def)
  qed simp_all
  obtain dc where dc: "caData ca = Some dc" using o(4) by blast
  with oc(6) have p: "dc = pxNext (prox y s) + 1" "p = fst (openRegister k (prox y s))" by auto
  have "\<exists>y' ca'. (pstep cfg ops)\<^sup>*\<^sup>* ?y3 y' \<and> calls y' s k = Some ca' \<and> caReq ca' = caReq ca
    \<and> caResult ca' = Some (GotStream (Inr (map ckEvent ([] :: streamChunk list) @ es)))"
  proof (rule stream_emitted [of ?y3 s ?pr k "class" flag es 1 "gor y ?u" ca dc "[]" cfg ops])
    show "ready ?y3" using y1(2) by (simp add: ready_def)
    show "\<not> pxFlags (prox ?y3 ?u) flag" using q by (auto simp: registerCancel_def Let_def)
    show "key_ok k" using o(3) by (auto simp: key_ok_def)
    show "good_chunks ([] @ dataChunks 1 es @ [endChunk (1 + of_nat (length es))])" using good_allChunks [OF h(2)] by (simp add: allChunks_def)
    show "caCollect ca = collected []" using oc(5) by (simp add: collected_def newCollect_def)
    show "pxStreamPending (prox ?y3 s) k = Some dc" "pxChunks (prox ?y3 s) dc = []" using p by (simp_all add: y1 openRegister_def Let_def)
    show "\<forall>m \<in> set (streamMessages ?pr k class 1 es). record_fits (snd (snd m))" by (rule h(3))
    show "unat (seqB (net ?y3) ?u) + length es < 2 ^ 64 - 1" using h(4) by (simp add: y1(6))
    show "calls ?y3 s k = Some ca" by (simp add: y1)
    show "gor ?y3 ?u = add_mset (TaskEmit ?pr k class flag es 1) (gor y ?u)" by simp
  qed (rule oc(4) dc)+
  moreover have "(pstep cfg ops)\<^sup>*\<^sup>* y ?y3" using y1(1) s2 s3 by (meson rtranclp.rtrancl_into_rtrancl)
  ultimately show ?thesis by (auto intro: rtranclp_trans)
qed

lemma dispatch_reply:
  assumes "ft = FrameBridgeResponse \<or> ft = FrameBridgeError" "DecodeBridgeFrame ft wire = Inr f" "bCorrelationID (bEnvelope f) = k"
    and "pxPending p k = Some c" "pxReplies p c = []"
  shows "runDispatch (ChanBridge, ft, wire) p = Some (p\<lparr>pxPending := (pxPending p)(k := None),
    pxReplies := (pxReplies p)(c := [\<lparr>prType = ft, prEnv = bEnvelope f, prForeign = bForeign f\<rparr>])\<rparr>, [])"
  using assms by (auto simp: runDispatch_def deliverReply_def Let_def replyCap_def)

lemma reply_completes:
  assumes r: "ready y" and o: "openCall (cfg s) oper k (prox y s) = Some (p, ca)" "k \<notin> dom (calls y s)" "length k = 16" "caData ca = None"
    and m: "record_fits (snd (snd (caReq ca)))" "seqB (net y) s \<noteq> - 1"
    and h: "handleInboundBridgeRequest (cfg (\<not> s)) (snd (snd (caReq ca))) (prox y (\<not> s)) = replyAndEnd (Inr (ChanBridge, ft, wire)) (prox y (\<not> s))"
    and w: "ft = FrameBridgeResponse \<or> ft = FrameBridgeError" "record_fits wire" "seqB (net y) (\<not> s) \<noteq> - 1"
      "DecodeBridgeFrame ft wire = Inr f" "bCorrelationID (bEnvelope f) = k"
  shows "\<exists>y' ca'. (pstep cfg ops)\<^sup>*\<^sup>* y y' \<and> calls y' s k = Some ca' \<and> caReq ca' = caReq ca
    \<and> caResult ca' = Some (GotReply \<lparr>prType = ft, prEnv = bEnvelope f, prForeign = bForeign f\<rparr>)"
proof -
  let ?u = "\<not> s" and ?r = "\<lparr>prType = ft, prEnv = bEnvelope f, prForeign = bForeign f\<rparr>"
  note oc = openCall_Some [OF o(1,3)]
  have pl: "plain (caReq ca)" using oc(1) m(1) by (simp add: plain_def is_request_def frame_type_defs)
  from call_message [where cfg = cfg and ops = ops, OF r o(1-3) pl m(2)] obtain y1 where
    y1: "(pstep cfg ops)\<^sup>*\<^sup>* y y1" "ready y1" "calls y1 = (calls y)(s := (calls y s)(k \<mapsto> ca))" "prox y1 = (prox y)(s := p)"
      and g: "gor y1 = (gor y)(?u := add_mset (TaskRequest (snd (snd (caReq ca)))) (gor y ?u))" and sq: "seqB (net y1) ?u = seqB (net y) ?u" by blast
  have g1: "gor y1 ?u = add_mset (TaskRequest (snd (snd (caReq ca)))) (gor y ?u)" by (simp add: g)
  have pt: "proxyTask (cfg ?u) (TaskRequest (snd (snd (caReq ca)))) (prox y1 ?u) = Some (Some (Inr (ChanBridge, ft, wire)), \<lambda>_. (prox y1 ?u, None))"
    using h by (simp add: y1(4) replyAndEnd_def)
  have p: "caReply ca = pxNext (prox y s)" "p = fst (registerReply k (prox y s))" using oc(3,6) o(4) by auto
  then have q: "pxPending (prox y1 (\<not> ?u)) k = Some (caReply ca)" "pxReplies (prox y1 (\<not> ?u)) (caReply ca) = []"
    by (simp_all add: y1(4) registerReply_def Let_def)
  have pl2: "plain (ChanBridge, ft, wire)" using w(1,2) by (auto simp: plain_def frame_type_defs)
  have sq1: "seqB (net y1) ?u \<noteq> - 1" using w(3) sq by simp
  from task_message [where cfg = cfg and ops = ops, OF y1(2) g1 pt refl pl2 sq1 dispatch_reply [OF w(1,4,5) q]] obtain y2 where
    y2: "(pstep cfg ops)\<^sup>*\<^sup>* y1 y2" "calls y2 = calls y1"
    and p2: "prox y2 = (prox y1)(?u := prox y1 ?u, \<not> ?u := (prox y1 (\<not> ?u))\<lparr>pxPending := (pxPending (prox y1 (\<not> ?u)))(k := None),
       pxReplies := (pxReplies (prox y1 (\<not> ?u)))(caReply ca := [?r])\<rparr>)" by blast
  have c: "calls y2 s k = Some ca" "pxReplies (prox y2 s) (caReply ca) = [?r]" using y1(3) y2(2) p2 by simp_all
  from psReply [where cfg = cfg and ops = ops, OF c(1) oc(4) c(2) refl refl] o(4) obtain y3 where
    "pstep cfg ops y2 y3" "calls y3 s k = Some (ca\<lparr>caResult := Some (GotReply ?r)\<rparr>)" by simp
  moreover have "(pstep cfg ops)\<^sup>*\<^sup>* y y2" using y1(1) y2(1) by (rule rtranclp_trans)
  ultimately show ?thesis by (intro exI [of _ y3]) (auto intro: rtranclp.rtrancl_into_rtrancl)
qed

section \<open>What the caller's result says about the peer\<close>

lemma answer_decoded:
  assumes "m \<in> set (answer cfg req)"
  obtains frame where "DecodeBridgeFrame FrameBridgeRequest (snd (snd req)) = Inr frame" and "m \<in> set (serve cfg frame)"
  using assms by (cases "DecodeBridgeFrame FrameBridgeRequest (snd (snd req))") (auto simp: answer_def)

lemma reply_call:
  assumes i: "invW cfg y" "invC y" and c: "calls y s k = Some ca" "caResult ca = Some (GotReply r)"
  obtains frame m where "DecodeBridgeFrame FrameBridgeRequest (snd (snd (caReq ca))) = Inr frame" and "m \<in> set (serve (cfg (\<not> s)) frame)"
    and "reply_of m r"
proof -
  have "invP (prox y s) (calls y s) (dispatched y s)" using i(2) by (simp add: invC_def)
  from invPD(4) [OF this c(1)] c(2) obtain m where m: "m \<in> set (replies k (dispatched y s))" "reply_of m r" by (auto simp: result_inv_def)
  with replies_answered [OF i(1) c(1)] have "m \<in> set (answer (cfg (\<not> s)) (caReq ca))"
    using set_mono_prefix by (fastforce simp: replies_def)
  with answer_decoded m(2) that show ?thesis by metis
qed

lemma stream_request:
  assumes i: "invW cfg y" "invC y" and c: "calls y s k = Some ca" "caResult ca = Some (GotStream (Inr evs))"
  obtains frame where "DecodeBridgeFrame FrameBridgeRequest (snd (snd (caReq ca))) = Inr frame"
proof -
  have "invP (prox y s) (calls y s) (dispatched y s)" using i(2) by (simp add: invC_def)
  from invPD(4) [OF this c(1)] c(2) have "chunksOf k (dispatched y s) \<noteq> []" by (auto simp: result_inv_def dest: complete_nonempty)
  then obtain m where "m \<in> set (replies k (dispatched y s))" by (auto simp: chunksOf_def filter_empty_conv)
  with replies_answered [OF i(1) c(1)] have "m \<in> set (answer (cfg (\<not> s)) (caReq ca))"
    using set_mono_prefix by (fastforce simp: replies_def)
  with answer_decoded that show ?thesis by metis
qed

lemma decode_request:
  assumes "EncodeBridgePayload env None foreign = Inr wire" "DecodeBridgeFrame FrameBridgeRequest wire = Inr frame"
    and "bKind env = BridgeKindRequest" "\<not> label_like foreign"
  shows "frame = \<lparr>bEnvelope = env, bSafety = None, bForeign = foreign\<rparr>"
proof -
  have "bCorrelationID env \<noteq> []" using decode_corr(2) [OF assms(2)] decode_envelope [OF assms(1,2)] by (simp add: frame_type_defs)
  from decode_payload [OF assms(1) _ this _ assms(4), of FrameBridgeRequest] assms(2,3) show ?thesis
    by (simp add: bridgeFrameKind_def frame_type_defs)
qed

lemma not_label_like_grpc:
  assumes "length req < 2 ^ 24"
  shows "\<not> label_like (encodeGRPCLengthPrefixedMessage c req)"
proof -
  let ?n = "of_nat (length req) :: u32"
  have "unat ?n < 2 ^ 24" using assms by (simp add: unat_of_nat take_bit_nat_eq_self)
  then have "drop_bit 24 ?n = 0" by (simp add: word_unat_eq_iff drop_bit_eq_div unat_div)
  then have "gslice 0 2 (encodeGRPCLengthPrefixedMessage c req) = [if c then 1 else 0, 0]"
    by (simp add: encodeGRPCLengthPrefixedMessage_def put_uN_eval gslice_def)
  then show ?thesis by (simp add: label_like_def get_u16_def get_be_def TLVSafetyLabel_def)
qed

lemma pseudo_tchar:
  assumes "list_all isTchar k"
  shows "\<not> isPseudoHeader (toLowerASCII k)"
proof
  assume "isPseudoHeader (toLowerASCII k)"
  then obtain xs where "toLowerASCII k = 0x3A # xs" by (auto simp: isPseudoHeader_def str_def)
  then obtain c cs where "k = c # cs" "lowerASCII c = 0x3A" by (auto simp: toLowerASCII_def)
  with assms have "isTchar (0x3A :: byte)" using isTchar_lower [of c] by simp
  then show False by (simp add: isTchar_def)
qed

lemma openConsumerStream_payload:
  assumes "openConsumerStream protocol ct meth event k p = (p', errCh, dataCh, Inr m)"
  shows "EncodeBridgePayload \<lparr>bProtocol = protocol, bKind = BridgeKindRequest, bContentType = ct, bFlags = 0, bCorrelationID = k, bMethod = meth\<rparr>
    None event = Inr (snd (snd m))"
  using assms by (auto simp: openConsumerStream_def openRegister_def Let_def)

text \<open>A header as net/http makes them: distinct names in canonical form, each with at least one value.\<close>

definition header_ok :: "http_header \<Rightarrow> bool" where
  "header_ok h \<longleftrightarrow> distinct (map fst h) \<and> list_all (\<lambda>(k, vs). canonical_name k \<and> vs \<noteq> []) h \<and> header_size_ok (encodeHTTPHeaders h)"

lemma header_okD:
  assumes "header_ok h"
  shows "map_of (toHTTPHeader (encodeHTTPHeaders h)) = map_of h" "header_size_ok (encodeHTTPHeaders h)"
    "\<not> list_ex (\<lambda>kv. isPseudoHeader (fst kv)) (encodeHTTPHeaders h)"
proof -
  show "map_of (toHTTPHeader (encodeHTTPHeaders h)) = map_of h" "header_size_ok (encodeHTTPHeaders h)"
    using assms header_roundtrip by (simp_all add: header_ok_def)
  have "list_all isTchar k" if "(k, vs) \<in> set h" for k vs using that assms by (auto simp: header_ok_def list_all_iff canonical_name_def)
  then show "\<not> list_ex (\<lambda>kv. isPseudoHeader (fst kv)) (encodeHTTPHeaders h)"
    using pseudo_tchar by (fastforce simp: encodeHTTPHeaders_def list_ex_iff)
qed

text \<open>
  Claim C14 (messages over two proxies). Whatever other calls, rounds of \<open>Run\<close>, goroutines and steps of the
  session (sends, key updates, ratchets, receives, acknowledgements) are interleaved, when
  \<open>CallWebSocketMessage\<close> returns events, the handler of the peer was called with exactly the message, and
  the events are a subsequence of its replies in order; with fewer than 32 replies they are all of them.
  The message must not begin like a SafetyLabel TLV, and a handler returns fewer than \<open>2^64 - 1\<close> events
  (\<open>modest\<close>), which is what its event ids can count.
\<close>

theorem proxied_websocket_exact:
  assumes "paired a b" "paired b a" "\<And>u. modest (cfg u)" "(pstep cfg ops)\<^sup>*\<^sup>* (psys_start a b) y"
    and "CallWebSocketMessage msg k p = (p', errCh, dataCh, Inr (caReq ca))" and "\<not> label_like msg"
    and "calls y s k = Some ca" and "caResult ca = Some (GotStream (Inr evs))"
  shows "\<exists>handler replies. WebSocketHandler (cfg (\<not> s)) = Some handler \<and> handler msg = Inr replies
    \<and> subseq evs replies \<and> (length replies < dataCap \<longrightarrow> evs = replies)"
proof -
  from psys_invariants [OF assms(1-4)] have i: "invW cfg y" "invC y" by blast+
  obtain frame where f: "DecodeBridgeFrame FrameBridgeRequest (snd (snd (caReq ca))) = Inr frame" by (rule stream_request [OF i assms(7,8)])
  let ?env = "\<lparr>bProtocol = BridgeProtoWebSocket, bKind = BridgeKindRequest, bContentType = streamContentType websocketStreamClass, bFlags = 0,
                    bCorrelationID = k, bMethod = []\<rparr>"
  have "EncodeBridgePayload ?env None msg = Inr (snd (snd (caReq ca)))"
    using assms(5) unfolding CallWebSocketMessage_def by (rule openConsumerStream_payload)
  from decode_request [OF this f _ assms(6)] have fr: "frame = \<lparr>bEnvelope = ?env, bSafety = None, bForeign = msg\<rparr>" by simp
  then have "bCorrelationID (bEnvelope frame) = k" by simp
  from stream_call [OF i assms(7,8) f this] obtain "class" es where
    "streamClass (bProtocol (bEnvelope frame)) = Some class" "streamEvents (cfg (\<not> s)) frame class = Inr es"
    "subseq evs es" "length es < dataCap \<Longrightarrow> evs = es" by blast
  then show ?thesis by (auto simp: fr streamClass_def streamEvents_def split: option.splits sum.splits)
qed

text \<open>
  gRPC over two proxies. When \<open>CallGRPCUnary\<close> returns a response, the handler of the peer was
  called with the method and the request, and this response is what it returned.
\<close>

theorem proxied_grpc_exact:
  assumes "paired a b" "paired b a" "\<And>u. modest (cfg u)" "(pstep cfg ops)\<^sup>*\<^sup>* (psys_start a b) y"
    and "CallGRPCUnary meth req k p = (p', errCh, dataCh, Inr (caReq ca))" and "length req < 2 ^ 24"
    and "calls y s k = Some ca" and "caResult ca = Some (GotStream r)" and "grpcUnaryResult r = Inr resp"
  shows "\<exists>handler. GRPCHandler (cfg (\<not> s)) = Some handler \<and> handler meth req = Inr resp"
proof -
  from psys_invariants [OF assms(1-4)] have i: "invW cfg y" "invC y" by blast+
  obtain ev c where r: "r = Inr [ev]" "decodeGRPCLengthPrefixedMessage ev = Inr (c, resp)"
    using assms(9) by (cases r) (auto simp: grpcUnaryResult_def length_Suc_conv split: if_splits)
  have c: "caResult ca = Some (GotStream (Inr [ev]))" using assms(8) r(1) by simp
  obtain frame where f: "DecodeBridgeFrame FrameBridgeRequest (snd (snd (caReq ca))) = Inr frame" by (rule stream_request [OF i assms(7) c])
  let ?env = "\<lparr>bProtocol = grpcProtocolID, bKind = BridgeKindRequest, bContentType = BridgeContentGRPCProto, bFlags = 0,
                    bCorrelationID = k, bMethod = meth\<rparr>"
  have "EncodeBridgePayload ?env None (encodeGRPCLengthPrefixedMessage False req) = Inr (snd (snd (caReq ca)))"
    using assms(5) unfolding CallGRPCUnary_def by (rule openConsumerStream_payload)
  from decode_request [OF this f _ not_label_like_grpc [OF assms(6)]]
  have fr: "frame = \<lparr>bEnvelope = ?env, bSafety = None, bForeign = encodeGRPCLengthPrefixedMessage False req\<rparr>" by simp
  then have "bCorrelationID (bEnvelope frame) = k" by simp
  from stream_call [OF i assms(7) c f this] obtain "class" es where
    s: "streamClass (bProtocol (bEnvelope frame)) = Some class" "streamEvents (cfg (\<not> s)) frame class = Inr es" "subseq [ev] es" by blast
  have "decodeGRPCLengthPrefixedMessage (encodeGRPCLengthPrefixedMessage False req) = Inr (False, req)" by (simp add: decodeGRPC_iff)
  with s obtain handler resp' where h: "GRPCHandler (cfg (\<not> s)) = Some handler" "handler meth req = Inr resp'"
      "es = [encodeGRPCLengthPrefixedMessage False resp']"
    by (auto simp: fr streamClass_def grpcProtocolID_def streamEvents_def split: option.splits sum.splits)
  with s(3) have "ev = encodeGRPCLengthPrefixedMessage False resp'" by (auto split: if_splits)
  then have "decodeGRPCLengthPrefixedMessage ev = Inr (False, resp')" by (simp add: decodeGRPC_iff)
  with r(2) h show ?thesis by simp
qed


lemma ServeHTTP_payload:
  assumes "ServeHTTP r k p = (p', replyCh, Inr m)"
  shows "EncodeBridgePayload \<lparr>bProtocol = BridgeProtoHTTP2, bKind = BridgeKindRequest, bContentType = BridgeContentCBOR, bFlags = 0,
      bCorrelationID = k, bMethod = rqMethod r @ [0x20] @ targetOf r\<rparr> None
    (encodeHTTPCarriageRequest (rqMethod r) (targetOf r) (rqHeader r) (rqBody r)) = Inr (snd (snd m))"
  using assms by (auto simp: ServeHTTP_def registerReply_def Let_def)

text \<open>A request of net/http: sizes that fit in memory, and a header whose names are in canonical form.\<close>

definition request_ok :: "http_request \<Rightarrow> bool" where
  "request_ok r \<longleftrightarrow> rqMethod r \<noteq> [] \<and> targetOf r \<noteq> [] \<and> length (rqMethod r) < 2 ^ 64 \<and> length (targetOf r) < 2 ^ 64
    \<and> length (rqBody r) < 2 ^ 64 \<and> header_ok (rqHeader r)"

lemma request_decoded:
  assumes "request_ok r"
  shows "decodeHTTPCarriageObject (encodeHTTPCarriageRequest (rqMethod r) (targetOf r) (rqHeader r) (rqBody r)) httpKindRequest =
    Inr \<lparr>hoKind = httpKindRequest, hoMethod = rqMethod r, hoTarget = targetOf r, hoStatus = 0, hoHeaders = encodeHTTPHeaders (rqHeader r), hoBody = rqBody r\<rparr>"
  using assms header_okD by (intro http_request_roundtrip) (auto simp: request_ok_def)

text \<open>The request that the backend of the peer gets for a request \<open>r\<close>.\<close>

definition forwarded :: "proxy_cfg \<Rightarrow> http_request \<Rightarrow> http_request" where
  "forwarded cfg r = backendRequest cfg \<lparr>hoKind = httpKindRequest, hoMethod = rqMethod r, hoTarget = targetOf r, hoStatus = 0,
     hoHeaders = encodeHTTPHeaders (rqHeader r), hoBody = rqBody r\<rparr>"

lemma forwarded_exact:
  assumes "request_ok r"
  shows "rqMethod (forwarded cfg r) = rqMethod r" "map_of (rqHeader (forwarded cfg r)) = map_of (rqHeader r)" "rqBody (forwarded cfg r) = rqBody r"
    "url_Parse cfg (targetOf r) = Some (path, query) \<Longrightarrow> rqPath (forwarded cfg r) = path \<and> rqRawQuery (forwarded cfg r) = query"
  using assms header_okD(1) [of "rqHeader r"] by (auto simp: forwarded_def backendRequest_def Let_def request_ok_def split: prod.splits)

lemma writeReply_response:
  assumes "100 \<le> status" "status \<le> 599" "length body < 2 ^ 64" "header_ok hdr"
  shows "writeReply \<lparr>prType = FrameBridgeResponse, prEnv = env, prForeign = encodeHTTPCarriageResponse status hdr body\<rparr> =
    Inr (status, toHTTPHeader (encodeHTTPHeaders hdr), body)"
  using http_response_roundtrip [OF assms(1-3) header_okD(2,3) [OF assms(4)]]
  by (simp add: writeReply_def frame_type_defs)

lemma writeReply_error:
  assumes "sendBridgeError protocol k code msg = Inr m" "reply_of m reply" "key_ok k" "code \<noteq> 0"
  shows "writeReply reply = Inl (PeerReported \<lparr>bCode = code, bMessage = take 255 msg\<rparr>)"
proof -
  obtain wire where w: "sendBridgeError protocol k code msg = Inr (ChanBridge, FrameBridgeError, wire)"
    "DecodeBridgeFrame FrameBridgeError wire = Inr \<lparr>bEnvelope = replyEnvelope protocol BridgeKindError BridgeContentCBOR k,
      bSafety = None, bForeign = [code, of_nat (length (take 255 msg))] @ take 255 msg\<rparr>"
    by (rule sendBridgeError_ok [OF assms(3,4)])
  have "DecodeBridgeTransportError ([code, of_nat (length (take 255 msg))] @ take 255 msg) = Inr \<lparr>bCode = code, bMessage = take 255 msg\<rparr>"
    using assms(4) by (simp add: transport_error EncodeBridgeTransportError_def)
  with w assms(1,2) show ?thesis by (simp add: reply_of_def writeReply_def decodeTransportErrorReply_def)
qed

lemma carriage_not_label_like:
  "\<not> label_like (encodeHTTPCarriageRequest meth target h body)" "\<not> label_like (encodeHTTPCarriageResponse status h body)"
  by (simp_all add: encodeHTTPCarriageRequest_def encodeHTTPCarriageResponse_def not_label_like_map)

lemma handleHTTP_decoded:
  assumes "request_ok r" and "Backend cfg = Some backend"
    and "frame = \<lparr>bEnvelope = \<lparr>bProtocol = BridgeProtoHTTP2, bKind = BridgeKindRequest, bContentType = BridgeContentCBOR, bFlags = 0,
      bCorrelationID = k, bMethod = rqMethod r @ [0x20] @ targetOf r\<rparr>, bSafety = None,
      bForeign = encodeHTTPCarriageRequest (rqMethod r) (targetOf r) (rqHeader r) (rqBody r)\<rparr>"
  shows "handleInboundHTTPRequest cfg frame = (case backend (forwarded cfg r) of
      Inl e \<Rightarrow> sendBridgeError BridgeProtoHTTP2 k (backendErrorCode e) (errText cfg (BackendFailed e))
    | Inr (status, hdr, body) \<Rightarrow>
        rbind (EncodeBridgePayload (replyEnvelope BridgeProtoHTTP2 BridgeKindResponse BridgeContentCBOR k) None (encodeHTTPCarriageResponse status hdr body))
          (\<lambda>wire. Inr (ChanBridge, FrameBridgeResponse, wire)))"
  using assms(2) request_decoded [OF assms(1)]
  by (simp add: assms(3) handleInboundHTTPRequest_def Let_def forwarded_def)

lemma response_decoded:
  assumes "EncodeBridgePayload (replyEnvelope BridgeProtoHTTP2 BridgeKindResponse BridgeContentCBOR k) None (encodeHTTPCarriageResponse status hdr body) = Inr wire"
    and "k \<noteq> []"
  shows "DecodeBridgeFrame FrameBridgeResponse wire = Inr \<lparr>bEnvelope = replyEnvelope BridgeProtoHTTP2 BridgeKindResponse BridgeContentCBOR k,
    bSafety = None, bForeign = encodeHTTPCarriageResponse status hdr body\<rparr>"
  by (rule decode_payload [OF assms(1) _ _ _ carriage_not_label_like(2)]) (use assms(2) in \<open>auto simp: replyEnvelope_def bridgeFrameKind_def frame_type_defs\<close>)

text \<open>
  Claim C15 (HTTP over two proxies). Whatever other calls, rounds of \<open>Run\<close>, goroutines and steps of the
  session are interleaved, when \<open>ServeHTTP\<close> gets a reply to a request as net/http makes them (a method, a
  target, a header with distinct names in canonical form and at least one value each), the backend of
  the peer was called with the same method, header and body and, when \<open>url.Parse\<close> accepts the target, with
  the path and query that it reads there. A failure of the backend becomes the transport error that its
  kind stands for, and a response with a status from 100 to 599 and such a header is written with its
  status, header and body.
\<close>

theorem proxied_http_exact:
  assumes "paired a b" "paired b a" "\<And>u. modest (cfg u)" "(pstep cfg ops)\<^sup>*\<^sup>* (psys_start a b) y"
    and "ServeHTTP r k p = (p', replyCh, Inr (caReq ca))" and "request_ok r" and "Backend (cfg (\<not> s)) = Some backend"
    and "calls y s k = Some ca" and "caResult ca = Some (GotReply reply)"
  shows "\<exists>rq. rqMethod rq = rqMethod r \<and> map_of (rqHeader rq) = map_of (rqHeader r) \<and> rqBody rq = rqBody r
    \<and> (\<forall>path query. url_Parse (cfg (\<not> s)) (targetOf r) = Some (path, query) \<longrightarrow> rqPath rq = path \<and> rqRawQuery rq = query)
    \<and> (case backend rq of
         Inl e \<Rightarrow> writeReply reply = Inl (PeerReported \<lparr>bCode = backendErrorCode e, bMessage = take 255 (errText (cfg (\<not> s)) (BackendFailed e))\<rparr>)
       | Inr (status, hdr, body) \<Rightarrow>
           100 \<le> status \<longrightarrow> status \<le> 599 \<longrightarrow> length body < 2 ^ 64 \<longrightarrow> header_ok hdr \<longrightarrow>
             (\<exists>h. writeReply reply = Inr (status, h, body) \<and> map_of h = map_of hdr))"
proof -
  from psys_invariants [OF assms(1-4)] have i: "invW cfg y" "invC y" by blast+
  from reply_call [OF i assms(8,9)] obtain frame m where
    f: "DecodeBridgeFrame FrameBridgeRequest (snd (snd (caReq ca))) = Inr frame" and m: "m \<in> set (serve (cfg (\<not> s)) frame)" "reply_of m reply" by blast
  let ?rq = "forwarded (cfg (\<not> s)) r"
  from decode_request [OF ServeHTTP_payload [OF assms(5)] f _ carriage_not_label_like(1)]
  have fr: "frame = \<lparr>bEnvelope = \<lparr>bProtocol = BridgeProtoHTTP2, bKind = BridgeKindRequest, bContentType = BridgeContentCBOR, bFlags = 0,
      bCorrelationID = k, bMethod = rqMethod r @ [0x20] @ targetOf r\<rparr>, bSafety = None,
      bForeign = encodeHTTPCarriageRequest (rqMethod r) (targetOf r) (rqHeader r) (rqBody r)\<rparr>" by simp
  have k: "key_ok k" using decode_corr [OF f] fr by (simp add: key_ok_def frame_type_defs)
  have h: "handleInboundHTTPRequest (cfg (\<not> s)) frame = Inr m"
    using m(1) fr by (auto simp: serve_def msg_list_def split: sum.splits)
  note H = handleHTTP_decoded [OF assms(6,7) fr]
  have "case backend ?rq of
         Inl e \<Rightarrow> writeReply reply = Inl (PeerReported \<lparr>bCode = backendErrorCode e, bMessage = take 255 (errText (cfg (\<not> s)) (BackendFailed e))\<rparr>)
       | Inr (status, hdr, body) \<Rightarrow>
           100 \<le> status \<longrightarrow> status \<le> 599 \<longrightarrow> length body < 2 ^ 64 \<longrightarrow> header_ok hdr \<longrightarrow>
             (\<exists>h. writeReply reply = Inr (status, h, body) \<and> map_of h = map_of hdr)"
  proof (cases "backend ?rq")
    case (Inl e)
    have "backendErrorCode e \<noteq> 0" by (simp add: backendErrorCode_def split: http_fault.splits)
    with writeReply_error [OF _ m(2) k] h H Inl show ?thesis by simp
  next
    case (Inr x)
    obtain status hdr body where x: "x = (status, hdr, body)" by (cases x)
    with h H Inr obtain wire where w: "EncodeBridgePayload (replyEnvelope BridgeProtoHTTP2 BridgeKindResponse BridgeContentCBOR k) None
        (encodeHTTPCarriageResponse status hdr body) = Inr wire" "m = (ChanBridge, FrameBridgeResponse, wire)" by auto
    from k have "k \<noteq> []" by (simp add: key_ok_def)
    from response_decoded [OF w(1) this] m(2) w(2)
    have "reply = \<lparr>prType = FrameBridgeResponse, prEnv = replyEnvelope BridgeProtoHTTP2 BridgeKindResponse BridgeContentCBOR k,
        prForeign = encodeHTTPCarriageResponse status hdr body\<rparr>" by (simp add: reply_of_def)
    with writeReply_response header_okD(1) Inr x show ?thesis by auto
  qed
  with forwarded_exact [OF assms(6)] show ?thesis by (intro exI [of _ ?rq]) auto
qed






lemma payload_size:
  "EncodeBridgePayload env None foreign = Inr wire \<Longrightarrow> length wire = 11 + length (bCorrelationID env) + length (bMethod env) + length foreign"
  by (auto simp: EncodeBridgePayload_def EncodeBridgeFrame_def encodeEnvelopeValue_def length_tlv_Encode split: if_splits)

lemma message_size:
  "m \<in> set (msg_list (rbind (EncodeBridgePayload env None foreign) (\<lambda>payload. Inr (ch, ft, payload)))) \<Longrightarrow>
    length (snd (snd m)) = 11 + length (bCorrelationID env) + length (bMethod env) + length foreign"
  by (cases "EncodeBridgePayload env None foreign") (auto simp: msg_list_def payload_size)

lemma streamMessages_fit:
  assumes "length k = 16" and "list_all (\<lambda>ev. length ev \<le> MaxFrameSize - 128) es"
  shows "\<forall>m \<in> set (streamMessages protocol k class eid es). record_fits (snd (snd m))"
  using assms(2)
proof (induction es arbitrary: eid)
  case Nil
  show ?case using assms(1)
    by (auto simp: streamEndMessage_def encodeStreamFrame_def record_fits_def MaxFrameSize_def HeaderSize_def replyEnvelope_def
        length_tlv_Encode encodeStreamControlValue_def dest!: message_size)
next
  case (Cons ev es)
  have "\<forall>m \<in> set (msg_list (streamDataMessage protocol k class eid ev)). record_fits (snd (snd m))" using assms(1) Cons.prems
    by (auto simp: streamDataMessage_def encodeStreamFrame_def record_fits_def MaxFrameSize_def HeaderSize_def replyEnvelope_def
        length_tlv_Encode encodeStreamControlValue_def dest!: message_size)
  with Cons show ?case by auto
qed

lemma websocket_completes:
  assumes r: "ready y" and k: "k \<notin> dom (calls y s)" "length k = 16" and m: "length msg \<le> MaxFrameSize - 128" "\<not> label_like msg"
    and res: "\<And>sc rest. decodeLeadingStreamControl msg = Inr (sc, rest) \<Longrightarrow> scControl sc \<noteq> streamControlResume"
    and h: "WebSocketHandler (cfg (\<not> s)) = Some handler" "handler msg = Inr evs" "list_all (\<lambda>ev. length ev \<le> MaxFrameSize - 128) evs"
    and sq: "unat (seqB (net y) s) < 2 ^ 64 - 1" "unat (seqB (net y) (\<not> s)) + length evs < 2 ^ 64 - 1"
  shows "\<exists>y' ca p errCh dataCh. (pstep cfg ops)\<^sup>*\<^sup>* y y' \<and> CallWebSocketMessage msg k (prox y s) = (p, errCh, dataCh, Inr (caReq ca))
    \<and> calls y' s k = Some ca \<and> caResult ca = Some (GotStream (Inr evs))"
proof -
  let ?env = "\<lparr>bProtocol = BridgeProtoWebSocket, bKind = BridgeKindRequest, bContentType = streamContentType websocketStreamClass, bFlags = 0,
                    bCorrelationID = k, bMethod = []\<rparr>"
  obtain wire where w: "EncodeBridgePayload ?env None msg = Inr wire" using k(2) by (auto intro: encode_payload [of ?env msg])
  let ?m = "(ChanBridge, FrameBridgeRequest, wire)" and ?p = "fst (openRegister k (prox y s))"
  let ?ca = "\<lparr>caReq = ?m, caReply = pxNext (prox y s), caData = Some (pxNext (prox y s) + 1), caCollect = newCollect, caResult = None\<rparr>"
  have call: "CallWebSocketMessage msg k (prox y s) = (?p, pxNext (prox y s), pxNext (prox y s) + 1, Inr ?m)"
    using w by (simp add: CallWebSocketMessage_def openConsumerStream_def openRegister_def Let_def)
  then have o: "openCall (cfg s) (OpWebSocket msg) k (prox y s) = Some (?p, ?ca)" by (simp add: openCall_def)
  have "DecodeBridgeFrame FrameBridgeRequest wire = Inr \<lparr>bEnvelope = ?env, bSafety = None, bForeign = msg\<rparr>"
    by (rule decode_payload [OF w _ _ _ m(2)]) (use k(2) in \<open>auto simp: bridgeFrameKind_def frame_type_defs\<close>)
  then have d: "DecodeBridgeFrame FrameBridgeRequest (snd (snd (caReq ?ca))) = Inr \<lparr>bEnvelope = ?env, bSafety = None, bForeign = msg\<rparr>" by simp
  have fits: "record_fits (snd (snd (caReq ?ca)))"
    using payload_size [OF w] m(1) k(2) by (simp add: record_fits_def MaxFrameSize_def HeaderSize_def)
  have sq0: "seqB (net y) s \<noteq> - 1" by (rule seq_bound [of _ 0]) (use sq(1) in simp)
  have "\<exists>y' ca'. (pstep cfg ops)\<^sup>*\<^sup>* y y' \<and> calls y' s k = Some ca' \<and> caReq ca' = caReq ?ca \<and> caResult ca' = Some (GotStream (Inr evs))"
  proof (rule stream_completes [where cfg = cfg and ops = ops, OF r o k _ fits sq0 d])
    show "\<not> resumes \<lparr>bEnvelope = ?env, bSafety = None, bForeign = msg\<rparr>"
      using res by (auto simp: resumes_def split: sum.splits prod.splits)
    show "streamEvents (cfg (\<not> s)) \<lparr>bEnvelope = ?env, bSafety = None, bForeign = msg\<rparr> websocketStreamClass = Inr evs"
      using h(1,2) by (simp add: streamEvents_def)
    show "length evs < 2 ^ 64 - 1" using sq(2) by simp
  qed (use streamMessages_fit [OF k(2) h(3)] sq(2) in \<open>simp_all add: streamClass_def\<close>)
  with call show ?thesis by auto
qed

text \<open>
  Claim C16 (calls complete). When the session is idle and both receive loops have nothing left to
  dispatch, a call of \<open>CallWebSocketMessage\<close> whose message and replies fit into records can run to its end
  and returns every reply of the handler of the peer, however many there are, as long as the sequence
  numbers of the Bridge channel last. The message must not begin like a SafetyLabel TLV or a resume
  control.
\<close>

theorem proxied_call_completes:
  assumes "ready y" and "k \<notin> dom (calls y s)" and "length k = 16" and "length msg \<le> MaxFrameSize - 128" and "\<not> label_like msg"
    and "\<And>sc rest. decodeLeadingStreamControl msg = Inr (sc, rest) \<Longrightarrow> scControl sc \<noteq> streamControlResume"
    and "WebSocketHandler (cfg (\<not> s)) = Some handler" and "handler msg = Inr evs" and "list_all (\<lambda>ev. length ev \<le> MaxFrameSize - 128) evs"
    and "unat (seqB (net y) s) < 2 ^ 64 - 1" and "unat (seqB (net y) (\<not> s)) + length evs < 2 ^ 64 - 1"
  shows "\<exists>y' ca p errCh dataCh. (pstep cfg ops)\<^sup>*\<^sup>* y y' \<and> CallWebSocketMessage msg k (prox y s) = (p, errCh, dataCh, Inr (caReq ca))
    \<and> calls y' s k = Some ca \<and> caResult ca = Some (GotStream (Inr evs))"
  using assms by (rule websocket_completes)

section \<open>A run\<close>

definition demo_cfg :: proxy_cfg where
  "demo_cfg = \<lparr>Backend = Some (\<lambda>r. Inr (200, [(str ''Accept'', [[7]])], rqBody r)), url_Parse = (\<lambda>t. Some (t, [])),
     GRPCHandler = Some (\<lambda>meth req. Inr (req @ meth)), WebSocketHandler = Some (\<lambda>msg. Inr [msg, msg @ msg]),
     OpaqueProtocolID = 0, OpaqueHandler = None, errText = (\<lambda>_. [])\<rparr>"

definition demo_key :: bytes where "demo_key = replicate 16 1"
definition demo_get :: http_request where
  "demo_get = \<lparr>rqMethod = str ''GET'', rqPath = str ''/x'', rqRawQuery = [], rqHeader = [(str ''Accept'', [[7]])], rqBody = [1, 2]\<rparr>"

lemma demo_ready:
  "ready (psys_start demoA demoB)" "modest demo_cfg" "seqB (net (psys_start demoA demoB)) s = 0" "length demo_key = 16"
  "calls (psys_start demoA demoB) s = Map.empty" "prox (psys_start demoA demoB) s = proxy_init" 
proof -
  have "live (endpoint (start demoA demoB) s) \<and> stream (start demoA demoB) s = []
      \<and> recvDS (endpoint (start demoA demoB) (\<not> s)) = sendDS (endpoint (start demoA demoB) s)" for s
    using demo_send(1,2) by (cases s) (auto simp: start_def paired_def)
  then show "ready (psys_start demoA demoB)" by (simp add: ready_def psys_start_def idle_def start_def)
  show "seqB (net (psys_start demoA demoB)) s = 0"
    by (cases s) (simp_all add: seqB_def psys_start_def start_def demoA_def demoB_def newConn_def sendView_def freshKeys_counters)
qed (simp_all add: modest_def demo_cfg_def demo_key_def psys_start_def)

lemma demo_websocket:
  "\<exists>y ca p errCh dataCh. (pstep (\<lambda>_. demo_cfg) demo_ops)\<^sup>*\<^sup>* (psys_start demoA demoB) y
    \<and> CallWebSocketMessage [5] demo_key proxy_init = (p, errCh, dataCh, Inr (caReq ca))
    \<and> calls y True demo_key = Some ca \<and> caResult ca = Some (GotStream (Inr [[5], [5, 5]]))"
proof -
  have "\<not> label_like [5]" by (simp add: label_like_def)
  moreover have "decodeLeadingStreamControl [5] = Inr (sc, rest) \<Longrightarrow> scControl sc \<noteq> streamControlResume" for sc rest
    by (simp add: decodeLeadingStreamControl_def)
  moreover have "WebSocketHandler demo_cfg = Some (\<lambda>msg. Inr [msg, msg @ msg])" by (simp add: demo_cfg_def)
  ultimately show ?thesis
    using websocket_completes [where cfg = "\<lambda>_. demo_cfg" and y = "psys_start demoA demoB" and k = demo_key and s = True and msg = "[5]"
        and evs = "[[5], [5, 5]]" and handler = "\<lambda>msg. Inr [msg, msg @ msg]" and ops = demo_ops] demo_ready
    by (simp add: MaxFrameSize_def)
qed

theorem proxied_websocket_exact_witness:
  "\<exists>y ca handler. (pstep (\<lambda>_. demo_cfg) demo_ops)\<^sup>*\<^sup>* (psys_start demoA demoB) y \<and> calls y True demo_key = Some ca
    \<and> caResult ca = Some (GotStream (Inr [[5], [5, 5]])) \<and> WebSocketHandler demo_cfg = Some handler \<and> handler [5] = Inr [[5], [5, 5]]"
proof -
  from demo_websocket obtain y ca p errCh dataCh where
    y: "(pstep (\<lambda>_. demo_cfg) demo_ops)\<^sup>*\<^sup>* (psys_start demoA demoB) y"
       "CallWebSocketMessage [5] demo_key proxy_init = (p, errCh, dataCh, Inr (caReq ca))"
       "calls y True demo_key = Some ca" "caResult ca = Some (GotStream (Inr [[5], [5, 5]]))" by blast
  have l: "\<not> label_like [5]" by (simp add: label_like_def)
  from proxied_websocket_exact [OF demo_send(1,2) demo_ready(2) y(1,2) l y(3,4)] obtain handler evs where
    h: "WebSocketHandler demo_cfg = Some handler" "handler [5] = Inr evs" "length evs < dataCap \<longrightarrow> [[5], [5, 5]] = evs" by blast
  from h(1) have "handler = (\<lambda>msg. Inr [msg, msg @ msg])" by (simp add: demo_cfg_def)
  with h(2) have "length evs < dataCap" by (auto simp: dataCap_def)
  with h(2,3) have "handler [5] = Inr [[5], [5, 5]]" by simp
  with y(1,3,4) h(1) show ?thesis by (intro exI conjI)
qed

theorem proxied_call_completes_witness:
  "\<exists>y ca. (pstep (\<lambda>_. demo_cfg) demo_ops)\<^sup>*\<^sup>* (psys_start demoA demoB) y \<and> calls y True demo_key = Some ca
    \<and> caResult ca = Some (GotStream (Inr [[5], [5, 5]]))"
proof -
  have "\<not> label_like [5]" by (simp add: label_like_def)
  moreover have "decodeLeadingStreamControl [5] = Inr (sc, rest) \<Longrightarrow> scControl sc \<noteq> streamControlResume" for sc rest
    by (simp add: decodeLeadingStreamControl_def)
  moreover have "WebSocketHandler demo_cfg = Some (\<lambda>msg. Inr [msg, msg @ msg])" by (simp add: demo_cfg_def)
  ultimately show ?thesis
    using proxied_call_completes [where cfg = "\<lambda>_. demo_cfg" and y = "psys_start demoA demoB" and k = demo_key and s = True and msg = "[5]"
        and evs = "[[5], [5, 5]]" and handler = "\<lambda>msg. Inr [msg, msg @ msg]" and ops = demo_ops] demo_ready
    by (auto simp: MaxFrameSize_def)
qed

lemma demo_grpc:
  "\<exists>y ca p errCh dataCh. (pstep (\<lambda>_. demo_cfg) demo_ops)\<^sup>*\<^sup>* (psys_start demoA demoB) y
    \<and> CallGRPCUnary [8] [9] demo_key proxy_init = (p, errCh, dataCh, Inr (caReq ca))
    \<and> calls y True demo_key = Some ca \<and> caResult ca = Some (GotStream (Inr [encodeGRPCLengthPrefixedMessage False [9, 8]]))"
proof -
  let ?env = "\<lparr>bProtocol = grpcProtocolID, bKind = BridgeKindRequest, bContentType = BridgeContentGRPCProto, bFlags = 0,
                    bCorrelationID = demo_key, bMethod = [8]\<rparr>" and ?event = "encodeGRPCLengthPrefixedMessage False [9]"
  let ?y = "psys_start demoA demoB" and ?e = "encodeGRPCLengthPrefixedMessage False [9, 8]"
  obtain wire where w: "EncodeBridgePayload ?env None ?event = Inr wire" using demo_ready(4) by (auto intro: encode_payload [of ?env ?event])
  let ?m = "(ChanBridge, FrameBridgeRequest, wire)" and ?p = "fst (openRegister demo_key proxy_init)"
  let ?ca = "\<lparr>caReq = ?m, caReply = pxNext proxy_init, caData = Some (pxNext proxy_init + 1), caCollect = newCollect, caResult = None\<rparr>"
  let ?f = "\<lparr>bEnvelope = ?env, bSafety = None, bForeign = ?event\<rparr>"
  have call: "CallGRPCUnary [8] [9] demo_key proxy_init = (?p, pxNext proxy_init, pxNext proxy_init + 1, Inr ?m)"
    using w by (simp add: CallGRPCUnary_def openConsumerStream_def openRegister_def Let_def)
  then have o: "openCall demo_cfg (OpGRPC [8] [9]) demo_key (prox ?y True) = Some (?p, ?ca)" by (simp add: openCall_def demo_ready)
  have "DecodeBridgeFrame FrameBridgeRequest wire = Inr ?f"
    by (rule decode_payload [OF w]) (use demo_ready(4) not_label_like_grpc in \<open>auto simp: bridgeFrameKind_def frame_type_defs\<close>)
  then have d: "DecodeBridgeFrame FrameBridgeRequest (snd (snd (caReq ?ca))) = Inr ?f" by simp
  have fits: "record_fits (snd (snd (caReq ?ca)))" "list_all (\<lambda>ev. length ev \<le> MaxFrameSize - 128) [?e]"
    using payload_size [OF w] demo_ready(4) by (simp_all add: record_fits_def MaxFrameSize_def HeaderSize_def encodeGRPCLengthPrefixedMessage_def)
  have "\<exists>y' ca'. (pstep (\<lambda>_. demo_cfg) demo_ops)\<^sup>*\<^sup>* ?y y' \<and> calls y' True demo_key = Some ca' \<and> caReq ca' = caReq ?ca \<and> caResult ca' = Some (GotStream (Inr [?e]))"
  proof (rule stream_completes [where cfg = "\<lambda>_. demo_cfg" and ops = demo_ops, OF demo_ready(1) o _ demo_ready(4) _ fits(1) _ d])
    show "\<not> resumes ?f" by (simp add: resumes_def decodeLeadingStreamControl_def encodeGRPCLengthPrefixedMessage_def put_uN_eval gslice_def
          get_u16_def get_be_def TLVStreamControl_def Let_def)
    have "decodeGRPCLengthPrefixedMessage ?event = Inr (False, [9])" by (simp add: decodeGRPC_iff)
    then show "streamEvents demo_cfg ?f grpcStreamClass = Inr [?e]" by (simp add: streamEvents_def demo_cfg_def)
    show "streamClass (bProtocol (bEnvelope ?f)) = Some grpcStreamClass" by (simp add: streamClass_def grpcProtocolID_def)
    show "\<forall>m \<in> set (streamMessages (bProtocol (bEnvelope ?f)) demo_key grpcStreamClass 1 [?e]). record_fits (snd (snd m))"
      by (rule streamMessages_fit [OF demo_ready(4) fits(2)])
  qed (simp_all add: demo_ready)
  with call show ?thesis by auto
qed

theorem proxied_grpc_exact_witness:
  "\<exists>y ca handler. (pstep (\<lambda>_. demo_cfg) demo_ops)\<^sup>*\<^sup>* (psys_start demoA demoB) y \<and> calls y True demo_key = Some ca
    \<and> caResult ca = Some (GotStream (Inr [encodeGRPCLengthPrefixedMessage False [9, 8]]))
    \<and> GRPCHandler demo_cfg = Some handler \<and> handler [8] [9] = Inr [9, 8]"
proof -
  from demo_grpc obtain y ca p errCh dataCh where
    y: "(pstep (\<lambda>_. demo_cfg) demo_ops)\<^sup>*\<^sup>* (psys_start demoA demoB) y"
       "CallGRPCUnary [8] [9] demo_key proxy_init = (p, errCh, dataCh, Inr (caReq ca))"
       "calls y True demo_key = Some ca" "caResult ca = Some (GotStream (Inr [encodeGRPCLengthPrefixedMessage False [9, 8]]))" by blast
  have l: "length ([9] :: bytes) < 2 ^ 24" by simp
  have "decodeGRPCLengthPrefixedMessage (encodeGRPCLengthPrefixedMessage False [9, 8]) = Inr (False, [9, 8])" by (simp add: decodeGRPC_iff)
  then have g: "grpcUnaryResult (Inr [encodeGRPCLengthPrefixedMessage False [9, 8]]) = Inr [9, 8]" by (simp add: grpcUnaryResult_def)
  from proxied_grpc_exact [OF demo_send(1,2) demo_ready(2) y(1,2) l y(3,4) g] y show ?thesis by blast
qed




lemma demo_request:
  "targetOf demo_get = str ''/x''" "encodeHTTPHeaders [(str ''Accept'', [[7]])] = [(str ''accept'', [7])]"
  "toHTTPHeader [(str ''accept'', [7])] = [(str ''Accept'', [[7]])]"
  by (simp_all add: targetOf_def demo_get_def encodeHTTPHeaders_def toLowerASCII_def lowerASCII_def toHTTPHeader_def header_Add_def
      CanonicalMIMEHeaderKey_def str_def isTchar_def)

lemma demo_header: "header_ok [(str ''Accept'', [[7]])]"
  unfolding header_ok_def demo_request(2)
  by (simp add: canonical_name_def CanonicalMIMEHeaderKey_def str_def isTchar_def header_size_ok_def)

lemma demo_request_ok: "request_ok demo_get"
  using demo_header unfolding request_ok_def demo_request(1) by (simp add: demo_get_def str_def)

lemma demo_sizes:
  "length (encodeHTTPCarriageRequest (str ''GET'') (str ''/x'') [(str ''Accept'', [[7]])] [1, 2]) \<le> 1000"
  "length (encodeHTTPCarriageResponse 200 [(str ''Accept'', [[7]])] [1, 2]) \<le> 1000"
proof -
  have t: "httpTail [(str ''Accept'', [[7]])] [1, 2] = [(8, GArr [GArr [GString (str ''accept''), GBytes [7]]]), (9, GBytes [1, 2])]"
    by (simp add: httpTail_def demo_request(2) headersToCBOR_def)
  show "length (encodeHTTPCarriageRequest (str ''GET'') (str ''/x'') [(str ''Accept'', [[7]])] [1, 2]) \<le> 1000"
    unfolding encodeHTTPCarriageRequest_def t by (simp add: EncodeCanonicalCBOR_def newCBORMapU_def encodeHead_def str_def)
  show "length (encodeHTTPCarriageResponse 200 [(str ''Accept'', [[7]])] [1, 2]) \<le> 1000"
    unfolding encodeHTTPCarriageResponse_def t by (simp add: EncodeCanonicalCBOR_def newCBORMapU_def encodeHead_def str_def)
qed

lemma demo_forwarded: "rqBody (forwarded demo_cfg demo_get) = [1, 2]"
  by (simp add: forwarded_def backendRequest_def demo_cfg_def Let_def demo_get_def)

lemma demo_http:
  "\<exists>y ca p replyCh reply. (pstep (\<lambda>_. demo_cfg) demo_ops)\<^sup>*\<^sup>* (psys_start demoA demoB) y
    \<and> ServeHTTP demo_get demo_key proxy_init = (p, replyCh, Inr (caReq ca)) \<and> calls y True demo_key = Some ca \<and> caResult ca = Some (GotReply reply)"
proof -
  let ?env = "\<lparr>bProtocol = BridgeProtoHTTP2, bKind = BridgeKindRequest, bContentType = BridgeContentCBOR, bFlags = 0,
      bCorrelationID = demo_key, bMethod = rqMethod demo_get @ [0x20] @ targetOf demo_get\<rparr>"
  let ?obj = "encodeHTTPCarriageRequest (rqMethod demo_get) (targetOf demo_get) (rqHeader demo_get) (rqBody demo_get)"
  let ?y = "psys_start demoA demoB" and ?f = "\<lparr>bEnvelope = ?env, bSafety = None, bForeign = ?obj\<rparr>"
  let ?env' = "replyEnvelope BridgeProtoHTTP2 BridgeKindResponse BridgeContentCBOR demo_key" and ?obj' = "encodeHTTPCarriageResponse 200 [(str ''Accept'', [[7]])] [1, 2]"
  have k: "demo_key \<noteq> []" using demo_ready(4) by auto
  obtain wire where w: "EncodeBridgePayload ?env None ?obj = Inr wire"
    using demo_ready(4) demo_request(1) by (auto intro: encode_payload [of ?env ?obj] simp: demo_get_def str_def)
  obtain wire' where w': "EncodeBridgePayload ?env' None ?obj' = Inr wire'"
    using demo_ready(4) by (auto intro: encode_payload [of ?env' ?obj'] simp: replyEnvelope_def)
  let ?m = "(ChanBridge, FrameBridgeRequest, wire)" and ?p = "fst (registerReply demo_key proxy_init)"
  let ?ca = "\<lparr>caReq = ?m, caReply = pxNext proxy_init, caData = None, caCollect = newCollect, caResult = None\<rparr>"
  have call: "ServeHTTP demo_get demo_key proxy_init = (?p, pxNext proxy_init, Inr ?m)"
    using w by (simp add: ServeHTTP_def registerReply_def Let_def)
  then have o: "openCall demo_cfg (OpHTTP demo_get) demo_key (prox ?y True) = Some (?p, ?ca)" by (simp add: openCall_def demo_ready)
  have d: "DecodeBridgeFrame FrameBridgeRequest wire = Inr ?f"
    by (rule decode_payload [OF w]) (use k carriage_not_label_like in \<open>auto simp: bridgeFrameKind_def frame_type_defs\<close>)
  have "handleInboundHTTPRequest demo_cfg ?f = Inr (ChanBridge, FrameBridgeResponse, wire')"
    using handleHTTP_decoded [OF demo_request_ok _ refl, of demo_cfg _ demo_key] w' demo_forwarded by (simp add: demo_cfg_def)
  with d have h: "handleInboundBridgeRequest demo_cfg (snd (snd (caReq ?ca))) (prox ?y False) =
      replyAndEnd (Inr (ChanBridge, FrameBridgeResponse, wire')) (prox ?y False)" by (simp add: handleInboundBridgeRequest_def)
  have "rqHeader demo_get = [(str ''Accept'', [[7]])]" "rqMethod demo_get = str ''GET''" "rqBody demo_get = [1, 2]" by (simp_all add: demo_get_def)
  with payload_size [OF w] payload_size [OF w'] demo_sizes demo_ready(4) demo_request(1)
  have fits: "record_fits (snd (snd (caReq ?ca)))" "record_fits wire'"
    by (simp_all add: record_fits_def MaxFrameSize_def HeaderSize_def replyEnvelope_def length_str)
  have "\<exists>y' ca'. (pstep (\<lambda>_. demo_cfg) demo_ops)\<^sup>*\<^sup>* ?y y' \<and> calls y' True demo_key = Some ca' \<and> caReq ca' = caReq ?ca
    \<and> caResult ca' = Some (GotReply \<lparr>prType = FrameBridgeResponse, prEnv = ?env', prForeign = ?obj'\<rparr>)"
    using reply_completes [where cfg = "\<lambda>_. demo_cfg" and ops = demo_ops, OF demo_ready(1) o _ demo_ready(4) _ fits(1) _ _ _ fits(2) _ response_decoded [OF w' k]]
      h demo_ready by (simp add: replyEnvelope_def)
  with call show ?thesis by fastforce
qed

theorem proxied_http_exact_witness:
  "\<exists>y ca reply h. (pstep (\<lambda>_. demo_cfg) demo_ops)\<^sup>*\<^sup>* (psys_start demoA demoB) y \<and> calls y True demo_key = Some ca
    \<and> caResult ca = Some (GotReply reply) \<and> writeReply reply = Inr (200, h, [1, 2]) \<and> map_of h (str ''Accept'') = Some [[7]]"
proof -
  from demo_http obtain y ca p replyCh reply where
    y: "(pstep (\<lambda>_. demo_cfg) demo_ops)\<^sup>*\<^sup>* (psys_start demoA demoB) y" "ServeHTTP demo_get demo_key proxy_init = (p, replyCh, Inr (caReq ca))"
      "calls y True demo_key = Some ca" "caResult ca = Some (GotReply reply)" by blast
  have b: "Backend demo_cfg = Some (\<lambda>r. Inr (200, [(str ''Accept'', [[7]])], rqBody r))" by (simp add: demo_cfg_def)
  from proxied_http_exact [OF demo_send(1,2) demo_ready(2) y(1,2) demo_request_ok b y(3,4)] demo_header obtain h where
    "writeReply reply = Inr (200, h, [1, 2])" "map_of h (str ''Accept'') = Some [[7]]"
    by (auto simp: demo_get_def)
  with y(1,3,4) show ?thesis by blast
qed

end
