(* ===== verification/Spec2Isabelle.thy ===== *)
theory Spec2Isabelle
  imports SessionSafety Rekem Establish Firewall ShippedRegistries ChannelBodies KeyFormat ProxySystem
begin

text \<open>
  N-PAMP is a binary, multi-channel session protocol between agents. This library models the Go
  reference implementation under \<^verbatim>\<open>src/impl/go\<close> and proves what makes it correct: that the codecs
  accept exactly what they produce, that the handshake authenticates, that an established session
  delivers what was sent in order under every interleaving of its sends, key updates, ratchets and
  receives, that calls over two proxies return what the handlers of the peer answered, and that the
  relay and the firewall in front of a session change nothing and let nothing else through.

  \<^bold>\<open>Parts and how they interact.\<close> A session runs over an octet stream. Frames (36-octet header with a
  CRC32C, then the payload) are the unit on the wire. The handshake exchanges two
  cleartext hellos and two AUTH frames sealed under handshake keys, all with payloads of extension
  TLVs, agrees on a hybrid KEM secret and authenticates both ends by signatures over a transcript; the key schedule turns the result into one root per direction. The
  session then seals every payload per channel, epoch and sequence number, rolls keys forward (key
  updates, master ratchets, re-KEM) and answers control frames from goroutines. Payloads of the native
  channels are deterministic CBOR maps, payloads of the Bridge channel are TLVs around a foreign
  message. A relay forwards raw frames between two connections through a hook; the wire validator and
  the firewall are such hooks, built from the registry files. A proxy carries HTTP, gRPC, WebSocket and
  opaque exchanges over the Bridge channel of a session: calls wait for the replies to their
  correlation id, the receive loop dispatches, and goroutines serve the requests of the peer.

  \<^bold>\<open>Theories and sources.\<close>
  \<^item> Prelude (results, slices, big-endian words), Codec (the contract of a self-delimiting codec).
  \<^item> Crc32c and Frame: \<^verbatim>\<open>frame.go\<close>. Registry: \<^verbatim>\<open>channels.go\<close>, \<^verbatim>\<open>frametypes.go\<close>, \<^verbatim>\<open>profiles.go\<close>,
    \<^verbatim>\<open>suites.go\<close>. Tlv: \<^verbatim>\<open>tlv.go\<close>. ErrorFrame: \<^verbatim>\<open>errorframe.go\<close>. Cbor: \<^verbatim>\<open>memory_cbor.go\<close>.
  \<^item> GoCrypto (the cryptographic packages of Go as a record of operations), KeySchedule
    (\<^verbatim>\<open>keyschedule.go\<close>, \<^verbatim>\<open>aead.go\<close>), Kem (\<^verbatim>\<open>kem.go\<close>, \<^verbatim>\<open>hybridkem\<close>), Handshake (\<^verbatim>\<open>handshake.go\<close>,
    \<^verbatim>\<open>transcript.go\<close>).
  \<^item> RecordLayer, Session: \<^verbatim>\<open>sdk/conn.go\<close>, \<^verbatim>\<open>sdk/keyupdate.go\<close>, \<^verbatim>\<open>sdk/pendingack.go\<close>, \<^verbatim>\<open>sdk/ratchet.go\<close>,
    \<^verbatim>\<open>sdk/close.go\<close>, one definition per method over the record of a connection. Direction proves one
    direction of a session, Duplex both with their acknowledgements, SessionSafety what an adversary
    on the wire can do, Rekem the re-KEM exchange.
  \<^item> SdkHandshake (\<^verbatim>\<open>sdk/handshake.go\<close>, \<^verbatim>\<open>sdk/dialraw.go\<close>, \<^verbatim>\<open>sdk/dialconn.go\<close>) and Establish, its
    theorems: both handshakes as computations over the two ends of a stream.
  \<^item> Relay (\<^verbatim>\<open>relay\<close>), GoText (what is used of \<^verbatim>\<open>strings\<close> and \<^verbatim>\<open>strconv\<close>), WireValidator
    (\<^verbatim>\<open>wirevalidator\<close>), ShippedRegistries (\<^verbatim>\<open>src/registries\<close>), Firewall (\<^verbatim>\<open>firewall\<close> and the policy
    construction of \<^verbatim>\<open>cmd/n-pamp-firewall\<close>).
  \<^item> Bodies (the schema checks of \<^verbatim>\<open>memory_bodies.go\<close>, \<open>cborToGo\<close>, \<^verbatim>\<open>codecbind_export.go\<close>), one theory per
    channel (MemoryBodies, StreamBodies, TelemetryBodies, CommerceBodies, ImmuneBodies,
    CapabilityBodies, SettlementBodies, InteractionBodies, KnowledgeBodies, WorkflowBodies,
    BridgeBodies: the three files of that channel each), and ChannelBodies, what holds of them all.
  \<^item> KeyFormat (\<^verbatim>\<open>keyformat\<close>): stored key records with their own CBOR reader.
  \<^item> ProxyCarriage (the carriage codecs of \<^verbatim>\<open>proxy/carriage_*.go\<close>), ProxyEngine (\<^verbatim>\<open>proxy/proxy.go\<close>,
    \<^verbatim>\<open>proxy/stream.go\<close>, \<^verbatim>\<open>proxy/opaque.go\<close>, \<^verbatim>\<open>proxy/grpc.go\<close>, \<^verbatim>\<open>proxy/websocket.go\<close>: the waiters, the receive loop
    and the goroutines of one proxy) and ProxySystem (two proxies over the session of Duplex, with any
    number of concurrent calls).

  \<^bold>\<open>How the code is rendered.\<close> Structs are records, error returns are the left injection of a sum whose
  type lists the sentinels that \<open>errors.Is\<close> can find, machine integers are words, byte slices are lists,
  and a method that changes its receiver returns it. The cryptographic packages are a record
  \<open>crypto_ops\<close>; what a theorem needs of them is a named hypothesis (correctness of ML-KEM, X25519,
  Ed25519 and AEAD, never secrecy), and each such theorem has an instance at a concrete record that
  meets it. A write to a connection is an argument that says whether it succeeded or how many octets
  went out. The result of TLS is an argument of \<open>DialConn\<close> and \<open>AcceptConn\<close>.

  \<^bold>\<open>Concurrency.\<close> \<open>Duplex\<close> interleaves the operations of both ends arbitrarily: an application call, one
  round of the receive loop, or one acknowledgement goroutine is one step. This is the granularity of
  the locks: every sender holds \<open>wmu\<close> and every receiver \<open>rmu\<close> for the whole step, and \<open>KeyUpdate\<close> and
  \<open>RatchetSend\<close> register the expected acknowledgement before they write. \<open>ReKEM\<close> registers after its write
  and is therefore two steps. In the relay a round of one direction is one step and the rounds of the
  two directions and the shutdown interleave. In ProxySystem a round of \<open>Run\<close>, a stretch of a goroutine
  between two sends and a wake-up of a call are one step each, among the steps of the session.
  A receive on a stream that holds no whole frame is not taken until more octets are there.

  \<^bold>\<open>What the groups of lemmas show.\<close> Codecs (Frame, Tlv, Cbor, ErrorFrame, Handshake, Bodies,
  ChannelBodies, BridgeBodies): exact acceptance and round trips, so no message has two encodings or
  two readings, up to the exceptions that are stated as lemmas. Key material (KeySchedule, Kem):
  agreement, separation of contexts, exactness of record opening. Handshake (Establish): success of
  honest endpoints, authentication of both, silence towards an impostor. Session (Direction, Duplex,
  SessionSafety, Rekem, and the theorems below): in-order delivery, progress, dropping of injected
  frames, single use of nonces, silence after close, healing. Relay, WireValidator, Firewall: octets
  pass exactly when they are conformant frames that are registered and not denied, and the session
  passes. Proxy (ProxyCarriage, ProxyEngine, ProxySystem): a call gets what the handler of the peer
  answered to this very request, the egress side refines a function from requests to answers, the
  receive loop never blocks, goroutines end and calls can complete.

  \<^bold>\<open>Bounds and fuel.\<close> No definition takes fuel that the code does not have: loops over a buffer recurse
  on the buffer, the CBOR decoder on its own nesting limit of eight levels, and the receive loop on the
  octets that are left. Lengths are bounded where the code stores them in a word. The bound of \<open>2^64\<close>
  operations in the nonce theorem is the sequence space.

  \<^bold>\<open>Not modelled.\<close> Sockets, TLS, deadlines and timers (\<open>Dial\<close>, \<open>Listen\<close>, \<open>Accept\<close>, \<^verbatim>\<open>sdk/fallback.go\<close>);
  texts of error messages; the columns of the registry files that nothing reads; the JSON-RPC carriage and
  the standard-input bridge of the proxy, the ecosystem packages and the commands other than the policy
  of the firewall, which are built on JSON, HTTP and processes; the ports to other languages. The fields
  of \<open>Config\<close> are those that the handshake reads.
\<close>

text \<open>
  C1. From the first octet to the last record. Let a client and a server with Standard profiles run
  \<open>DialRaw\<close> and \<open>AcceptRaw\<close> on the two ends of a stream, with primitives that behave as documented and
  each with the pin of the other or none. Then both succeed, each with the identity of the other, and
  in every interleaving of application sends, key updates, symmetric ratchets, receives and
  acknowledgement goroutines of the two connections, on a transport that accepts what they write and
  with neither a re-KEM nor a close among the steps, no receive reports an error, no frame is
  dropped, and what a side has received is at all times a prefix of what the other side has sent.
\<close>

theorem session_end_to_end:
  assumes "mlkem_correct ops" "x25519_correct ops" "ed25519_correct ops" "KEMClient_ok client" "length xk = 32"
    and "Encapsulate ops xk coin (KEMShare ops client) = Inr (ct, ss)"
    and "set (cfgProfiles cfgc) \<subseteq> {ProfileStandard}" "length (cfgProfiles cfgc) \<le> 1" "cfgIdentity cfgc = Some skc" "length skc = 64"
    and "set (cfgProfiles cfgs) \<subseteq> {ProfileStandard}" "length (cfgProfiles cfgs) \<le> 1" "cfgIdentity cfgs = Some sks" "length sks = 64"
    and "cfgExpectedPeerKey cfgc \<in> {None, Some (ed25519_pub ops sks)}" "cfgExpectedPeerKey cfgs \<in> {None, Some (ed25519_pub ops skc)}"
  shows "\<exists>co so a b. DialRaw ops fresh client cfgc (io_state so []) = (io_state [] co, Inr a)
    \<and> AcceptRaw ops fresh' xk coin cfgs (io_state co []) = (io_state [] so, Inr b)
    \<and> peerID a = ed25519_pub ops sks \<and> peerID b = ed25519_pub ops skc
    \<and> (\<forall>w s. (step ops)\<^sup>*\<^sup>* (start a b) w \<longrightarrow>
         \<not> fault w s \<and> SecurityDrops (endpoint w s) = (0, 0) \<and> prefix (got w s) (sent w (\<not> s))
         \<and> (stream w (\<not> s) = [] \<longrightarrow> got w s = sent w (\<not> s)))"
proof -
  from handshake_paired [OF assms, of fresh fresh'] obtain co so a b where h:
      "DialRaw ops fresh client cfgc (io_state so []) = (io_state [] co, Inr a)"
      "AcceptRaw ops fresh' xk coin cfgs (io_state co []) = (io_state [] so, Inr b)"
      "peerID a = ed25519_pub ops sks" "peerID b = ed25519_pub ops skc" "paired a b" "paired b a" by blast
  have "\<not> fault w s \<and> SecurityDrops (endpoint w s) = (0, 0) \<and> prefix (got w s) (sent w (\<not> s))
      \<and> (stream w (\<not> s) = [] \<longrightarrow> got w s = sent w (\<not> s))" if "(step ops)\<^sup>*\<^sup>* (start a b) w" for w s
    using inv_reachable [OF h(5,6) that] inv_fifo by blast
  with h(1-4) show ?thesis by blast
qed

theorem session_end_to_end_witness:
  "\<exists>co so a b. DialRaw demo_ops [] demoClient (demoCfg demoSkc demoSks) (io_state so []) = (io_state [] co, Inr a)
    \<and> AcceptRaw demo_ops [] (replicate 32 2) [] (demoCfg demoSks demoSkc) (io_state co []) = (io_state [] so, Inr b)
    \<and> \<not> fault (start a b) True"
proof -
  from demo_kem(2) obtain ct ss where e: "Encapsulate demo_ops (replicate 32 2) [] (KEMShare demo_ops demoClient) = Inr (ct, ss)" by blast
  have cfg: "set (cfgProfiles (demoCfg x y)) \<subseteq> {ProfileStandard}" "length (cfgProfiles (demoCfg x y)) \<le> 1" "cfgIdentity (demoCfg x y) = Some x"
      "cfgExpectedPeerKey (demoCfg x y) \<in> {None, Some (ed25519_pub demo_ops y)}" for x y by (simp_all add: demoCfg_def)
  have sk: "length demoSkc = 64" "length demoSks = 64" "length (replicate 32 2 :: bytes) = 32" by (simp_all add: demoSkc_def demoSks_def)
  from session_end_to_end [OF demo_ops_correct demo_kem(1) sk(3) e cfg(1-3) sk(1) cfg(1-3) sk(2) cfg(4) cfg(4), of "[]" "[]"]
  show ?thesis by blast
qed


section \<open>A session behind the firewall\<close>

lemma dsFrames_events:
  "dsValids d es \<Longrightarrow> f \<in> set (dsFrames d es) \<Longrightarrow> \<exists>ch ft pt. (ch, ft, pt) \<in> set es \<and> fChannel f = ch \<and> fType f = ft \<and> sendable f"
proof (induction es arbitrary: d)
  case (Cons e es)
  obtain ch ft pt where e: "e = (ch, ft, pt)" by (cases e)
  from Cons.prems dsFrame_sendable [of d e] have "sendable (dsFrame d e)" by simp
  moreover have "fChannel (dsFrame d e) = ch" "fType (dsFrame d e) = ft" by (simp_all add: e)
  ultimately have ?case if "f = dsFrame d e" using that e by auto
  moreover have ?case if "f \<in> set (dsFrames (dsStep d e) es)"
    using Cons.IH [OF _ that] Cons.prems(1) by auto
  ultimately show ?case using Cons.prems(2) by auto
qed simp

lemma okEvent_registered:
  assumes "okEvent (ch, ft, pt)" "Load shippedFiles = Inr reg" "\<not> channel_Reserved ch" "app_record ch ft \<Longrightarrow> registered reg ch ft"
  shows "registered reg ch ft"
  using assms(1)
proof (cases rule: okEvent.cases)
  case okApp
  then show ?thesis using assms(4) by simp
next
  case (okKU e)
  then show ?thesis using shipped_Load_registered(1) [OF assms(2)] assms(3) by (simp add: system_types_def)
next
  case (okKUAck e)
  then show ?thesis using shipped_Load_registered(1) [OF assms(2)] assms(3) by (simp add: system_types_def)
next
  case (okMR g)
  then show ?thesis using shipped_Load_registered(2) [OF assms(2)] by (simp add: control_types_def)
next
  case (okMRAck g)
  then show ?thesis using shipped_Load_registered(2) [OF assms(2)] by (simp add: control_types_def)
qed

text \<open>
  C13. A session passes the firewall unharmed. Put the firewall with the shipped registries between two
  paired endpoints. In every reachable state of the session the octets in flight are whole frames, and
  when these are on core channels and the application records among them have registered types, the
  firewall forwards all of them octet for octet and reports no error: key updates, ratchets and their
  acknowledgements need no exception.
\<close>

theorem session_through_firewall:
  assumes "paired a b" "paired b a" "(step ops)\<^sup>*\<^sup>* (start a b) w"
    and "Load shippedFiles = Inr reg" "Wrap \<lparr>fwRegistries = Some reg, fwPolicy = None\<rparr> 0 = Inr r"
  shows "\<exists>fs. stream w s = concat (map marshal fs) \<and>
    ((\<forall>f \<in> set fs. \<not> channel_Reserved (fChannel f) \<and> (app_record (fChannel f) (fType f) \<longrightarrow> registered reg (fChannel f) (fType f)))
      \<longrightarrow> forward r dir EndEOF benign 0 (stream w s) = (stream w s, Inr ()))"
proof -
  from inv_reachable [OF assms(1-3)] obtain es where i: "inv w es" ..
  let ?d = "recvDS (endpoint w (\<not> s))"
  from invD(2) [OF i, of s] have st: "stream w s = concat (map marshal (dsFrames ?d (es s)))"
    and v: "dsValids ?d (es s)" and ok: "\<forall>e \<in> set (es s). okEvent e" by (simp_all add: link_def streamOf_def)
  from assms(5) have m: "relay_maxFrameSize r = of_nat MaxFrameSize" by (auto simp: Wrap_def Hook_def relay_maxFrameSize_def)
  have "forward r dir EndEOF benign 0 (stream w s) = (stream w s, Inr ())"
    if reg: "\<forall>f \<in> set (dsFrames ?d (es s)). \<not> channel_Reserved (fChannel f) \<and> (app_record (fChannel f) (fType f) \<longrightarrow> registered reg (fChannel f) (fType f))"
  proof -
    have "passes r dir f" if f: "f \<in> set (dsFrames ?d (es s))" for f
    proof -
      from dsFrames_events [OF v f] obtain ch ft pt where e: "(ch, ft, pt) \<in> set (es s)" "fChannel f = ch" "fType f = ft" "sendable f" by blast
      with ok reg f okEvent_registered [of ch ft pt reg] assms(4) have "registered reg (fChannel f) (fType f)" by blast
      then show ?thesis using e(4) passes_Wrap [OF assms(5), of dir f]
        by (simp add: sendable_def m MaxFrameSize_def)
    qed
    then have "list_all (passes r dir) (dsFrames ?d (es s))" by (simp add: list_all_iff)
    moreover have "\<nexists>f rest. passes r dir f \<and> [] = marshal f @ rest" using length_marshal by (auto simp: HeaderSize_def)
    ultimately show ?thesis using forward_exact [of r dir "dsFrames ?d (es s)" "[]" EndEOF 0] st by simp
  qed
  with st show ?thesis by blast
qed


theorem session_through_firewall_witness:
  "\<exists>w reg r fs. (step demo_ops)\<^sup>*\<^sup>* (start demoA demoB) w \<and> sent w True = [demoE] \<and> Load shippedFiles = Inr reg
    \<and> Wrap \<lparr>fwRegistries = Some reg, fwPolicy = None\<rparr> 0 = Inr r \<and> stream w True = concat (map marshal fs)"
proof -
  from demo_send(3) obtain w where w: "(step demo_ops)\<^sup>*\<^sup>* (start demoA demoB) w" "sent w True = [demoE]" by blast
  obtain reg where reg: "Load shippedFiles = Inr reg" by (rule shipped_Load)
  obtain r where r: "Wrap \<lparr>fwRegistries = Some reg, fwPolicy = None\<rparr> 0 = Inr r" by (simp add: Wrap_def Hook_def)
  from session_through_firewall [OF demo_send(1,2) w(1) reg r, of True DirAToB] w reg r show ?thesis by blast
qed

end
